(* ===== verification/Prelude.thy ===== *)
theory Prelude
  imports Main "HOL-Library.Sublist" "HOL-Library.Char_ord"
begin

text \<open>
  Shared vocabulary of the development: the byte-level character classes of
  \<^verbatim>\<open><cctype>\<close>, the \<^verbatim>\<open>std::string\<close> operations the server uses
  (\<^verbatim>\<open>starts_with\<close>, \<^verbatim>\<open>find\<close>, \<^verbatim>\<open>getline\<close>, decimal printing), the
  error values that stand for the exceptions of the C++ library, and the generic lemmas
  on lists that several components use.
\<close>

section \<open>Collections of rewrite rules\<close>

named_theorems ctype_defs \<open>definitions of the character classes\<close>
named_theorems text_simps \<open>rewrite rules of the string operations\<close>

section \<open>Errors of the C++ library as values\<close>

text \<open>
  Every \<^verbatim>\<open>throw\<close> the modelled code can reach, whether written in the source or raised
  by the library call it makes.
\<close>

datatype cpp_error =
    InvalidArgument            \<comment> \<open>\<^verbatim>\<open>std::invalid_argument\<close>\<close>
  | OutOfRange                 \<comment> \<open>\<^verbatim>\<open>std::out_of_range\<close>\<close>
  | LengthError                \<comment> \<open>\<^verbatim>\<open>std::length_error\<close>\<close>
  | BadAccess                  \<comment> \<open>reading the value of an empty optional or failed result\<close>
  | RuntimeError string        \<comment> \<open>\<^verbatim>\<open>std::runtime_error\<close>\<close>

type_synonym 'a result = "cpp_error + 'a"

definition bind_result :: "'a result \<Rightarrow> ('a \<Rightarrow> 'b result) \<Rightarrow> 'b result" where
  "bind_result r f = (case r of Inl e \<Rightarrow> Inl e | Inr x \<Rightarrow> f x)"

lemma bind_result_simps [simp]:
  "bind_result (Inl e) f = Inl e"
  "bind_result (Inr x) f = f x"
  by (simp_all add: bind_result_def)

lemma bind_result_eq_Inr:
  "bind_result r f = Inr y \<longleftrightarrow> (\<exists>x. r = Inr x \<and> f x = Inr y)"
  by (cases r) simp_all

section \<open>Character classes (the "C" locale)\<close>

abbreviation byte :: "char \<Rightarrow> nat" where
  "byte c \<equiv> of_char c"

abbreviation newline :: char where
  "newline \<equiv> CHR 0x0A"

abbreviation tab :: char where
  "tab \<equiv> CHR 0x09"

abbreviation carriage :: char where
  "carriage \<equiv> CHR 0x0D"

abbreviation backslash :: char where
  "backslash \<equiv> CHR 0x5C"

definition is_space :: "char \<Rightarrow> bool" where
  [ctype_defs]: "is_space c \<longleftrightarrow> byte c = 32 \<or> (9 \<le> byte c \<and> byte c \<le> 13)"

definition is_digit :: "char \<Rightarrow> bool" where
  [ctype_defs]: "is_digit c \<longleftrightarrow> 48 \<le> byte c \<and> byte c \<le> 57"

definition is_upper :: "char \<Rightarrow> bool" where
  [ctype_defs]: "is_upper c \<longleftrightarrow> 65 \<le> byte c \<and> byte c \<le> 90"

definition is_lower :: "char \<Rightarrow> bool" where
  [ctype_defs]: "is_lower c \<longleftrightarrow> 97 \<le> byte c \<and> byte c \<le> 122"

definition is_alpha :: "char \<Rightarrow> bool" where
  [ctype_defs]: "is_alpha c \<longleftrightarrow> is_upper c \<or> is_lower c"

definition is_alnum :: "char \<Rightarrow> bool" where
  [ctype_defs]: "is_alnum c \<longleftrightarrow> is_alpha c \<or> is_digit c"

definition is_xdigit :: "char \<Rightarrow> bool" where
  [ctype_defs]: "is_xdigit c \<longleftrightarrow>
     is_digit c \<or> (65 \<le> byte c \<and> byte c \<le> 70) \<or> (97 \<le> byte c \<and> byte c \<le> 102)"

definition to_lower :: "char \<Rightarrow> char" where
  "to_lower c = (if is_upper c then char_of (byte c + 32) else c)"

text \<open>The value of a hexadecimal digit; only read where \<open>is_xdigit\<close> holds.\<close>

definition xdigit_value :: "char \<Rightarrow> nat" where
  "xdigit_value c =
     (if is_digit c then byte c - 48
      else if is_upper c then byte c - 55
      else byte c - 87)"

lemma byte_lt_256 [simp]: "byte c < 256"
  using of_char_mod_256 [of c, where ?'a = nat] mod_less_divisor [of 256 "byte c"] by simp

lemma is_upper_to_lower [simp]: "\<not> is_upper (to_lower c)"
  by (auto simp: to_lower_def is_upper_def)

lemma to_lower_id: "\<not> is_upper c \<Longrightarrow> to_lower c = c"
  by (simp add: to_lower_def)

lemma to_lower_to_lower [simp]: "to_lower (to_lower c) = to_lower c"
  by (rule to_lower_id) simp

lemma is_space_newline [simp]: "is_space newline"
  by (simp add: is_space_def)

section \<open>String operations\<close>

text \<open>\<^verbatim>\<open>s.starts_with(p)\<close>, \<^verbatim>\<open>s.ends_with(p)\<close> and \<^verbatim>\<open>s.find(p) != npos\<close>.\<close>

abbreviation starts_with :: "string \<Rightarrow> string \<Rightarrow> bool" where
  "starts_with s p \<equiv> prefix p s"

abbreviation ends_with :: "string \<Rightarrow> string \<Rightarrow> bool" where
  "ends_with s p \<equiv> suffix p s"

abbreviation contains_str :: "string \<Rightarrow> string \<Rightarrow> bool" where
  "contains_str s p \<equiv> sublist p s"

text \<open>\<^verbatim>\<open>s.find(c)\<close>: the position of the first occurrence.\<close>

fun find_char :: "char \<Rightarrow> string \<Rightarrow> nat option" where
  "find_char c [] = None"
| "find_char c (x # xs) = (if x = c then Some 0 else map_option Suc (find_char c xs))"

lemma find_char_None [text_simps]: "find_char c s = None \<longleftrightarrow> c \<notin> set s"
  by (induction s) auto

lemma find_char_Some:
  "find_char c s = Some i \<Longrightarrow> i < length s \<and> s ! i = c \<and> c \<notin> set (take i s)"
  by (induction s arbitrary: i) (auto split: if_splits simp: less_Suc_eq_0_disj)

text \<open>
  Reading an \<^verbatim>\<open>istringstream\<close> to the end with \<^verbatim>\<open>std::getline\<close>: the text between
  newlines; a final newline ends the last line and starts no other.
\<close>

function getlines :: "string \<Rightarrow> string list" where
  "getlines s =
     (if s = [] then []
      else takeWhile (\<lambda>c. c \<noteq> newline) s # getlines (tl (dropWhile (\<lambda>c. c \<noteq> newline) s)))"
  by pat_completeness auto
termination
proof (relation "measure length")
  fix s :: string
  assume "s \<noteq> []"
  moreover have "length (dropWhile (\<lambda>c. c \<noteq> newline) s) \<le> length s"
    by (rule length_dropWhile_le)
  ultimately show "(tl (dropWhile (\<lambda>c. c \<noteq> newline) s), s) \<in> measure length"
    by (cases s) (simp_all add: le_imp_less_Suc)
qed simp

declare getlines.simps [simp del]

lemma getlines_Nil [simp]: "getlines [] = []"
  by (subst getlines.simps) simp

lemma getlines_line:
  "newline \<notin> set l \<Longrightarrow> getlines (l @ newline # r) = l # getlines r"
  by (subst getlines.simps) (auto simp: takeWhile_append dropWhile_append)

lemma getlines_last:
  "newline \<notin> set l \<Longrightarrow> l \<noteq> [] \<Longrightarrow> getlines l = [l]"
proof -
  assume l: "newline \<notin> set l" "l \<noteq> []"
  from l(1) have *: "\<forall>x\<in>set l. x \<noteq> newline" by auto
  then have "takeWhile (\<lambda>c. c \<noteq> newline) l = l" "dropWhile (\<lambda>c. c \<noteq> newline) l = []"
    by (simp_all only: takeWhile_eq_all_conv dropWhile_eq_Nil_conv)
  with l(2) show "getlines l = [l]"
    by (subst getlines.simps) (simp only: getlines_Nil list.sel if_False)
qed

lemma getlines_no_newline: "l \<in> set (getlines s) \<Longrightarrow> newline \<notin> set l"
proof (induction s rule: getlines.induct)
  case (1 s)
  then show ?case
    by (subst (asm) (2) getlines.simps) (auto split: if_splits dest: set_takeWhileD)
qed

lemma getlines_concat: "concat (getlines s) = filter (\<lambda>c. c \<noteq> newline) s"
proof (induction s rule: getlines.induct)
  case (1 s)
  show ?case
  proof (cases "s = []")
    case False
    let ?p = "\<lambda>c. c \<noteq> newline"
    have take: "filter ?p (takeWhile ?p s) = takeWhile ?p s"
      by (auto simp: filter_id_conv dest: set_takeWhileD)
    have drop: "filter ?p (tl (dropWhile ?p s)) = filter ?p (dropWhile ?p s)"
    proof (cases "dropWhile ?p s")
      case (Cons a l)
      then have "a = newline" using hd_dropWhile [of ?p s] by (metis list.distinct(1) list.sel(1))
      then show ?thesis by (simp only: Cons list.sel filter.simps simp_thms if_False)
    qed (simp only: list.sel filter.simps)
    have "filter ?p s = filter ?p (takeWhile ?p s) @ filter ?p (dropWhile ?p s)"
      by (metis filter_append takeWhile_dropWhile_id)
    with False 1 [OF False] take drop show ?thesis by (subst getlines.simps) simp
  qed simp
qed

lemma getlines_all_empty: "(\<forall>l\<in>set (getlines s). l = []) \<longleftrightarrow> set s \<subseteq> {newline}"
proof -
  have "(\<forall>l\<in>set (getlines s). l = []) \<longleftrightarrow> concat (getlines s) = []"
    by (simp only: concat_eq_Nil_conv)
  also have "\<dots> \<longleftrightarrow> filter (\<lambda>c. c \<noteq> newline) s = []"
    by (simp only: getlines_concat)
  also have "\<dots> \<longleftrightarrow> set s \<subseteq> {newline}"
    unfolding filter_empty_conv by blast
  finally show ?thesis .
qed

text \<open>Lines with a newline between each two, and what \<^verbatim>\<open>getline\<close> makes of them.\<close>

fun join_lines :: "string list \<Rightarrow> string" where
  "join_lines [] = []"
| "join_lines [l] = l"
| "join_lines (l # m # ls) = l @ newline # join_lines (m # ls)"

lemma getlines_join_lines:
  "(\<forall>l\<in>set ls. newline \<notin> set l \<and> l \<noteq> []) \<Longrightarrow> getlines (join_lines ls) = ls"
  by (induction ls rule: join_lines.induct) (simp_all add: getlines_last getlines_line)

section \<open>Decimal printing (\<^verbatim>\<open>std::to_string\<close>)\<close>

definition digit_char :: "nat \<Rightarrow> char" where
  "digit_char n = char_of (48 + n)"

fun nat_to_string :: "nat \<Rightarrow> string" where
  "nat_to_string n =
     (if n < 10 then [digit_char n] else nat_to_string (n div 10) @ [digit_char (n mod 10)])"

declare nat_to_string.simps [simp del]

definition int_to_string :: "int \<Rightarrow> string" where
  "int_to_string i = (if i < 0 then CHR ''-'' # nat_to_string (nat (- i)) else nat_to_string (nat i))"

definition digits_value :: "string \<Rightarrow> nat" where
  "digits_value s = foldl (\<lambda>n c. 10 * n + (byte c - 48)) 0 s"

lemma byte_digit_char [simp]: "n < 10 \<Longrightarrow> byte (digit_char n) = 48 + n"
  by (simp add: digit_char_def)

lemma is_digit_digit_char [simp]: "n < 10 \<Longrightarrow> is_digit (digit_char n)"
  by (simp add: is_digit_def)

lemma nat_to_string_nonempty [simp]: "nat_to_string n \<noteq> []"
  by (subst nat_to_string.simps) simp

lemma nat_to_string_digits: "c \<in> set (nat_to_string n) \<Longrightarrow> is_digit c"
proof (induction n rule: nat_to_string.induct)
  case (1 n)
  then show ?case
    by (cases "n < 10") (auto simp: nat_to_string.simps [of n])
qed

lemma digits_value_nat_to_string [simp]: "digits_value (nat_to_string n) = n"
proof (induction n rule: nat_to_string.induct)
  case (1 n)
  show ?case
  proof (cases "n < 10")
    case True
    then show ?thesis by (simp add: nat_to_string.simps [of n] digits_value_def)
  next
    case False
    with 1 have "digits_value (nat_to_string (n div 10)) = n div 10" by simp
    with False show ?thesis
      by (simp add: nat_to_string.simps [of n] digits_value_def)
  qed
qed

section \<open>Character-wise encodings\<close>

text \<open>
  The interface of an escaping scheme that works one character at a time: a decoder undoes
  the encoding of the first character and goes on with the rest. Percent-encoding of URIs,
  snippet escaping and choice escaping are the instances.
\<close>

locale char_codec =
  fixes enc :: "char \<Rightarrow> string"
    and dec :: "string \<Rightarrow> string result"
  assumes dec_Nil: "dec [] = Inr []"
    and dec_enc: "dec (enc c @ s) = map_sum id (Cons c) (dec s)"
begin

lemma dec_enc_append: "dec (concat (map enc s) @ t) = map_sum id (append s) (dec t)"
proof (induction s)
  case Nil
  show ?case by (cases "dec t") simp_all
next
  case (Cons c s)
  then show ?case by (cases "dec t") (simp_all add: dec_enc)
qed

lemma dec_enc_all: "dec (concat (map enc s)) = Inr s"
  using dec_enc_append [of s "[]"] by (simp add: dec_Nil)

lemma enc_inject: "concat (map enc s) = concat (map enc t) \<longleftrightarrow> s = t"
  by (metis Inr_inject dec_enc_all)

end

section \<open>Lists\<close>

lemma set_tl_subset: "set (tl xs) \<subseteq> set xs"
  by (cases xs) auto


text \<open>Inserting into a hash set whose iteration order is kept abstractly as a list.\<close>

definition list_emplace :: "'a \<Rightarrow> 'a list \<Rightarrow> 'a list" where
  "list_emplace x xs = (if x \<in> set xs then xs else xs @ [x])"

lemma set_list_emplace [simp]: "set (list_emplace x xs) = insert x (set xs)"
  by (auto simp: list_emplace_def)

lemma distinct_list_emplace [simp]: "distinct xs \<Longrightarrow> distinct (list_emplace x xs)"
  by (simp add: list_emplace_def)

end
