(* ===== verification/Uri.thy ===== *)
theory Uri
  imports Prelude
begin

text \<open>
  The class \<^verbatim>\<open>URI\<close> of \<^verbatim>\<open>include/lsp/URI.h\<close> and \<^verbatim>\<open>src/lsp/URI.cpp\<close>: one decoded
  string with the spans of its five components, percent-decoding and -encoding, the match of
  the RFC 3986 pattern, and the conversions from a string and from a file path. The build
  modelled is the one without \<^verbatim>\<open>_WIN32\<close>. What the regular-expression library takes as
  \<open>.\<close> in the fragment group is the parameter \<open>dot\<close>.
\<close>

section \<open>Percent-encoding\<close>

text \<open>
  \<^verbatim>\<open>std::stoi(s, nullptr, 16)\<close> on a string of two characters: \<^verbatim>\<open>strtol\<close> skips
  leading white space, takes one sign, and stops at the first character that is no digit; no
  digit at all is \<^verbatim>\<open>std::invalid_argument\<close>. The prefix \<^verbatim>\<open>0x\<close> without a digit after it
  reads as \<open>0\<close>, which the second case below covers.
\<close>

definition stoi_hex2 :: "char \<Rightarrow> char \<Rightarrow> int result" where
  "stoi_hex2 a b =
     (if is_xdigit a then
        if is_xdigit b then Inr (int (16 * xdigit_value a + xdigit_value b))
        else Inr (int (xdigit_value a))
      else if is_xdigit b \<and> (is_space a \<or> a = CHR ''+'') then Inr (int (xdigit_value b))
      else if is_xdigit b \<and> a = CHR ''-'' then Inr (- int (xdigit_value b))
      else Inl InvalidArgument)"

text \<open>\<^verbatim>\<open>static_cast<char>(val)\<close>\<close>

definition char_of_int :: "int \<Rightarrow> char" where
  "char_of_int v = char_of (nat (v mod 256))"

text \<open>
  \<^verbatim>\<open>URI::decode\<close>: an escape needs two more characters after the percent sign; near the
  end of the string a percent sign is copied.
\<close>

fun uri_decode :: "string \<Rightarrow> string result" where
  "uri_decode (c # a # b # r) =
     (if c = CHR ''%'' then
        bind_result (stoi_hex2 a b) (\<lambda>v. map_sum id (Cons (char_of_int v)) (uri_decode r))
      else map_sum id (Cons c) (uri_decode (a # b # r)))"
| "uri_decode s = Inr s"

definition hex_digit :: "nat \<Rightarrow> char" where
  "hex_digit n = ''0123456789ABCDEF'' ! n"

definition to_hex :: "char \<Rightarrow> string" where
  "to_hex c = [hex_digit (byte c div 16), hex_digit (byte c mod 16)]"

definition encode_char :: "char \<Rightarrow> string" where
  "encode_char c =
     (if is_alnum c \<or> c \<in> {CHR ''-'', CHR ''.'', CHR ''_'', CHR ''~'', CHR ''/''} then [c]
      else CHR ''%'' # to_hex c)"

definition uri_encode :: "string \<Rightarrow> string" where
  "uri_encode s = concat (map encode_char s)"

lemma hex_digit_values:
  "n < 16 \<Longrightarrow> is_xdigit (hex_digit n) \<and> xdigit_value (hex_digit n) = n"
proof -
  assume "n < 16"
  then have "n \<in> {0,1,2,3,4,5,6,7,8,9,10,11,12,13,14,15}" by (simp; presburger)
  then show ?thesis
    by (elim insertE) (simp_all add: hex_digit_def ctype_defs xdigit_value_def)
qed

lemma stoi_to_hex: "to_hex c = [a, b] \<Longrightarrow> stoi_hex2 a b = Inr (int (byte c))"
proof -
  assume ab: "to_hex c = [a, b]"
  have "byte c div 16 < 16" by (simp add: less_mult_imp_div_less)
  with ab have "is_xdigit a \<and> xdigit_value a = byte c div 16"
    by (auto simp: to_hex_def hex_digit_values)
  moreover from ab have "is_xdigit b \<and> xdigit_value b = byte c mod 16"
    by (auto simp: to_hex_def hex_digit_values)
  ultimately show ?thesis by (simp add: stoi_hex2_def del: of_nat_add of_nat_mult)
qed

lemma char_of_int_byte [simp]: "char_of_int (int (byte c)) = c"
  by (simp add: char_of_int_def nat_mod_as_int [symmetric] flip: zmod_int)

lemma uri_decode_plain: "c \<noteq> CHR ''%'' \<Longrightarrow> uri_decode (c # s) = map_sum id (Cons c) (uri_decode s)"
  by (cases "c # s" rule: uri_decode.cases) (auto split: list.splits)

lemma uri_decode_escape:
  "uri_decode (CHR ''%'' # to_hex c @ s) = map_sum id (Cons c) (uri_decode s)"
proof -
  obtain a b where ab: "to_hex c = [a, b]" by (simp add: to_hex_def)
  from stoi_to_hex [OF ab] show ?thesis by (simp add: ab)
qed

lemma uri_decode_no_percent: "CHR ''%'' \<notin> set s \<Longrightarrow> uri_decode s = Inr s"
  by (induction s) (auto simp: uri_decode_plain)

interpretation percent: char_codec encode_char uri_decode
proof unfold_locales
  show "uri_decode [] = Inr []" by simp
next
  fix c s
  show "uri_decode (encode_char c @ s) = map_sum id (Cons c) (uri_decode s)"
  proof (cases "is_alnum c \<or> c \<in> {CHR ''-'', CHR ''.'', CHR ''_'', CHR ''~'', CHR ''/''}")
    case True
    then have "c \<noteq> CHR ''%''" by (auto simp: ctype_defs)
    with True show ?thesis by (simp add: encode_char_def uri_decode_plain)
  next
    case False
    then show ?thesis by (simp add: encode_char_def uri_decode_escape)
  qed
qed

section \<open>The class and its constructors\<close>

type_synonym span = "nat \<times> nat"

record uri =
  scheme_span :: span
  authority_span :: span
  path_span :: span
  query_span :: span
  fragment_span :: span
  fs_path :: string
  underlying :: string

definition empty_uri :: uri where
  "empty_uri = \<lparr>scheme_span = (0, 0), authority_span = (0, 0), path_span = (0, 0),
     query_span = (0, 0), fragment_span = (0, 0), fs_path = [], underlying = []\<rparr>"

definition span_view :: "uri \<Rightarrow> span \<Rightarrow> string" where
  "span_view u sp = take (snd sp) (drop (fst sp) (underlying u))"

definition uri_scheme :: "uri \<Rightarrow> string" where
  "uri_scheme u = span_view u (scheme_span u)"

definition uri_authority :: "uri \<Rightarrow> string" where
  "uri_authority u = span_view u (authority_span u)"

definition uri_path :: "uri \<Rightarrow> string" where
  "uri_path u = span_view u (path_span u)"

definition uri_query :: "uri \<Rightarrow> string" where
  "uri_query u = span_view u (query_span u)"

definition uri_fragment :: "uri \<Rightarrow> string" where
  "uri_fragment u = span_view u (fragment_span u)"

definition uri_str :: "uri \<Rightarrow> string" where
  "uri_str u = underlying u"

definition uri_eq :: "uri \<Rightarrow> uri \<Rightarrow> bool" where
  "uri_eq u v \<longleftrightarrow> underlying u = underlying v"

text \<open>
  \<^verbatim>\<open>URI::init\<close> on a fresh object: the components are appended one after the other and
  \<open>pos\<close> is the length so far; \<open>path'\<close> is the path with its leading slash ensured.
\<close>

definition slash_path :: "string \<Rightarrow> string" where
  "slash_path p =
     (if p = [] then ''/'' else if hd p \<noteq> CHR ''/'' then CHR ''/'' # p else p)"

definition uri_init :: "string \<Rightarrow> string \<Rightarrow> string \<Rightarrow> string \<Rightarrow> string \<Rightarrow> uri" where
  "uri_init sch auth p q frag =
     (let path' = slash_path p;
          (u, pos, sspan) =
            (if sch \<noteq> [] then (sch @ '':'', length sch + 1, (0, length sch))
             else ([], 0, (0, 0)));
          (u, pos) =
            (if auth \<noteq> [] \<or> sch = ''file'' then (u @ ''//'', pos + 2) else (u, pos));
          (u, pos, aspan) =
            (if auth \<noteq> [] then (u @ auth, pos + length auth, (pos, length auth))
             else (u, pos, (0, 0)));
          (u, pos, pspan) = (u @ path', pos + length path', (pos, length path'));
          (u, pos, qspan) =
            (if q \<noteq> [] then (u @ ''?'' @ q, pos + 1 + length q, (pos + 1, length q))
             else (u, pos, (0, 0)));
          (u, pos, fspan) =
            (if frag \<noteq> [] then (u @ ''#'' @ frag, pos + 1 + length frag, (pos + 1, length frag))
             else (u, pos, (0, 0)))
      in \<lparr>scheme_span = sspan, authority_span = aspan, path_span = pspan, query_span = qspan,
          fragment_span = fspan, fs_path = [], underlying = u\<rparr>)"

text \<open>
  The match of the pattern of RFC 3986, appendix B, group by group from the left. Each
  group excludes the characters that open the groups after it, so the greedy choice is the
  only one; the match fails only when the fragment holds a character that \<open>dot\<close>
  rejects.
\<close>

definition match_scheme :: "string \<Rightarrow> string \<times> string" where
  "match_scheme s =
     (let t = takeWhile (\<lambda>c. c \<notin> set '':/?#'') s; r = drop (length t) s
      in if t \<noteq> [] \<and> r \<noteq> [] \<and> hd r = CHR '':'' then (t, tl r) else ([], s))"

definition match_authority :: "string \<Rightarrow> string \<times> string" where
  "match_authority s =
     (if starts_with s ''//'' then
        (takeWhile (\<lambda>c. c \<notin> set ''/?#'') (drop 2 s), dropWhile (\<lambda>c. c \<notin> set ''/?#'') (drop 2 s))
      else ([], s))"

definition match_query :: "string \<Rightarrow> string \<times> string" where
  "match_query s =
     (if starts_with s ''?'' then
        (takeWhile (\<lambda>c. c \<noteq> CHR ''#'') (tl s), dropWhile (\<lambda>c. c \<noteq> CHR ''#'') (tl s))
      else ([], s))"

definition match_fragment :: "(char \<Rightarrow> bool) \<Rightarrow> string \<Rightarrow> string option" where
  "match_fragment dot s =
     (if s = [] then Some [] else if list_all dot (tl s) then Some (tl s) else None)"

definition uri_of_string :: "(char \<Rightarrow> bool) \<Rightarrow> string \<Rightarrow> uri result" where
  "uri_of_string dot s =
     (let (sch, r) = match_scheme s;
          (auth, r) = match_authority r;
          p = takeWhile (\<lambda>c. c \<notin> set ''?#'') r; r = dropWhile (\<lambda>c. c \<notin> set ''?#'') r;
          (q, r) = match_query r
      in case match_fragment dot r of
           None \<Rightarrow> Inr empty_uri
         | Some frag \<Rightarrow>
             bind_result (uri_decode auth) (\<lambda>auth.
             bind_result (uri_decode p) (\<lambda>p.
             bind_result (uri_decode q) (\<lambda>q.
             bind_result (uri_decode frag) (\<lambda>frag. Inr (uri_init sch auth p q frag))))))"

definition from_file :: "string \<Rightarrow> uri" where
  "from_file file = (if file = [] then empty_uri else uri_init ''file'' [] file [] [])"

definition from_web :: "(char \<Rightarrow> bool) \<Rightarrow> string \<Rightarrow> uri result" where
  "from_web dot url = uri_of_string dot (''https://'' @ url)"

text \<open>\<^verbatim>\<open>getPath\<close> fills the mutable cache on its first call.\<close>

definition get_path :: "uri \<Rightarrow> string \<times> uri" where
  "get_path u =
     (if fs_path u \<noteq> [] then (fs_path u, u)
      else (uri_path u, u\<lparr>fs_path := uri_path u\<rparr>))"

section \<open>The spans name the components\<close>

lemma slash_path_starts: "\<exists>r. slash_path p = CHR ''/'' # r"
  by (cases p) (auto simp: slash_path_def)

lemma slash_path_id: "p \<noteq> [] \<Longrightarrow> hd p = CHR ''/'' \<Longrightarrow> slash_path p = p"
  by (simp add: slash_path_def)

lemma set_slash_path: "set (slash_path p) \<subseteq> insert (CHR ''/'') (set p)"
  by (auto simp: slash_path_def)

definition opt_part :: "char \<Rightarrow> string \<Rightarrow> string" where
  "opt_part c s = (if s = [] then [] else c # s)"

lemma uri_init_str:
  "uri_str (uri_init sch auth p q frag) =
     (if sch = [] then [] else sch @ '':'') @
     (if auth = [] \<and> sch \<noteq> ''file'' then [] else ''//'') @ auth @ slash_path p @
     opt_part (CHR ''?'') q @ opt_part (CHR ''#'') frag"
  by (simp add: uri_init_def uri_str_def Let_def opt_part_def)

lemmas uri_init_unfold = uri_init_def Let_def span_view_def numeral_eq_Suc

lemma uri_init_scheme: "uri_scheme (uri_init sch auth p q frag) = sch"
  by (cases "sch = []"; cases "auth = []"; cases "q = []"; cases "frag = []")
    (simp_all add: uri_init_unfold uri_scheme_def)

lemma uri_init_authority: "uri_authority (uri_init sch auth p q frag) = auth"
  by (cases "sch = []"; cases "auth = []"; cases "q = []"; cases "frag = []")
    (simp_all add: uri_init_unfold uri_authority_def)

lemma uri_init_path: "uri_path (uri_init sch auth p q frag) = slash_path p"
  by (cases "sch = []"; cases "auth = []"; cases "q = []"; cases "frag = []")
    (simp_all add: uri_init_unfold uri_path_def)

lemma uri_init_query: "uri_query (uri_init sch auth p q frag) = q"
  by (cases "sch = []"; cases "auth = []"; cases "q = []"; cases "frag = []")
    (simp_all add: uri_init_unfold uri_query_def)

lemma uri_init_fragment: "uri_fragment (uri_init sch auth p q frag) = frag"
  by (cases "sch = []"; cases "auth = []"; cases "q = []"; cases "frag = []")
    (simp_all add: uri_init_unfold uri_fragment_def)

text \<open>
  The five accessors of a URI built from components return these components: the spans
  that \<^verbatim>\<open>URI::init\<close> records while it concatenates are the right ones in each of the
  thirty-two combinations of present and absent components. Only the path may differ, by
  the leading slash that \<^verbatim>\<open>init\<close> adds.
\<close>

lemma uri_init_components:
  "uri_scheme (uri_init sch auth p q frag) = sch \<and>
   uri_authority (uri_init sch auth p q frag) = auth \<and>
   uri_path (uri_init sch auth p q frag) = slash_path p \<and>
   uri_query (uri_init sch auth p q frag) = q \<and>
   uri_fragment (uri_init sch auth p q frag) = frag"
  by (simp only: uri_init_scheme uri_init_authority uri_init_path uri_init_query
      uri_init_fragment simp_thms)

text \<open>
  Percent-decoding undoes percent-encoding on every byte string, and the encoded text
  holds only unreserved characters, slashes and percent signs, so it can stand in any
  component without being cut there.
\<close>

lemma uri_encode_roundtrip:
  "uri_decode (uri_encode s) = Inr s \<and>
   list_all (\<lambda>c. is_alnum c \<or> c \<in> set ''-._~/%'') (uri_encode s)"
proof
  show "uri_decode (uri_encode s) = Inr s"
    unfolding uri_encode_def by (rule percent.dec_enc_all)
next
  have hex: "is_alnum (hex_digit n)" if "n < 16" for n
    using hex_digit_values [OF that] by (auto simp: ctype_defs)
  have "list_all (\<lambda>c. is_alnum c \<or> c \<in> set ''-._~/%'') (encode_char c)" for c
    by (auto simp: encode_char_def to_hex_def less_mult_imp_div_less intro!: hex)
  then show "list_all (\<lambda>c. is_alnum c \<or> c \<in> set ''-._~/%'') (uri_encode s)"
    unfolding uri_encode_def by (induction s) auto
qed

section \<open>Printing and matching\<close>

lemma match_scheme_colon:
  assumes "sch \<noteq> []" "set sch \<inter> set '':/?#'' = {}"
  shows "match_scheme (sch @ CHR '':'' # r) = (sch, r)"
proof -
  have "takeWhile (\<lambda>c. c \<notin> set '':/?#'') (sch @ CHR '':'' # r) = sch"
    using assms by (subst takeWhile_append2) auto
  with assms show ?thesis by (simp add: match_scheme_def Let_def)
qed

lemma match_scheme_slash: "match_scheme (CHR ''/'' # r) = ([], CHR ''/'' # r)"
  by (simp add: match_scheme_def)

lemma match_authority_slashes:
  assumes "set auth \<inter> set ''/?#'' = {}"
  shows "match_authority (''//'' @ auth @ CHR ''/'' # r) = (auth, CHR ''/'' # r)"
proof -
  have "takeWhile (\<lambda>c. c \<notin> set ''/?#'') (auth @ CHR ''/'' # r) = auth"
    using assms by (subst takeWhile_append2) auto
  moreover have "dropWhile (\<lambda>c. c \<notin> set ''/?#'') (auth @ CHR ''/'' # r) = CHR ''/'' # r"
    using assms by (subst dropWhile_append2) auto
  ultimately show ?thesis by (simp add: match_authority_def)
qed

lemma match_path_part:
  fixes p q frag :: string
  assumes "set p \<inter> set ''?#'' = {}" "set q \<inter> {CHR ''#''} = {}"
  defines "t \<equiv> opt_part (CHR ''?'') q @ opt_part (CHR ''#'') frag"
  shows "takeWhile (\<lambda>c. c \<notin> set ''?#'') (p @ t) = p"
    and "dropWhile (\<lambda>c. c \<notin> set ''?#'') (p @ t) = t"
    and "match_query t = (q, opt_part (CHR ''#'') frag)"
proof -
  show "takeWhile (\<lambda>c. c \<notin> set ''?#'') (p @ t) = p"
    using assms(1) by (subst takeWhile_append2) (auto simp: t_def opt_part_def)
  show "dropWhile (\<lambda>c. c \<notin> set ''?#'') (p @ t) = t"
    using assms(1) by (subst dropWhile_append2) (auto simp: t_def opt_part_def)
  have "takeWhile (\<lambda>c. c \<noteq> CHR ''#'') (q @ opt_part (CHR ''#'') frag) = q"
    using assms(2) by (subst takeWhile_append2) (auto simp: opt_part_def)
  moreover have "dropWhile (\<lambda>c. c \<noteq> CHR ''#'') (q @ opt_part (CHR ''#'') frag) =
      opt_part (CHR ''#'') frag"
    using assms(2) by (subst dropWhile_append2) (auto simp: opt_part_def)
  ultimately show "match_query t = (q, opt_part (CHR ''#'') frag)"
    by (simp add: t_def match_query_def) (auto simp: opt_part_def)
qed

lemma match_query_set: "match_query s = (q, r) \<Longrightarrow> set q \<subseteq> set s \<and> set r \<subseteq> set s"
  using set_takeWhileD [of _ "\<lambda>c. c \<noteq> CHR ''#''" "tl s"]
    set_dropWhileD [of _ "\<lambda>c. c \<noteq> CHR ''#''" "tl s"] set_tl_subset [of s]
  by (auto simp: match_query_def split: if_splits)

lemma match_fragment_part:
  "list_all dot frag \<Longrightarrow> match_fragment dot (opt_part (CHR ''#'') frag) = Some frag"
  by (simp add: match_fragment_def opt_part_def)

lemma match_scheme_authority_str:
  assumes "set sch \<inter> set '':/?#'' = {}" "set auth \<inter> set ''/?#'' = {}"
    and "sch \<noteq> ''file'' \<and> auth = [] \<longrightarrow> \<not> starts_with (slash_path p) ''//''"
  shows "\<exists>r. match_scheme (uri_str (uri_init sch auth p q frag)) = (sch, r) \<and>
     match_authority r =
       (auth, slash_path p @ opt_part (CHR ''?'') q @ opt_part (CHR ''#'') frag)"
proof -
  obtain p' where p': "slash_path p = CHR ''/'' # p'" using slash_path_starts by blast
  let ?t = "opt_part (CHR ''?'') q @ opt_part (CHR ''#'') frag"
  let ?r = "(if auth = [] \<and> sch \<noteq> ''file'' then [] else ''//'') @ auth @ slash_path p @ ?t"
  have "match_scheme (uri_str (uri_init sch auth p q frag)) = (sch, ?r)"
    using match_scheme_colon [OF _ assms(1), of ?r]
    by (auto simp: uri_init_str p' match_scheme_slash)
  moreover have "match_authority ?r = (auth, slash_path p @ ?t)"
  proof (cases "auth = [] \<and> sch \<noteq> ''file''")
    case True
    have "\<not> starts_with (slash_path p @ ?t) ''//''"
      using assms(3) True p' by (cases p') (auto simp: opt_part_def)
    with True show ?thesis by (simp add: match_authority_def)
  next
    case False
    then show ?thesis
      using match_authority_slashes [OF assms(2), of "p' @ ?t"] by (auto simp: p')
  qed
  ultimately show ?thesis by blast
qed

text \<open>
  C26: Parsing the string of a URI gives the URI back, when its components hold none of the
  delimiters that end them nor a percent sign, and a path without authority does not open
  with two slashes: parser and printer agree on where each component starts and ends.
\<close>

theorem uri_of_string_str:
  assumes "set sch \<inter> set '':/?#'' = {}" "set auth \<inter> set ''/?#%'' = {}"
    and "set p \<inter> set ''?#%'' = {}" "set q \<inter> set ''#%'' = {}"
    and "CHR ''%'' \<notin> set frag" "list_all dot frag"
    and "sch \<noteq> ''file'' \<and> auth = [] \<longrightarrow> \<not> starts_with (slash_path p) ''//''"
  shows "uri_of_string dot (uri_str (uri_init sch auth p q frag)) = Inr (uri_init sch auth p q frag)"
proof -
  have "set auth \<inter> set ''/?#'' = {}" using assms(2) by auto
  from match_scheme_authority_str [OF assms(1) this assms(7), of q frag]
  obtain r where r: "match_scheme (uri_str (uri_init sch auth p q frag)) = (sch, r)"
    "match_authority r =
       (auth, slash_path p @ opt_part (CHR ''?'') q @ opt_part (CHR ''#'') frag)"
    by blast
  have sp: "set (slash_path p) \<inter> set ''?#'' = {}" "CHR ''%'' \<notin> set (slash_path p)"
    using set_slash_path [of p] assms(3) by auto
  have q: "set q \<inter> {CHR ''#''} = {}" "CHR ''%'' \<notin> set q" and a: "CHR ''%'' \<notin> set auth"
    using assms(2,4) by auto
  have "slash_path (slash_path p) = slash_path p"
    using slash_path_starts [of p] by (auto simp: slash_path_id)
  then have "uri_init sch auth (slash_path p) q frag = uri_init sch auth p q frag"
    by (simp add: uri_init_def)
  then show ?thesis
    using match_path_part [OF sp(1) q(1), of frag] match_fragment_part [OF assms(6)] sp q a
      assms(5)
    by (simp add: uri_of_string_def r uri_decode_no_percent)
qed

theorem uri_of_string_str_witness:
  "uri_of_string (\<lambda>c. True)
     (uri_str (uri_init ''https'' ''sv-lang.com'' ''/ref.html'' [] ''unused'')) =
   Inr (uri_init ''https'' ''sv-lang.com'' ''/ref.html'' [] ''unused'')"
  by (rule uri_of_string_str) (simp_all add: slash_path_def)

text \<open>
  What a client gets back after the URI of an absolute file path went over the wire as
  its string: the path up to the first question mark or number sign. \<^verbatim>\<open>fromFile\<close> does not
  percent-encode, so the path survives exactly when it holds neither character.
\<close>

lemma from_file_wire_path:
  assumes "p \<noteq> []" "hd p = CHR ''/''" "CHR ''%'' \<notin> set p"
  shows "\<exists>u. uri_of_string (\<lambda>c. True) (uri_str (from_file p)) = Inr u \<and>
     uri_path u = takeWhile (\<lambda>c. c \<notin> set ''?#'') p"
proof -
  let ?keep = "\<lambda>c. c \<notin> set ''?#''"
  obtain p' where p': "p = CHR ''/'' # p'" using assms(1,2) by (cases p) auto
  have "match_scheme (''file:'' @ ''//'' @ p) = (''file'', ''//'' @ p)"
    using match_scheme_colon [of "''file''" "''//'' @ p"] by simp
  moreover have "match_authority (''//'' @ p) = ([], p)"
    using match_authority_slashes [of "[]" p'] by (simp add: p')
  ultimately have m: "match_scheme (uri_str (from_file p)) = (''file'', ''//'' @ p)"
    "match_authority (''//'' @ p) = ([], p)"
    by (simp_all add: from_file_def assms uri_init_str slash_path_id opt_part_def)
  have sub: "CHR ''%'' \<notin> set (takeWhile ?keep p)"
    "CHR ''%'' \<notin> set (dropWhile ?keep p)"
    using assms(3) by (auto dest: set_takeWhileD set_dropWhileD)
  obtain q r where q: "match_query (dropWhile ?keep p) = (q, r)" by fastforce
  have pct: "CHR ''%'' \<notin> set q" "CHR ''%'' \<notin> set (tl r)"
    using match_query_set [OF q] sub(2) set_tl_subset [of r] by auto
  have kp: "slash_path (takeWhile ?keep p) = takeWhile ?keep p"
    by (simp add: p' slash_path_def)
  have "match_fragment (\<lambda>c. True) r = Some (tl r)"
    by (simp add: match_fragment_def list_all_iff)
  then have "uri_of_string (\<lambda>c. True) (uri_str (from_file p)) =
      Inr (uri_init ''file'' [] (takeWhile ?keep p) q (tl r))"
    unfolding uri_of_string_def m Let_def prod.case q
    by (simp only: uri_decode_no_percent [OF sub(1)] uri_decode_no_percent [OF pct(1)]
        uri_decode_no_percent [OF pct(2)] uri_decode.simps option.case bind_result_simps)
  then show ?thesis
    by (intro exI conjI) (assumption, simp only: uri_init_path kp)
qed

lemma from_file_wire_path_witness:
  "\<exists>u. uri_of_string (\<lambda>c. True) (uri_str (from_file ''/rtl/a#b.sv'')) = Inr u \<and>
     uri_path u = takeWhile (\<lambda>c. c \<notin> set ''?#'') ''/rtl/a#b.sv''"
  by (rule from_file_wire_path) simp_all

end
