(* ===== verification/Snippet.thy ===== *)
theory Snippet
  imports Prelude
begin

text \<open>
  The class \<^verbatim>\<open>SnippetString\<close> of \<^verbatim>\<open>include/lsp/SnippetString.h\<close>: the text built so
  far and the number of the next automatic tab stop, an \<^verbatim>\<open>int\<close>. Counting past the largest
  value of that type is undefined in C++: it is recorded, the number kept is then the one an
  unbounded counter would have and means nothing. Escaping is an instance of
  \<^theory_text>\<open>char_codec\<close>; the decoders are the reading rules of the snippet grammar, where a
  backslash takes the next character literally.
\<close>

section \<open>State\<close>

record snippet =
  snippet_value :: string
  next_tabstop :: int
  overflowed :: bool

definition int_max :: int where
  "int_max = 2 ^ 31 - 1"

definition new_snippet :: "string \<Rightarrow> snippet" where
  "new_snippet v = \<lparr>snippet_value = v, next_tabstop = 1, overflowed = False\<rparr>"

definition add_value :: "string \<Rightarrow> snippet \<Rightarrow> snippet" where
  "add_value t s = s\<lparr>snippet_value := snippet_value s @ t\<rparr>"

section \<open>Escaping\<close>

definition escape_char :: "char \<Rightarrow> string" where
  "escape_char c = (if c \<in> {CHR ''$'', CHR ''}'', backslash} then [backslash, c] else [c])"

definition escape :: "string \<Rightarrow> string" where
  "escape s = concat (map escape_char s)"

definition escape_choice_char :: "char \<Rightarrow> string" where
  "escape_choice_char c =
     (if c \<in> {CHR '','', CHR ''|'', backslash} then [backslash, c] else [c])"

definition escape_choice :: "string \<Rightarrow> string" where
  "escape_choice s = concat (map escape_choice_char s)"

text \<open>Reading escaped text: a backslash stands for the character after it.\<close>

fun unescape :: "string \<Rightarrow> string result" where
  "unescape [] = Inr []"
| "unescape [c] = (if c = backslash then Inl InvalidArgument else Inr [c])"
| "unescape (c # d # s) =
     (if c = backslash then map_sum id (Cons d) (unescape s)
      else map_sum id (Cons c) (unescape (d # s)))"

lemma unescape_plain: "c \<noteq> backslash \<Longrightarrow> unescape (c # s) = map_sum id (Cons c) (unescape s)"
  by (cases s) simp_all

lemma unescape_escape_char: "unescape (escape_char c @ s) = map_sum id (Cons c) (unescape s)"
  by (simp add: escape_char_def unescape_plain)

lemma unescape_choice_char:
  "unescape (escape_choice_char c @ s) = map_sum id (Cons c) (unescape s)"
  by (simp add: escape_choice_char_def unescape_plain)

interpretation text_esc: char_codec escape_char unescape
  by unfold_locales (simp_all only: unescape_escape_char unescape.simps)

interpretation choice_esc: char_codec escape_choice_char unescape
  by unfold_locales (simp_all only: unescape_choice_char unescape.simps)

section \<open>Operations\<close>

text \<open>\<^verbatim>\<open>_nextTabstop\<close>: the number to print and the counter afterwards.\<close>

definition take_tabstop :: "int option \<Rightarrow> snippet \<Rightarrow> int \<times> snippet" where
  "take_tabstop number s =
     (case number of
        Some n \<Rightarrow>
          (n, s\<lparr>next_tabstop := max (next_tabstop s) (n + 1),
                overflowed := overflowed s \<or> int_max < n + 1\<rparr>)
      | None \<Rightarrow>
          (next_tabstop s,
           s\<lparr>next_tabstop := next_tabstop s + 1,
             overflowed := overflowed s \<or> int_max < next_tabstop s + 1\<rparr>))"

definition append_text :: "string \<Rightarrow> snippet \<Rightarrow> snippet" where
  "append_text t s = add_value (escape t) s"

definition append_tabstop :: "int option \<Rightarrow> snippet \<Rightarrow> snippet" where
  "append_tabstop number s =
     (let (n, s') = take_tabstop number (add_value ''$'' s) in add_value (int_to_string n) s')"

definition append_placeholder :: "string \<Rightarrow> int option \<Rightarrow> snippet \<Rightarrow> snippet" where
  "append_placeholder value number s =
     (let (n, s') = take_tabstop number (add_value ''${'' s)
      in add_value (int_to_string n @ '':'' @ escape value @ ''}'') s')"

fun join_comma :: "string list \<Rightarrow> string" where
  "join_comma [] = []"
| "join_comma [v] = escape_choice v"
| "join_comma (v # vs) = escape_choice v @ '','' @ join_comma vs"

definition append_choice :: "string list \<Rightarrow> int option \<Rightarrow> snippet \<Rightarrow> snippet" where
  "append_choice values number s =
     (if values = [] then s
      else let (n, s') = take_tabstop number (add_value ''${'' s)
           in add_value (int_to_string n @ ''|'' @ join_comma values @ ''|}'') s')"

definition append_variable :: "string \<Rightarrow> string \<Rightarrow> snippet \<Rightarrow> snippet" where
  "append_variable name dflt s =
     add_value (''${'' @ name @ (if dflt = [] then [] else CHR '':'' # escape dflt) @ ''}'') s"

text \<open>The nested snippet has a tab stop counter of its own.\<close>

definition append_variable_with :: "string \<Rightarrow> (snippet \<Rightarrow> snippet) \<Rightarrow> snippet \<Rightarrow> snippet" where
  "append_variable_with name callback s =
     (let nested = callback (new_snippet []); v = snippet_value nested
      in add_value (''${'' @ name @ (if v = [] then [] else CHR '':'' # v) @ ''}'')
           (s\<lparr>overflowed := overflowed s \<or> overflowed nested\<rparr>))"

section \<open>Tab stops\<close>

text \<open>
  The calls a completion provider makes on one snippet, and the numbers they print, in
  order, each with whether the snippet chose it.
\<close>

datatype snippet_op =
    Text string
  | Tabstop "int option"
  | Placeholder string "int option"
  | Choice "string list" "int option"
  | Variable string string

fun run_op :: "snippet_op \<Rightarrow> snippet \<Rightarrow> snippet" where
  "run_op (Text t) s = append_text t s"
| "run_op (Tabstop n) s = append_tabstop n s"
| "run_op (Placeholder v n) s = append_placeholder v n s"
| "run_op (Choice vs n) s = append_choice vs n s"
| "run_op (Variable v d) s = append_variable v d s"

fun op_number :: "snippet_op \<Rightarrow> int option option" where
  "op_number (Text t) = None"
| "op_number (Tabstop n) = Some n"
| "op_number (Placeholder v n) = Some n"
| "op_number (Choice vs n) = (if vs = [] then None else Some n)"
| "op_number (Variable v d) = None"

fun stops_of :: "snippet \<Rightarrow> snippet_op list \<Rightarrow> (bool \<times> int) list" where
  "stops_of s [] = []"
| "stops_of s (x # xs) =
     (case op_number x of
        None \<Rightarrow> stops_of (run_op x s) xs
      | Some n \<Rightarrow> (n = None, fst (take_tabstop n s)) # stops_of (run_op x s) xs)"

lemma next_tabstop_run_op:
  "next_tabstop (run_op x s) =
     (case op_number x of None \<Rightarrow> next_tabstop s
      | Some n \<Rightarrow> next_tabstop (snd (take_tabstop n s)))"
  by (cases x)
    (simp_all add: append_text_def append_tabstop_def append_placeholder_def append_choice_def
      append_variable_def add_value_def take_tabstop_def Let_def split: option.splits)

lemma overflowed_run_op:
  "overflowed (run_op x s) =
     (case op_number x of None \<Rightarrow> overflowed s | Some n \<Rightarrow> overflowed (snd (take_tabstop n s)))"
  by (cases x)
    (simp_all add: append_text_def append_tabstop_def append_placeholder_def append_choice_def
      append_variable_def add_value_def take_tabstop_def Let_def split: option.splits)

lemma take_tabstop_bounds:
  "next_tabstop s \<le> next_tabstop (snd (take_tabstop n s)) \<and>
   fst (take_tabstop n s) < next_tabstop (snd (take_tabstop n s))"
  by (cases n) (simp_all add: take_tabstop_def)

lemma take_tabstop_None [simp]: "fst (take_tabstop None s) = next_tabstop s"
  by (simp add: take_tabstop_def)

lemma stops_of_auto_ge:
  "(True, k) \<in> set (stops_of s xs) \<Longrightarrow> next_tabstop s \<le> k"
proof (induction xs arbitrary: s)
  case Nil
  then show ?case by simp
next
  case (Cons x xs)
  show ?case
  proof (cases "op_number x")
    case None
    with Cons.prems have "next_tabstop (run_op x s) \<le> k" by (intro Cons.IH) simp
    with None show ?thesis by (simp add: next_tabstop_run_op)
  next
    case (Some n)
    with Cons.prems consider "n = None" "k = next_tabstop s"
      | "(True, k) \<in> set (stops_of (run_op x s) xs)" by auto
    then show ?thesis
    proof cases
      case 2
      then have "next_tabstop (run_op x s) \<le> k" by (rule Cons.IH)
      with Some take_tabstop_bounds [of s n] show ?thesis by (simp add: next_tabstop_run_op)
    qed simp
  qed
qed

lemma stops_of_increase:
  "stops_of s ops = before @ (chosen, k) # between @ (True, k') # after \<Longrightarrow> k < k'"
proof (induction ops arbitrary: s before)
  case (Cons x ops)
  show ?case
  proof (cases "op_number x")
    case None
    with Cons show ?thesis by auto
  next
    case (Some n)
    show ?thesis
    proof (cases before)
      case Nil
      with Cons.prems Some have "k = fst (take_tabstop n s)"
        and "(True, k') \<in> set (stops_of (run_op x s) ops)" by auto
      then have "k = fst (take_tabstop n s)" "next_tabstop (run_op x s) \<le> k'"
        by (auto intro: stops_of_auto_ge)
      with Some take_tabstop_bounds [of s n] show ?thesis by (simp add: next_tabstop_run_op)
    next
      case (Cons b bs)
      with Cons.prems Some have
        "stops_of (run_op x s) ops = bs @ (chosen, k) # between @ (True, k') # after" by auto
      then show ?thesis by (rule Cons.IH)
    qed
  qed
qed simp

text \<open>What was counted past the largest number stays recorded, and nothing printed lies there.\<close>

lemma overflowed_fold: "overflowed s \<Longrightarrow> overflowed (fold run_op ops s)"
  by (induction ops arbitrary: s)
    (auto simp: overflowed_run_op take_tabstop_def simp del: run_op.simps split: option.split)

lemma printed_below:
  "\<not> overflowed (fold run_op ops s) \<Longrightarrow> (chosen, k) \<in> set (stops_of s ops) \<Longrightarrow> k < int_max"
proof (induction ops arbitrary: s)
  case (Cons x ops)
  have "\<not> overflowed (run_op x s)" using Cons.prems(1) overflowed_fold [of "run_op x s" ops] by auto
  with Cons show ?case
    by (auto simp: overflowed_run_op take_tabstop_def simp del: run_op.simps split: option.splits)
qed simp

text \<open>Below a bound on the numbers chosen, so many calls cannot reach the largest number.\<close>

definition chosen_below :: "int \<Rightarrow> snippet_op \<Rightarrow> bool" where
  "chosen_below m x \<longleftrightarrow> (case op_number x of Some (Some n) \<Rightarrow> n < m | _ \<Rightarrow> True)"

lemma counter_below_step:
  assumes "chosen_below m x" and "next_tabstop s \<le> m" and "m < int_max" and "\<not> overflowed s"
  shows "next_tabstop (run_op x s) \<le> m + 1 \<and> \<not> overflowed (run_op x s)"
proof (cases "op_number x")
  case None
  with assms show ?thesis by (simp add: next_tabstop_run_op overflowed_run_op del: run_op.simps)
next
  case (Some n)
  with assms show ?thesis
    by (cases n) (simp_all add: next_tabstop_run_op overflowed_run_op take_tabstop_def
        chosen_below_def del: run_op.simps)
qed

lemma counter_below:
  "next_tabstop s \<le> m \<Longrightarrow> list_all (chosen_below m) ops \<Longrightarrow> m + int (length ops) \<le> int_max \<Longrightarrow>
   \<not> overflowed s \<Longrightarrow> \<not> overflowed (fold run_op ops s)"
proof (induction ops arbitrary: s m)
  case (Cons x ops)
  have "list_all (chosen_below (m + 1)) ops"
    using Cons.prems(2) by (auto simp: list_all_iff chosen_below_def split: option.splits)
  moreover have "next_tabstop (run_op x s) \<le> m + 1 \<and> \<not> overflowed (run_op x s)"
    using Cons.prems by (intro counter_below_step) simp_all
  ultimately show ?case using Cons.IH [of "run_op x s" "m + 1"] Cons.prems(3) by simp
qed simp



text \<open>Choosing the largest number counts past it.\<close>

lemma largest_number_overflows: "overflowed (append_tabstop (Some int_max) s)"
  by (simp add: append_tabstop_def take_tabstop_def add_value_def)

section \<open>Reading the text back\<close>

text \<open>
  A reader of one choice list, on the text between the bars: a comma that no backslash
  precedes separates two values.
\<close>

fun split_choice :: "string \<Rightarrow> string \<Rightarrow> string list result" where
  "split_choice cur [] = Inr [cur]"
| "split_choice cur [c] =
     (if c = backslash then Inl InvalidArgument
      else if c = CHR '','' then Inr [cur, []] else Inr [cur @ [c]])"
| "split_choice cur (c # d # s) =
     (if c = backslash then split_choice (cur @ [d]) s
      else if c = CHR '','' then map_sum id (Cons cur) (split_choice [] (d # s))
      else split_choice (cur @ [c]) (d # s))"

lemma split_choice_comma:
  "split_choice cur (CHR '','' # s) = map_sum id (Cons cur) (split_choice [] s)"
  by (cases s) simp_all

lemma split_choice_plain:
  "c \<noteq> backslash \<Longrightarrow> c \<noteq> CHR '','' \<Longrightarrow> split_choice cur (c # s) = split_choice (cur @ [c]) s"
  by (cases s) simp_all

lemma split_choice_escaped:
  "split_choice cur (escape_choice v @ s) = split_choice (cur @ v) s"
proof (induction v arbitrary: cur)
  case Nil
  show ?case by (simp add: escape_choice_def)
next
  case (Cons c v)
  have "split_choice cur (escape_choice_char c @ escape_choice v @ s) =
      split_choice (cur @ [c]) (escape_choice v @ s)"
    by (cases "c = backslash \<or> c = CHR '','' \<or> c = CHR ''|''")
      (auto simp: escape_choice_char_def split_choice_plain)
  with Cons show ?case by (simp add: escape_choice_def)
qed

text \<open>
  The escaped text of a snippet reads back as the text, and the list inside a choice
  reads back as the values that were given, whatever characters they hold; so distinct
  texts have distinct escaped forms.
\<close>

lemma snippet_escape_roundtrip:
  "unescape (escape t) = Inr t \<and>
   split_choice [] (join_comma (v # vs)) = Inr (v # vs) \<and>
   (escape t = escape u \<longleftrightarrow> t = u)"
proof (intro conjI)
  show "unescape (escape t) = Inr t"
    unfolding escape_def by (rule text_esc.dec_enc_all)
  show "escape t = escape u \<longleftrightarrow> t = u"
    unfolding escape_def by (rule text_esc.enc_inject)
  show "split_choice [] (join_comma (v # vs)) = Inr (v # vs)"
  proof (induction vs arbitrary: v)
    case Nil
    show ?case using split_choice_escaped [of "[]" v "[]"] by simp
  next
    case (Cons w vs)
    then show ?case by (simp add: split_choice_escaped split_choice_comma)
  qed
qed

end
