(* ===== verification/MarkdownText.thy ===== *)
theory MarkdownText
  imports Prelude
begin

text \<open>
  The markdown builder of \<^verbatim>\<open>include/util/Markdown.h\<close> and \<^verbatim>\<open>src/util/Markdown.cpp\<close>:
  paragraphs and documents, inline code with a fence longer than any run of backticks in the
  code, and the escaping of one line of plain text. The reference side states what a
  CommonMark reader does with the result: which lines open a block, and what a backslash
  escape stands for.
\<close>

section \<open>Paragraphs and documents\<close>

record md_paragraph =
  buffer :: string

record md_document =
  paragraphs :: "md_paragraph list"

record markup_content =
  markup_kind :: string
  markup_value :: string

abbreviation backtick :: char where
  "backtick \<equiv> CHR 0x60"

abbreviation put :: "string \<Rightarrow> md_paragraph \<Rightarrow> md_paragraph" where
  "put t p \<equiv> p\<lparr>buffer := buffer p @ t\<rparr>"

definition para_append_text :: "string \<Rightarrow> md_paragraph \<Rightarrow> md_paragraph" where
  "para_append_text t p = put t p"

text \<open>The loop of \<^verbatim>\<open>appendCode\<close> over the variables \<open>currentRun\<close> and \<open>maxBackticks\<close>.\<close>

fun max_backticks :: "nat \<Rightarrow> nat \<Rightarrow> string \<Rightarrow> nat" where
  "max_backticks run mx [] = mx"
| "max_backticks run mx (c # s) =
     (if c = backtick then max_backticks (run + 1) (max mx (run + 1)) s
      else max_backticks 0 mx s)"

definition code_delimiter :: "string \<Rightarrow> string" where
  "code_delimiter code = replicate (max_backticks 0 0 code + 1) backtick"

definition para_append_code :: "string \<Rightarrow> md_paragraph \<Rightarrow> md_paragraph" where
  "para_append_code code p =
     (if max_backticks 0 0 code > 0
      then put (code_delimiter code @ '' '' @ code @ '' '' @ code_delimiter code) p
      else put (code_delimiter code @ code @ code_delimiter code) p)"

definition space_before :: "md_paragraph \<Rightarrow> md_paragraph" where
  "space_before p = (if buffer p \<noteq> [] \<and> last (buffer p) \<noteq> CHR '' '' then put '' '' p else p)"

definition para_append_bold :: "string \<Rightarrow> md_paragraph \<Rightarrow> md_paragraph" where
  "para_append_bold t p = put (''**'' @ t @ ''** '') (space_before p)"

text \<open>A negative level asks \<^verbatim>\<open>std::string\<close> for more characters than it can hold.\<close>

definition para_append_header :: "string \<Rightarrow> int \<Rightarrow> md_paragraph \<Rightarrow> md_paragraph result" where
  "para_append_header t level p =
     (if level < 0 then Inl LengthError
      else Inr (put (replicate (nat level) (CHR ''#'') @ '' '' @ t) (space_before p)))"

definition para_append_code_block :: "string \<Rightarrow> md_paragraph \<Rightarrow> md_paragraph" where
  "para_append_code_block code p =
     put (replicate 4 backtick @ ''systemverilog'' @ [newline] @ code @ [newline] @
          replicate 4 backtick) p"

definition para_new_line :: "md_paragraph \<Rightarrow> md_paragraph" where
  "para_new_line p = put (''  '' @ [newline]) p"

definition para_append :: "md_paragraph \<Rightarrow> md_paragraph \<Rightarrow> md_paragraph" where
  "para_append q p = (if buffer p = [] then q else put (buffer q) p)"

definition para_is_empty :: "md_paragraph \<Rightarrow> bool" where
  "para_is_empty p \<longleftrightarrow> buffer p = []"

definition doc_add_paragraph :: "md_paragraph \<Rightarrow> md_document \<Rightarrow> md_document" where
  "doc_add_paragraph p d = d\<lparr>paragraphs := paragraphs d @ [p]\<rparr>"

definition doc_append :: "md_document \<Rightarrow> md_document \<Rightarrow> md_document" where
  "doc_append e d = d\<lparr>paragraphs := paragraphs d @ paragraphs e\<rparr>"

definition doc_is_empty :: "md_document \<Rightarrow> bool" where
  "doc_is_empty d \<longleftrightarrow> list_all para_is_empty (paragraphs d)"

definition separator :: string where
  "separator = [newline, newline] @ ''---'' @ [newline, newline]"

fun doc_build_loop :: "bool \<Rightarrow> md_paragraph list \<Rightarrow> string" where
  "doc_build_loop first [] = []"
| "doc_build_loop first (p # ps) =
     (if para_is_empty p then doc_build_loop first ps
      else (if first then [] else separator) @ buffer p @ doc_build_loop False ps)"

definition doc_build :: "md_document \<Rightarrow> markup_content" where
  "doc_build d = \<lparr>markup_kind = ''markdown'', markup_value = doc_build_loop True (paragraphs d)\<rparr>"

section \<open>Escaping a line of plain text\<close>

definition rtrim :: "string \<Rightarrow> string" where
  "rtrim s = rev (dropWhile is_space (rev s))"

fun tag_attributes :: "string \<Rightarrow> bool" where
  "tag_attributes [] = True"
| "tag_attributes (c # s) =
     (if is_alnum c \<or> is_space c then tag_attributes s
      else if c = CHR ''>'' \<or> starts_with (c # s) ''/>'' then True
      else c = CHR ''='')"

definition looks_like_tag :: "string \<Rightarrow> bool" where
  "looks_like_tag s =
     (case s of
        [] \<Rightarrow> False
      | c # _ \<Rightarrow>
          if c = CHR ''!'' \<or> c = CHR ''?'' \<or> c = CHR ''/'' then True
          else if \<not> is_alpha c then False
          else tag_attributes (dropWhile is_space
                 (dropWhile (\<lambda>d. is_alnum d \<or> d \<in> set ''-_:'') s)))"

definition ruler_length :: "char \<Rightarrow> string \<Rightarrow> string \<Rightarrow> bool \<Rightarrow> nat" where
  "ruler_length c before after starts_line =
     (if \<not> starts_line \<or> before \<noteq> [] then 0
      else if \<not> list_all (\<lambda>d. d = c) (rtrim after) then 0
      else 1 + length (rtrim after))"

definition is_bullet :: "string \<Rightarrow> string \<Rightarrow> bool \<Rightarrow> bool" where
  "is_bullet before after starts_line \<longleftrightarrow>
     starts_line \<and> before = [] \<and> (after = [] \<or> starts_with after '' '')"

definition space_surrounds :: "string \<Rightarrow> string \<Rightarrow> bool" where
  "space_surrounds before after \<longleftrightarrow>
     (after = [] \<or> is_space (hd after)) \<and> (before = [] \<or> is_space (last before))"

definition word_surrounds :: "string \<Rightarrow> string \<Rightarrow> bool" where
  "word_surrounds before after \<longleftrightarrow>
     (after \<noteq> [] \<and> is_alnum (hd after)) \<and> (before \<noteq> [] \<and> is_alnum (last before))"

definition atx_heading :: "string \<Rightarrow> string \<Rightarrow> bool \<Rightarrow> bool" where
  "atx_heading before after starts_line =
     (if \<not> starts_line \<or> before \<noteq> [] then False
      else let rest = dropWhile (\<lambda>d. d = CHR ''#'') after
           in rest = [] \<or> starts_with rest '' '')"

definition entity_reference :: "string \<Rightarrow> bool" where
  "entity_reference after =
     (case find_char (CHR '';'') after of
        None \<Rightarrow> False
      | Some i \<Rightarrow>
          (case take i after of
             d # content \<Rightarrow>
               if d = CHR ''#'' then
                 (case content of
                    x # digits \<Rightarrow>
                      if x = CHR ''x'' \<or> x = CHR ''X'' then list_all is_xdigit digits
                      else list_all is_digit content
                  | [] \<Rightarrow> True)
               else list_all is_alpha (d # content)
           | [] \<Rightarrow> True))"

text \<open>\<^verbatim>\<open>needsLeadingEscapePlaintext\<close>, with the cases in the order of its \<^verbatim>\<open>switch\<close>.\<close>

definition needs_escape :: "char \<Rightarrow> string \<Rightarrow> string \<Rightarrow> bool \<Rightarrow> bool" where
  "needs_escape c before after starts_line =
     (if c = backslash then True
      else if c = backtick then True
      else if c = CHR ''~'' then starts_line \<and> before = [] \<and> starts_with after ''~~''
      else if c = CHR ''#'' then atx_heading before after starts_line
      else if c = CHR '']'' then starts_with after '':'' \<or> starts_with after ''(''
      else if c = CHR ''='' then ruler_length c before after starts_line > 0
      else if c = CHR ''_'' then
        ruler_length c before after starts_line \<ge> 3 \<or>
        \<not> (space_surrounds before after \<or> word_surrounds before after)
      else if c = CHR ''-'' then
        ruler_length c before after starts_line > 0 \<or> is_bullet before after starts_line
      else if c = CHR ''+'' then is_bullet before after starts_line
      else if c = CHR ''*'' then
        is_bullet before after starts_line \<or> ruler_length c before after starts_line \<ge> 3 \<or>
        \<not> space_surrounds before after
      else if c = CHR ''<'' then looks_like_tag after
      else if c = CHR ''>'' then starts_line \<and> before = []
      else if c = CHR ''&'' then entity_reference after
      else if c = CHR ''.'' \<or> c = CHR '')'' then
        starts_line \<and> before \<noteq> [] \<and> list_all is_digit before \<and> starts_with after '' ''
      else False)"

fun escape_loop :: "string \<Rightarrow> string \<Rightarrow> string" where
  "escape_loop before [] = []"
| "escape_loop before (c # after) =
     (if needs_escape c before after True then [backslash] else []) @
     c # escape_loop (before @ [c]) after"

definition escape_markdown_line :: "string \<Rightarrow> string" where
  "escape_markdown_line line = escape_loop [] line"

section \<open>Building\<close>

lemma build_loop_False:
  "doc_build_loop False ps =
     (if list_all para_is_empty ps then [] else separator @ doc_build_loop True ps)"
  by (induction ps) auto

lemma build_loop_append:
  "doc_build_loop True (ps @ qs) =
     (if list_all para_is_empty ps then doc_build_loop True qs
      else if list_all para_is_empty qs then doc_build_loop True ps
      else doc_build_loop True ps @ separator @ doc_build_loop True qs)"
  by (induction ps) (auto simp: build_loop_False)

text \<open>
  Appending a document to another renders both with one separator between them, and
  with none when either has no content: empty paragraphs never leave a stray rule. A
  document renders to nothing exactly when \<^verbatim>\<open>isEmpty\<close> says so.
\<close>

lemma doc_append_build:
  "markup_value (doc_build (doc_append e d)) =
     (if doc_is_empty d then markup_value (doc_build e)
      else if doc_is_empty e then markup_value (doc_build d)
      else markup_value (doc_build d) @ separator @ markup_value (doc_build e)) \<and>
   (markup_value (doc_build d) = [] \<longleftrightarrow> doc_is_empty d)"
proof
  show "markup_value (doc_build d) = [] \<longleftrightarrow> doc_is_empty d"
  proof -
    have "doc_build_loop True ps = [] \<longleftrightarrow> list_all para_is_empty ps" for ps
      by (induction ps) (auto simp: para_is_empty_def)
    then show ?thesis by (simp add: doc_build_def doc_is_empty_def)
  qed
qed (simp add: doc_build_def doc_append_def doc_is_empty_def build_loop_append)

section \<open>Inline code\<close>

lemma max_backticks_ge: "mx \<le> max_backticks run mx s"
  by (induction run mx s rule: max_backticks.induct) auto

lemma max_backticks_prefix:
  "run \<le> mx \<Longrightarrow> run + n \<le> max_backticks run mx (replicate n backtick @ s)"
proof (induction n arbitrary: run mx)
  case 0
  then show ?case using max_backticks_ge [of mx run s] by simp
next
  case (Suc n)
  then show ?case using Suc.IH [of "run + 1" "max mx (run + 1)"] by simp
qed

lemma max_backticks_sublist:
  "run \<le> mx \<Longrightarrow> n \<le> max_backticks run mx (xs @ replicate n backtick @ ys)"
proof (induction xs arbitrary: run mx)
  case Nil
  then show ?case using max_backticks_prefix [of run mx n ys] by simp
next
  case (Cons x xs)
  then show ?case by simp
qed

lemma max_backticks_attained:
  "max_backticks run mx s = mx \<or>
   sublist (replicate (max_backticks run mx s) backtick) (replicate run backtick @ s)"
proof (induction run mx s rule: max_backticks.induct)
  case (2 run mx c s)
  show ?case
  proof (cases "c = backtick")
    case True
    have "replicate (run + 1) backtick @ s = replicate run backtick @ backtick # s"
      by (simp add: replicate_app_Cons_same)
    then show ?thesis
      using 2(1) [OF True] True
      by (auto simp: max_def split: if_splits
          intro!: sublist_append_rightI [of "replicate (run + 1) backtick", simplified])
  next
    case False
    have "sublist s (replicate run backtick @ c # s)"
      by (metis append_Cons append_Nil2 sublist_appendI append_eq_append_conv2)
    then show ?thesis
      using 2(2) [OF False] False by (auto intro: sublist_order.order_trans)
  qed
qed simp

text \<open>
  The delimiter of an inline code span is the shortest run of backticks that does not
  occur in the code: a run of \<open>k\<close> backticks is found in the code exactly when it is
  shorter than the delimiter. So the code cannot close its own span early.
\<close>

lemma code_delimiter_shortest:
  "contains_str code (replicate k backtick) \<longleftrightarrow> k < length (code_delimiter code)"
proof
  assume "contains_str code (replicate k backtick)"
  then obtain xs ys where "code = xs @ replicate k backtick @ ys" by (auto simp: sublist_def)
  then show "k < length (code_delimiter code)"
    using max_backticks_sublist [of 0 0 k xs ys] by (simp add: code_delimiter_def)
next
  assume "k < length (code_delimiter code)"
  then have k: "k \<le> max_backticks 0 0 code" by (simp add: code_delimiter_def)
  have "sublist (replicate (max_backticks 0 0 code) backtick) code"
    using max_backticks_attained [of 0 0 code] by auto
  moreover have "sublist (replicate k backtick) (replicate (max_backticks 0 0 code) backtick)"
    using k by (metis le_add_diff_inverse replicate_add sublist_append_rightI)
  ultimately show "contains_str code (replicate k backtick)"
    by (rule sublist_order.order_trans [rotated])
qed

section \<open>What a markdown reader makes of an escaped line\<close>

definition is_punct :: "char \<Rightarrow> bool" where
  "is_punct c \<longleftrightarrow>
     (33 \<le> byte c \<and> byte c \<le> 47) \<or> (58 \<le> byte c \<and> byte c \<le> 64) \<or>
     (91 \<le> byte c \<and> byte c \<le> 96) \<or> (123 \<le> byte c \<and> byte c \<le> 126)"

text \<open>A backslash before ASCII punctuation stands for the punctuation, any other for itself.\<close>

fun md_unescape :: "string \<Rightarrow> string" where
  "md_unescape (c # d # s) =
     (if c = backslash \<and> is_punct d then d # md_unescape s else c # md_unescape (d # s))"
| "md_unescape s = s"

lemma md_unescape_plain: "c \<noteq> backslash \<Longrightarrow> md_unescape (c # s) = c # md_unescape s"
  by (cases s) simp_all

lemma needs_escape_punct: "needs_escape c before after b \<Longrightarrow> is_punct c"
  by (simp only: needs_escape_def split: if_split_asm; (elim disjE)?; simp add: is_punct_def)

lemma needs_escape_backslash [simp]: "needs_escape backslash before after b"
  by (simp add: needs_escape_def)

lemma md_unescape_loop_append: "md_unescape (escape_loop before l @ t) = l @ md_unescape t"
proof (induction l arbitrary: before)
  case (Cons c l)
  show ?case
  proof (cases "needs_escape c before l True")
    case True
    with Cons show ?thesis by (simp add: needs_escape_punct)
  next
    case False
    then have "c \<noteq> backslash" by auto
    with False Cons show ?thesis by (simp add: md_unescape_plain)
  qed
qed simp

text \<open>
  C25: A markdown reader shows an escaped line as the line it came from: taking every
  backslash escape literally gives the original text back, backslashes included.
\<close>

theorem escape_markdown_roundtrip:
  "md_unescape (escape_markdown_line line @ t) = line @ md_unescape t"
  unfolding escape_markdown_line_def by (rule md_unescape_loop_append)

text \<open>
  Which markers of a block the code takes away, on a line without leading blanks: a heading, a
  bullet or a number and a blank, a quote, a fence, and a line of one ruler character. These are
  not all the starts of CommonMark: see the lines at the end of the theory.
\<close>

definition opens_heading :: "string \<Rightarrow> bool" where
  "opens_heading s \<longleftrightarrow> starts_with s ''#'' \<and>
     (let r = dropWhile (\<lambda>d. d = CHR ''#'') s in r = [] \<or> starts_with r '' '')"

definition opens_bullet :: "string \<Rightarrow> bool" where
  "opens_bullet s \<longleftrightarrow>
     s \<noteq> [] \<and> hd s \<in> set ''-+*'' \<and> (tl s = [] \<or> starts_with (tl s) '' '')"

definition opens_ordered :: "string \<Rightarrow> bool" where
  "opens_ordered s \<longleftrightarrow>
     (let r = dropWhile is_digit s
      in r \<noteq> s \<and> (starts_with r ''. '' \<or> starts_with r '') ''))"

definition opens_fence :: "string \<Rightarrow> bool" where
  "opens_fence s \<longleftrightarrow> starts_with s ''~~~'' \<or> starts_with s (replicate 3 backtick)"

definition opens_rule :: "string \<Rightarrow> bool" where
  "opens_rule s \<longleftrightarrow>
     (let t = rtrim s
      in t \<noteq> [] \<and> list_all (\<lambda>d. d = hd t) t \<and>
         (hd t \<in> set ''=-'' \<or> hd t \<in> set ''*_'' \<and> 3 \<le> length t))"

definition keeps_marker :: "string \<Rightarrow> bool" where
  "keeps_marker s \<longleftrightarrow> opens_heading s \<or> opens_bullet s \<or> opens_ordered s \<or>
     starts_with s ''>'' \<or> opens_fence s \<or> opens_rule s"

text \<open>
  As long as the output has no backslash it is the input, and none of these characters
  needed an escape where it stood.
\<close>

lemma escape_loop_plain_prefix:
  "escape_loop before l = u @ v \<Longrightarrow> backslash \<notin> set u \<Longrightarrow>
   \<exists>l'. l = u @ l' \<and> v = escape_loop (before @ u) l' \<and>
     (\<forall>x c y. u = x @ c # y \<longrightarrow> \<not> needs_escape c (before @ x) (y @ l') True)"
proof (induction u arbitrary: before l)
  case Nil
  then show ?case by simp
next
  case (Cons c u)
  then obtain a where l: "l = c # a" and n: "\<not> needs_escape c before a True"
    and rest: "escape_loop (before @ [c]) a = u @ v"
    by (cases l) (auto split: if_splits)
  from Cons.IH [OF rest] Cons.prems(2) obtain l' where l': "a = u @ l'"
    "v = escape_loop ((before @ [c]) @ u) l'"
    "\<forall>x d y. u = x @ d # y \<longrightarrow> \<not> needs_escape d ((before @ [c]) @ x) (y @ l') True"
    by auto
  have "\<not> needs_escape d (before @ x) (y @ l') True" if "c # u = x @ d # y" for x d y
    using that l'(1) n l'(3) by (cases x) auto
  with l l' show ?case by auto
qed

lemma escape_loop_Nil: "escape_loop before l = [] \<longleftrightarrow> l = []"
  by (cases l) auto

lemma escape_loop_starts:
  "escape_loop before l = c # v \<Longrightarrow> c \<noteq> backslash \<Longrightarrow> \<exists>l'. l = c # l'"
  by (cases l) (auto split: if_splits)

lemma escape_loop_empty_or_space:
  "escape_loop before l = [] \<or> starts_with (escape_loop before l) '' '' \<Longrightarrow>
   l = [] \<or> (\<exists>m. l = CHR '' '' # m)"
  by (cases l) (auto split: if_splits simp: prefix_def)

lemma not_opens_heading: "\<not> opens_heading (escape_loop [] l)"
proof
  assume h: "opens_heading (escape_loop [] l)"
  let ?hash = "\<lambda>d. d = CHR ''#''"
  define u r where "u = takeWhile ?hash (escape_loop [] l)" and "r = dropWhile ?hash (escape_loop [] l)"
  have split: "escape_loop [] l = u @ r" by (simp add: u_def r_def)
  have u: "\<forall>d\<in>set u. d = CHR ''#''" by (auto simp: u_def dest: set_takeWhileD)
  from h have r: "r = [] \<or> starts_with r '' ''"
    by (simp add: opens_heading_def Let_def r_def)
  from h obtain v where "escape_loop [] l = CHR ''#'' # v"
    by (auto simp: opens_heading_def prefix_def)
  then have ne: "u \<noteq> []" by (simp add: u_def)
  from ne u obtain u' where u': "u = CHR ''#'' # u'" by (cases u) auto
  have "backslash \<notin> set u" using u by auto
  from escape_loop_plain_prefix [OF split this] obtain l' where
    l': "r = escape_loop u l'" "\<not> needs_escape (CHR ''#'') [] (u' @ l') True"
    using u' by fastforce
  have "l' = [] \<or> (\<exists>m. l' = CHR '' '' # m)"
    using escape_loop_empty_or_space [of u l'] r l'(1) by simp
  then have l'_stop: "dropWhile ?hash l' = l'" "l' = [] \<or> starts_with l' '' ''" by auto
  have "dropWhile ?hash (u' @ l') = dropWhile ?hash l'"
    by (rule dropWhile_append2) (simp add: u u')
  with l'_stop have "atx_heading [] (u' @ l') True" by (simp add: atx_heading_def Let_def)
  with l'(2) show False by (simp add: needs_escape_def)
qed

lemma not_opens_bullet: "\<not> opens_bullet (escape_loop [] l)"
proof
  assume b: "opens_bullet (escape_loop [] l)"
  then obtain c t where ct: "escape_loop [] l = [c] @ t" "c \<in> set ''-+*''"
    "t = [] \<or> starts_with t '' ''"
    by (cases "escape_loop [] l") (auto simp: opens_bullet_def)
  from ct(2) have "backslash \<notin> set [c]" by auto
  from escape_loop_plain_prefix [OF ct(1) this] obtain l' where
    l': "t = escape_loop [c] l'" "\<not> needs_escape c [] l' True" by fastforce
  have "l' = [] \<or> (\<exists>m. l' = CHR '' '' # m)"
    using escape_loop_empty_or_space [of "[c]" l'] ct(3) l'(1) by simp
  with l'(2) ct(2) show False
    by (auto simp: needs_escape_def is_bullet_def)
qed

lemma not_opens_ordered: "\<not> opens_ordered (escape_loop [] l)"
proof
  assume o: "opens_ordered (escape_loop [] l)"
  define ds where "ds = takeWhile is_digit (escape_loop [] l)"
  from o obtain p v where p: "dropWhile is_digit (escape_loop [] l) = p # CHR '' '' # v"
    "p = CHR ''.'' \<or> p = CHR '')''" "ds \<noteq> []"
    by (auto simp: opens_ordered_def Let_def prefix_def ds_def takeWhile_eq_Nil_iff
        dropWhile_eq_self_iff)
  have ds: "list_all is_digit ds"
    by (auto simp: ds_def list_all_iff dest: set_takeWhileD)
  have split: "escape_loop [] l = (ds @ [p]) @ CHR '' '' # v"
    using takeWhile_dropWhile_id [of is_digit "escape_loop [] l"] p(1) by (simp add: ds_def)
  have "backslash \<notin> set (ds @ [p])"
    using ds p(2) by (auto simp: list_all_iff ctype_defs)
  from escape_loop_plain_prefix [OF split this] obtain l' where
    l': "CHR '' '' # v = escape_loop (ds @ [p]) l'" "\<not> needs_escape p ds l' True" by fastforce
  from escape_loop_starts [OF l'(1) [symmetric]] have "starts_with l' '' ''" by auto
  with l'(2) p(2,3) ds show False by (auto simp: needs_escape_def)
qed

lemma not_opens_quote: "\<not> starts_with (escape_loop [] l) ''>''"
  using escape_loop_plain_prefix [of "[]" l "''>''"]
  by (fastforce simp: prefix_def needs_escape_def)

lemma not_opens_fence: "\<not> opens_fence (escape_loop [] l)"
proof
  assume "opens_fence (escape_loop [] l)"
  then obtain c v where v: "escape_loop [] l = [c, c, c] @ v" "c = CHR ''~'' \<or> c = backtick"
    by (auto simp: opens_fence_def prefix_def numeral_3_eq_3)
  have "backslash \<notin> set [c, c, c]" using v(2) by auto
  from escape_loop_plain_prefix [OF v(1) this] obtain l' where
    "\<not> needs_escape c [] ([c, c] @ l') True" by fastforce
  with v(2) show False by (auto simp: needs_escape_def)
qed

lemma rtrim_split: "\<exists>w. s = rtrim s @ w \<and> list_all is_space w"
proof (intro exI conjI)
  have "rev s = takeWhile is_space (rev s) @ dropWhile is_space (rev s)" by simp
  then show "s = rtrim s @ rev (takeWhile is_space (rev s))"
    unfolding rtrim_def by (metis rev_append rev_rev_ident)
  show "list_all is_space (rev (takeWhile is_space (rev s)))"
    by (auto simp: list_all_iff dest: set_takeWhileD)
qed

lemma rtrim_Cons: "\<not> is_space c \<Longrightarrow> rtrim (c # s) = c # rtrim s"
proof (cases "\<exists>d\<in>set s. \<not> is_space d")
  case True
  then show ?thesis by (auto simp: rtrim_def dropWhile_append1)
next
  case False
  assume "\<not> is_space c"
  moreover have "dropWhile is_space (rev s @ [c]) = dropWhile is_space [c]"
    using False by (intro dropWhile_append2) simp
  moreover have "dropWhile is_space (rev s) = []"
    using False by (simp add: dropWhile_eq_Nil_conv)
  ultimately show ?thesis by (simp add: rtrim_def)
qed

lemma not_opens_rule: "\<not> opens_rule (escape_loop [] l)"
proof
  let ?o = "escape_loop [] l"
  assume h: "opens_rule ?o"
  define t where "t = rtrim ?o"
  from h have t: "t \<noteq> []" "list_all (\<lambda>d. d = hd t) t"
    "hd t \<in> set ''=-'' \<or> hd t \<in> set ''*_'' \<and> 3 \<le> length t"
    by (auto simp: opens_rule_def Let_def t_def)
  obtain w where w: "?o = t @ w" "list_all is_space w"
    unfolding t_def using rtrim_split by blast
  define c where "c = hd t"
  then obtain t' where t': "t = c # t'" using t(1) by (cases t) auto
  have c: "\<not> is_space c" "c \<noteq> backslash" using t(3) by (auto simp: c_def ctype_defs)
  have "backslash \<notin> set (t @ w)"
    using w(2) t(2) c by (auto simp: list_all_iff c_def ctype_defs)
  moreover have "?o = (t @ w) @ []" using w(1) by simp
  ultimately obtain l' where l': "[] = escape_loop (t @ w) l'"
    "\<not> needs_escape c [] ((t' @ w) @ l') True"
    using escape_loop_plain_prefix [of "[]" l "t @ w" "[]"] t' by fastforce
  then have n: "\<not> needs_escape c [] (t' @ w) True"
    by (metis append_Nil2 escape_loop_Nil)
  have "rtrim (t' @ w) = t'"
    using rtrim_Cons [OF c(1), of "t' @ w"] w(1) t' by (simp add: t_def)
  then have "ruler_length c [] (t' @ w) True = length t"
    using t(2) by (simp add: ruler_length_def t')
  with n t(1,3) show False by (auto simp: needs_escape_def c_def [symmetric])
qed

lemma escaped_line_keeps_no_marker: "\<not> keeps_marker (escape_markdown_line line)"
  unfolding keeps_marker_def escape_markdown_line_def
  using not_opens_heading not_opens_bullet not_opens_ordered not_opens_quote not_opens_fence
    not_opens_rule by blast

text \<open>
  Lines CommonMark reads as a block and the code leaves alone: a ruler with blanks between its
  characters, a heading after blanks, a bullet before a tab, and a heading before a tab.
\<close>

lemma unescaped_block_starts:
  "escape_markdown_line ''_ _ _'' = ''_ _ _''"
  "escape_markdown_line '' # x'' = '' # x''"
  "escape_markdown_line [CHR ''-'', CHR 0x09, CHR ''x''] = [CHR ''-'', CHR 0x09, CHR ''x'']"
  "escape_markdown_line [CHR ''#'', CHR 0x09, CHR ''x''] = [CHR ''#'', CHR 0x09, CHR ''x'']"
  by code_simp+

end
