(* ===== verification/TextFormat.thy ===== *)
theory TextFormat
  imports Prelude MarkdownText
begin

text \<open>
  The text formatting of \<^verbatim>\<open>include/util/Formatting.h\<close> and \<^verbatim>\<open>src/util/Formatting.cpp\<close>:
  the in-place string transformations, the display functions composed of them, the escaping
  of invalid UTF-8, the choice of the syntax node to show, and the doc comments of hovers.
  Parameters stand for the slang library: \<open>isws\<close> for its \<^verbatim>\<open>isWhitespace\<close>, the
  string a \<^verbatim>\<open>SyntaxPrinter\<close> printed, \<open>u8len\<close> and \<open>u8dec\<close> for
  \<^verbatim>\<open>utf8Len\<close> and \<^verbatim>\<open>utf8Decode\<close>, and the shape of its syntax tree.
\<close>

section \<open>Transformations of a string\<close>

definition is_single_line :: "string \<Rightarrow> bool" where
  "is_single_line s \<longleftrightarrow> newline \<notin> set s"

definition ltrim :: "string \<Rightarrow> string" where
  "ltrim s = dropWhile is_space s"

definition rtrim_line :: "string \<Rightarrow> string" where
  "rtrim_line s = rev (dropWhile is_space (rev s))"

text \<open>
  \<^verbatim>\<open>stripBlankLines\<close>: the search for a newline runs backwards from the first character
  that is not white space; \<open>k\<close> counts the characters it passes.
\<close>

definition strip_blank_lines :: "(char \<Rightarrow> bool) \<Rightarrow> string \<Rightarrow> string" where
  "strip_blank_lines isws s =
     (let lead = takeWhile isws s
      in case find_char newline (rev lead) of
           None \<Rightarrow> s
         | Some k \<Rightarrow> drop (length lead - k) s)"

text \<open>\<^verbatim>\<open>s.resize(s.size() - 1)\<close>, where the size of an empty string wraps around.\<close>

definition drop_last_char :: "string \<Rightarrow> string result" where
  "drop_last_char s = (if s = [] then Inl LengthError else Inr (butlast s))"

text \<open>\<^verbatim>\<open>shiftIndent\<close>: the first pass, with \<open>None\<close> for \<^verbatim>\<open>SIZE_MAX\<close>.\<close>

fun min_indent :: "char \<Rightarrow> nat option \<Rightarrow> string list \<Rightarrow> nat option" where
  "min_indent ch m [] = m"
| "min_indent ch m (l # ls) =
     (if l = [] then min_indent ch m ls
      else let indent = length (takeWhile (\<lambda>c. c = ch) l)
           in if indent < length l
              then min_indent ch (Some (case m of None \<Rightarrow> indent | Some k \<Rightarrow> min k indent)) ls
              else min_indent ch m ls)"

text \<open>The inner loop of the second pass removes at most \<open>n\<close> characters.\<close>

fun strip_upto :: "char \<Rightarrow> nat \<Rightarrow> string \<Rightarrow> string" where
  "strip_upto ch (Suc n) (c # l) = (if c = ch then strip_upto ch n l else c # l)"
| "strip_upto ch n l = l"

fun shift_lines :: "char \<Rightarrow> nat \<Rightarrow> string list \<Rightarrow> string" where
  "shift_lines ch n [] = []"
| "shift_lines ch n (l # ls) =
     (if l = [] then shift_lines ch n ls
      else strip_upto ch n l @ [newline] @ shift_lines ch n ls)"

definition shift_indent :: "string \<Rightarrow> string result" where
  "shift_indent s =
     (if s = [] then Inr s
      else let ch = (if tab \<in> set s then tab else CHR '' '')
           in if is_single_line s then Inr (ltrim s)
              else case min_indent ch None (tl (getlines s)) of
                     None \<Rightarrow> Inr s
                   | Some n \<Rightarrow>
                       if n = 0 then Inr s
                       else drop_last_char (shift_lines ch n (getlines s)))"

text \<open>\<^verbatim>\<open>squashSpaces\<close>\<close>

abbreviation is_blank :: "char \<Rightarrow> bool" where
  "is_blank c \<equiv> c = CHR '' '' \<or> c = tab"

fun squash_run :: "bool \<Rightarrow> string \<Rightarrow> string" where
  "squash_run in_spaces [] = []"
| "squash_run in_spaces (c # l) =
     (if c = CHR '' '' then (if in_spaces then [] else [c]) @ squash_run True l
      else c # squash_run False l)"

definition squash_line :: "string \<Rightarrow> string" where
  "squash_line l = takeWhile is_blank l @ squash_run False (dropWhile is_blank l)"

fun squash_lines :: "string list \<Rightarrow> string" where
  "squash_lines [] = []"
| "squash_lines (l # ls) =
     (if l = [] then squash_lines ls else squash_line l @ [newline] @ squash_lines ls)"

definition squash_spaces :: "string \<Rightarrow> string result" where
  "squash_spaces s = (if s = [] then Inr s else drop_last_char (squash_lines (getlines s)))"

text \<open>\<^verbatim>\<open>toCamelCase\<close>: the loop runs over the characters after the first.\<close>

fun camel_tail :: "string \<Rightarrow> string" where
  "camel_tail [] = []"
| "camel_tail [c] = [if is_upper c then to_lower c else c]"
| "camel_tail (c # d # s) =
     (if is_upper c then if is_upper d then to_lower c # camel_tail (d # s) else c # d # s
      else c # d # s)"

fun to_camel_case :: "string \<Rightarrow> string" where
  "to_camel_case [] = []"
| "to_camel_case (c # s) = to_lower c # camel_tail s"

section \<open>Invalid UTF-8\<close>

text \<open>
  \<open>u8len c\<close> is the sequence length the lead byte announces (0 for none);
  \<open>u8dec bs\<close> decodes a buffer of four bytes, padded with zeros: whether it is in
  error, and the length it decoded.
\<close>

definition valid_utf8_length ::
    "(char \<Rightarrow> nat) \<Rightarrow> (string \<Rightarrow> bool \<times> nat) \<Rightarrow> string \<Rightarrow> nat" where
  "valid_utf8_length u8len u8dec s =
     (case s of
        [] \<Rightarrow> 0
      | c # _ \<Rightarrow>
          if u8len c = 0 \<or> length s < u8len c then 0
          else let (bad, n) = u8dec (take 4 (s @ replicate 4 (CHR 0x00)))
               in if bad then 0 else n)"

definition lower_hex :: "nat \<Rightarrow> char" where
  "lower_hex n = ''0123456789abcdef'' ! n"

definition hex_escape :: "char \<Rightarrow> string" where
  "hex_escape c = [backslash, CHR ''x'', lower_hex (byte c div 16), lower_hex (byte c mod 16)]"

function escape_invalid_utf8 ::
    "(char \<Rightarrow> nat) \<Rightarrow> (string \<Rightarrow> bool \<times> nat) \<Rightarrow> string \<Rightarrow> string" where
  "escape_invalid_utf8 u8len u8dec s =
     (if s = [] then []
      else let n = valid_utf8_length u8len u8dec s
           in if 0 < n then take n s @ escape_invalid_utf8 u8len u8dec (drop n s)
              else hex_escape (hd s) @ escape_invalid_utf8 u8len u8dec (tl s))"
  by pat_completeness auto
termination
  by (relation "measure (\<lambda>(u8len, u8dec, s). length s)") auto

declare escape_invalid_utf8.simps [simp del]

function is_valid_utf8 ::
    "(char \<Rightarrow> nat) \<Rightarrow> (string \<Rightarrow> bool \<times> nat) \<Rightarrow> string \<Rightarrow> bool" where
  "is_valid_utf8 u8len u8dec s =
     (if s = [] then True
      else let n = valid_utf8_length u8len u8dec s
           in if n = 0 then False else is_valid_utf8 u8len u8dec (drop n s))"
  by pat_completeness auto
termination
  by (relation "measure (\<lambda>(u8len, u8dec, s). length s)") auto

declare is_valid_utf8.simps [simp del]

text \<open>What the server asks of a constant value of the library.\<close>

record constant_value =
  is_integer :: bool
  bit_width :: nat
  has_unknown :: bool
  is_true :: bool
  is_string :: bool
  string_value :: string
  printed_value :: string

definition format_constant_value ::
    "(char \<Rightarrow> nat) \<Rightarrow> (string \<Rightarrow> bool \<times> nat) \<Rightarrow> constant_value \<Rightarrow> string" where
  "format_constant_value u8len u8dec v =
     (if is_integer v \<and> bit_width v = 1 \<and> \<not> has_unknown v then
        if is_true v then ''1'' else ''0''
      else if is_string v then
        if is_valid_utf8 u8len u8dec (string_value v) then printed_value v
        else escape_invalid_utf8 u8len u8dec (string_value v)
      else printed_value v)"

section \<open>Display of printed syntax\<close>

definition detail_format :: "(char \<Rightarrow> bool) \<Rightarrow> string \<Rightarrow> string result" where
  "detail_format isws printed =
     map_sum id ltrim (squash_spaces (strip_blank_lines isws printed))"

definition sv_code_block_string ::
    "(char \<Rightarrow> nat) \<Rightarrow> (string \<Rightarrow> bool \<times> nat) \<Rightarrow> (char \<Rightarrow> bool) \<Rightarrow> string \<Rightarrow> string result" where
  "sv_code_block_string u8len u8dec isws code =
     map_sum id
       (\<lambda>res. replicate 4 backtick @ ''systemverilog'' @ [newline] @ res @ [newline] @
              replicate 4 backtick)
       (shift_indent (strip_blank_lines isws (escape_invalid_utf8 u8len u8dec code)))"

definition format_doc_comment :: "(char \<Rightarrow> bool) \<Rightarrow> string \<Rightarrow> string result" where
  "format_doc_comment isws printed =
     (if printed = [] then Inr []
      else map_sum id (\<lambda>res. rtrim_line res @ [newline])
             (shift_indent (strip_blank_lines isws printed)))"

definition format_code :: "(char \<Rightarrow> bool) \<Rightarrow> string \<Rightarrow> string result" where
  "format_code isws printed =
     bind_result (if is_single_line printed then squash_spaces printed else Inr printed)
       (\<lambda>res. shift_indent (strip_blank_lines isws res))"

definition format_code_with_leading_comments :: "(char \<Rightarrow> bool) \<Rightarrow> string \<Rightarrow> string result" where
  "format_code_with_leading_comments isws printed = shift_indent (strip_blank_lines isws printed)"

section \<open>When the transformations can throw\<close>

lemma squash_line_nonempty: "l \<noteq> [] \<Longrightarrow> squash_line l @ t \<noteq> []"
  by (cases l) (auto simp: squash_line_def)

lemma squash_lines_Nil: "squash_lines ls = [] \<longleftrightarrow> (\<forall>l\<in>set ls. l = [])"
  by (induction ls) auto

text \<open>
  \<^verbatim>\<open>squashSpaces\<close> throws exactly on a string that is not empty and consists of
  newlines only: every line is skipped, and the last newline is taken off an empty buffer,
  whose size wraps around.
\<close>

lemma squash_spaces_throws:
  "squash_spaces s = Inl e \<longleftrightarrow> e = LengthError \<and> s \<noteq> [] \<and> set s \<subseteq> {newline}"
proof -
  have "squash_lines (getlines s) = [] \<longleftrightarrow> set s \<subseteq> {newline}"
    by (simp only: squash_lines_Nil getlines_all_empty)
  then show ?thesis by (auto simp only: squash_spaces_def drop_last_char_def split: if_splits)
qed

lemma squash_spaces_total:
  "s = [] \<or> \<not> set s \<subseteq> {newline} \<Longrightarrow> \<exists>t. squash_spaces s = Inr t"
  unfolding squash_spaces_def drop_last_char_def squash_lines_Nil getlines_all_empty by auto

lemma min_indent_Some:
  "min_indent ch m ls = Some n \<Longrightarrow> m = Some n \<or> (\<exists>l\<in>set ls. l \<noteq> [] \<and> n < length l)"
proof (induction ch m ls rule: min_indent.induct)
  case (2 ch m l ls)
  show ?case
  proof (cases "l \<noteq> [] \<and> length (takeWhile (\<lambda>c. c = ch) l) < length l")
    case True
    with 2 show ?thesis
      by (fastforce simp: Let_def min_def split: option.splits if_splits)
  next
    case False
    with 2 show ?thesis by (auto simp: Let_def split: if_splits)
  qed
qed simp

lemma shift_lines_Nil: "shift_lines ch n ls = [] \<longleftrightarrow> (\<forall>l\<in>set ls. l = [])"
  by (induction ls) auto

lemma shift_indent_total: "\<exists>t. shift_indent s = Inr t"
proof (cases "min_indent (if tab \<in> set s then tab else CHR '' '') None (tl (getlines s))")
  case None
  then show ?thesis by (auto simp: shift_indent_def Let_def)
next
  case (Some n)
  with min_indent_Some [OF Some] obtain l where "l \<in> set (tl (getlines s))" "l \<noteq> []" by auto
  then have "\<not> (\<forall>l\<in>set (getlines s). l = [])" using set_tl_subset [of "getlines s"] by auto
  then have "shift_lines ch n (getlines s) \<noteq> []" for ch by (simp only: shift_lines_Nil) simp
  with Some show ?thesis by (simp add: shift_indent_def Let_def drop_last_char_def)
qed

lemma strip_blank_lines_cases:
  assumes "isws newline"
  shows "strip_blank_lines isws s = [] \<or> \<not> set (strip_blank_lines isws s) \<subseteq> {newline}"
proof -
  define lead rest where "lead = takeWhile isws s" and "rest = dropWhile isws s"
  have s: "s = lead @ rest" by (simp add: lead_def rest_def)
  show ?thesis
  proof (cases "rest = []")
    case False
    then have "hd rest \<noteq> newline" "hd rest \<in> set rest"
      using assms hd_dropWhile [of isws s] by (auto simp: rest_def)
    moreover have "set rest \<subseteq> set (strip_blank_lines isws s)"
      unfolding strip_blank_lines_def Let_def lead_def [symmetric]
      by (auto simp: s split: option.splits)
    ultimately show ?thesis by blast
  next
    case True
    show ?thesis
    proof (cases "find_char newline (rev lead)")
      case None
      then have "newline \<notin> set s" using s True by (simp add: find_char_None)
      with None show ?thesis
        unfolding strip_blank_lines_def Let_def lead_def [symmetric] by (cases s) auto
    next
      case (Some k)
      let ?t = "drop (length lead - k) lead"
      from find_char_Some [OF Some] have "newline \<notin> set ?t" "k < length lead"
        by (auto simp: rev_take [symmetric] take_rev)
      then have "?t = [] \<or> \<not> set ?t \<subseteq> {newline}" by (cases ?t) auto
      with Some True show ?thesis
        unfolding strip_blank_lines_def Let_def lead_def [symmetric] by (simp add: s)
    qed
  qed
qed

text \<open>
  None of the display functions throws, whatever the printer produced:
  \<^verbatim>\<open>detailFormat\<close> squashes only after leading blank lines are gone,
  \<^verbatim>\<open>formatCode\<close> squashes single lines only, and the shift of the indentation never
  empties the text. It rests on the library taking a newline as white space.
\<close>

lemma display_functions_total:
  assumes "isws newline"
  shows "(\<exists>t. detail_format isws printed = Inr t) \<and> (\<exists>t. format_code isws printed = Inr t) \<and>
    (\<exists>t. format_doc_comment isws printed = Inr t) \<and>
    (\<exists>t. sv_code_block_string u8len u8dec isws printed = Inr t)"
proof (intro conjI)
  from squash_spaces_total [OF strip_blank_lines_cases [of isws, OF assms, of printed]]
  show "\<exists>t. detail_format isws printed = Inr t"
    by (metis detail_format_def map_sum.simps(2))
  have "\<exists>r. squash_spaces printed = Inr r" if "is_single_line printed"
    using that by (intro squash_spaces_total) (cases printed, auto simp: is_single_line_def)
  then show "\<exists>t. format_code isws printed = Inr t"
    using shift_indent_total by (auto simp: format_code_def)
  obtain r where "shift_indent (strip_blank_lines isws printed) = Inr r"
    using shift_indent_total by blast
  then show "\<exists>t. format_doc_comment isws printed = Inr t"
    by (simp add: format_doc_comment_def)
  obtain r' where
    "shift_indent (strip_blank_lines isws (escape_invalid_utf8 u8len u8dec printed)) = Inr r'"
    using shift_indent_total by blast
  then show "\<exists>t. sv_code_block_string u8len u8dec isws printed = Inr t"
    by (simp add: sv_code_block_string_def)
qed

lemma display_functions_total_witness:
  "(\<exists>t. detail_format is_space [newline, newline] = Inr t) \<and>
   (\<exists>t. format_code is_space [newline, newline] = Inr t) \<and>
   (\<exists>t. format_doc_comment is_space [newline, newline] = Inr t) \<and>
   (\<exists>t. sv_code_block_string (\<lambda>c. 1) (\<lambda>bs. (False, 1)) is_space [newline, newline] = Inr t)"
  by (rule display_functions_total) simp

section \<open>What the transformations keep\<close>

lemma min_indent_le:
  "min_indent ch m ls = Some n \<Longrightarrow>
   (case m of None \<Rightarrow> True | Some k \<Rightarrow> n \<le> k) \<and>
   (\<forall>l\<in>set ls. takeWhile (\<lambda>c. c = ch) l = l \<or> n \<le> length (takeWhile (\<lambda>c. c = ch) l))"
proof (induction ch m ls rule: min_indent.induct)
  case (2 ch m l ls)
  show ?case
  proof (cases "l \<noteq> [] \<and> length (takeWhile (\<lambda>c. c = ch) l) < length l")
    case True
    with 2 show ?thesis by (force simp: Let_def split: option.splits)
  next
    case False
    then have "takeWhile (\<lambda>c. c = ch) l = l"
      using takeWhile_eq_take [of "\<lambda>c. c = ch" l] by auto
    moreover have "min_indent ch m (l # ls) = min_indent ch m ls"
      using False by (auto simp: Let_def)
    moreover have "min_indent ch m ls = Some n \<Longrightarrow>
       (case m of None \<Rightarrow> True | Some k \<Rightarrow> n \<le> k) \<and>
       (\<forall>l\<in>set ls. takeWhile (\<lambda>c. c = ch) l = l \<or> n \<le> length (takeWhile (\<lambda>c. c = ch) l))"
      using 2(1,3) False by (cases "l = []") simp_all
    ultimately show ?thesis using 2(4) by (simp del: takeWhile_eq_all_conv)
  qed
qed (simp split: option.splits)

lemma strip_upto_drop:
  "takeWhile (\<lambda>c. c = ch) l = l \<or> n \<le> length (takeWhile (\<lambda>c. c = ch) l) \<Longrightarrow>
   strip_upto ch n l = drop n l"
  by (induction ch n l rule: strip_upto.induct) (auto split: if_splits)

lemma shift_lines_join:
  "\<exists>l\<in>set ls. l \<noteq> [] \<Longrightarrow>
   drop_last_char (shift_lines ch n ls) =
     Inr (join_lines (map (strip_upto ch n) (filter (\<lambda>l. l \<noteq> []) ls)))"
proof -
  assume ne: "\<exists>l\<in>set ls. l \<noteq> []"
  have "shift_lines ch n ls =
      (if \<forall>l\<in>set ls. l = [] then []
       else join_lines (map (strip_upto ch n) (filter (\<lambda>l. l \<noteq> []) ls)) @ [newline])"
  proof (induction ls)
    case (Cons l ls)
    have "filter (\<lambda>l. l \<noteq> []) ls = [] \<longleftrightarrow> (\<forall>l\<in>set ls. l = [])"
      by (simp add: filter_empty_conv)
    with Cons show ?case
      by (cases "filter (\<lambda>l. l \<noteq> []) ls") auto
  qed simp
  with ne show ?thesis by (auto simp: drop_last_char_def)
qed

text \<open>
  What \<^verbatim>\<open>shiftIndent\<close> returns for a text of several lines whose lines after the first
  share an indentation of \<open>n\<close>: each of them loses exactly its first \<open>n\<close>
  characters, so they keep their relative indentation; the first line loses at most as many;
  and every empty line is gone, although the comment at this place says that empty lines are
  kept as they are.
\<close>

lemma shift_indent_result:
  assumes "newline \<in> set s" and "min_indent ch None (tl (getlines s)) = Some n" and "0 < n"
    and "ch = (if tab \<in> set s then tab else CHR '' '')"
  shows "shift_indent s =
     Inr (join_lines (map (strip_upto ch n) (filter (\<lambda>l. l \<noteq> []) [hd (getlines s)]) @
                      map (drop n) (filter (\<lambda>l. l \<noteq> []) (tl (getlines s)))))"
proof -
  have s: "s \<noteq> []" using assms(1) by auto
  then have ls: "getlines s = hd (getlines s) # tl (getlines s)"
    by (subst (1 2 3) getlines.simps) simp
  from min_indent_Some [OF assms(2)] obtain l where l: "l \<in> set (tl (getlines s))" "l \<noteq> []"
    by auto
  have "\<forall>l\<in>set (tl (getlines s)). strip_upto ch n l = drop n l"
    using min_indent_le [OF assms(2)] strip_upto_drop by blast
  then have "map (strip_upto ch n) (filter (\<lambda>l. l \<noteq> []) (tl (getlines s))) =
      map (drop n) (filter (\<lambda>l. l \<noteq> []) (tl (getlines s)))"
    by simp
  then have "map (strip_upto ch n) (filter (\<lambda>l. l \<noteq> []) (getlines s)) =
      map (strip_upto ch n) (filter (\<lambda>l. l \<noteq> []) [hd (getlines s)]) @
      map (drop n) (filter (\<lambda>l. l \<noteq> []) (tl (getlines s)))"
    by (subst ls) simp
  moreover have "shift_indent s = drop_last_char (shift_lines ch n (getlines s))"
    using s assms by (simp add: shift_indent_def Let_def is_single_line_def)
  moreover have "\<exists>l\<in>set (getlines s). l \<noteq> []"
    using l set_tl_subset [of "getlines s"] by blast
  ultimately show ?thesis by (simp only: shift_lines_join)
qed

lemma shift_example_lines:
  "getlines (''m'' @ newline # newline # ''   a'' @ newline # ''  b'') = [''m'', [], ''   a'', ''  b'']"
  using getlines_line [of "''m''" "newline # ''   a'' @ newline # ''  b''"]
    getlines_line [of "[]" "''   a'' @ newline # ''  b''"]
    getlines_line [of "''   a''" "''  b''"] getlines_last [of "''  b''"]
  by simp

lemma shift_indent_result_witness:
  "shift_indent (''m'' @ newline # newline # ''   a'' @ newline # ''  b'') =
     Inr (''m'' @ newline # '' a'' @ newline # ''b'')"
  using shift_indent_result [of "''m'' @ newline # newline # ''   a'' @ newline # ''  b''"
      "CHR '' ''" 2]
  by (simp add: shift_example_lines [simplified] numeral_2_eq_2)

fun no_double_space :: "string \<Rightarrow> bool" where
  "no_double_space (c # d # s) \<longleftrightarrow> \<not> (c = CHR '' '' \<and> d = CHR '' '') \<and> no_double_space (d # s)"
| "no_double_space s \<longleftrightarrow> True"

lemma squash_run_spaces:
  "no_double_space (squash_run b l) \<and> (b \<longrightarrow> \<not> starts_with (squash_run b l) '' '')"
proof (induction b l rule: squash_run.induct)
  case (2 b c l)
  show ?case
  proof (cases "c = CHR '' ''")
    case True
    with 2(1) show ?thesis by (cases "squash_run True l") auto
  next
    case False
    with 2(2) show ?thesis by (cases "squash_run False l") auto
  qed
qed simp

lemma squash_run_filter:
  "filter (\<lambda>c. c \<noteq> CHR '' '' \<and> c \<noteq> newline) (squash_run b l) =
   filter (\<lambda>c. c \<noteq> CHR '' '' \<and> c \<noteq> newline) l"
  by (induction b l rule: squash_run.induct) auto

lemma squash_line_filter:
  "filter (\<lambda>c. c \<noteq> CHR '' '' \<and> c \<noteq> newline) (squash_line l) =
   filter (\<lambda>c. c \<noteq> CHR '' '' \<and> c \<noteq> newline) l"
  unfolding squash_line_def filter_append squash_run_filter
  by (metis filter_append takeWhile_dropWhile_id)

lemma dropWhile_squash_line:
  "dropWhile is_blank (squash_line l) = squash_run False (dropWhile is_blank l)"
proof (cases "dropWhile is_blank l")
  case Nil
  then have "takeWhile is_blank l = l" by (metis append_Nil2 takeWhile_dropWhile_id)
  then show ?thesis by (simp only: squash_line_def Nil squash_run.simps append_Nil2)
next
  case (Cons c t)
  then have "\<not> is_blank c" using hd_dropWhile [of is_blank l] by simp
  moreover have "\<forall>x\<in>set (takeWhile is_blank l). is_blank x" by (auto dest: set_takeWhileD)
  ultimately show ?thesis
    unfolding squash_line_def Cons
    by (subst dropWhile_append2) auto
qed

lemma squash_lines_join:
  "squash_lines ls =
     (if \<forall>l\<in>set ls. l = [] then []
      else join_lines (map squash_line (filter (\<lambda>l. l \<noteq> []) ls)) @ [newline])"
proof (induction ls)
  case (Cons l ls)
  have "filter (\<lambda>l. l \<noteq> []) ls = [] \<longleftrightarrow> (\<forall>l\<in>set ls. l = [])"
    by (simp add: filter_empty_conv)
  with Cons show ?case by (cases "filter (\<lambda>l. l \<noteq> []) ls") auto
qed simp

lemma set_squash_line: "set (squash_line l) \<subseteq> set l"
proof -
  have "set (squash_run b l) \<subseteq> set l" for b l
    by (induction b l rule: squash_run.induct) auto
  from this [of False "dropWhile is_blank l"] show ?thesis
    unfolding squash_line_def set_append
    by (auto dest: set_takeWhileD) (meson set_dropWhileD subsetD)
qed

lemma getlines_squash:
  assumes "s \<noteq> []" "squash_spaces s = Inr t"
  shows "getlines t = map squash_line (filter (\<lambda>l. l \<noteq> []) (getlines s))"
proof -
  let ?ls = "map squash_line (filter (\<lambda>l. l \<noteq> []) (getlines s))"
  have "t = join_lines ?ls"
    using assms by (auto simp: squash_spaces_def drop_last_char_def squash_lines_join split: if_splits)
  moreover have "\<forall>l\<in>set ?ls. newline \<notin> set l \<and> l \<noteq> []"
    using getlines_no_newline [of _ s] set_squash_line squash_line_nonempty [of _ "[]"] by fastforce
  ultimately show ?thesis by (simp only: getlines_join_lines)
qed

text \<open>
  \<^verbatim>\<open>squashSpaces\<close> only removes spaces and empty lines: every other character
  stays, in order; and in the result no line has two spaces in a row after its leading
  white space.
\<close>

lemma squash_spaces_result:
  assumes "squash_spaces s = Inr t"
  shows "filter (\<lambda>c. c \<noteq> CHR '' '' \<and> c \<noteq> newline) t =
       filter (\<lambda>c. c \<noteq> CHR '' '' \<and> c \<noteq> newline) s \<and>
     list_all (\<lambda>l. no_double_space (dropWhile is_blank l)) (getlines t)"
proof (cases "s = []")
  case True
  with assms show ?thesis by (simp add: squash_spaces_def)
next
  case False
  let ?keep = "\<lambda>c. c \<noteq> CHR '' '' \<and> c \<noteq> newline"
  note ls = getlines_squash [OF False assms]
  have flt: "filter ?keep u = concat (map (filter ?keep) (getlines u))" for u
  proof -
    have "filter ?keep u = filter ?keep (filter (\<lambda>c. c \<noteq> newline) u)"
      unfolding filter_filter by (rule filter_cong) auto
    then show ?thesis by (simp only: getlines_concat [symmetric] filter_concat)
  qed
  have "concat (map (filter ?keep) (map squash_line (filter (\<lambda>l. l \<noteq> []) xs))) =
      concat (map (filter ?keep) xs)" for xs
    by (induction xs) (auto simp: squash_line_filter)
  then have "filter ?keep t = filter ?keep s" by (simp only: flt [of t] flt [of s] ls)
  moreover have "list_all (\<lambda>l. no_double_space (dropWhile is_blank l)) (getlines t)"
    using squash_run_spaces by (auto simp: ls list_all_iff dropWhile_squash_line)
  ultimately show ?thesis by blast
qed

lemma squash_spaces_result_witness:
  "filter (\<lambda>c. c \<noteq> CHR '' '' \<and> c \<noteq> newline) ''  a b'' =
     filter (\<lambda>c. c \<noteq> CHR '' '' \<and> c \<noteq> newline) ''  a   b'' \<and>
   list_all (\<lambda>l. no_double_space (dropWhile is_blank l)) (getlines ''  a b'')"
  by (rule squash_spaces_result)
    (simp add: squash_spaces_def getlines_last squash_line_def drop_last_char_def)

section \<open>Camel case\<close>

lemma camel_tail_camel_tail:
  "\<not> is_upper c \<Longrightarrow> camel_tail (c # s) = c # s"
  by (cases s) simp_all

lemma camel_tail_idem: "camel_tail (camel_tail s) = camel_tail s"
proof (induction s rule: camel_tail.induct)
  case (3 c d s)
  show ?case
  proof (cases "is_upper c \<and> is_upper d")
    case True
    then show ?thesis by (simp add: camel_tail_camel_tail)
  next
    case False
    then show ?thesis by auto
  qed
qed simp_all

lemma camel_tail_lower: "map to_lower (camel_tail s) = map to_lower s"
  by (induction s rule: camel_tail.induct) auto

text \<open>
  \<^verbatim>\<open>toCamelCase\<close> changes nothing but the case of letters, its first character is
  not upper case, and applying it twice is the same as applying it once.
\<close>

lemma to_camel_case_idem:
  "map to_lower (to_camel_case s) = map to_lower s \<and>
   (case to_camel_case s of [] \<Rightarrow> s = [] | c # _ \<Rightarrow> \<not> is_upper c) \<and>
   to_camel_case (to_camel_case s) = to_camel_case s"
  by (cases s) (simp_all add: camel_tail_lower camel_tail_idem)

section \<open>Valid text is not escaped, invalid text is\<close>

lemma length_escape_invalid_utf8:
  "length s \<le> length (escape_invalid_utf8 u8len u8dec s)"
proof (induction u8len u8dec s rule: escape_invalid_utf8.induct)
  case (1 u8len u8dec s)
  show ?case
  proof (cases "s = []")
    case False
    with 1 show ?thesis
      by (subst escape_invalid_utf8.simps)
        (auto simp: Let_def hex_escape_def min_def)
  qed (simp add: escape_invalid_utf8.simps)
qed

text \<open>
  \<^verbatim>\<open>escapeInvalidUtf8\<close> leaves a string alone exactly when \<^verbatim>\<open>isValidUtf8\<close>
  accepts it, whatever the decoder of the library says about each sequence: the two loops
  agree on which bytes are part of a valid sequence.
\<close>

lemma escape_invalid_utf8_iff_valid:
  "escape_invalid_utf8 u8len u8dec s = s \<longleftrightarrow> is_valid_utf8 u8len u8dec s"
proof (induction u8len u8dec s rule: is_valid_utf8.induct)
  case (1 u8len u8dec s)
  show ?case
  proof (cases "s = []")
    case True
    then show ?thesis by (simp add: escape_invalid_utf8.simps is_valid_utf8.simps)
  next
    case False
    let ?n = "valid_utf8_length u8len u8dec s"
    show ?thesis
    proof (cases "?n = 0")
      case True
      have "length s < length (hex_escape (hd s) @ escape_invalid_utf8 u8len u8dec (tl s))"
        using length_escape_invalid_utf8 [of "tl s" u8len u8dec] by (simp add: hex_escape_def)
      moreover have "escape_invalid_utf8 u8len u8dec s =
          hex_escape (hd s) @ escape_invalid_utf8 u8len u8dec (tl s)"
        using False True by (subst escape_invalid_utf8.simps) simp
      ultimately have "escape_invalid_utf8 u8len u8dec s \<noteq> s" by (metis less_irrefl)
      with False True show ?thesis by (simp add: is_valid_utf8.simps [of u8len u8dec s])
    next
      case n: False
      have "escape_invalid_utf8 u8len u8dec s =
          take ?n s @ escape_invalid_utf8 u8len u8dec (drop ?n s)"
        using False n by (subst escape_invalid_utf8.simps) (simp add: Let_def)
      moreover have "take ?n s @ t = s \<longleftrightarrow> t = drop ?n s" for t
        by (metis append_take_drop_id same_append_eq)
      ultimately show ?thesis
        using 1 [OF False refl n] False n by (simp add: is_valid_utf8.simps [of u8len u8dec s])
    qed
  qed
qed

end
