(* ===== verification/SlangTypes.thy ===== *)
theory SlangTypes
  imports Main
begin

text \<open>
  Data of the slang library that the server passes around and compares: the kinds of syntax
  nodes, tokens and trivia the modelled code names, with an \<open>Other\<close> constructor for
  all others.
\<close>

datatype syntax_kind =
    DefineDirective | ModuleDeclaration | ProgramDeclaration | PackageDeclaration
  | InterfaceDeclaration | CheckerDeclaration | ClassDeclaration
  | FunctionDeclaration | TaskDeclaration | Declarator | HierarchicalInstance | EnumType
  | TypeAssignment | TypedefDeclaration
  | MacroUsage | InvocationExpression | HierarchyInstantiation | ClassName
  | AssignmentPatternExpression | ParameterDeclaration | TypeParameterDeclaration
  | OrderedPortConnection | NamedPortConnection | OrderedArgument | NamedArgument
  | OrderedParamAssignment | NamedParamAssignment | ConditionalExpression | ConditionalStatement
  | ParenthesizedExpression | ExpressionStatement | EqualsValueClause
  | MacroActualArgument | MacroActualArgumentList
  | AnsiPortList | NonAnsiPortList | WildcardPortList | ImplicitAnsiPort | PortDeclaration
  | GenerateBlock | GenerateRegion | NamedConditionalDirectiveExpression
  | AlwaysBlock | AlwaysCombBlock | AlwaysFFBlock | AlwaysLatchBlock | InitialBlock | FinalBlock
  | SequentialBlockStatement | ParallelBlockStatement
  | OtherSyntax nat

datatype token_kind =
    IdentifierToken | SystemIdentifierToken | DirectiveToken | MacroUsageToken | PlaceholderToken
  | DollarToken | OpenParenthesisToken | HashToken | ColonToken | DoubleColonToken | DotToken
  | CommaToken | SemicolonToken | LocalParamKeyword | OtherToken nat

datatype blank_kind = Whitespace | EndOfLine | OtherTrivia nat

end
