(* ===== verification/DocComment.thy ===== *)
theory DocComment
  imports Prelude SlangTypes MarkdownText TextFormat
begin

text \<open>
  The part of \<^verbatim>\<open>src/util/Formatting.cpp\<close> that looks at syntax nodes: which node a hover
  shows, where the doc comment before a node starts, and the text made of it; and the type
  strings. A token's trivia are data of the slang library, given as their kind and raw text;
  a node is given by its kind, parent and module header.
\<close>

section \<open>The node to display\<close>

text \<open>
  \<^verbatim>\<open>selectDisplayNode\<close>: the result is \<open>None\<close> where the code would follow the null
  parent of a root node.
\<close>

definition display_base ::
    "('n \<Rightarrow> syntax_kind) \<Rightarrow> ('n \<Rightarrow> 'n option) \<Rightarrow> ('n \<Rightarrow> 'n) \<Rightarrow> 'n \<Rightarrow> 'n option" where
  "display_base kind parent header node =
     (case kind node of
        ModuleDeclaration \<Rightarrow> Some (header node)
      | ProgramDeclaration \<Rightarrow> Some (header node)
      | PackageDeclaration \<Rightarrow> Some (header node)
      | InterfaceDeclaration \<Rightarrow> Some (header node)
      | Declarator \<Rightarrow> parent node
      | HierarchicalInstance \<Rightarrow> parent node
      | EnumType \<Rightarrow> parent node
      | TypeAssignment \<Rightarrow> parent node
      | _ \<Rightarrow> Some node)"

definition select_display_node ::
    "('n \<Rightarrow> syntax_kind) \<Rightarrow> ('n \<Rightarrow> 'n option) \<Rightarrow> ('n \<Rightarrow> 'n) \<Rightarrow> 'n \<Rightarrow> 'n option" where
  "select_display_node kind parent header node =
     (if kind node = DefineDirective then Some node
      else case display_base kind parent header node of
             None \<Rightarrow> None
           | Some n \<Rightarrow>
               (case parent n of
                  None \<Rightarrow> Some n
                | Some p \<Rightarrow> if kind p = TypedefDeclaration then Some p else Some n))"

section \<open>Where the doc comment starts\<close>

datatype trivia_kind = EndOfLine | BlockComment | LineComment | OtherTrivia

record trivia =
  trivia_kind :: trivia_kind
  raw_text :: string

text \<open>
  \<^verbatim>\<open>findLeadingDocCommentStart\<close>: the loop walks backwards from index \<open>i\<close>, with the
  variables \<open>lastIsNewline\<close>, \<open>lastComment\<close> and \<open>leadingCommentStart\<close>.
\<close>

fun doc_boundary ::
    "trivia list \<Rightarrow> nat \<Rightarrow> bool \<Rightarrow> nat option \<Rightarrow> nat option \<Rightarrow> nat option" where
  "doc_boundary ts 0 last_newline last_comment start = start"
| "doc_boundary ts (Suc i) last_newline last_comment start =
     (case trivia_kind (ts ! i) of
        EndOfLine \<Rightarrow>
          if last_newline \<and> last_comment \<noteq> None then start
          else doc_boundary ts i True last_comment last_comment
      | BlockComment \<Rightarrow> Some i
      | LineComment \<Rightarrow> doc_boundary ts i False (Some i) start
      | OtherTrivia \<Rightarrow> doc_boundary ts i False last_comment start)"

definition leading_doc_comment_start :: "trivia list \<Rightarrow> nat option" where
  "leading_doc_comment_start ts = doc_boundary ts (length ts) False None None"

section \<open>The text of a doc comment\<close>

datatype doc_format = Plaintext | Markdown | Raw

definition drop_prefix :: "string \<Rightarrow> string \<Rightarrow> string" where
  "drop_prefix p s = (if starts_with s p then drop (length p) s else s)"

definition doc_line :: "doc_format \<Rightarrow> trivia_kind \<Rightarrow> string \<Rightarrow> string" where
  "doc_line fmt kind line =
     (let l = ltrim line;
          l = (if kind = LineComment then
                 if starts_with l ''///'' then drop 3 l
                 else if starts_with l ''//'' then drop 2 l else l
               else if starts_with l ''*'' then drop 1 l else l);
          l = ltrim l
      in (if fmt = Plaintext then escape_markdown_line l else l) @
         (if l \<noteq> [] then ''  '' @ [newline] else [newline]))"

text \<open>The text of a block comment without its markers; the lines of it, with \<^verbatim>\<open>find\<close>.\<close>

definition block_text :: "string \<Rightarrow> string" where
  "block_text raw =
     (let t = (if starts_with raw ''/*'' then
                 (if starts_with (drop 2 raw) ''*'' then drop 3 raw else drop 2 raw)
               else raw)
      in if ends_with t ''*/'' then
           (let u = take (length t - 2) t
            in if ends_with u ''*'' then take (length u - 1) u else u)
         else t)"

fun split_newline :: "string \<Rightarrow> string \<Rightarrow> string list" where
  "split_newline cur [] = [cur]"
| "split_newline cur (c # s) =
     (if c = newline then cur # split_newline [] s else split_newline (cur @ [c]) s)"

definition trivia_lines :: "doc_format \<Rightarrow> trivia \<Rightarrow> string list" where
  "trivia_lines fmt t =
     (case trivia_kind t of
        LineComment \<Rightarrow> [doc_line fmt LineComment (raw_text t)]
      | BlockComment \<Rightarrow> map (doc_line fmt BlockComment) (split_newline [] (block_text (raw_text t)))
      | _ \<Rightarrow> [])"

definition doc_comment_lines :: "doc_format \<Rightarrow> trivia list \<Rightarrow> string list" where
  "doc_comment_lines fmt ts =
     (case leading_doc_comment_start ts of
        None \<Rightarrow> []
      | Some start \<Rightarrow> concat (map (trivia_lines fmt) (drop start ts)))"

definition doc_comment_for_hover :: "doc_format \<Rightarrow> trivia list \<Rightarrow> string" where
  "doc_comment_for_hover fmt ts = concat (doc_comment_lines fmt ts)"

section \<open>Type strings\<close>

datatype argument_direction = DirIn | DirOut | DirInOut | DirRef

fun port_string :: "argument_direction \<Rightarrow> string" where
  "port_string DirIn = ''input''"
| "port_string DirOut = ''output''"
| "port_string DirInOut = ''inout''"
| "port_string DirRef = ''ref''"

text \<open>What the server asks of a type of the library, and what its printer returns.\<close>

record type_info =
  is_error_type :: bool
  is_struct_union_enum :: bool
  type_kind_name :: string
  printed_type :: string

definition type_string :: "type_info \<Rightarrow> string" where
  "type_string t =
     (if is_error_type t then ''Incomplete type''
      else if is_struct_union_enum t then
        take (length (type_kind_name t) - 4) (type_kind_name t) @ '' '' @ printed_type t
      else printed_type t)"

text \<open>A modport port has its own direction, which comes before that of a port backref.\<close>

definition value_type_string ::
    "argument_direction option \<Rightarrow> argument_direction option \<Rightarrow> type_info \<Rightarrow> string" where
  "value_type_string modport_dir backref_dir t =
     (case modport_dir of
        Some d \<Rightarrow> port_string d @ '' '' @ type_string t
      | None \<Rightarrow>
          (case backref_dir of
             Some d \<Rightarrow> port_string d @ '' '' @ type_string t
           | None \<Rightarrow> type_string t))"

section \<open>Properties\<close>

lemma doc_boundary_sound:
  assumes "doc_boundary ts i nl lc st = Some s" "i \<le> length ts"
    and "\<And>k. lc = Some k \<Longrightarrow> i \<le> k \<and> k < length ts \<and> trivia_kind (ts ! k) = LineComment"
    and "\<And>k. st = Some k \<Longrightarrow> i \<le> k \<and> k < length ts \<and> trivia_kind (ts ! k) = LineComment"
    and "\<forall>k. i \<le> k \<and> k < length ts \<longrightarrow> trivia_kind (ts ! k) \<noteq> BlockComment"
  shows "s < length ts \<and> trivia_kind (ts ! s) \<in> {LineComment, BlockComment} \<and>
    (\<forall>k. s < k \<and> k < length ts \<longrightarrow> trivia_kind (ts ! k) \<noteq> BlockComment)"
  using assms
proof (induction i arbitrary: nl lc st)
  case 0
  then show ?case by simp
next
  case (Suc i)
  have rest: "\<forall>k. i \<le> k \<and> k < length ts \<longrightarrow> trivia_kind (ts ! k) \<noteq> BlockComment"
    if "trivia_kind (ts ! i) \<noteq> BlockComment"
    using that Suc.prems(5) by (metis Suc_leI le_neq_implies_less)
  show ?case
  proof (cases "trivia_kind (ts ! i)")
    case EndOfLine
    show ?thesis
    proof (cases "nl \<and> lc \<noteq> None")
      case True
      with Suc.prems(1) EndOfLine have "st = Some s" by simp
      with Suc.prems(4) [of s] Suc.prems(5) show ?thesis by auto
    next
      case False
      then have "doc_boundary ts (Suc i) nl lc st = doc_boundary ts i True lc lc"
        using EndOfLine by (simp only: doc_boundary.simps trivia_kind.case if_False)
      with Suc.prems(1) have "doc_boundary ts i True lc lc = Some s" by simp
      moreover have "i \<le> k \<and> k < length ts \<and> trivia_kind (ts ! k) = LineComment"
        if "lc = Some k" for k using Suc.prems(3) [OF that] by simp
      ultimately show ?thesis
        using Suc.IH Suc.prems(2) rest EndOfLine by simp
    qed
  next
    case BlockComment
    with Suc.prems(1) have "s = i" by simp
    with Suc.prems(2,5) BlockComment show ?thesis by (simp add: Suc_le_eq)
  next
    case LineComment
    with Suc.prems(1) have d: "doc_boundary ts i False (Some i) st = Some s" by simp
    have "i \<le> k \<and> k < length ts \<and> trivia_kind (ts ! k) = LineComment"
      if "Some i = Some k" for k using that LineComment Suc.prems(2) by simp
    moreover have "i \<le> k \<and> k < length ts \<and> trivia_kind (ts ! k) = LineComment"
      if "st = Some k" for k using Suc.prems(4) [OF that] by simp
    ultimately show ?thesis using Suc.IH [OF d] Suc.prems(2) rest LineComment by simp
  next
    case OtherTrivia
    with Suc.prems(1) have d: "doc_boundary ts i False lc st = Some s" by simp
    have "i \<le> k \<and> k < length ts \<and> trivia_kind (ts ! k) = LineComment"
      if "lc = Some k \<or> st = Some k" for k using that Suc.prems(3,4) by force
    then show ?thesis using Suc.IH [OF d] Suc.prems(2) rest OtherTrivia by simp
  qed
qed

text \<open>
  The doc comment of a node starts at a comment among its leading trivia, and no block
  comment comes after the start: a block comment is the whole doc comment together with the
  line comments below it, never its middle.
\<close>

lemma leading_doc_comment_start_sound:
  assumes "leading_doc_comment_start ts = Some s"
  shows "s < length ts \<and> trivia_kind (ts ! s) \<in> {LineComment, BlockComment} \<and>
    list_all (\<lambda>t. trivia_kind t \<noteq> BlockComment) (drop (Suc s) ts)"
proof -
  have "s < length ts \<and> trivia_kind (ts ! s) \<in> {LineComment, BlockComment} \<and>
      (\<forall>k. s < k \<and> k < length ts \<longrightarrow> trivia_kind (ts ! k) \<noteq> BlockComment)"
    using assms unfolding leading_doc_comment_start_def by (rule doc_boundary_sound) auto
  then show ?thesis by (auto simp: list_all_length)
qed

lemma leading_doc_comment_start_sound_witness:
  "1 < length [\<lparr>trivia_kind = EndOfLine, raw_text = []\<rparr>,
       \<lparr>trivia_kind = BlockComment, raw_text = ''/* doc */''\<rparr>,
       \<lparr>trivia_kind = EndOfLine, raw_text = []\<rparr>] \<and>
   trivia_kind ([\<lparr>trivia_kind = EndOfLine, raw_text = []\<rparr>,
       \<lparr>trivia_kind = BlockComment, raw_text = ''/* doc */''\<rparr>,
       \<lparr>trivia_kind = EndOfLine, raw_text = []\<rparr>] ! 1) \<in> {LineComment, BlockComment} \<and>
   list_all (\<lambda>t. trivia_kind t \<noteq> BlockComment)
     (drop (Suc 1) [\<lparr>trivia_kind = EndOfLine, raw_text = []\<rparr>,
       \<lparr>trivia_kind = BlockComment, raw_text = ''/* doc */''\<rparr>,
       \<lparr>trivia_kind = EndOfLine, raw_text = []\<rparr>])"
  by (rule leading_doc_comment_start_sound)
    (simp add: leading_doc_comment_start_def numeral_eq_Suc)

lemma md_unescape_spaces:
  "md_unescape (''  '' @ [newline]) = ''  '' @ [newline]" "md_unescape [newline] = [newline]"
  by simp_all

lemma md_unescape_doc_line: "md_unescape (doc_line Plaintext k l) = doc_line Markdown k l"
  unfolding doc_line_def Let_def
  by (simp add: escape_markdown_line_def md_unescape_loop_append md_unescape_spaces)

lemma md_unescape_trivia_lines:
  "map md_unescape (trivia_lines Plaintext t) = trivia_lines Markdown t"
  by (simp add: trivia_lines_def md_unescape_doc_line split: trivia_kind.split)

text \<open>
  The plain-text and the markdown form of a doc comment have the same lines, and a
  markdown reader shows each line of the plain-text form as the comment has it: what the
  plain-text setting escapes is exactly undone.
\<close>

lemma doc_comment_plaintext_reads_back:
  "map md_unescape (doc_comment_lines Plaintext ts) = doc_comment_lines Markdown ts"
  by (simp add: doc_comment_lines_def map_concat comp_def md_unescape_trivia_lines
      split: option.split)

text \<open>
  The empty block comment \<^verbatim>\<open>/**/\<close>: the star taken for that of a doc comment is the
  star of the end marker, so the end marker is not found and its slash is shown.
\<close>

lemma empty_block_comment: "block_text ''/**/'' = ''/''"
  by (simp add: block_text_def Let_def suffix_def)

end
