(* ===== verification/Wire.thy ===== *)
theory Wire
  imports Prelude
begin

text \<open>
  The framing of JSON-RPC messages on standard input and output: \<^verbatim>\<open>sendMessage\<close> and
  \<^verbatim>\<open>readJson\<close> of \<^verbatim>\<open>include/lsp/JsonRpc.h\<close>, over a model of the input stream that
  keeps its end-of-file and failure flags. The JSON library is a parameter: \<open>parse\<close> reads
  a request, \<open>is_response\<close> says whether the text reads as a response, \<open>write_error\<close>
  prints an error response.
\<close>

section \<open>Messages\<close>

datatype rpc_id = IntId int | StrId string

record rpc_error =
  error_code :: int
  error_message :: string

record rpc_error_response =
  response_id :: "rpc_id option"
  response_error :: rpc_error

definition frame :: "string \<Rightarrow> string" where
  "frame body =
     ''Content-Length: '' @ nat_to_string (length body) @
     [carriage, newline, carriage, newline] @ body"

section \<open>The input stream\<close>

record istream =
  input :: string
  eof_bit :: bool
  fail_bit :: bool

definition good :: "istream \<Rightarrow> bool" where
  "good st \<longleftrightarrow> \<not> eof_bit st \<and> \<not> fail_bit st"

definition open_stream :: "string \<Rightarrow> istream" where
  "open_stream s = \<lparr>input = s, eof_bit = False, fail_bit = False\<rparr>"

text \<open>
  \<^verbatim>\<open>std::getline(std::cin, line)\<close>: on a stream that is not good it fails and leaves the
  line as it was; else the line is what comes before the next newline or the end.
\<close>

definition getline_in :: "istream \<Rightarrow> string \<Rightarrow> string \<times> istream" where
  "getline_in st line =
     (if \<not> good st then (line, st\<lparr>fail_bit := True\<rparr>)
      else let l = takeWhile (\<lambda>c. c \<noteq> newline) (input st);
               r = drop (length l) (input st)
           in if r \<noteq> [] then (l, st\<lparr>input := tl r\<rparr>)
              else (l, st\<lparr>input := [], eof_bit := True, fail_bit := (l = [])\<rparr>))"

text \<open>
  \<^verbatim>\<open>std::cin.read(&content[0], n)\<close>, with \<open>n\<close> the size of \<open>content\<close>: on a stream
  that is not good the content stays; a short read overwrites its front only.
\<close>

definition read_in :: "istream \<Rightarrow> string \<Rightarrow> string \<times> istream" where
  "read_in st content =
     (let n = length content
      in if \<not> good st then (content, st\<lparr>fail_bit := True\<rparr>)
         else if n \<le> length (input st)
           then (take n (input st), st\<lparr>input := drop n (input st)\<rparr>)
         else (input st @ drop (length (input st)) content,
               st\<lparr>input := [], eof_bit := True, fail_bit := True\<rparr>))"

text \<open>\<^verbatim>\<open>std::stoi\<close> in base ten on a 32-bit \<^verbatim>\<open>int\<close>.\<close>

definition stoi10 :: "string \<Rightarrow> int result" where
  "stoi10 s =
     (let t = dropWhile is_space s;
          neg = starts_with t ''-'';
          u = (if starts_with t ''-'' \<or> starts_with t ''+'' then tl t else t);
          ds = takeWhile is_digit u;
          v = (if neg then - int (digits_value ds) else int (digits_value ds))
      in if ds = [] then Inl InvalidArgument
         else if v < - (2 ^ 31) \<or> 2 ^ 31 \<le> v then Inl OutOfRange
         else Inr v)"

text \<open>\<^verbatim>\<open>content.resize(n)\<close> with a signed count: a negative one is huge as a size.\<close>

definition resize :: "int \<Rightarrow> string \<Rightarrow> string result" where
  "resize n s =
     (if n < 0 then Inl LengthError
      else Inr (take (nat n) s @ replicate (nat n - length s) (CHR 0x00)))"

section \<open>Reading one message\<close>

text \<open>
  The loop over the remaining header lines ends at a line of at most one character. It may
  not end: on a stream that is not good the line stays as it is. \<open>None\<close> stands for that.
\<close>

partial_function (option) skip_headers :: "istream \<Rightarrow> string \<Rightarrow> (string \<times> istream) option" where
  "skip_headers st line =
     (case getline_in st line of
        (line', st') \<Rightarrow>
          if length line' > 1 then skip_headers st' line' else Some (line', st'))"

record 'a read_state =
  received :: 'a
  stream :: istream
  line_buffer :: string
  content_buffer :: string
  sent :: "string list"

text \<open>
  \<^verbatim>\<open>readJson\<close>: the caller's line and content buffers are reused from call to call, so
  they are part of the state; \<open>sent\<close> collects the frames written for unreadable messages.
  \<open>None\<close> is not returning, \<open>Some (Inl e)\<close> an exception, and the received value is
  \<open>None\<close> at the end of the input.
\<close>

definition parse_error_response :: "string \<Rightarrow> string \<Rightarrow> rpc_error_response" where
  "parse_error_response what content =
     \<lparr>response_id = Some (IntId 0),
      response_error = \<lparr>error_code = 1,
        error_message = ''Error parsing JSON: '' @ what @ '' for content: '' @ content\<rparr>\<rparr>"

partial_function (option) read_json ::
    "(string \<Rightarrow> string + 'a) \<Rightarrow> (string \<Rightarrow> bool) \<Rightarrow> (rpc_error_response \<Rightarrow> string) \<Rightarrow>
     istream \<Rightarrow> string \<Rightarrow> string \<Rightarrow> string list \<Rightarrow> 'a option read_state result option" where
  "read_json parse is_response write_error st line content out =
     (case getline_in st line of
        (line, st) \<Rightarrow>
          if fail_bit st then
            Some (Inr \<lparr>received = None, stream = st, line_buffer = line,
                       content_buffer = content, sent = out\<rparr>)
          else if \<not> starts_with line ''Content-Length: '' then
            read_json parse is_response write_error st line content out
          else
            (case bind_result (stoi10 (drop 16 line)) (\<lambda>n. resize n content) of
               Inl e \<Rightarrow> Some (Inl e)
             | Inr content \<Rightarrow>
                 Option.bind (skip_headers st line) (\<lambda>(line, st).
                   (case read_in st content of
                      (content, st) \<Rightarrow>
                        (case parse content of
                           Inr m \<Rightarrow>
                             Some (Inr \<lparr>received = Some m, stream = st, line_buffer = line,
                                        content_buffer = content, sent = out\<rparr>)
                         | Inl what \<Rightarrow>
                             read_json parse is_response write_error st line content
                               (if is_response content then out
                                else out @ [frame (write_error
                                       (parse_error_response what content))])))))) "

section \<open>Well-formed frames\<close>

lemma getline_in_line:
  "good st \<Longrightarrow> newline \<notin> set l \<Longrightarrow> input st = l @ newline # r \<Longrightarrow>
   getline_in st line = (l, st\<lparr>input := r\<rparr>)"
  by (simp add: getline_in_def Let_def takeWhile_append)

lemma getline_in_end:
  assumes "good st" "newline \<notin> set (input st)" "input st \<noteq> []"
  shows "getline_in st line = (input st, st\<lparr>input := [], eof_bit := True, fail_bit := False\<rparr>)"
proof -
  have "takeWhile (\<lambda>c. c \<noteq> newline) (input st) = input st"
    unfolding takeWhile_eq_all_conv using assms(2) by auto
  with assms(1,3) show ?thesis unfolding getline_in_def Let_def by (simp del: takeWhile_eq_all_conv)
qed

lemma good_update_input [simp]: "good (st\<lparr>input := s\<rparr>) = good st"
  by (simp add: good_def)

lemma nat_to_string_head: "\<exists>c s. nat_to_string n = c # s \<and> is_digit c"
  using nat_to_string_nonempty [of n] nat_to_string_digits [of _ n]
  by (cases "nat_to_string n") auto

lemma stoi10_nat_to_string:
  assumes "n < 2 ^ 31" "t = [] \<or> \<not> is_digit (hd t)"
  shows "stoi10 (nat_to_string n @ t) = Inr (int n)"
proof -
  obtain c s where cs: "nat_to_string n = c # s" "is_digit c" using nat_to_string_head by blast
  then have c: "\<not> is_space c" "c \<noteq> CHR ''-''" "c \<noteq> CHR ''+''" by (auto simp: ctype_defs)
  have "takeWhile is_digit t = []" using assms(2) by (cases t) auto
  then have "takeWhile is_digit (nat_to_string n @ t) = nat_to_string n"
    using nat_to_string_digits [of _ n] by (subst takeWhile_append2) auto
  moreover have "dropWhile is_space (nat_to_string n @ t) = nat_to_string n @ t"
    using cs c by simp
  moreover have "\<not> starts_with (nat_to_string n @ t) ''-''"
    "\<not> starts_with (nat_to_string n @ t) ''+''" using cs c by auto
  moreover have "int n < 2 ^ 31" using assms by simp
  ultimately show ?thesis by (simp add: stoi10_def Let_def)
qed

lemma read_json_frame:
  assumes "good st" "input st = frame body @ rest" "length body < 2 ^ 31" "parse body = Inr m"
  shows "read_json parse is_response write_error st line content out =
     Some (Inr \<lparr>received = Some m, stream = st\<lparr>input := rest\<rparr>, line_buffer = [carriage],
                content_buffer = body, sent = out\<rparr>)"
proof -
  let ?n = "nat_to_string (length body)"
  let ?header = "''Content-Length: '' @ ?n @ [carriage]"
  have nl: "newline \<notin> set ?n"
    using nat_to_string_digits [of newline "length body"] by (auto simp: ctype_defs)
  have head: "getline_in st line = (?header, st\<lparr>input := [carriage, newline] @ body @ rest\<rparr>)"
    using assms(1,2) nl by (intro getline_in_line) (auto simp: frame_def)
  have skip: "skip_headers (st\<lparr>input := [carriage, newline] @ body @ rest\<rparr>) ?header =
      Some ([carriage], st\<lparr>input := body @ rest\<rparr>)"
    using getline_in_line [of "st\<lparr>input := [carriage, newline] @ body @ rest\<rparr>" "[carriage]"
        "body @ rest" ?header] assms(1)
    by (subst skip_headers.simps) simp
  define content' where "content' =
      take (length body) content @ replicate (length body - length content) (CHR 0x00)"
  have content': "length content' = length body"
    "bind_result (stoi10 (drop 16 ?header)) (\<lambda>n. resize n content) = Inr content'"
    using stoi10_nat_to_string [OF assms(3), of "[carriage]"]
    by (simp_all add: resize_def content'_def is_digit_def)
  have "read_in (st\<lparr>input := body @ rest\<rparr>) content' = (body, st\<lparr>input := rest\<rparr>)"
    using assms(1) content'(1) by (simp add: read_in_def Let_def)
  with content'(2) head skip assms(1,4) show ?thesis
    by (subst read_json.simps) (simp add: good_def)
qed

text \<open>Reading until \<open>k\<close> messages have come or the input ends, as the server loops do.\<close>

fun read_messages ::
    "nat \<Rightarrow> (string \<Rightarrow> string + 'a) \<Rightarrow> (string \<Rightarrow> bool) \<Rightarrow> (rpc_error_response \<Rightarrow> string) \<Rightarrow>
     istream \<Rightarrow> string \<Rightarrow> string \<Rightarrow> string list \<Rightarrow> ('a list \<times> string list) result option" where
  "read_messages 0 parse is_response write_error st line content out = Some (Inr ([], out))"
| "read_messages (Suc k) parse is_response write_error st line content out =
     (case read_json parse is_response write_error st line content out of
        None \<Rightarrow> None
      | Some (Inl e) \<Rightarrow> Some (Inl e)
      | Some (Inr r) \<Rightarrow>
          (case received r of
             None \<Rightarrow> Some (Inr ([], sent r))
           | Some m \<Rightarrow>
               map_option (map_sum id (apfst (Cons m)))
                 (read_messages k parse is_response write_error (stream r) (line_buffer r)
                   (content_buffer r) (sent r))))"

lemma read_json_end:
  "good st \<Longrightarrow> input st = [] \<Longrightarrow>
   \<exists>r. read_json parse is_response write_error st line content out = Some (Inr r) \<and>
     received r = None \<and> sent r = out"
  by (subst read_json.simps) (simp add: getline_in_def)

text \<open>
  C14: Messages written one after the other by \<^verbatim>\<open>sendMessage\<close> are read back by
  \<^verbatim>\<open>readJson\<close> in order, each from exactly its own bytes, whatever the bodies contain and
  whatever the buffers held before; the reader returns each time, reports nothing, and then
  finds the end of the input.
\<close>

theorem read_messages_frames:
  assumes "good st" "input st = concat (map frame bodies)"
    and "list_all2 (\<lambda>body m. length body < 2 ^ 31 \<and> parse body = Inr m) bodies ms"
  shows "read_messages (Suc (length bodies)) parse is_response write_error st line content out =
     Some (Inr (ms, out))"
  using assms
proof (induction bodies arbitrary: st line content ms)
  case Nil
  with read_json_end [of st parse is_response write_error line content out] show ?case by auto
next
  case (Cons body bodies)
  then obtain m ms' where ms: "ms = m # ms'" "length body < 2 ^ 31" "parse body = Inr m"
    "list_all2 (\<lambda>body m. length body < 2 ^ 31 \<and> parse body = Inr m) bodies ms'"
    by (auto simp: list_all2_Cons1)
  let ?st = "st\<lparr>input := concat (map frame bodies)\<rparr>"
  have "read_json parse is_response write_error st line content out =
      Some (Inr \<lparr>received = Some m, stream = ?st, line_buffer = [carriage],
                 content_buffer = body, sent = out\<rparr>)"
    using Cons.prems(1,2) ms(2,3) by (intro read_json_frame) simp_all
  moreover have "read_messages (Suc (length bodies)) parse is_response write_error ?st
      [carriage] body out = Some (Inr (ms', out))"
    using Cons.IH [of ?st ms'] Cons.prems(1) ms(4) by simp
  ultimately show ?case by (simp add: ms(1))
qed

theorem read_messages_frames_witness:
  "read_messages (Suc (length [''{}'', ''[1]''])) Inr (\<lambda>s. False) (\<lambda>e. error_message (response_error e))
     (open_stream (concat (map frame [''{}'', ''[1]'']))) [] [] [] =
   Some (Inr ([''{}'', ''[1]''], []))"
  by (rule read_messages_frames) (simp_all add: open_stream_def good_def)

section \<open>Truncated input\<close>

lemma skip_headers_not_good:
  assumes "\<not> good st" "length line > 1"
  shows "skip_headers st line = None"
proof (rule ccontr)
  assume "skip_headers st line \<noteq> None"
  then obtain r where "skip_headers st line = Some r" by blast
  moreover have "\<not> good st \<and> length line > 1 \<longrightarrow> False"
    if "skip_headers st line = Some r" for st line r
  proof (rule skip_headers.raw_induct [where
        P = "\<lambda>st line r. \<not> good st \<and> length line > 1 \<longrightarrow> False", OF _ that])
    fix f st line r
    assume IH: "\<And>st line r. f st line = Some r \<Longrightarrow> \<not> good st \<and> length line > 1 \<longrightarrow> False"
      and eq: "(case getline_in st line of
        (line', st') \<Rightarrow> if length line' > 1 then f st' line' else Some (line', st')) = Some r"
    show "\<not> good st \<and> length line > 1 \<longrightarrow> False"
    proof
      assume st: "\<not> good st \<and> length line > 1"
      with eq have "f (st\<lparr>fail_bit := True\<rparr>) line = Some r" by (simp add: getline_in_def)
      from IH [OF this] st show False by (simp add: good_def)
    qed
  qed
  ultimately show False using assms by blast
qed

text \<open>Lines of which the last one is not ended.\<close>

fun unended :: "string list \<Rightarrow> string" where
  "unended [] = []"
| "unended [l] = l"
| "unended (l # ls) = l @ newline # unended ls"

lemma skip_headers_to_end:
  "ls \<noteq> [] \<Longrightarrow> good st \<Longrightarrow> input st = unended ls \<Longrightarrow>
   list_all (\<lambda>l. newline \<notin> set l \<and> length l > 1) ls \<Longrightarrow> skip_headers st line = None"
proof (induction ls arbitrary: st line rule: unended.induct)
  case (2 l)
  then have "getline_in st line = (l, st\<lparr>input := [], eof_bit := True, fail_bit := False\<rparr>)"
    by (cases "input st = []") (simp_all add: getline_in_end)
  with 2 show ?case
    by (subst skip_headers.simps) (simp add: skip_headers_not_good good_def)
next
  case (3 l m ls)
  then have "getline_in st line = (l, st\<lparr>input := unended (m # ls)\<rparr>)"
    by (intro getline_in_line) simp_all
  with 3 show ?case by (subst skip_headers.simps) simp
qed simp

lemma unended_Cons: "unended (l # ls) = (if ls = [] then l else l @ newline # unended ls)"
  by (cases ls) simp_all

lemma read_json_header_to_end:
  assumes "good st" "input st = unended ((''Content-Length: '' @ num) # others)" "newline \<notin> set num"
    and "list_all (\<lambda>l. newline \<notin> set l \<and> length l > 1) others" and "stoi10 num = Inr n" "0 \<le> n"
  shows "read_json parse is_response write_error st line content out = None"
proof -
  let ?l = "''Content-Length: '' @ num"
  obtain st' where get: "getline_in st line = (?l, st')" and fine: "\<not> fail_bit st'"
    and skip: "skip_headers st' ?l = None"
  proof (cases "others = []")
    case True
    then have "getline_in st line = (?l, st\<lparr>input := [], eof_bit := True, fail_bit := False\<rparr>)"
      using assms(1-3) getline_in_end [of st line] by simp
    then show ?thesis by (rule that) (simp_all add: skip_headers_not_good good_def)
  next
    case False
    then have "getline_in st line = (?l, st\<lparr>input := unended others\<rparr>)"
      using assms(1-3) by (intro getline_in_line) (simp_all add: unended_Cons)
    then show ?thesis
      by (rule that) (use assms(1,4) False in \<open>simp_all add: good_def skip_headers_to_end\<close>)
  qed
  have "resize n content = Inr (take (nat n) content @
      replicate (nat n - length content) (CHR 0x00))"
    using assms(6) by (simp add: resize_def)
  then show ?thesis
    using get fine skip assms(5) by (subst read_json.simps) simp
qed

text \<open>
  C28: \<^verbatim>\<open>readJson\<close> does not return when the input ends in a header. After any lines that do not
  start a header comes one with a length that can be read and is not negative, and after it only
  lines of more than one character, of which the last, maybe the length itself, is not ended: then
  the loop over the header lines reads from a stream at its end, which leaves the line as it is, and
  waits for a short line forever. Input that ends before the length can be read is not meant: it is
  passed over, or \<^verbatim>\<open>stoi\<close> throws.
\<close>

theorem read_json_truncated_header:
  assumes "good st" "input st = unended (skipped @ (''Content-Length: '' @ num) # others)"
    and "list_all (\<lambda>l. newline \<notin> set l \<and> \<not> starts_with l ''Content-Length: '') skipped"
    and "newline \<notin> set num" "stoi10 num = Inr n" "0 \<le> n"
    and "list_all (\<lambda>l. newline \<notin> set l \<and> length l > 1) others"
  shows "read_json parse is_response write_error st line content out = None"
  using assms(1-3)
proof (induction skipped arbitrary: st line)
  case Nil
  then show ?case using assms(4-7) by (intro read_json_header_to_end) simp_all
next
  case (Cons l ls)
  have "getline_in st line = (l, st\<lparr>input := unended (ls @ (''Content-Length: '' @ num) # others)\<rparr>)"
    using Cons.prems by (intro getline_in_line) (simp_all add: unended_Cons)
  then show ?case
    using Cons by (subst read_json.simps) (simp add: good_def)
qed

theorem read_json_truncated_header_witness:
  "read_json Inr (\<lambda>s. False) (\<lambda>e. error_message (response_error e))
     (open_stream (''hello'' @ newline # ''Content-Length: 2'' @ newline # ''Content-Type'')) [] [] [] = None"
  by (rule read_json_truncated_header [where skipped = "[''hello'']" and num = "''2''" and n = 2
        and others = "[''Content-Type'']"])
    (simp_all add: open_stream_def good_def stoi10_def digits_value_def ctype_defs)

text \<open>
  When the input ends right after a header line, the body that is parsed is the one the
  content buffer still holds: with the length of the previous message announced again, that
  message is received a second time.
\<close>

lemma read_json_replays_content:
  assumes "good st" "input st = ''Content-Length: '' @ nat_to_string (length content) @ [newline]"
    and "length content < 2 ^ 31" "parse content = Inr m"
  shows "\<exists>r. read_json parse is_response write_error st line content out = Some (Inr r) \<and>
     received r = Some m \<and> input (stream r) = []"
proof -
  let ?n = "nat_to_string (length content)"
  let ?line = "''Content-Length: '' @ ?n"
  let ?done_stream = "st\<lparr>input := [], eof_bit := True, fail_bit := True\<rparr>"
  have digits: "\<forall>c\<in>set ?n. is_digit c" using nat_to_string_digits by blast
  then have "newline \<notin> set ?line" by (auto simp: ctype_defs)
  from getline_in_line [OF assms(1) this, of "[]" line] assms(2)
  have head: "getline_in st line = (?line, st\<lparr>input := []\<rparr>)" by simp
  have "skip_headers (st\<lparr>input := []\<rparr>) ?line = Some ([], ?done_stream)"
    using assms(1) by (subst skip_headers.simps) (simp add: getline_in_def)
  moreover have "stoi10 ?n = Inr (int (length content))"
    using stoi10_nat_to_string [OF assms(3), of "[]"] by simp
  moreover have "read_in ?done_stream content = (content, ?done_stream)"
    by (simp add: read_in_def Let_def good_def)
  ultimately show ?thesis
    using head assms(1,4)
    by (subst read_json.simps) (simp add: resize_def good_def)
qed

lemma read_json_replays_content_witness:
  "\<exists>r. read_json Inr (\<lambda>s. False) (\<lambda>e. error_message (response_error e))
       (open_stream (''Content-Length: '' @ nat_to_string (length ''{}'') @ [newline])) [] ''{}'' [] =
     Some (Inr r) \<and> received r = Some ''{}'' \<and> input (stream r) = []"
  by (rule read_json_replays_content) (simp_all add: open_stream_def good_def)

end
