(* ===== verification/Rpc.thy ===== *)
theory Rpc
  imports Wire
begin

text \<open>
  The server loop: \<^verbatim>\<open>include/lsp/RequestContext.h\<close> (contexts whose copies share a
  cancelled and a started flag) and \<^verbatim>\<open>include/lsp/JsonRpcServer.h\<close> (registration of
  active requests and pending document changes, cancellation, processing of one message). The
  handlers are a parameter; logging is left out. The threads are in theory RpcRun.
\<close>

section \<open>Messages and handlers\<close>

record 'p rpc_request =
  req_id :: "rpc_id option"
  req_method :: string
  req_params :: "'p option"

text \<open>
  What a handler does, as the server sees it: it polls the cancelled flag of its context any
  number of times, then returns, throws \<^verbatim>\<open>RequestCancelled\<close> at a checkpoint, or throws
  another exception. Each end carries the application state it leaves.
\<close>

datatype ('s, 'g) handler =
    Return 's 'g
  | Throws 's string
  | ThrowsCancelled 's string
  | Poll "bool \<Rightarrow> ('s, 'g) handler"

definition throw_if_cancelled :: "'s \<Rightarrow> string \<Rightarrow> ('s, 'g) handler \<Rightarrow> ('s, 'g) handler" where
  "throw_if_cancelled s checkpoint h = Poll (\<lambda>c. if c then ThrowsCancelled s checkpoint else h)"

primrec run_handler :: "bool \<Rightarrow> ('s, 'g) handler \<Rightarrow> ('s, 'g) handler" where
  "run_handler c (Return s v) = Return s v"
| "run_handler c (Throws s e) = Throws s e"
| "run_handler c (ThrowsCancelled s e) = ThrowsCancelled s e"
| "run_handler c (Poll f) = run_handler c (f c)"

text \<open>
  The handlers of the server: a notification handler is one of the application, or the one
  \<^verbatim>\<open>LspServer::registerCancelRequest\<close> registers, which reads the id to cancel from its
  parameters. The value a notification handler returns is not used. \<open>null_value\<close> and
  \<open>default_value\<close> are the parameters the handlers see when a message has none.
\<close>

datatype ('s, 'p, 'g) notification_handler =
    AppNotification "'p \<Rightarrow> 's \<Rightarrow> ('s, 'g) handler"
  | CancelNotification

record ('s, 'p, 'g) implementation =
  requests :: "string \<Rightarrow> ('p \<Rightarrow> 's \<Rightarrow> ('s, 'g) handler) option"
  notifications :: "string \<Rightarrow> ('s, 'p, 'g) notification_handler option"
  cancellable_methods :: "string list"
  changed_uri :: "'p \<Rightarrow> string option"
  cancelled_id :: "'p \<Rightarrow> string + rpc_id"
  null_value :: 'p
  default_value :: 'p

section \<open>Request contexts\<close>

record request_context =
  ctx_id :: nat
  ctx_method :: string
  ctx_rpc_id :: "rpc_id option"
  supports_cancellation :: bool

record context_flags =
  cancelled :: bool
  started :: bool

text \<open>
  The copies of a context share one heap cell, \<^verbatim>\<open>m_state\<close>; it is found here by the id of
  the context, which is never reused. No entry is the null pointer.
\<close>

record 's server =
  next_id :: nat
  flags :: "nat \<Rightarrow> context_flags option"
  active_requests :: "rpc_id \<Rightarrow> request_context option"
  pending_changes :: "string \<Rightarrow> request_context option"
  app :: 's

definition make_context ::
    "'s server \<Rightarrow> string \<Rightarrow> rpc_id option \<Rightarrow> bool \<Rightarrow> request_context \<times> 's server" where
  "make_context srv m i can =
     (\<lparr>ctx_id = next_id srv, ctx_method = m, ctx_rpc_id = i, supports_cancellation = can\<rparr>,
      srv\<lparr>next_id := Suc (next_id srv),
          flags := (if i \<noteq> None \<or> can
                    then (flags srv)(next_id srv \<mapsto> \<lparr>cancelled = False, started = False\<rparr>)
                    else flags srv)\<rparr>)"

definition cancel_context :: "'s server \<Rightarrow> request_context \<Rightarrow> 's server" where
  "cancel_context srv c =
     (case flags srv (ctx_id c) of
        None \<Rightarrow> srv
      | Some f \<Rightarrow> srv\<lparr>flags := (flags srv)(ctx_id c \<mapsto> f\<lparr>cancelled := True\<rparr>)\<rparr>)"

definition is_cancelled :: "'s server \<Rightarrow> request_context \<Rightarrow> bool" where
  "is_cancelled srv c = (case flags srv (ctx_id c) of None \<Rightarrow> False | Some f \<Rightarrow> cancelled f)"

definition mark_started :: "'s server \<Rightarrow> request_context \<Rightarrow> 's server" where
  "mark_started srv c =
     (case flags srv (ctx_id c) of
        None \<Rightarrow> srv
      | Some f \<Rightarrow> srv\<lparr>flags := (flags srv)(ctx_id c \<mapsto> f\<lparr>started := True\<rparr>)\<rparr>)"

definition has_started :: "'s server \<Rightarrow> request_context \<Rightarrow> bool" where
  "has_started srv c = (case flags srv (ctx_id c) of None \<Rightarrow> False | Some f \<Rightarrow> started f)"

section \<open>Registration and cancellation\<close>

definition create_context ::
    "('s, 'p, 'g) implementation \<Rightarrow> 's server \<Rightarrow> 'p rpc_request \<Rightarrow> request_context \<times> 's server" where
  "create_context I srv req =
     make_context srv (req_method req) (req_id req)
       (req_method req \<in> set (cancellable_methods I))"

definition did_change_key :: "('s, 'p, 'g) implementation \<Rightarrow> 'p rpc_request \<Rightarrow> string option" where
  "did_change_key I req =
     (if req_method req \<noteq> ''textDocument/didChange'' then None
      else Option.bind (req_params req) (changed_uri I))"

definition register_context ::
    "('s, 'p, 'g) implementation \<Rightarrow> 's server \<Rightarrow> 'p rpc_request \<Rightarrow> request_context \<Rightarrow> 's server" where
  "register_context I srv req c =
     (if req_id req = None \<and> \<not> supports_cancellation c then srv
      else
        let srv = (case req_id req of
                     None \<Rightarrow> srv
                   | Some i \<Rightarrow> srv\<lparr>active_requests := (active_requests srv)(i \<mapsto> c)\<rparr>)
        in if \<not> supports_cancellation c then srv
           else (case did_change_key I req of
                   None \<Rightarrow> srv
                 | Some k \<Rightarrow>
                     let srv = (case pending_changes srv k of
                                  None \<Rightarrow> srv
                                | Some d \<Rightarrow>
                                    if ctx_id d \<noteq> ctx_id c then cancel_context srv d else srv)
                     in srv\<lparr>pending_changes := (pending_changes srv)(k \<mapsto> c)\<rparr>))"

definition erase_if_same ::
    "('k \<Rightarrow> request_context option) \<Rightarrow> 'k \<Rightarrow> request_context \<Rightarrow> 'k \<Rightarrow> request_context option" where
  "erase_if_same m k c =
     (case m k of
        None \<Rightarrow> m
      | Some d \<Rightarrow> if ctx_id d = ctx_id c then m(k := None) else m)"

definition unregister_context ::
    "('s, 'p, 'g) implementation \<Rightarrow> 's server \<Rightarrow> 'p rpc_request \<Rightarrow> request_context \<Rightarrow> 's server" where
  "unregister_context I srv req c =
     (if req_id req = None \<and> \<not> supports_cancellation c then srv
      else
        let srv = (case req_id req of
                     None \<Rightarrow> srv
                   | Some i \<Rightarrow> srv\<lparr>active_requests := erase_if_same (active_requests srv) i c\<rparr>)
        in if \<not> supports_cancellation c then srv
           else (case did_change_key I req of
                   None \<Rightarrow> srv
                 | Some k \<Rightarrow>
                     srv\<lparr>pending_changes := erase_if_same (pending_changes srv) k c\<rparr>))"

definition cancel_request :: "'s server \<Rightarrow> rpc_id \<Rightarrow> 's server" where
  "cancel_request srv i =
     (case active_requests srv i of
        Some c \<Rightarrow>
          if \<not> has_started srv c \<or> supports_cancellation c then cancel_context srv c else srv
      | None \<Rightarrow> snd (make_context srv ''$/cancelRequest'' (Some i) False))"

definition start_request :: "'s server \<Rightarrow> request_context \<Rightarrow> string + 's server" where
  "start_request srv c =
     (if is_cancelled srv c then Inl ''before handler'' else Inr (mark_started srv c))"

section \<open>Processing one message\<close>

datatype 'g outcome = Result 'g | Failure rpc_error | NoReply

definition request_cancelled :: rpc_error where
  "request_cancelled = \<lparr>error_code = - 32800, error_message = ''Request cancelled''\<rparr>"

definition internal_error :: "string \<Rightarrow> rpc_error" where
  "internal_error what = \<lparr>error_code = - 32603, error_message = what\<rparr>"

text \<open>
  \<^verbatim>\<open>processMessage\<close> in two halves, up to the call of the handler and from its end on, for
  the other thread may cancel the context while the handler runs.
\<close>

definition begin_message ::
    "('s, 'p, 'g) implementation \<Rightarrow> 's server \<Rightarrow> 'p rpc_request \<Rightarrow> request_context \<Rightarrow>
     's server \<times> (('s, 'g) handler + 'g outcome)" where
  "begin_message I srv req c =
     (if req_id req = None then
        (case notifications I (req_method req) of
           None \<Rightarrow> (srv, Inr NoReply)
         | Some CancelNotification \<Rightarrow>
             (case cancelled_id I (case req_params req of Some p \<Rightarrow> p | None \<Rightarrow> null_value I) of
                Inl e \<Rightarrow> (srv, Inr NoReply)
              | Inr i \<Rightarrow> (cancel_request srv i, Inr NoReply))
         | Some (AppNotification h) \<Rightarrow>
             (srv, Inl (h (case req_params req of Some p \<Rightarrow> p | None \<Rightarrow> null_value I) (app srv))))
      else
        (case requests I (req_method req) of
           None \<Rightarrow> (srv, Inr NoReply)
         | Some h \<Rightarrow>
             (case start_request srv c of
                Inl checkpoint \<Rightarrow> (srv, Inr (Failure request_cancelled))
              | Inr srv' \<Rightarrow>
                  (srv', Inl (h (case req_params req of Some p \<Rightarrow> p | None \<Rightarrow> default_value I)
                                (app srv'))))))"

text \<open>The half after the handler: \<open>None\<close> while it still has a flag to poll.\<close>

definition finish_message ::
    "'s server \<Rightarrow> 'p rpc_request \<Rightarrow> request_context \<Rightarrow> ('s, 'g) handler \<Rightarrow>
     ('s server \<times> 'g outcome) option" where
  "finish_message srv req c h =
     (case h of
        Return s v \<Rightarrow>
          Some (srv\<lparr>app := s\<rparr>,
                if req_id req = None then NoReply
                else if is_cancelled srv c then Failure request_cancelled
                else Result v)
      | ThrowsCancelled s checkpoint \<Rightarrow>
          Some (srv\<lparr>app := s\<rparr>,
                if req_id req = None then NoReply else Failure request_cancelled)
      | Throws s e \<Rightarrow>
          Some (srv\<lparr>app := s\<rparr>,
                if req_id req = None then NoReply else Failure (internal_error e))
      | Poll f \<Rightarrow> None)"

definition process_message ::
    "('s, 'p, 'g) implementation \<Rightarrow> 's server \<Rightarrow> 'p rpc_request \<Rightarrow> request_context option \<Rightarrow>
     's server \<times> 'g outcome" where
  "process_message I srv req ctx =
     (case (case ctx of Some c \<Rightarrow> (c, srv) | None \<Rightarrow> create_context I srv req) of
        (c, srv) \<Rightarrow>
          (case begin_message I srv req c of
             (srv, Inr out) \<Rightarrow> (srv, out)
           | (srv, Inl h) \<Rightarrow>
               (case finish_message srv req c (run_handler (is_cancelled srv c) h) of
                  Some r \<Rightarrow> r
                | None \<Rightarrow> (srv, NoReply))))"

datatype 'g reply = Response "rpc_id option" 'g | ErrorReply rpc_error_response

definition replies :: "rpc_id option \<Rightarrow> 'g outcome \<Rightarrow> 'g reply list" where
  "replies i out =
     (case out of
        Result v \<Rightarrow> [Response i v]
      | Failure e \<Rightarrow> [ErrorReply \<lparr>response_id = i, response_error = e\<rparr>]
      | NoReply \<Rightarrow> [])"

definition handle_message ::
    "('s, 'p, 'g) implementation \<Rightarrow> 's server \<Rightarrow> 'p rpc_request \<Rightarrow> request_context \<Rightarrow>
     's server \<times> 'g reply list" where
  "handle_message I srv req c =
     (case process_message I srv req (Some c) of
        (srv, out) \<Rightarrow> (unregister_context I srv req c, replies (req_id req) out))"

end
