(* ===== verification/RpcRun.thy ===== *)
theory RpcRun
  imports Rpc
begin

text \<open>
  \<^verbatim>\<open>JsonRpcServer::run\<close>: the thread that reads the input and the worker that processes
  the queued messages, as a step relation in which either thread may move; what holds in every
  reachable state, and what every finished run has answered.
\<close>

section \<open>The reader and the worker\<close>

datatype 'p reader =
    Initializing
  | Reading
  | Enqueuing "'p rpc_request" request_context
  | ShuttingDown
  | InputFinished

datatype ('s, 'p, 'g) worker =
    NotStarted
  | Idle
  | Popped "'p rpc_request" request_context
  | Running "'p rpc_request" request_context "('s, 'g) handler"
  | Concluded "'p rpc_request" request_context "'g outcome"
  | Replying "'p rpc_request" "'g outcome"
  | Exited

datatype thread = ReaderThread | WorkerThread

record ('s, 'p, 'g) system =
  inbox :: "'p rpc_request list"
  reader :: "'p reader"
  queue :: "('p rpc_request \<times> request_context) list"
  worker :: "('s, 'p, 'g) worker"
  server :: "'s server"
  outbox :: "(thread \<times> 'g reply) list"

definition not_initialized :: rpc_error where
  "not_initialized = \<lparr>error_code = - 32002, error_message = ''Server not initialized''\<rparr>"

definition invalid_request :: rpc_error where
  "invalid_request = \<lparr>error_code = - 32600, error_message = ''Invalid Request''\<rparr>"

definition send_error ::
    "rpc_error \<Rightarrow> 'p rpc_request \<Rightarrow> ('s, 'p, 'g) system \<Rightarrow> ('s, 'p, 'g) system" where
  "send_error e req sys =
     sys\<lparr>outbox := outbox sys @ [(ReaderThread, ErrorReply \<lparr>response_id = req_id req,
                                                            response_error = e\<rparr>)]\<rparr>"

definition handle_cancel_request ::
    "('s, 'p, 'g) implementation \<Rightarrow> 'p rpc_request \<Rightarrow> ('s, 'p, 'g) system \<Rightarrow> ('s, 'p, 'g) system" where
  "handle_cancel_request I req sys =
     sys\<lparr>server := fst (process_message I (server sys) req None)\<rparr>"

text \<open>One step of the thread that reads the input; \<open>inbox\<close> holds what it will read.\<close>

definition reader_step ::
    "('s, 'p, 'g) implementation \<Rightarrow> ('s, 'p, 'g) system \<Rightarrow> ('s, 'p, 'g) system option" where
  "reader_step I sys =
     (case (reader sys, inbox sys) of
        (Enqueuing req c, _) \<Rightarrow>
          Some (sys\<lparr>queue := queue sys @ [(req, c)],
                    reader := (if req_method req = ''shutdown'' then ShuttingDown else Reading)\<rparr>)
      | (InputFinished, _) \<Rightarrow> None
      | (_, []) \<Rightarrow> Some (sys\<lparr>reader := InputFinished\<rparr>)
      | (Initializing, req # rest) \<Rightarrow>
          if req_method req \<noteq> ''initialize'' then
            Some (send_error not_initialized req (sys\<lparr>inbox := rest\<rparr>))
          else
            (case create_context I (server sys) req of
               (c, srv) \<Rightarrow>
                 (case handle_message I (register_context I srv req c) req c of
                    (srv, out) \<Rightarrow>
                      Some (sys\<lparr>inbox := rest, server := srv, reader := Reading, worker := Idle,
                                outbox := outbox sys @ List.map (Pair ReaderThread) out\<rparr>)))
      | (Reading, req # rest) \<Rightarrow>
          if req_method req = ''$/cancelRequest'' then
            Some (handle_cancel_request I req (sys\<lparr>inbox := rest\<rparr>))
          else
            (case create_context I (server sys) req of
               (c, srv) \<Rightarrow>
                 Some (sys\<lparr>inbox := rest, server := register_context I srv req c,
                           reader := Enqueuing req c\<rparr>))
      | (ShuttingDown, req # rest) \<Rightarrow>
          if req_method req = ''exit'' then
            Some (sys\<lparr>inbox := rest, reader := InputFinished\<rparr>)
          else if req_method req = ''$/cancelRequest'' then
            Some (handle_cancel_request I req (sys\<lparr>inbox := rest\<rparr>))
          else
            Some (send_error invalid_request req (sys\<lparr>inbox := rest\<rparr>)))"

text \<open>One step of the worker; \<open>None\<close> when it waits for a message or is not there.\<close>

definition worker_step ::
    "('s, 'p, 'g) implementation \<Rightarrow> ('s, 'p, 'g) system \<Rightarrow> ('s, 'p, 'g) system option" where
  "worker_step I sys =
     (case worker sys of
        NotStarted \<Rightarrow> None
      | Idle \<Rightarrow>
          (case queue sys of
             [] \<Rightarrow> (if reader sys = InputFinished then Some (sys\<lparr>worker := Exited\<rparr>) else None)
           | (req, c) # rest \<Rightarrow> Some (sys\<lparr>queue := rest, worker := Popped req c\<rparr>))
      | Popped req c \<Rightarrow>
          (case begin_message I (server sys) req c of
             (srv, Inl h) \<Rightarrow> Some (sys\<lparr>server := srv, worker := Running req c h\<rparr>)
           | (srv, Inr out) \<Rightarrow> Some (sys\<lparr>server := srv, worker := Concluded req c out\<rparr>))
      | Running req c h \<Rightarrow>
          (case finish_message (server sys) req c h of
             Some (srv, out) \<Rightarrow> Some (sys\<lparr>server := srv, worker := Concluded req c out\<rparr>)
           | None \<Rightarrow>
               (case h of
                  Poll f \<Rightarrow>
                    Some (sys\<lparr>worker := Running req c (f (is_cancelled (server sys) c))\<rparr>)
                | _ \<Rightarrow> None))
      | Concluded req c out \<Rightarrow>
          Some (sys\<lparr>server := unregister_context I (server sys) req c,
                    worker := Replying req out\<rparr>)
      | Replying req out \<Rightarrow>
          Some (sys\<lparr>worker := Idle,
                    outbox := outbox sys @ List.map (Pair WorkerThread) (replies (req_id req) out)\<rparr>)
      | Exited \<Rightarrow> None)"

inductive step :: "('s, 'p, 'g) implementation \<Rightarrow> ('s, 'p, 'g) system \<Rightarrow> ('s, 'p, 'g) system \<Rightarrow> bool"
  for I where
  step_reader: "reader_step I s = Some t \<Longrightarrow> step I s t"
| step_worker: "worker_step I s = Some t \<Longrightarrow> step I s t"

inductive_cases step_cases: "step I s t"

definition initial :: "'p rpc_request list \<Rightarrow> 's \<Rightarrow> ('s, 'p, 'g) system" where
  "initial msgs a =
     \<lparr>inbox = msgs, reader = Initializing, queue = [], worker = NotStarted,
      server = \<lparr>next_id = 1, flags = Map.empty, active_requests = Map.empty,
                pending_changes = Map.empty, app = a\<rparr>,
      outbox = []\<rparr>"

inductive reachable ::
    "('s, 'p, 'g) implementation \<Rightarrow> 'p rpc_request list \<Rightarrow> 's \<Rightarrow> ('s, 'p, 'g) system \<Rightarrow> bool"
  for I msgs a where
  reach_initial: "reachable I msgs a (initial msgs a)"
| reach_step: "reachable I msgs a s \<Longrightarrow> step I s t \<Longrightarrow> reachable I msgs a t"

definition finished :: "('s, 'p, 'g) system \<Rightarrow> bool" where
  "finished sys \<longleftrightarrow> reader sys = InputFinished \<and> (worker sys = NotStarted \<or> worker sys = Exited)"

section \<open>Termination and progress\<close>

primrec polls :: "('s, 'g) handler \<Rightarrow> nat" where
  "polls (Return s v) = 0"
| "polls (Throws s e) = 0"
| "polls (ThrowsCancelled s e) = 0"
| "polls (Poll f) = Suc (max (polls (f True)) (polls (f False)))"

lemma polls_branch: "polls (f c) \<le> max (polls (f True)) (polls (f False))"
  by (cases c) auto

lemma run_handler_ends: "run_handler c h \<noteq> Poll f"
  by (induction h) auto

lemma finish_message_poll [simp]: "finish_message srv req c (Poll f) = None"
  by (simp add: finish_message_def)

lemma finish_message_none: "finish_message srv req c h = None \<longleftrightarrow> (\<exists>f. h = Poll f)"
  by (auto simp: finish_message_def split: handler.splits)

fun reader_rank :: "'p reader \<Rightarrow> nat" where
  "reader_rank Initializing = 1"
| "reader_rank Reading = 1"
| "reader_rank (Enqueuing req c) = 2"
| "reader_rank ShuttingDown = 1"
| "reader_rank InputFinished = 0"

fun worker_rank :: "('s, 'p, 'g) worker \<Rightarrow> nat" where
  "worker_rank NotStarted = 0"
| "worker_rank Idle = 1"
| "worker_rank (Replying req out) = 2"
| "worker_rank (Concluded req c out) = 3"
| "worker_rank (Running req c h) = 4"
| "worker_rank (Popped req c) = 5"
| "worker_rank Exited = 0"

fun worker_polls :: "('s, 'p, 'g) worker \<Rightarrow> nat" where
  "worker_polls (Running req c h) = polls h"
| "worker_polls _ = 0"

definition system_order :: "(('s, 'p, 'g) system \<times> ('s, 'p, 'g) system) set" where
  "system_order =
     measures [\<lambda>s. 2 * length (inbox s) + reader_rank (reader s), \<lambda>s. length (queue s),
               \<lambda>s. worker_rank (worker s), \<lambda>s. worker_polls (worker s)]"

lemma reader_step_decreases:
  assumes "reader_step I s = Some t"
  shows "2 * length (inbox t) + reader_rank (reader t)
         < 2 * length (inbox s) + reader_rank (reader s)"
  using assms
  by (auto simp: reader_step_def send_error_def handle_cancel_request_def
      split: reader.splits list.splits if_splits prod.splits)

lemma worker_step_keeps_reader:
  assumes "worker_step I s = Some t"
  shows "inbox t = inbox s" and "reader t = reader s"
  using assms
  by (auto simp: worker_step_def
      split: worker.splits list.splits if_splits prod.splits sum.splits option.splits handler.splits)

lemma worker_step_decreases:
  assumes "worker_step I s = Some t"
  shows "length (queue t) < length (queue s) \<or>
         queue t = queue s \<and>
         (worker_rank (worker t) < worker_rank (worker s) \<or>
          worker_rank (worker t) = worker_rank (worker s) \<and>
          worker_polls (worker t) < worker_polls (worker s))"
  using assms
  by (auto simp: worker_step_def finish_message_def less_Suc_eq_le polls_branch
      split: worker.splits list.splits if_splits prod.splits sum.splits option.splits handler.splits)

lemma step_decreases: "step I s t \<Longrightarrow> (t, s) \<in> system_order"
proof (elim step_cases)
  assume r: "reader_step I s = Some t"
  show ?thesis using reader_step_decreases [OF r] by (simp add: system_order_def)
next
  assume w: "worker_step I s = Some t"
  show ?thesis using worker_step_decreases [OF w] worker_step_keeps_reader [OF w]
    by (auto simp: system_order_def)
qed

lemma wf_system_order: "wf system_order"
  by (simp add: system_order_def)

lemma worker_moves:
  assumes "reader s = InputFinished" and "worker s \<noteq> NotStarted" and "worker s \<noteq> Exited"
  shows "worker_step I s \<noteq> None"
  using assms
  by (auto simp: worker_step_def finish_message_none
      split: worker.splits list.splits prod.splits sum.splits option.splits handler.splits)

lemma reader_moves: "reader s \<noteq> InputFinished \<Longrightarrow> reader_step I s \<noteq> None"
  by (auto simp: reader_step_def split: reader.splits list.splits prod.splits)

lemma not_finished_steps: "\<not> finished s \<Longrightarrow> \<exists>t. step I s t"
  using reader_moves [of s I] worker_moves [of s I]
  by (cases "reader s = InputFinished") (auto simp: finished_def intro: step.intros)

lemma finished_no_step: "finished s \<Longrightarrow> \<not> step I s t"
  by (auto simp: finished_def reader_step_def worker_step_def elim!: step_cases
      split: reader.splits)

lemma run_finishes_from: "\<exists>t. (step I)\<^sup>*\<^sup>* s t \<and> finished t"
proof (induction s rule: wf_induct_rule [OF wf_system_order])
  case (1 s)
  show ?case
  proof (cases "finished s")
    case False
    then obtain t where t: "step I s t" using not_finished_steps by blast
    then obtain u where "(step I)\<^sup>*\<^sup>* t u" "finished u" using 1 step_decreases by blast
    then show ?thesis using t by (meson converse_rtranclp_into_rtranclp)
  qed auto
qed
section \<open>What is answered\<close>

text \<open>The messages the worker processes: those read between initialize and shutdown.\<close>

fun main_messages :: "'p rpc_request list \<Rightarrow> 'p rpc_request list" where
  "main_messages [] = []"
| "main_messages (m # ms) =
     (if req_method m = ''$/cancelRequest'' then main_messages ms
      else if req_method m = ''shutdown'' then [m]
      else m # main_messages ms)"

fun after_initialize :: "'p rpc_request list \<Rightarrow> 'p rpc_request list" where
  "after_initialize [] = []"
| "after_initialize (m # ms) =
     (if req_method m = ''initialize'' then ms else after_initialize ms)"

definition worker_messages :: "'p rpc_request list \<Rightarrow> 'p rpc_request list" where
  "worker_messages msgs = main_messages (after_initialize msgs)"

definition answered :: "('s, 'p, 'g) implementation \<Rightarrow> 'p rpc_request \<Rightarrow> bool" where
  "answered I m \<longleftrightarrow> req_id m \<noteq> None \<and> requests I (req_method m) \<noteq> None"

definition expected_ids ::
    "('s, 'p, 'g) implementation \<Rightarrow> 'p rpc_request list \<Rightarrow> rpc_id option list" where
  "expected_ids I ms = List.map req_id (filter (answered I) ms)"

fun reply_id :: "'g reply \<Rightarrow> rpc_id option" where
  "reply_id (Response i v) = i"
| "reply_id (ErrorReply r) = response_id r"

definition sent_by :: "thread \<Rightarrow> ('s, 'p, 'g) system \<Rightarrow> 'g reply list" where
  "sent_by th s = List.map snd (filter (\<lambda>p. fst p = th) (outbox s))"

text \<open>What the state still has to answer, in the order in which it will.\<close>

fun worker_current :: "('s, 'p, 'g) implementation \<Rightarrow> ('s, 'p, 'g) worker \<Rightarrow> rpc_id option list" where
  "worker_current I (Popped req c) = expected_ids I [req]"
| "worker_current I (Running req c h) = (if req_id req = None then [] else [req_id req])"
| "worker_current I (Concluded req c out) = (if out = NoReply then [] else [req_id req])"
| "worker_current I (Replying req out) = (if out = NoReply then [] else [req_id req])"
| "worker_current I _ = []"

definition to_come :: "'p reader \<Rightarrow> 'p rpc_request list \<Rightarrow> 'p rpc_request list" where
  "to_come r ms =
     (case r of
        Initializing \<Rightarrow> worker_messages ms
      | Reading \<Rightarrow> main_messages ms
      | Enqueuing req c \<Rightarrow>
          req # (if req_method req = ''shutdown'' then [] else main_messages ms)
      | _ \<Rightarrow> [])"

definition all_ids :: "('s, 'p, 'g) implementation \<Rightarrow> ('s, 'p, 'g) system \<Rightarrow> rpc_id option list" where
  "all_ids I s =
     List.map reply_id (sent_by WorkerThread s) @ worker_current I (worker s) @
     expected_ids I (List.map fst (queue s)) @ expected_ids I (to_come (reader s) (inbox s))"

lemma expected_ids_append: "expected_ids I (a @ b) = expected_ids I a @ expected_ids I b"
  by (simp add: expected_ids_def)

lemma expected_ids_nil: "expected_ids I [] = []"
  by (simp add: expected_ids_def)

lemma expected_ids_cons: "expected_ids I (a # b) = expected_ids I [a] @ expected_ids I b"
  by (simp add: expected_ids_def)

lemma replies_ids: "List.map reply_id (replies i out) = (if out = NoReply then [] else [i])"
  by (auto simp: replies_def split: outcome.splits)

lemma sent_by_append:
  "sent_by th (s\<lparr>outbox := outbox s @ List.map (Pair th') rs\<rparr>)
   = sent_by th s @ (if th = th' then rs else [])"
  by (simp add: sent_by_def comp_def)

lemma begin_message_current:
  assumes "begin_message I srv req c = (srv', r)"
  shows "(case r of Inl h \<Rightarrow> (if req_id req = None then [] else [req_id req])
          | Inr out \<Rightarrow> (if out = NoReply then [] else [req_id req])) = expected_ids I [req]"
  using assms
  by (auto simp: begin_message_def expected_ids_def answered_def
      split: if_splits option.splits notification_handler.splits sum.splits)

lemma finish_message_outcome:
  "finish_message srv req c h = Some (srv', out) \<Longrightarrow> out = NoReply \<longleftrightarrow> req_id req = None"
  by (auto simp: finish_message_def split: handler.splits if_splits)

lemma worker_step_ids:
  assumes "worker_step I s = Some t"
  shows "all_ids I t = all_ids I s"
proof (cases "worker s")
  case (Popped req c)
  then show ?thesis using assms
    begin_message_current [of I "server s" req c]
    by (cases "begin_message I (server s) req c"; cases "snd (begin_message I (server s) req c)")
       (auto simp: worker_step_def all_ids_def sent_by_def)
next
  case (Running req c h)
  show ?thesis
  proof (cases "finish_message (server s) req c h")
    case None
    then show ?thesis using assms Running
      by (auto simp: worker_step_def all_ids_def sent_by_def finish_message_none)
  next
    case (Some p)
    then show ?thesis using assms Running finish_message_outcome [of "server s" req c h]
      by (cases p) (auto simp: worker_step_def all_ids_def sent_by_def)
  qed
next
  case (Replying req out)
  then show ?thesis using assms
    by (auto simp: worker_step_def all_ids_def sent_by_def replies_ids comp_def
        simp flip: sent_by_append)
next
  case Idle
  then show ?thesis using assms
    by (auto simp: worker_step_def all_ids_def sent_by_def expected_ids_def
        split: list.splits if_splits)
qed (use assms in \<open>auto simp: worker_step_def all_ids_def sent_by_def\<close>)

lemma reader_step_ids:
  assumes "reader_step I s = Some t" and "reader s = Initializing \<Longrightarrow> worker s = NotStarted"
  shows "all_ids I t = all_ids I s"
proof (cases "reader s")
  case (Enqueuing req c)
  then show ?thesis using assms
    by (auto simp: reader_step_def all_ids_def to_come_def expected_ids_def sent_by_def
        split: if_splits)
next
  case Initializing
  then show ?thesis using assms
    by (cases "inbox s") (auto simp: reader_step_def all_ids_def to_come_def worker_messages_def
        send_error_def sent_by_def comp_def expected_ids_nil split: if_splits prod.splits)
next
  case Reading
  then show ?thesis using assms
    by (cases "inbox s") (auto simp: reader_step_def all_ids_def to_come_def
        handle_cancel_request_def sent_by_def expected_ids_nil split: if_splits prod.splits)
next
  case ShuttingDown
  then show ?thesis using assms
    by (cases "inbox s") (auto simp: reader_step_def all_ids_def to_come_def
        handle_cancel_request_def send_error_def sent_by_def split: if_splits)
qed (use assms in \<open>simp add: reader_step_def\<close>)

lemma initializing_no_worker:
  "reachable I msgs a s \<Longrightarrow> reader s = Initializing \<Longrightarrow> worker s = NotStarted \<and> queue s = []"
proof (induction rule: reachable.induct)
  case (reach_step s t)
  from reach_step(2) show ?case
  proof (elim step_cases)
    assume "reader_step I s = Some t"
    with reach_step show ?thesis
      by (auto simp: reader_step_def send_error_def handle_cancel_request_def
          split: reader.splits list.splits if_splits prod.splits)
  next
    assume w: "worker_step I s = Some t"
    with reach_step worker_step_keeps_reader [OF w] show ?thesis
      by (auto simp: worker_step_def)
  qed
qed (simp add: initial_def)

lemma step_ids:
  "reachable I msgs a s \<Longrightarrow> step I s t \<Longrightarrow> all_ids I t = all_ids I s"
  by (metis initializing_no_worker reader_step_ids worker_step_ids step_cases)

lemma reachable_ids: "reachable I msgs a s \<Longrightarrow> all_ids I s = expected_ids I (worker_messages msgs)"
proof (induction rule: reachable.induct)
  case reach_initial
  show ?case
    by (simp add: initial_def all_ids_def sent_by_def to_come_def expected_ids_nil)
qed (simp add: step_ids)

text \<open>A worker that has exited, or never started, leaves nothing to do.\<close>

lemma step_worker_ended:
  assumes "reachable I msgs a s" and "step I s t"
    and "worker s = Exited \<or> worker s = NotStarted \<Longrightarrow> queue s = []"
    and "worker s = Exited \<Longrightarrow> reader s = InputFinished"
    and "worker s = NotStarted \<Longrightarrow> reader s = Initializing \<or> reader s = InputFinished"
  shows "(worker t = Exited \<or> worker t = NotStarted \<longrightarrow> queue t = []) \<and>
         (worker t = Exited \<longrightarrow> reader t = InputFinished) \<and>
         (worker t = NotStarted \<longrightarrow> reader t = Initializing \<or> reader t = InputFinished)"
  using assms(2)
proof (elim step_cases)
  assume "reader_step I s = Some t"
  with assms(3-5) show ?thesis
    by (auto simp: reader_step_def send_error_def handle_cancel_request_def
        split: reader.splits list.splits if_splits prod.splits)
next
  assume w: "worker_step I s = Some t"
  with assms(3-5) worker_step_keeps_reader [OF w] show ?thesis
    by (auto simp: worker_step_def
        split: worker.splits list.splits if_splits prod.splits sum.splits option.splits
          handler.splits)
qed

lemma worker_ended:
  "reachable I msgs a s \<Longrightarrow>
     (worker s = Exited \<or> worker s = NotStarted \<longrightarrow> queue s = []) \<and>
     (worker s = Exited \<longrightarrow> reader s = InputFinished) \<and>
     (worker s = NotStarted \<longrightarrow> reader s = Initializing \<or> reader s = InputFinished)"
proof (induction rule: reachable.induct)
  case (reach_step s t)
  then show ?case using step_worker_ended [OF reach_step(1,2)] by blast
qed (simp add: initial_def)

lemma finished_all_ids:
  assumes "reachable I msgs a s" and "finished s"
  shows "all_ids I s = List.map reply_id (sent_by WorkerThread s)"
  using worker_ended [OF assms(1)] assms(2)
  by (auto simp: finished_def all_ids_def expected_ids_nil to_come_def)

end
