(* ===== verification/RpcRegistry.thy ===== *)
theory RpcRegistry
  imports RpcRun
begin

text \<open>
  The invariant of the running server: its registries hold the newest live message of every
  request id and of every document, a superseded document change is cancelled, and a started
  request that does not support cancellation is not.
\<close>

section \<open>What the operations on contexts change\<close>

lemma cancel_context_simps [simp]:
  "next_id (cancel_context srv d) = next_id srv"
  "active_requests (cancel_context srv d) = active_requests srv"
  "pending_changes (cancel_context srv d) = pending_changes srv"
  "app (cancel_context srv d) = app srv"
  "flags (cancel_context srv d) i = None \<longleftrightarrow> flags srv i = None"
  "has_started (cancel_context srv d) c = has_started srv c"
  by (auto simp: cancel_context_def has_started_def split: option.splits)

lemma is_cancelled_cancel_context:
  "is_cancelled (cancel_context srv d) c \<longleftrightarrow>
     is_cancelled srv c \<or> ctx_id c = ctx_id d \<and> flags srv (ctx_id d) \<noteq> None"
  by (auto simp: cancel_context_def is_cancelled_def split: option.splits)

lemma mark_started_simps [simp]:
  "next_id (mark_started srv d) = next_id srv"
  "active_requests (mark_started srv d) = active_requests srv"
  "pending_changes (mark_started srv d) = pending_changes srv"
  "app (mark_started srv d) = app srv"
  "flags (mark_started srv d) i = None \<longleftrightarrow> flags srv i = None"
  "is_cancelled (mark_started srv d) c = is_cancelled srv c"
  by (auto simp: mark_started_def is_cancelled_def split: option.splits)

lemma has_started_mark_started:
  "has_started (mark_started srv d) c \<longleftrightarrow>
     has_started srv c \<or> ctx_id c = ctx_id d \<and> flags srv (ctx_id d) \<noteq> None"
  by (auto simp: mark_started_def has_started_def split: option.splits)

lemma flags_update_simps [simp]:
  "is_cancelled (srv\<lparr>active_requests := m\<rparr>) c = is_cancelled srv c"
  "is_cancelled (srv\<lparr>pending_changes := p\<rparr>) c = is_cancelled srv c"
  "is_cancelled (srv\<lparr>app := s\<rparr>) c = is_cancelled srv c"
  "has_started (srv\<lparr>active_requests := m\<rparr>) c = has_started srv c"
  "has_started (srv\<lparr>pending_changes := p\<rparr>) c = has_started srv c"
  "has_started (srv\<lparr>app := s\<rparr>) c = has_started srv c"
  by (simp_all add: is_cancelled_def has_started_def)

lemma make_context_simps [simp]:
  "ctx_id (fst (make_context srv m i can)) = next_id srv"
  "ctx_method (fst (make_context srv m i can)) = m"
  "ctx_rpc_id (fst (make_context srv m i can)) = i"
  "supports_cancellation (fst (make_context srv m i can)) = can"
  "next_id (snd (make_context srv m i can)) = Suc (next_id srv)"
  "active_requests (snd (make_context srv m i can)) = active_requests srv"
  "pending_changes (snd (make_context srv m i can)) = pending_changes srv"
  "app (snd (make_context srv m i can)) = app srv"
  by (simp_all add: make_context_def)

lemma make_context_old:
  assumes "j \<noteq> next_id srv"
  shows "flags (snd (make_context srv m i can)) j = flags srv j"
  using assms by (simp add: make_context_def)

lemma make_context_old_flags:
  assumes "ctx_id c \<noteq> next_id srv"
  shows "is_cancelled (snd (make_context srv m i can)) c = is_cancelled srv c"
    and "has_started (snd (make_context srv m i can)) c = has_started srv c"
  by (simp_all add: is_cancelled_def has_started_def make_context_old assms)

lemma make_context_new:
  "i \<noteq> None \<or> can \<Longrightarrow>
   flags (snd (make_context srv m i can)) (next_id srv) = Some \<lparr>cancelled = False, started = False\<rparr>"
  by (simp add: make_context_def)

section \<open>The registries\<close>

type_synonym 'p live_message = "'p rpc_request \<times> request_context"

definition request_key :: "'p live_message \<Rightarrow> rpc_id option" where
  "request_key x = req_id (fst x)"

definition change_key :: "('s, 'p, 'g) implementation \<Rightarrow> 'p live_message \<Rightarrow> string option" where
  "change_key I x = (if supports_cancellation (snd x) then did_change_key I (fst x) else None)"

text \<open>The newest context registered under each key, the oldest message of the list first.\<close>

definition newest ::
    "('p live_message \<Rightarrow> 'k option) \<Rightarrow> 'p live_message list \<Rightarrow> 'k \<Rightarrow> request_context option" where
  "newest key xs k =
     map_option snd (List.find (\<lambda>x. key x = Some k) (rev xs))"

lemma newest_nil [simp]: "newest key [] = Map.empty"
  by (auto simp: newest_def)

lemma newest_snoc:
  "newest key (xs @ [x]) =
     (case key x of None \<Rightarrow> newest key xs | Some k \<Rightarrow> (newest key xs)(k \<mapsto> snd x))"
  by (auto simp: newest_def fun_eq_iff split: option.splits)

lemma find_append:
  "List.find P (xs @ ys) = (case List.find P xs of Some x \<Rightarrow> Some x | None \<Rightarrow> List.find P ys)"
  by (induction xs) auto

lemma find_exists: "x \<in> set xs \<Longrightarrow> P x \<Longrightarrow> List.find P xs \<noteq> None"
  by (auto simp: find_None_iff)

lemma find_Some_in: "List.find P xs = Some x \<Longrightarrow> x \<in> set xs \<and> P x"
  by (auto simp: find_Some_iff)

lemma newest_in:
  assumes "newest key xs k = Some c"
  shows "\<exists>r. (r, c) \<in> set xs \<and> key (r, c) = Some k"
proof -
  obtain x where "List.find (\<lambda>x. key x = Some k) (rev xs) = Some x" and "snd x = c"
    using assms by (auto simp: newest_def)
  then show ?thesis using find_Some_in [of "\<lambda>x. key x = Some k" "rev xs" x]
    by (cases x) auto
qed

lemma newest_exists:
  "x \<in> set xs \<Longrightarrow> key x = Some k \<Longrightarrow> newest key xs k \<noteq> None"
  using find_exists [of x "rev xs" "\<lambda>x. key x = Some k"] by (auto simp: newest_def)

lemma newest_last:
  "sorted_wrt R xs \<Longrightarrow> x \<in> set xs \<Longrightarrow> key x = Some k \<Longrightarrow>
   \<exists>y \<in> set xs. newest key xs k = Some (snd y) \<and> key y = Some k \<and> (x = y \<or> R x y)"
proof (induction xs rule: rev_induct)
  case (snoc z xs)
  show ?case
  proof (cases "key z = Some k")
    case True
    then show ?thesis using snoc.prems
      by (intro bexI [of _ z]) (auto simp: newest_snoc sorted_wrt_append)
  next
    case False
    with snoc.prems have "sorted_wrt R xs" "x \<in> set xs" by (auto simp: sorted_wrt_append)
    then obtain y where "y \<in> set xs" "newest key xs k = Some (snd y)" "key y = Some k" "x = y \<or> R x y"
      using snoc.IH snoc.prems(3) by blast
    then show ?thesis using False
      by (intro bexI [of _ y]) (auto simp: newest_snoc split: option.splits)
  qed
qed simp

lemma newest_erase_first:
  assumes d: "distinct (List.map (ctx_id \<circ> snd) (x # xs))"
  shows "newest key xs =
     (case key x of None \<Rightarrow> newest key (x # xs)
      | Some k \<Rightarrow> erase_if_same (newest key (x # xs)) k (snd x))"
proof (cases "key x")
  case None
  then show ?thesis
    by (auto simp: newest_def fun_eq_iff find_append split: option.splits)
next
  case (Some k)
  have same: "ctx_id c \<noteq> ctx_id (snd x)" if n: "newest key xs j = Some c" for j c
  proof -
    obtain r where "(r, c) \<in> set xs" using newest_in [OF n] by blast
    then have "ctx_id c \<in> set (List.map (ctx_id \<circ> snd) xs)" by force
    moreover have "ctx_id (snd x) \<notin> set (List.map (ctx_id \<circ> snd) xs)" using d by simp
    ultimately show ?thesis by metis
  qed
  have other: "newest key (x # xs) j = newest key xs j" if "j \<noteq> k" for j
    using that Some by (simp add: newest_def find_append split: option.splits)
  have at: "newest key (x # xs) k = (case newest key xs k of None \<Rightarrow> Some (snd x) | Some c \<Rightarrow> Some c)"
    using Some by (simp add: newest_def find_append split: option.splits)
  show ?thesis
  proof (cases "newest key xs k")
    case None
    then show ?thesis using Some at other by (auto simp: erase_if_same_def fun_eq_iff)
  next
    case (Some c)
    then have "newest key (x # xs) j = newest key xs j" for j
      using at other by (cases "j = k") auto
    then have "newest key (x # xs) = newest key xs" by (rule ext)
    then show ?thesis using \<open>key x = Some k\<close> Some same [OF Some]
      by (simp add: erase_if_same_def)
  qed
qed

definition live :: "('s, 'p, 'g) system \<Rightarrow> 'p live_message list" where
  "live s =
     (case worker s of
        Popped r c \<Rightarrow> [(r, c)] | Running r c h \<Rightarrow> [(r, c)] | Concluded r c out \<Rightarrow> [(r, c)] | _ \<Rightarrow> [])
     @ queue s @ (case reader s of Enqueuing r c \<Rightarrow> [(r, c)] | _ \<Rightarrow> [])"

text \<open>A live message has a context made for it, with a cell of its own where it needs one.\<close>

definition live_ok :: "('s, 'p, 'g) implementation \<Rightarrow> 's server \<Rightarrow> 'p live_message \<Rightarrow> bool" where
  "live_ok I srv x \<longleftrightarrow>
     ctx_id (snd x) < next_id srv \<and> ctx_rpc_id (snd x) = req_id (fst x) \<and>
     supports_cancellation (snd x) = (req_method (fst x) \<in> set (cancellable_methods I)) \<and>
     (req_id (fst x) \<noteq> None \<or> supports_cancellation (snd x) \<longrightarrow>
        flags srv (ctx_id (snd x)) \<noteq> None)"

definition superseded_by ::
    "('s, 'p, 'g) implementation \<Rightarrow> 's server \<Rightarrow> 'p live_message \<Rightarrow> 'p live_message \<Rightarrow> bool" where
  "superseded_by I srv x y \<longleftrightarrow>
     (change_key I x \<noteq> None \<and> change_key I x = change_key I y \<longrightarrow> is_cancelled srv (snd x))"

text \<open>The registries hold the newest live message of every id and of every document.\<close>

definition wf_live ::
    "('s, 'p, 'g) implementation \<Rightarrow> 's server \<Rightarrow> 'p live_message list \<Rightarrow> bool" where
  "wf_live I srv xs \<longleftrightarrow>
     distinct (List.map (ctx_id \<circ> snd) xs) \<and> (\<forall>x \<in> set xs. live_ok I srv x) \<and>
     active_requests srv = newest request_key xs \<and>
     pending_changes srv = newest (change_key I) xs \<and>
     sorted_wrt (superseded_by I srv) xs"

lemma wf_live_same_context:
  assumes "wf_live I srv xs" and "x \<in> set xs" and "y \<in> set xs"
    and "ctx_id (snd x) = ctx_id (snd y)"
  shows "x = y"
proof -
  have "inj_on (ctx_id \<circ> snd) (set xs)" using assms(1) by (simp add: wf_live_def distinct_map)
  from inj_onD [OF this _ assms(2,3)] show ?thesis using assms(4) by simp
qed

lemma live_ok_mono:
  assumes "live_ok I srv x" and "next_id srv \<le> next_id srv'"
    and "flags srv (ctx_id (snd x)) \<noteq> None \<Longrightarrow> flags srv' (ctx_id (snd x)) \<noteq> None"
  shows "live_ok I srv' x"
  using assms by (auto simp: live_ok_def)

text \<open>Operations that only raise flags, or make contexts that are not live, keep the invariant.\<close>

definition raises :: "'s server \<Rightarrow> 's server \<Rightarrow> bool" where
  "raises srv srv' \<longleftrightarrow>
     next_id srv \<le> next_id srv' \<and>
     (\<forall>i < next_id srv. flags srv i \<noteq> None \<longrightarrow> flags srv' i \<noteq> None) \<and>
     (\<forall>c. ctx_id c < next_id srv \<longrightarrow> is_cancelled srv c \<longrightarrow> is_cancelled srv' c)"

lemma raises_refl [simp]: "raises srv srv"
  by (simp add: raises_def)

lemma raises_trans: "raises a b \<Longrightarrow> raises b c \<Longrightarrow> raises a c"
  unfolding raises_def by (meson less_le_trans order_trans)

lemma raises_cancel_context [simp]: "raises srv (cancel_context srv d)"
  by (simp add: raises_def is_cancelled_cancel_context)

lemma raises_mark_started [simp]: "raises srv (mark_started srv d)"
  by (simp add: raises_def)

lemma raises_make_context [simp]: "raises srv (snd (make_context srv m i can))"
  by (simp add: raises_def make_context_old make_context_old_flags)

lemma raises_cancel_request [simp]: "raises srv (cancel_request srv i)"
  by (simp add: cancel_request_def split: option.splits)

lemma wf_live_raises:
  assumes wf: "wf_live I srv xs" and r: "raises srv srv'"
    and a: "active_requests srv' = active_requests srv"
    and p: "pending_changes srv' = pending_changes srv"
  shows "wf_live I srv' xs"
proof -
  have ok: "live_ok I srv x" if "x \<in> set xs" for x using wf that by (simp add: wf_live_def)
  then have 1: "live_ok I srv' x" if "x \<in> set xs" for x
    using live_ok_mono [OF ok [OF that]] r that by (simp add: raises_def live_ok_def)
  have 2: "sorted_wrt (superseded_by I srv') xs"
  proof (rule sorted_wrt_mono_rel)
    show "sorted_wrt (superseded_by I srv) xs" using wf by (simp add: wf_live_def)
    show "superseded_by I srv' x y" if "x \<in> set xs" "superseded_by I srv x y" for x y
      using that ok [OF that(1)] r by (auto simp: superseded_by_def raises_def live_ok_def)
  qed
  show ?thesis using wf 1 2 a p by (simp add: wf_live_def)
qed


lemma register_context_simps:
  "active_requests (register_context I srv r c) =
     (case req_id r of None \<Rightarrow> active_requests srv | Some i \<Rightarrow> (active_requests srv)(i \<mapsto> c))"
  "pending_changes (register_context I srv r c) =
     (case change_key I (r, c) of
        None \<Rightarrow> pending_changes srv | Some k \<Rightarrow> (pending_changes srv)(k \<mapsto> c))"
  "next_id (register_context I srv r c) = next_id srv"
  "app (register_context I srv r c) = app srv"
  by (auto simp: register_context_def change_key_def Let_def split: option.splits)

lemma raises_update [simp]:
  "raises a (b\<lparr>active_requests := m\<rparr>) = raises a b"
  "raises a (b\<lparr>pending_changes := p\<rparr>) = raises a b"
  "raises a (b\<lparr>app := s\<rparr>) = raises a b"
  by (auto simp: raises_def)

lemma raises_update_cancel [simp]:
  "raises srv (cancel_context (srv\<lparr>active_requests := m\<rparr>) d)"
  using raises_trans [OF _ raises_cancel_context] raises_update(1) raises_refl by blast

lemma raises_register_context [simp]: "raises srv (register_context I srv r c)"
  by (auto simp: register_context_def Let_def split: option.splits)

lemma register_context_supersedes:
  assumes "change_key I (r, c) = Some k" and "pending_changes srv k = Some d"
    and "ctx_id d \<noteq> ctx_id c" and "flags srv (ctx_id d) \<noteq> None"
  shows "is_cancelled (register_context I srv r c) d"
  using assms
  by (auto simp: register_context_def change_key_def Let_def is_cancelled_cancel_context
      split: option.splits if_splits)

lemma wf_live_register:
  assumes wf: "wf_live I srv xs" and cs: "create_context I srv r = (c, srv')"
  shows "wf_live I (register_context I srv' r c) (xs @ [(r, c)])"
proof -
  let ?s = "register_context I srv' r c"
  have c: "ctx_id c = next_id srv" "ctx_rpc_id c = req_id r"
    "supports_cancellation c = (req_method r \<in> set (cancellable_methods I))"
    "next_id srv' = Suc (next_id srv)" "active_requests srv' = active_requests srv"
    "pending_changes srv' = pending_changes srv" "raises srv srv'"
    "req_id r \<noteq> None \<or> supports_cancellation c \<Longrightarrow> flags srv' (ctx_id c) \<noteq> None"
    using cs by (auto simp: create_context_def make_context_def raises_def is_cancelled_def)
  have r: "raises srv ?s" using c(7) raises_register_context raises_trans by blast
  have old: "live_ok I srv x" if "x \<in> set xs" for x using wf that by (simp add: wf_live_def)
  have 1: "distinct (List.map (ctx_id \<circ> snd) (xs @ [(r, c)]))"
    using wf old c(1) by (fastforce simp: wf_live_def live_ok_def)
  have 2: "live_ok I ?s x" if "x \<in> set xs" for x
    using live_ok_mono [OF old [OF that]] r old [OF that] by (simp add: raises_def live_ok_def)
  have 3: "live_ok I ?s (r, c)"
    using c raises_register_context [of srv' I r c]
    by (auto simp: live_ok_def raises_def register_context_simps)
  have 4: "active_requests ?s = newest request_key (xs @ [(r, c)])"
    using wf c
    by (simp add: newest_snoc register_context_simps wf_live_def request_key_def split: option.split)
  have 5: "pending_changes ?s = newest (change_key I) (xs @ [(r, c)])"
    using wf c
    by (simp add: newest_snoc register_context_simps wf_live_def split: option.split)
  have 6: "sorted_wrt (superseded_by I ?s) xs"
  proof (rule sorted_wrt_mono_rel)
    show "sorted_wrt (superseded_by I srv) xs" using wf by (simp add: wf_live_def)
    show "superseded_by I ?s x y" if "x \<in> set xs" "superseded_by I srv x y" for x y
      using that old [OF that(1)] r by (auto simp: superseded_by_def raises_def live_ok_def)
  qed
  have 7: "superseded_by I ?s x (r, c)" if "x \<in> set xs" for x
  proof (cases "change_key I x")
    case None
    then show ?thesis by (simp add: superseded_by_def)
  next
    case (Some k)
    have "sorted_wrt (superseded_by I srv) xs" using wf by (simp add: wf_live_def)
    from newest_last [where key = "change_key I", OF this that Some] obtain y where y: "y \<in> set xs"
      "newest (change_key I) xs k = Some (snd y)" "change_key I y = Some k"
      "x = y \<or> superseded_by I srv x y" by blast
    have ylt: "ctx_id (snd y) < next_id srv" using old [OF y(1)] by (simp add: live_ok_def)
    have fl: "flags srv' (ctx_id (snd y)) \<noteq> None"
      using old [OF y(1)] y(3) c(7) ylt
      by (auto simp: live_ok_def raises_def change_key_def split: if_splits)
    show ?thesis
    proof (cases "change_key I (r, c) = Some k")
      case False
      then show ?thesis using Some by (simp add: superseded_by_def)
    next
      case True
      have "is_cancelled ?s (snd y)"
        using register_context_supersedes [OF True _ _ fl] y(2) c(1) c(6) ylt wf
        by (simp add: wf_live_def)
      moreover have "is_cancelled ?s (snd x)" if "superseded_by I srv x y"
        using that Some y(3) old [OF \<open>x \<in> set xs\<close>] r
        by (auto simp: superseded_by_def raises_def live_ok_def)
      ultimately show ?thesis using y(4) by (auto simp: superseded_by_def)
    qed
  qed
  show ?thesis using 1 2 3 4 5 6 7 by (auto simp: wf_live_def sorted_wrt_append)
qed


lemma unregister_context_simps:
  "active_requests (unregister_context I srv r c) =
     (case req_id r of None \<Rightarrow> active_requests srv
      | Some i \<Rightarrow> erase_if_same (active_requests srv) i c)"
  "pending_changes (unregister_context I srv r c) =
     (case change_key I (r, c) of None \<Rightarrow> pending_changes srv
      | Some k \<Rightarrow> erase_if_same (pending_changes srv) k c)"
  "next_id (unregister_context I srv r c) = next_id srv"
  "flags (unregister_context I srv r c) = flags srv"
  "app (unregister_context I srv r c) = app srv"
  "is_cancelled (unregister_context I srv r c) d = is_cancelled srv d"
  "has_started (unregister_context I srv r c) d = has_started srv d"
  by (auto simp: unregister_context_def change_key_def Let_def is_cancelled_def has_started_def
      split: option.splits)

lemma wf_live_unregister:
  assumes wf: "wf_live I srv ((r, c) # xs)"
  shows "wf_live I (unregister_context I srv r c) xs"
proof -
  let ?s = "unregister_context I srv r c"
  have d: "distinct (List.map (ctx_id \<circ> snd) ((r, c) # xs))" using wf by (simp only: wf_live_def)
  have "superseded_by I ?s = superseded_by I srv"
    by (intro ext) (simp add: superseded_by_def unregister_context_simps)
  moreover have "live_ok I ?s = live_ok I srv"
    by (intro ext) (simp add: live_ok_def unregister_context_simps)
  ultimately show ?thesis
    using wf newest_erase_first [OF d, of request_key] newest_erase_first [OF d, of "change_key I"]
    by (simp add: wf_live_def unregister_context_simps request_key_def
        cong: option.case_cong split: option.split)
qed


section \<open>The invariant of the running server\<close>

text \<open>
  Once a request that does not support cancellation has started, no one cancels it. This needs
  its started flag to be up.
\<close>

definition running_ok :: "'s server \<Rightarrow> ('s, 'p, 'g) worker \<Rightarrow> bool" where
  "running_ok srv w =
     (case w of
        Running r c h \<Rightarrow>
          (req_id r \<noteq> None \<longrightarrow> has_started srv c \<and>
             (is_cancelled srv c \<longrightarrow> supports_cancellation c))
      | _ \<Rightarrow> True)"

definition consistent :: "('s, 'p, 'g) implementation \<Rightarrow> ('s, 'p, 'g) system \<Rightarrow> bool" where
  "consistent I s \<longleftrightarrow> wf_live I (server s) (live s) \<and> running_ok (server s) (worker s)"

text \<open>What the calls the reader and the worker make may change of the state.\<close>

definition quiet :: "'s server \<Rightarrow> 's server \<Rightarrow> bool" where
  "quiet srv srv' \<longleftrightarrow>
     raises srv srv' \<and> active_requests srv' = active_requests srv \<and>
     pending_changes srv' = pending_changes srv"

lemma quiet_simps [simp]:
  "quiet srv srv"
  "quiet srv (srv\<lparr>app := a\<rparr>)"
  "quiet srv (mark_started srv c)"
  "quiet srv (snd (make_context srv m i can))"
  by (simp_all add: quiet_def)

lemma quiet_cancel_request [simp]: "quiet srv (cancel_request srv i)"
  by (simp add: quiet_def) (simp add: cancel_request_def split: option.splits)

lemma quiet_trans: "quiet a b \<Longrightarrow> quiet b c \<Longrightarrow> quiet a c"
  by (auto simp: quiet_def intro: raises_trans)

lemma quiet_begin_message: "begin_message I srv r c = (srv', x) \<Longrightarrow> quiet srv srv'"
  by (auto simp: begin_message_def start_request_def
      split: if_splits option.splits notification_handler.splits sum.splits)

lemma quiet_finish_message: "finish_message srv r c h = Some (srv', out) \<Longrightarrow> quiet srv srv'"
  by (auto simp: finish_message_def split: handler.splits)

lemma quiet_process_message: "quiet srv (fst (process_message I srv r ctx))"
proof -
  have *: "quiet srv' (fst (case begin_message I srv' r c of
             (srv, Inr out) \<Rightarrow> (srv, out)
           | (srv, Inl h) \<Rightarrow>
               (case finish_message srv r c (run_handler (is_cancelled srv c) h) of
                  Some x \<Rightarrow> x | None \<Rightarrow> (srv, NoReply))))" for srv' c
    by (auto split: prod.splits sum.splits option.splits
        dest: quiet_begin_message quiet_finish_message intro: quiet_trans)
  show ?thesis
  proof (cases ctx)
    case None
    have "quiet srv (snd (create_context I srv r))" by (simp add: create_context_def)
    from quiet_trans [OF this *] show ?thesis using None
      by (simp add: process_message_def prod.case_eq_if [of _ "create_context I srv r"])
  qed (use * in \<open>simp add: process_message_def\<close>)
qed

lemma wf_live_quiet: "wf_live I srv xs \<Longrightarrow> quiet srv srv' \<Longrightarrow> wf_live I srv' xs"
  by (auto simp: quiet_def intro: wf_live_raises)


text \<open>Steps of the other thread keep a running request as it is.\<close>

lemma running_ok_cancel_context:
  assumes "running_ok srv w" and "\<not> has_started srv d \<or> supports_cancellation d"
    and "\<And>r c h. w = Running r c h \<Longrightarrow> ctx_id c = ctx_id d \<Longrightarrow> c = d"
  shows "running_ok (cancel_context srv d) w"
  using assms
  by (auto simp: running_ok_def is_cancelled_cancel_context split: worker.splits)

lemma running_ok_flags:
  assumes "running_ok srv w"
    and "\<And>r c h. w = Running r c h \<Longrightarrow>
           has_started srv' c = has_started srv c \<and> is_cancelled srv' c = is_cancelled srv c"
  shows "running_ok srv' w"
  using assms by (auto simp: running_ok_def split: worker.splits)

lemma running_live: "worker s = Running r c h \<Longrightarrow> (r, c) \<in> set (live s)"
  by (simp add: live_def)

lemma running_old:
  assumes "wf_live I (server s) (live s)" and "worker s = Running r c h"
  shows "ctx_id c < next_id (server s)"
  using assms running_live by (fastforce simp: wf_live_def live_ok_def)

lemma running_ok_make_context:
  assumes "wf_live I (server s) (live s)" and "running_ok (server s) (worker s)"
  shows "running_ok (snd (make_context (server s) m i can)) (worker s)"
  by (rule running_ok_flags [OF assms(2)])
     (metis assms(1) less_irrefl make_context_old_flags running_old)

lemma active_request_live:
  assumes "wf_live I srv xs" and "active_requests srv i = Some d"
  shows "\<exists>r. (r, d) \<in> set xs"
  using assms newest_in [of request_key xs i d] by (auto simp: wf_live_def)

lemma running_ok_cancel_request:
  assumes wf: "wf_live I (server s) (live s)" and ok: "running_ok (server s) (worker s)"
  shows "running_ok (cancel_request (server s) i) (worker s)"
proof (cases "active_requests (server s) i")
  case None
  then show ?thesis using running_ok_make_context [OF assms] by (simp add: cancel_request_def)
next
  case (Some d)
  then obtain r where r: "(r, d) \<in> set (live s)" using active_request_live [OF wf] by blast
  have "c = d" if "worker s = Running r' c h" "ctx_id c = ctx_id d" for r' c h
    using wf_live_same_context [OF wf running_live [OF that(1)] r] that(2) by simp
  then show ?thesis using Some ok running_ok_cancel_context [OF ok]
    by (auto simp: cancel_request_def)
qed

text \<open>A message the reader processes itself has no application handler.\<close>

definition cancel_only :: "('s, 'p, 'g) implementation \<Rightarrow> bool" where
  "cancel_only I \<longleftrightarrow>
     (\<forall>h. notifications I ''$/cancelRequest'' \<noteq> Some (AppNotification h)) \<and>
     requests I ''$/cancelRequest'' = None"

lemma process_cancel:
  assumes "cancel_only I" and "req_method r = ''$/cancelRequest''"
  shows "fst (process_message I srv r None) = snd (create_context I srv r) \<or>
         (\<exists>i. fst (process_message I srv r None) = cancel_request (snd (create_context I srv r)) i)"
  using assms
  by (auto simp: process_message_def begin_message_def cancel_only_def
      split: prod.splits option.splits notification_handler.splits sum.splits if_splits)

lemma consistent_cancel:
  assumes "consistent I s" and "cancel_only I" and "req_method r = ''$/cancelRequest''"
  shows "consistent I (handle_cancel_request I r s)"
proof -
  let ?s = "s\<lparr>server := snd (create_context I (server s) r)\<rparr>"
  have live: "live (s\<lparr>server := x\<rparr>) = live s" for x
    by (simp add: live_def)
  have 1: "consistent I ?s"
    using assms(1) running_ok_make_context [of I s]
    by (auto simp: consistent_def live create_context_def intro: wf_live_quiet)
  then have "consistent I (?s\<lparr>server := cancel_request (server ?s) i\<rparr>)" for i
    using running_ok_cancel_request [of I ?s i]
    by (auto simp: consistent_def live intro: wf_live_quiet)
  with 1 show ?thesis
    using process_cancel [OF assms(2,3), of "server s"] by (auto simp: handle_cancel_request_def)
qed


lemma live_updates [simp]:
  "live (s\<lparr>inbox := x\<rparr>) = live s"
  "live (s\<lparr>server := y\<rparr>) = live s"
  "live (s\<lparr>outbox := z\<rparr>) = live s"
  by (simp_all add: live_def)

lemma consistent_updates [simp]:
  "consistent I (s\<lparr>inbox := x\<rparr>) = consistent I s"
  "consistent I (s\<lparr>outbox := z\<rparr>) = consistent I s"
  by (simp_all add: consistent_def)

lemma live_read:
  "reader s = Reading \<Longrightarrow> live (s\<lparr>reader := Enqueuing r c, server := srv\<rparr>) = live s @ [(r, c)]"
  by (simp add: live_def)

lemma running_ok_update [simp]:
  "running_ok (x\<lparr>active_requests := m\<rparr>) w = running_ok x w"
  "running_ok (x\<lparr>pending_changes := p\<rparr>) w = running_ok x w"
  by (auto simp: running_ok_def split: worker.splits)

lemma running_ok_register:
  assumes wf: "wf_live I (server s) (live s)" and ok: "running_ok (server s) (worker s)"
    and cs: "create_context I (server s) r = (c, srv')"
  shows "running_ok (register_context I srv' r c) (worker s)"
proof -
  have srv': "srv' = snd (create_context I (server s) r)" using cs by simp
  have ok': "running_ok srv' (worker s)" and wf': "wf_live I srv' (live s)"
    using running_ok_make_context [OF wf ok] wf unfolding srv' create_context_def
    by (auto intro: wf_live_quiet)
  have cancel: "running_ok (cancel_context (srv'\<lparr>active_requests := m\<rparr>) d) (worker s)"
    "running_ok (cancel_context srv' d) (worker s)"
    if pd: "pending_changes srv' k = Some d" for k d m
  proof -
    obtain r' where r': "(r', d) \<in> set (live s)" "change_key I (r', d) = Some k"
      using wf' pd newest_in [of "change_key I" "live s" k d] by (auto simp: wf_live_def)
    then have d: "supports_cancellation d" by (simp add: change_key_def split: if_splits)
    have same: "c' = d" if "worker s = Running r'' c' h" "ctx_id c' = ctx_id d" for r'' c' h
      using wf_live_same_context [OF wf running_live [OF that(1)] r'(1)] that(2) by simp
    show "running_ok (cancel_context srv' d) (worker s)"
      using running_ok_cancel_context [OF ok'] d same by blast
    show "running_ok (cancel_context (srv'\<lparr>active_requests := m\<rparr>) d) (worker s)"
      by (rule running_ok_cancel_context) (use ok' d same in auto)
  qed
  show ?thesis using ok' cancel
    by (auto simp: register_context_def Let_def split: option.splits)
qed

lemma consistent_handle_initialize:
  assumes "create_context I srv r = (c, srv')" and "wf_live I srv []"
  shows "wf_live I (fst (handle_message I (register_context I srv' r c) r c)) []"
proof -
  have "wf_live I (register_context I srv' r c) [(r, c)]"
    using wf_live_register [OF assms(2,1)] by simp
  then have "wf_live I (fst (process_message I (register_context I srv' r c) r (Some c))) [(r, c)]"
    by (rule wf_live_quiet [OF _ quiet_process_message])
  from wf_live_unregister [OF this] show ?thesis
    by (simp add: handle_message_def prod.case_eq_if)
qed

lemma consistent_reader_step:
  assumes con: "consistent I s" and can: "cancel_only I" and st: "reader_step I s = Some t"
    and ini: "reader s = Initializing \<Longrightarrow> worker s = NotStarted \<and> queue s = []"
  shows "consistent I t"
proof (cases "reader s")
  case (Enqueuing r c)
  then have "live t = live s" "server t = server s" "worker t = worker s"
    using st by (auto simp: reader_step_def live_def)
  then show ?thesis using con by (simp add: consistent_def)
next
  case Reading
  show ?thesis
  proof (cases "inbox s")
    case Nil
    then show ?thesis using st Reading con by (auto simp: reader_step_def consistent_def live_def)
  next
    case (Cons r rest)
    show ?thesis
    proof (cases "req_method r = ''$/cancelRequest''")
      case True
      then show ?thesis
        using st Reading Cons consistent_cancel [of I "s\<lparr>inbox := rest\<rparr>" r] con can
        by (auto simp: reader_step_def)
    next
      case False
      obtain c srv where cs: "create_context I (server s) r = (c, srv)" by fastforce
      then have t: "t = s\<lparr>inbox := rest, server := register_context I srv r c,
                       reader := Enqueuing r c\<rparr>"
        using st Reading Cons False by (simp add: reader_step_def)
      have "live t = live s @ [(r, c)]" using t Reading by (simp add: live_def)
      then show ?thesis
        using con wf_live_register [OF _ cs] running_ok_register [OF _ _ cs] t
        by (simp add: consistent_def)
    qed
  qed
next
  case Initializing
  show ?thesis
  proof (cases "inbox s")
    case Nil
    then show ?thesis using st Initializing con
      by (auto simp: reader_step_def consistent_def live_def)
  next
    case (Cons r rest)
    obtain c srv where cs: "create_context I (server s) r = (c, srv)" by fastforce
    have "live s = []" using ini Initializing by (simp add: live_def)
    then show ?thesis
      using st Initializing Cons con consistent_handle_initialize [OF cs] ini
      by (auto simp: reader_step_def cs send_error_def consistent_def live_def running_ok_def
          split: if_splits prod.splits)
  qed
next
  case ShuttingDown
  show ?thesis
  proof (cases "inbox s")
    case Nil
    then show ?thesis using st ShuttingDown con
      by (auto simp: reader_step_def consistent_def live_def)
  next
    case (Cons r rest)
    then show ?thesis
      using st ShuttingDown con can consistent_cancel [of I "s\<lparr>inbox := rest\<rparr>" r]
      by (auto simp: reader_step_def send_error_def consistent_def live_def split: if_splits)
  qed
qed (use st in \<open>simp add: reader_step_def\<close>)

lemma begin_message_running:
  assumes "begin_message I srv r c = (srv', Inl h)" and "live_ok I srv (r, c)"
  shows "running_ok srv' (Running r c h)"
  using assms
  by (auto simp: begin_message_def running_ok_def start_request_def has_started_mark_started
      live_ok_def split: if_splits option.splits notification_handler.splits sum.splits)

lemma consistent_worker_step:
  assumes con: "consistent I s" and st: "worker_step I s = Some t"
  shows "consistent I t"
proof (cases "worker s")
  case Idle
  then show ?thesis using con st
    by (auto simp: worker_step_def consistent_def live_def running_ok_def
        split: list.splits if_splits)
next
  case (Popped r c)
  obtain srv x where b: "begin_message I (server s) r c = (srv, x)" by fastforce
  have wf: "wf_live I srv (live s)"
    using con quiet_begin_message [OF b] by (auto simp: consistent_def intro: wf_live_quiet)
  have "live_ok I (server s) (r, c)"
    using con Popped by (simp add: consistent_def wf_live_def live_def)
  then show ?thesis
    using st Popped b wf begin_message_running [of I "server s" r c srv]
    by (cases x) (auto simp: worker_step_def consistent_def live_def running_ok_def)
next
  case (Running r c h)
  show ?thesis
  proof (cases "finish_message (server s) r c h")
    case None
    then obtain f where "h = Poll f"
      by (auto simp: finish_message_def split: handler.splits)
    then show ?thesis using con st Running
      by (auto simp: worker_step_def consistent_def live_def running_ok_def finish_message_def)
  next
    case (Some p)
    then have "wf_live I (fst p) (live s)"
      using con quiet_finish_message [of "server s" r c h "fst p" "snd p"]
      by (auto simp: consistent_def intro: wf_live_quiet)
    then show ?thesis using st Running Some
      by (cases p) (auto simp: worker_step_def consistent_def live_def running_ok_def)
  qed
next
  case (Concluded r c out)
  then have "live s = (r, c) # live t" and "server t = unregister_context I (server s) r c"
    and "running_ok (server t) (worker t)"
    using st by (auto simp: worker_step_def live_def running_ok_def)
  then show ?thesis using con wf_live_unregister by (auto simp: consistent_def)
next
  case (Replying r out)
  then show ?thesis using con st
    by (auto simp: worker_step_def consistent_def live_def running_ok_def)
qed (use st in \<open>simp_all add: worker_step_def\<close>)




lemma consistent_step:
  assumes "reachable I msgs a s" and "consistent I s" and "cancel_only I" and "step I s t"
  shows "consistent I t"
  using assms(4)
proof (elim step_cases)
  assume "reader_step I s = Some t"
  then show ?thesis
    using consistent_reader_step [OF assms(2,3)] initializing_no_worker [OF assms(1)] by simp
next
  assume "worker_step I s = Some t"
  then show ?thesis by (rule consistent_worker_step [OF assms(2)])
qed

lemma reachable_consistent: "reachable I msgs a s \<Longrightarrow> cancel_only I \<Longrightarrow> consistent I s"
proof (induction rule: reachable.induct)
  case reach_initial
  show ?case
    by (simp add: consistent_def initial_def live_def wf_live_def running_ok_def)
next
  case (reach_step s t)
  show ?case
    by (rule consistent_step [OF reach_step(1) reach_step(3) reach_step(4) reach_step(2)])
       (rule reach_step)
qed

lemma finished_live: "reachable I msgs a s \<Longrightarrow> finished s \<Longrightarrow> live s = []"
  using worker_ended [of I msgs a s] by (auto simp: finished_def live_def)
end
