(* ===== verification/RpcServer.thy ===== *)
theory RpcServer
  imports RpcRegistry
begin

text \<open>
  What a finished run has answered and computed: every request once and in order, cancelled
  requests as cancelled, and, when nothing was cancelled, the same state and replies as
  processing the messages one after the other.
\<close>

section \<open>Processing without a second thread\<close>

primrec outcome_alone :: "'p rpc_request \<Rightarrow> ('s, 'g) handler \<Rightarrow> 's \<times> 'g outcome" where
  "outcome_alone r (Return s v) = (s, if req_id r = None then NoReply else Result v)"
| "outcome_alone r (Throws s e) =
     (s, if req_id r = None then NoReply else Failure (internal_error e))"
| "outcome_alone r (ThrowsCancelled s e) =
     (s, if req_id r = None then NoReply else Failure request_cancelled)"
| "outcome_alone r (Poll f) = outcome_alone r (f False)"

definition handle_alone ::
    "('s, 'p, 'g) implementation \<Rightarrow> 's \<Rightarrow> 'p rpc_request \<Rightarrow> 's \<times> 'g outcome" where
  "handle_alone I a r =
     (if req_id r = None then
        (case notifications I (req_method r) of
           Some (AppNotification h) \<Rightarrow>
             outcome_alone r (h (case req_params r of Some p \<Rightarrow> p | None \<Rightarrow> null_value I) a)
         | _ \<Rightarrow> (a, NoReply))
      else
        (case requests I (req_method r) of
           None \<Rightarrow> (a, NoReply)
         | Some h \<Rightarrow>
             outcome_alone r (h (case req_params r of Some p \<Rightarrow> p | None \<Rightarrow> default_value I) a)))"

fun run_sequentially ::
    "('s, 'p, 'g) implementation \<Rightarrow> 's \<Rightarrow> 'p rpc_request list \<Rightarrow> 's \<times> 'g reply list" where
  "run_sequentially I a [] = (a, [])"
| "run_sequentially I a (r # rs) =
     (case handle_alone I a r of
        (a, out) \<Rightarrow> (case run_sequentially I a rs of (a, outs) \<Rightarrow> (a, replies (req_id r) out @ outs)))"

fun app_after_initialize ::
    "('s, 'p, 'g) implementation \<Rightarrow> 's \<Rightarrow> 'p rpc_request list \<Rightarrow> 's" where
  "app_after_initialize I a [] = a"
| "app_after_initialize I a (r # rs) =
     (if req_method r = ''initialize'' then fst (handle_alone I a r)
      else app_after_initialize I a rs)"

section \<open>Nothing cancelled\<close>

definition uncancelled :: "'s server \<Rightarrow> bool" where
  "uncancelled srv \<longleftrightarrow>
     list_all (\<lambda>i. case flags srv i of None \<Rightarrow> True | Some f \<Rightarrow> \<not> cancelled f) [0..<next_id srv]"

lemma uncancelled_def':
  "uncancelled srv \<longleftrightarrow> (\<forall>c. ctx_id c < next_id srv \<longrightarrow> \<not> is_cancelled srv c)"
proof
  assume l: "\<forall>c. ctx_id c < next_id srv \<longrightarrow> \<not> is_cancelled srv c"
  have "case flags srv i of None \<Rightarrow> True | Some f \<Rightarrow> \<not> cancelled f" if "i < next_id srv" for i
    using l [rule_format, of "\<lparr>ctx_id = i, ctx_method = [], ctx_rpc_id = None,
      supports_cancellation = False\<rparr>"] that
    by (simp add: is_cancelled_def split: option.splits)
  then show "uncancelled srv" by (simp add: uncancelled_def list_all_iff)
qed (auto simp: uncancelled_def list_all_iff is_cancelled_def split: option.splits)

lemma uncancelled_raises: "raises srv srv' \<Longrightarrow> uncancelled srv' \<Longrightarrow> uncancelled srv"
  by (auto simp: uncancelled_def' raises_def)

lemma raises_unregister_context [simp]: "raises srv (unregister_context I srv r c)"
  by (simp add: raises_def unregister_context_simps)

lemma raises_create_context: "create_context I srv r = (c, srv') \<Longrightarrow> raises srv srv'"
  using raises_make_context [of srv] by (metis create_context_def snd_conv)

lemma quiet_raises: "quiet srv srv' \<Longrightarrow> raises srv srv'"
  by (simp add: quiet_def)

lemma raises_handle_message:
  "handle_message I srv r c = (srv', out) \<Longrightarrow> raises srv srv'"
  using quiet_raises [OF quiet_process_message [of srv I r "Some c"]]
  by (auto simp: handle_message_def split: prod.splits intro: raises_trans)

lemma raises_reader_step:
  assumes "reader_step I s = Some t"
  shows "raises (server s) (server t)"
proof -
  note reg = raises_trans [OF raises_create_context raises_register_context]
  have hm: "raises srv srv'"
    if "create_context I srv r = (c, x)" "handle_message I (register_context I x r c) r c = (srv', out)"
    for srv srv' x r c and out :: "'c reply list"
    using raises_trans [OF reg raises_handle_message] that by blast
  show ?thesis using assms
    by (auto simp: reader_step_def send_error_def handle_cancel_request_def
        split: reader.splits list.splits if_splits prod.splits
        intro: reg hm quiet_raises [OF quiet_process_message])
qed

lemma raises_worker_step:
  assumes "worker_step I s = Some t"
  shows "raises (server s) (server t)"
  using assms
  by (auto simp: worker_step_def
      split: worker.splits list.splits if_splits prod.splits sum.splits option.splits handler.splits
      dest: quiet_raises [OF quiet_begin_message] quiet_raises [OF quiet_finish_message])

lemma raises_step: "step I s t \<Longrightarrow> raises (server s) (server t)"
  by (auto elim!: step_cases dest: raises_reader_step raises_worker_step)

section \<open>What the rest of the run computes\<close>

fun current_alone ::
    "('s, 'p, 'g) implementation \<Rightarrow> 's \<Rightarrow> ('s, 'p, 'g) worker \<Rightarrow> 's \<times> 'g reply list" where
  "current_alone I a (Popped r c) =
     (case handle_alone I a r of (a, out) \<Rightarrow> (a, replies (req_id r) out))"
| "current_alone I a (Running r c h) =
     (case outcome_alone r h of (a, out) \<Rightarrow> (a, replies (req_id r) out))"
| "current_alone I a (Concluded r c out) = (a, replies (req_id r) out)"
| "current_alone I a (Replying r out) = (a, replies (req_id r) out)"
| "current_alone I a _ = (a, [])"

definition rest_alone ::
    "('s, 'p, 'g) implementation \<Rightarrow> ('s, 'p, 'g) system \<Rightarrow> 's \<times> 'g reply list" where
  "rest_alone I s =
     (let a = (if reader s = Initializing then app_after_initialize I (app (server s)) (inbox s)
               else app (server s));
          (a, now) = current_alone I a (worker s);
          (a, later) = run_sequentially I a (List.map fst (queue s) @ to_come (reader s) (inbox s))
      in (a, sent_by WorkerThread s @ now @ later))"

lemma app_cancel_request [simp]: "app (cancel_request srv i) = app srv"
  by (simp add: cancel_request_def split: option.splits)

lemma begin_message_alone:
  assumes "begin_message I srv r c = (srv', x)" and "\<not> is_cancelled srv c"
  shows "handle_alone I (app srv) r =
     (case x of Inl h \<Rightarrow> outcome_alone r h | Inr out \<Rightarrow> (app srv, out)) \<and> app srv' = app srv"
  using assms
  by (auto simp: begin_message_def handle_alone_def start_request_def
      split: if_splits option.splits notification_handler.splits sum.splits)

lemma finish_message_alone:
  assumes "finish_message srv r c h = Some (srv', out)" and "\<not> is_cancelled srv c"
  shows "outcome_alone r h = (app srv', out)"
  using assms by (auto simp: finish_message_def split: handler.splits)

lemma outcome_alone_run: "outcome_alone r (run_handler False h) = outcome_alone r h"
  by (induction h) auto

lemma finish_run_handler: "finish_message srv r c (run_handler b h) \<noteq> None"
  using run_handler_ends [of b h] by (auto simp: finish_message_none)

lemma process_message_alone:
  assumes "process_message I srv r (Some c) = (srv', out)" and "\<not> is_cancelled srv c"
    and "\<not> is_cancelled srv' c" and "ctx_id c < next_id srv"
  shows "handle_alone I (app srv) r = (app srv', out)"
proof -
  obtain srv1 x where b: "begin_message I srv r c = (srv1, x)" by fastforce
  have r1: "raises srv srv1" using quiet_raises [OF quiet_begin_message [OF b]] .
  show ?thesis
  proof (cases x)
    case (Inr o1)
    then show ?thesis using assms(1) b begin_message_alone [OF b assms(2)]
      by (simp add: process_message_def)
  next
    case (Inl h)
    obtain p where p: "finish_message srv1 r c (run_handler (is_cancelled srv1 c) h) = Some p"
      using finish_run_handler by fastforce
    then have p': "p = (srv', out)" using assms(1) b Inl by (simp add: process_message_def)
    have "raises srv1 srv'" using quiet_raises [OF quiet_finish_message] p p' by blast
    then have nc: "\<not> is_cancelled srv1 c"
      using assms(3,4) r1 by (auto simp: raises_def)
    have "outcome_alone r (run_handler False h) = (app srv', out)"
      using finish_message_alone [of srv1 r c "run_handler False h"] p p' nc by simp
    then show ?thesis using begin_message_alone [OF b assms(2)] Inl by (simp add: outcome_alone_run)
  qed
qed

lemma rest_alone_worker_step:
  assumes st: "worker_step I s = Some t" and con: "consistent I s" and un: "uncancelled (server s)"
    and ini: "reader s = Initializing \<Longrightarrow> worker s = NotStarted"
  shows "rest_alone I t = rest_alone I s"
proof -
  have r: "reader t = reader s" "inbox t = inbox s" using worker_step_keeps_reader [OF st] by auto
  have nc: "\<not> is_cancelled (server s) c" if "(r, c) \<in> set (live s)" for r c
    using con un that by (fastforce simp: consistent_def wf_live_def live_ok_def uncancelled_def')
  show ?thesis
  proof (cases "worker s")
    case (Popped r c)
    obtain srv x where b: "begin_message I (server s) r c = (srv, x)" by fastforce
    note alone = begin_message_alone [OF b nc [of r]]
    show ?thesis
      using st b alone ini Popped r
      by (cases x) (auto simp: worker_step_def rest_alone_def sent_by_def live_def Let_def
          split: prod.splits)
  next
    case (Running r c h)
    show ?thesis
    proof (cases "finish_message (server s) r c h")
      case None
      then obtain f where "h = Poll f" using finish_message_none by blast
      then show ?thesis using st Running nc [of r c] ini
        by (auto simp: worker_step_def rest_alone_def sent_by_def live_def)
    next
      case (Some p)
      then show ?thesis
        using st Running ini finish_message_alone [of "server s" r c h "fst p" "snd p"] nc [of r c]
        by (cases p) (auto simp: worker_step_def rest_alone_def sent_by_def live_def Let_def
            split: prod.splits)
    qed
  next
    case (Concluded r c out)
    then show ?thesis using st ini
      by (auto simp: worker_step_def rest_alone_def sent_by_def unregister_context_simps)
  next
    case (Replying r out)
    then show ?thesis using st ini
      by (auto simp: worker_step_def rest_alone_def sent_by_def Let_def comp_def split: prod.splits)
  next
    case Idle
    then show ?thesis using st ini
      by (auto simp: worker_step_def rest_alone_def sent_by_def Let_def
          split: prod.splits list.splits if_splits)
  qed (use st in \<open>simp_all add: worker_step_def\<close>)
qed

lemma app_process_cancel:
  assumes "cancel_only I" and "req_method r = ''$/cancelRequest''"
  shows "app (fst (process_message I srv r None)) = app srv"
  using process_cancel [OF assms, of srv] by (auto simp: create_context_def)

lemma rest_alone_reader_step:
  assumes st: "reader_step I s = Some t" and con: "consistent I s" and un: "uncancelled (server t)"
    and can: "cancel_only I" and ini: "reader s = Initializing \<Longrightarrow> worker s = NotStarted \<and> queue s = []"
  shows "rest_alone I t = rest_alone I s"
proof (cases "reader s")
  case (Enqueuing r c)
  then show ?thesis using st
    by (auto simp: reader_step_def rest_alone_def sent_by_def to_come_def Let_def
        split: if_splits prod.splits)
next
  case Reading
  then show ?thesis using st app_process_cancel [OF can]
    by (cases "inbox s")
       (auto simp: reader_step_def rest_alone_def sent_by_def to_come_def Let_def
         handle_cancel_request_def register_context_simps create_context_def make_context_def
         split: if_splits prod.splits)
next
  case ShuttingDown
  then show ?thesis using st app_process_cancel [OF can]
    by (cases "inbox s")
       (auto simp: reader_step_def rest_alone_def sent_by_def to_come_def Let_def
         handle_cancel_request_def send_error_def split: if_splits prod.splits)
next
  case Initializing
  show ?thesis
  proof (cases "inbox s")
    case Nil
    then show ?thesis using st Initializing
      by (auto simp: reader_step_def rest_alone_def sent_by_def to_come_def worker_messages_def)
  next
    case (Cons r rest)
    show ?thesis
    proof (cases "req_method r = ''initialize''")
      case False
      then show ?thesis using st Initializing Cons
        by (auto simp: reader_step_def rest_alone_def sent_by_def to_come_def worker_messages_def
            send_error_def Let_def split: prod.splits)
    next
      case True
      obtain c srv where cs: "create_context I (server s) r = (c, srv)" by fastforce
      let ?s1 = "register_context I srv r c"
      obtain s2 out where pm: "process_message I ?s1 r (Some c) = (s2, out)" by fastforce
      have id: "ctx_id c < next_id ?s1"
        using cs by (auto simp: register_context_simps create_context_def make_context_def)
      have t: "t = s\<lparr>inbox := rest, server := unregister_context I s2 r c, reader := Reading,
                 worker := Idle, outbox := outbox s @ List.map (Pair ReaderThread) (replies (req_id r) out)\<rparr>"
        using st Initializing Cons True cs pm by (simp add: reader_step_def handle_message_def)
      have "raises ?s1 s2" using quiet_raises [OF quiet_process_message [of ?s1 I r "Some c"]] pm by simp
      moreover have u2: "uncancelled s2"
        using un t by (auto simp: uncancelled_def' unregister_context_simps)
      ultimately have "\<not> is_cancelled ?s1 c" "\<not> is_cancelled s2 c"
        using id by (auto simp: uncancelled_def' raises_def)
      from process_message_alone [OF pm this id]
      have "handle_alone I (app (server s)) r = (app s2, out)"
        using cs by (auto simp: register_context_simps create_context_def make_context_def)
      then show ?thesis using t Initializing Cons True ini
        by (auto simp: rest_alone_def sent_by_def to_come_def worker_messages_def Let_def comp_def
            unregister_context_simps split: prod.splits)
    qed
  qed
qed (use st in \<open>simp add: reader_step_def\<close>)

lemma rest_alone_step:
  assumes "reachable I msgs a s" and "cancel_only I" and "step I s t" and "uncancelled (server t)"
  shows "rest_alone I t = rest_alone I s"
  using assms(3)
proof (elim step_cases)
  assume "reader_step I s = Some t"
  then show ?thesis using rest_alone_reader_step reachable_consistent [OF assms(1,2)]
      assms(2,4) initializing_no_worker [OF assms(1)] by blast
next
  assume w: "worker_step I s = Some t"
  have "uncancelled (server s)" using uncancelled_raises [OF raises_worker_step [OF w] assms(4)] .
  then show ?thesis
    using rest_alone_worker_step [OF w reachable_consistent [OF assms(1,2)]]
      initializing_no_worker [OF assms(1)] by blast
qed

lemma reachable_rest_alone:
  "reachable I msgs a s \<Longrightarrow> cancel_only I \<Longrightarrow> uncancelled (server s) \<Longrightarrow>
   rest_alone I s =
     run_sequentially I (app_after_initialize I a msgs) (worker_messages msgs)"
proof (induction rule: reachable.induct)
  case reach_initial
  show ?case
    by (simp add: rest_alone_def initial_def sent_by_def to_come_def Let_def split: prod.split)
next
  case (reach_step s t)
  have "uncancelled (server s)"
    using uncancelled_raises [OF raises_step [OF reach_step(2)] reach_step(5)] .
  then show ?case
    using rest_alone_step [OF reach_step(1,4,2,5)] reach_step(3,4) by simp
qed

lemma finished_rest_alone:
  assumes "reachable I msgs a s" and "finished s"
  shows "rest_alone I s = (app (server s), sent_by WorkerThread s)"
  using worker_ended [OF assms(1)] assms(2)
  by (auto simp: rest_alone_def finished_def to_come_def Let_def)

section \<open>Cancelled before it started\<close>

definition refused :: "('s, 'p, 'g) system \<Rightarrow> 'p rpc_request \<Rightarrow> request_context \<Rightarrow> bool" where
  "refused s r c \<longleftrightarrow>
     is_cancelled (server s) c \<and> ((r, c) \<in> set (queue s) \<or> worker s = Popped r c) \<or>
     worker s = Concluded r c (Failure request_cancelled) \<or>
     worker s = Replying r (Failure request_cancelled) \<or>
     ErrorReply \<lparr>response_id = req_id r, response_error = request_cancelled\<rparr>
       \<in> set (sent_by WorkerThread s)"

lemma sent_by_outbox_mono:
  "outbox t = outbox s @ xs \<Longrightarrow> set (sent_by th s) \<subseteq> set (sent_by th t)"
  by (auto simp: sent_by_def)

lemma outbox_grows:
  assumes "step I s t"
  shows "\<exists>xs. outbox t = outbox s @ xs"
  using assms
  by (elim step_cases)
     (auto simp: reader_step_def worker_step_def send_error_def handle_cancel_request_def
        split: reader.splits worker.splits list.splits if_splits prod.splits sum.splits
          option.splits handler.splits)

lemma refused_reader_step:
  assumes st: "reader_step I s = Some t" and f: "refused s r c"
    and ini: "reader s = Initializing \<Longrightarrow> worker s = NotStarted \<and> queue s = []"
    and id: "(r, c) \<in> set (live s) \<Longrightarrow> ctx_id c < next_id (server s)"
  shows "refused t r c"
proof -
  have step: "step I s t" using st by (rule step_reader)
  have sent: "set (sent_by WorkerThread s) \<subseteq> set (sent_by WorkerThread t)"
    using outbox_grows [OF step] sent_by_outbox_mono by metis
  have keep: "worker t = worker s \<and> set (queue s) \<subseteq> set (queue t)" if "reader s \<noteq> Initializing"
    using st that
    by (auto simp: reader_step_def send_error_def handle_cancel_request_def
        split: reader.splits list.splits if_splits prod.splits)
  have "is_cancelled (server t) c"
    if "is_cancelled (server s) c" "(r, c) \<in> set (live s)"
    using raises_step [OF step] id that by (simp add: raises_def)
  moreover have "(r, c) \<in> set (live s)" if "(r, c) \<in> set (queue s) \<or> worker s = Popped r c"
    using that by (auto simp: live_def)
  ultimately show ?thesis
    using f keep sent ini by (cases "reader s = Initializing") (auto simp: refused_def)
qed

lemma refused_worker_step:
  assumes st: "worker_step I s = Some t" and f: "refused s r c"
    and known: "req_id r \<noteq> None" "requests I (req_method r) \<noteq> None"
    and id: "(r, c) \<in> set (live s) \<Longrightarrow> ctx_id c < next_id (server s)"
  shows "refused t r c"
proof -
  have step: "step I s t" using st by (rule step_worker)
  have sent: "set (sent_by WorkerThread s) \<subseteq> set (sent_by WorkerThread t)"
    using outbox_grows [OF step] sent_by_outbox_mono by metis
  consider (queued) "is_cancelled (server s) c" "(r, c) \<in> set (queue s)"
    | (popped) "is_cancelled (server s) c" "worker s = Popped r c"
    | (concluded) "worker s = Concluded r c (Failure request_cancelled)"
    | (replying) "worker s = Replying r (Failure request_cancelled)"
    | (sent) "ErrorReply \<lparr>response_id = req_id r, response_error = request_cancelled\<rparr>
                \<in> set (sent_by WorkerThread s)"
    using f by (auto simp: refused_def)
  then show ?thesis
  proof cases
    case queued
    then have "(r, c) \<in> set (live s)" by (auto simp: live_def)
    then have "is_cancelled (server t) c"
      using raises_step [OF step] id queued by (simp add: raises_def)
    moreover have "(r, c) \<in> set (queue t) \<or> worker t = Popped r c"
      using st queued(2)
      by (auto simp: worker_step_def split: worker.splits list.splits if_splits prod.splits
          sum.splits option.splits handler.splits)
    ultimately show ?thesis by (auto simp: refused_def)
  next
    case popped
    then show ?thesis using st known
      by (auto simp: worker_step_def begin_message_def start_request_def refused_def)
  next
    case concluded
    then show ?thesis using st by (auto simp: worker_step_def refused_def)
  next
    case replying
    then have "ErrorReply \<lparr>response_id = req_id r, response_error = request_cancelled\<rparr>
       \<in> set (sent_by WorkerThread t)"
      using st by (force simp: worker_step_def replies_def sent_by_def)
    then show ?thesis by (simp add: refused_def)
  next
    case sent
    then show ?thesis using \<open>set _ \<subseteq> set _\<close> by (auto simp: refused_def)
  qed
qed

lemma live_id: "consistent I s \<Longrightarrow> (r, c) \<in> set (live s) \<Longrightarrow> ctx_id c < next_id (server s)"
  by (fastforce simp: consistent_def wf_live_def live_ok_def)

lemma refused_step:
  assumes "reachable I msgs a s" and "cancel_only I" and "step I s t" and "refused s r c"
    and "req_id r \<noteq> None" and "requests I (req_method r) \<noteq> None"
  shows "refused t r c"
  using assms(3)
proof (elim step_cases)
  note id = live_id [OF reachable_consistent [OF assms(1,2)]]
  show "refused t r c" if "reader_step I s = Some t"
    using refused_reader_step [OF that assms(4)] initializing_no_worker [OF assms(1)] id by blast
  show "refused t r c" if "worker_step I s = Some t"
    using refused_worker_step [OF that assms(4-6)] id by blast
qed

lemma refused_steps:
  assumes "(step I)\<^sup>*\<^sup>* s t" and "reachable I msgs a s" and "cancel_only I" and "refused s r c"
    and "req_id r \<noteq> None" and "requests I (req_method r) \<noteq> None"
  shows "refused t r c \<and> reachable I msgs a t"
  using assms(1)
proof (induction rule: rtranclp_induct)
  case (step t u)
  then show ?case
    using refused_step [OF _ assms(3) step(2) _ assms(5,6)] reach_step [OF _ step(2)] by blast
qed (use assms in simp)

lemma finished_refused:
  assumes "reachable I msgs a s" and "finished s" and "refused s r c"
  shows "ErrorReply \<lparr>response_id = req_id r, response_error = request_cancelled\<rparr>
           \<in> set (sent_by WorkerThread s)"
  using assms(2,3) worker_ended [OF assms(1)] by (auto simp: refused_def finished_def)

text \<open>The newest live message with an id is the one a cancel request reaches.\<close>

lemma cancel_reaches:
  assumes "consistent I s" and "newest request_key (live s) i = Some c"
    and "\<not> has_started (server s) c" and "(r, c) \<in> set (live s)" and "req_id r \<noteq> None"
  shows "is_cancelled (cancel_request (server s) i) c"
proof -
  have "active_requests (server s) i = Some c" and "flags (server s) (ctx_id c) \<noteq> None"
    using assms by (auto simp: consistent_def wf_live_def live_ok_def)
  then show ?thesis using assms(3) by (simp add: cancel_request_def is_cancelled_cancel_context)
qed

text \<open>A message that waits for the worker has not started.\<close>

fun popped :: "('s, 'p, 'g) worker \<Rightarrow> 'p live_message list" where
  "popped (Popped r c) = [(r, c)]"
| "popped _ = []"

fun entering :: "'p reader \<Rightarrow> 'p live_message list" where
  "entering (Enqueuing r c) = [(r, c)]"
| "entering _ = []"

definition waiting :: "('s, 'p, 'g) system \<Rightarrow> 'p live_message list" where
  "waiting s = popped (worker s) @ queue s @ entering (reader s)"

lemma waiting_live: "set (waiting s) \<subseteq> set (live s)"
  by (cases "worker s"; cases "reader s") (auto simp: waiting_def live_def)

lemma popped_waiting_live: "worker s = Popped r c \<Longrightarrow> live s = waiting s"
  by (cases "reader s") (auto simp: waiting_def live_def)

definition unstarted :: "('s, 'p, 'g) system \<Rightarrow> bool" where
  "unstarted s \<longleftrightarrow>
     (\<forall>i \<ge> next_id (server s). flags (server s) i = None) \<and>
     (\<forall>x \<in> set (waiting s). \<not> has_started (server s) (snd x))"

lemma unstarted_same:
  assumes "unstarted s" and "server t = server s" and "set (waiting t) \<subseteq> set (waiting s)"
  shows "unstarted t"
  using assms unfolding unstarted_def by (metis subsetD)

text \<open>Changes of the server that start nobody.\<close>

definition starts_none :: "'s server \<Rightarrow> 's server \<Rightarrow> bool" where
  "starts_none srv srv' \<longleftrightarrow>
     (\<forall>c. ctx_id c < next_id srv \<longrightarrow> has_started srv' c = has_started srv c) \<and>
     next_id srv \<le> next_id srv' \<and>
     ((\<forall>i \<ge> next_id srv. flags srv i = None) \<longrightarrow> (\<forall>i \<ge> next_id srv'. flags srv' i = None))"

lemma register_context_flags:
  "has_started (register_context I srv r c) d = has_started srv d"
  "flags (register_context I srv r c) i = None \<longleftrightarrow> flags srv i = None"
  by (auto simp: register_context_def Let_def split: option.splits if_splits)

lemma starts_none_simps [simp]:
  "starts_none srv srv"
  "starts_none srv (srv\<lparr>app := a\<rparr>)"
  "starts_none srv (cancel_context srv d)"
  "starts_none srv (snd (make_context srv m i can))"
  "starts_none srv (unregister_context I srv r c)"
  "starts_none srv (register_context I srv r c)"
proof -
  show "starts_none srv (snd (make_context srv m i can))"
    using make_context_old_flags(2) [of _ srv]
    by (auto simp: starts_none_def make_context_old)
  show "starts_none srv (register_context I srv r c)"
    by (simp add: starts_none_def register_context_simps register_context_flags)
qed (auto simp: starts_none_def unregister_context_simps)

lemma starts_none_trans: "starts_none a b \<Longrightarrow> starts_none b c \<Longrightarrow> starts_none a c"
  by (auto simp: starts_none_def)

lemma starts_none_cancel_request [simp]: "starts_none srv (cancel_request srv i)"
  by (simp add: cancel_request_def split: option.splits)

lemma starts_none_finish: "finish_message srv r c h = Some (srv', out) \<Longrightarrow> starts_none srv srv'"
  by (auto simp: finish_message_def split: handler.splits)

lemma starts_none_cancel:
  assumes "cancel_only I" and "req_method r = ''$/cancelRequest''"
  shows "starts_none srv (fst (process_message I srv r None))"
  using process_cancel [OF assms, of srv]
    starts_none_trans [OF starts_none_simps(4) starts_none_cancel_request, of srv]
  by (auto simp: create_context_def)

lemma unstarted_starts_none:
  assumes "unstarted s" and "consistent I s" and "starts_none (server s) (server t)"
    and "set (waiting t) \<subseteq> set (waiting s)"
  shows "unstarted t"
  using assms waiting_live [of s] live_id [OF assms(2)]
  by (fastforce simp: unstarted_def starts_none_def)

lemma begin_message_starts:
  assumes "begin_message I srv r c = (srv', x)"
  shows "(\<forall>d. ctx_id d < next_id srv \<longrightarrow> ctx_id d \<noteq> ctx_id c \<longrightarrow> has_started srv' d = has_started srv d) \<and>
         next_id srv \<le> next_id srv' \<and>
         ((\<forall>i \<ge> next_id srv. flags srv i = None) \<longrightarrow> (\<forall>i \<ge> next_id srv'. flags srv' i = None))"
  using assms starts_none_cancel_request [of srv]
  by (auto simp: begin_message_def start_request_def has_started_mark_started starts_none_def
      split: if_splits option.splits notification_handler.splits sum.splits)

lemma unstarted_worker_step:
  assumes st: "worker_step I s = Some t" and un: "unstarted s" and con: "consistent I s"
  shows "unstarted t"
proof (cases "worker s")
  case (Popped r c)
  obtain srv x where b: "begin_message I (server s) r c = (srv, x)" by fastforce
  have srv: "server t = srv" and w: "waiting s = (r, c) # waiting t"
    using st Popped b by (cases x; auto simp: worker_step_def waiting_def)+
  have "distinct (List.map (ctx_id \<circ> snd) (live s))" and "live s = waiting s"
    using con popped_waiting_live [OF Popped] by (simp_all add: consistent_def wf_live_def)
  then have "ctx_id c \<notin> (ctx_id \<circ> snd) ` set (waiting t)" using w by simp
  then have "ctx_id (snd y) \<noteq> ctx_id c" if "y \<in> set (waiting t)" for y
    using that by (metis comp_apply imageI)
  moreover have "\<not> has_started (server s) (snd y) \<and> ctx_id (snd y) < next_id (server s)"
    if "y \<in> set (waiting t)" for y
    using un live_id [OF con, of "fst y" "snd y"] w \<open>live s = waiting s\<close> that
    by (simp add: unstarted_def)
  ultimately show ?thesis using un begin_message_starts [OF b] srv
    by (simp add: unstarted_def)
next
  case (Running r c h)
  show ?thesis
  proof (cases "finish_message (server s) r c h")
    case None
    then obtain f where "h = Poll f" using finish_message_none by blast
    then show ?thesis using st Running unstarted_starts_none [OF un con, of t]
      by (auto simp: worker_step_def waiting_def)
  next
    case (Some p)
    then show ?thesis
      using st Running unstarted_starts_none [OF un con, of t] starts_none_finish [of "server s" r c h]
      by (cases p) (auto simp: worker_step_def waiting_def)
  qed
next
  case (Concluded r c out)
  then show ?thesis using st unstarted_starts_none [OF un con, of t]
    by (auto simp: worker_step_def waiting_def)
next
  case Idle
  then have "server t = server s \<and> set (waiting t) \<subseteq> set (waiting s)"
    using st by (auto simp: worker_step_def waiting_def split: list.splits if_splits)
  then show ?thesis using unstarted_starts_none [OF un con, of t] by simp
next
  case (Replying r out)
  then show ?thesis using st
    by (intro unstarted_same [OF un]) (auto simp: worker_step_def waiting_def)
qed (use st in \<open>simp_all add: worker_step_def\<close>)

lemma unstarted_enqueuing:
  assumes un: "unstarted s" and con: "consistent I s"
    and cs: "create_context I (server s) r = (c, srv)"
    and t: "server t = register_context I srv r c" "set (waiting t) \<subseteq> insert (r, c) (set (waiting s))"
  shows "unstarted t"
proof -
  have sn: "starts_none (server s) (server t)"
    using cs starts_none_trans [OF starts_none_simps(4) starts_none_simps(6)] t(1)
    by (metis create_context_def snd_conv)
  have "\<not> has_started srv c"
    using cs un
    by (auto simp: create_context_def make_context_def has_started_def unstarted_def
        split: if_splits)
  then have "\<not> has_started (server t) c" by (simp add: t(1) register_context_flags)
  moreover have "\<not> has_started (server t) (snd y)" if "y \<in> set (waiting s)" for y
    using un sn live_id [OF con, of "fst y" "snd y"] waiting_live [of s] that
    by (auto simp: unstarted_def starts_none_def)
  ultimately show ?thesis using sn un t(2) by (auto simp: unstarted_def starts_none_def)
qed

lemma unstarted_cancel:
  assumes "unstarted s" and "consistent I s" and "cancel_only I" and "req_method r = ''$/cancelRequest''"
    and "server t = fst (process_message I (server s) r None)" and "waiting t = waiting s"
  shows "unstarted t"
  using unstarted_starts_none [OF assms(1,2), of t] starts_none_cancel [OF assms(3,4)] assms(5,6)
  by simp

lemma starts_none_handle_initialize:
  assumes "handle_message I srv r c = (srv', out)" and "\<forall>i \<ge> next_id srv. flags srv i = None"
  shows "\<forall>i \<ge> next_id srv'. flags srv' i = None"
proof -
  obtain s1 x where b: "begin_message I srv r c = (s1, x)" by fastforce
  have 1: "\<forall>i \<ge> next_id s1. flags s1 i = None" using begin_message_starts [OF b] assms(2) by blast
  obtain s2 o2 where p: "process_message I srv r (Some c) = (s2, o2)" by fastforce
  have "s2 = s1 \<or> (\<exists>h. finish_message s1 r c h = Some (s2, o2))"
    using p b by (auto simp: process_message_def split: sum.splits option.splits)
  then have "\<forall>i \<ge> next_id s2. flags s2 i = None"
    using 1 by (auto simp: starts_none_def dest!: starts_none_finish)
  then show ?thesis using assms(1) p by (auto simp: handle_message_def unregister_context_simps)
qed

lemma unstarted_reader_step:
  assumes st: "reader_step I s = Some t" and un: "unstarted s" and con: "consistent I s"
    and can: "cancel_only I" and ini: "reader s = Initializing \<Longrightarrow> worker s = NotStarted \<and> queue s = []"
  shows "unstarted t"
proof (cases "reader s")
  case (Enqueuing r c)
  then have "server t = server s" "set (waiting t) = set (waiting s)"
    using st by (cases "req_method r = ''shutdown''"; auto simp: reader_step_def waiting_def)+
  then show ?thesis using un by (simp add: unstarted_def)
next
  case Reading
  show ?thesis
  proof (cases "inbox s")
    case Nil
    then show ?thesis using st Reading
      by (intro unstarted_same [OF un]) (auto simp: reader_step_def waiting_def)
  next
    case (Cons r rest)
    show ?thesis
    proof (cases "req_method r = ''$/cancelRequest''")
      case True
      then show ?thesis using st Reading Cons unstarted_cancel [OF un con can True, of t]
        by (auto simp: reader_step_def handle_cancel_request_def waiting_def)
    next
      case False
      obtain c srv where cs: "create_context I (server s) r = (c, srv)" by fastforce
      show ?thesis
        by (rule unstarted_enqueuing [OF un con cs])
           (use st Reading Cons False cs in \<open>auto simp: reader_step_def waiting_def\<close>)
    qed
  qed
next
  case ShuttingDown
  show ?thesis
  proof (cases "inbox s")
    case Nil
    then show ?thesis using st ShuttingDown
      by (intro unstarted_same [OF un]) (auto simp: reader_step_def waiting_def)
  next
    case (Cons r rest)
    show ?thesis
    proof (cases "req_method r = ''$/cancelRequest''")
      case True
      then show ?thesis using st ShuttingDown Cons unstarted_cancel [OF un con can True, of t]
        by (auto simp: reader_step_def handle_cancel_request_def waiting_def)
    next
      case False
      then show ?thesis using st ShuttingDown Cons
        by (intro unstarted_same [OF un])
           (auto simp: reader_step_def send_error_def waiting_def split: if_splits)
    qed
  qed
next
  case Initializing
  then have w: "waiting s = []" using ini by (simp add: waiting_def)
  show ?thesis
  proof (cases "inbox s")
    case Nil
    then show ?thesis using st Initializing
      by (intro unstarted_same [OF un]) (auto simp: reader_step_def waiting_def)
  next
    case (Cons r rest)
    obtain c srv where cs: "create_context I (server s) r = (c, srv)" by fastforce
    have "\<forall>i \<ge> next_id (register_context I srv r c). flags (register_context I srv r c) i = None"
      using cs un starts_none_trans [OF starts_none_simps(4) starts_none_simps(6)]
      unfolding unstarted_def create_context_def starts_none_def by (metis snd_conv)
    then show ?thesis
      using st Initializing Cons un w cs ini starts_none_handle_initialize [of I _ r c]
      by (auto simp: reader_step_def send_error_def waiting_def unstarted_def
          split: if_splits prod.splits)
  qed
qed (use st in \<open>simp add: reader_step_def\<close>)

lemma reachable_unstarted: "reachable I msgs a s \<Longrightarrow> cancel_only I \<Longrightarrow> unstarted s"
proof (induction rule: reachable.induct)
  case (reach_step s t)
  note con = reachable_consistent [OF reach_step(1,4)]
  from reach_step(2) show ?case
  proof (elim step_cases)
    assume "reader_step I s = Some t"
    then show ?thesis
      using unstarted_reader_step [OF _ reach_step(3) con] reach_step(4)
        initializing_no_worker [OF reach_step(1)] by simp
  next
    assume "worker_step I s = Some t"
    then show ?thesis using unstarted_worker_step [OF _ reach_step(3) con] reach_step(4) by simp
  qed
qed (simp add: unstarted_def initial_def waiting_def)

section \<open>The theorems\<close>

text \<open>A run under a given schedule: \<^verbatim>\<open>True\<close> lets the reader move, if it can.\<close>

fun schedule ::
    "('s, 'p, 'g) implementation \<Rightarrow> bool list \<Rightarrow> ('s, 'p, 'g) system \<Rightarrow> ('s, 'p, 'g) system" where
  "schedule I [] s = s"
| "schedule I (b # bs) s =
     schedule I bs (case (if b then reader_step I s else worker_step I s) of
                      Some t \<Rightarrow> t | None \<Rightarrow> s)"

lemma schedule_steps: "(step I)\<^sup>*\<^sup>* s (schedule I bs s)"
proof (induction bs arbitrary: s)
  case (Cons b bs)
  then show ?case
    by (auto split: option.split intro: converse_rtranclp_into_rtranclp step.intros)
qed simp

lemma reachable_steps: "(step I)\<^sup>*\<^sup>* s t \<Longrightarrow> reachable I msgs a s \<Longrightarrow> reachable I msgs a t"
  by (induction rule: rtranclp_induct) (auto intro: reach_step)

lemma reachable_schedule: "reachable I msgs a (schedule I bs (initial msgs a))"
  using reachable_steps [OF schedule_steps reach_initial] .

text \<open>A server with a counter, to run the model on.\<close>

definition counter :: "(nat, nat, nat) implementation" where
  "counter =
     \<lparr>requests = [''initialize'' \<mapsto> (\<lambda>p n. Return n 0), ''get'' \<mapsto> (\<lambda>p n. Return n n),
                  ''wait'' \<mapsto> (\<lambda>p n. throw_if_cancelled n ''waiting'' (Return n p)),
                  ''shutdown'' \<mapsto> (\<lambda>p n. Return n 0)],
      notifications = [''add'' \<mapsto> AppNotification (\<lambda>p n. Return (n + p) 0),
                       ''$/cancelRequest'' \<mapsto> CancelNotification],
      cancellable_methods = [''wait''],
      changed_uri = (\<lambda>p. None), cancelled_id = (\<lambda>p. Inr (IntId (int p))),
      null_value = 0, default_value = 0\<rparr>"

definition request :: "int \<Rightarrow> string \<Rightarrow> nat rpc_request" where
  "request i m = \<lparr>req_id = Some (IntId i), req_method = m, req_params = None\<rparr>"

definition notification :: "string \<Rightarrow> nat \<Rightarrow> nat rpc_request" where
  "notification m p = \<lparr>req_id = None, req_method = m, req_params = Some p\<rparr>"

lemma cancel_only_counter: "cancel_only counter"
  by (simp add: cancel_only_def counter_def)

definition session :: "nat rpc_request list" where
  "session = [request 0 ''initialize'', notification ''add'' 4, request 1 ''get'',
              request 2 ''get'', notification ''$/cancelRequest'' 2, request 3 ''shutdown'',
              notification ''exit'' 0]"

definition queued_session :: "(nat, nat, nat) system" where
  "queued_session = schedule counter (replicate 7 True) (initial session 0)"

definition in_turn :: "(nat, nat, nat) system" where
  "in_turn = schedule counter (concat (replicate 20 [True, False, False])) (initial session 0)"

definition calm :: "nat rpc_request list" where
  "calm = [request 0 ''initialize'', notification ''add'' 4, request 1 ''get'',
           notification ''add'' 2, request 2 ''get'', request 3 ''shutdown'']"

definition calm_run :: "(nat, nat, nat) system" where
  "calm_run = schedule counter (concat (replicate 20 [True, False, False])) (initial calm 0)"

definition late :: "nat rpc_request list" where
  "late = [request 0 ''initialize'', request 1 ''get'', notification ''$/cancelRequest'' 1]"

definition late_cancel :: "(nat, nat, nat) system" where
  "late_cancel = schedule counter [True, True, True, False, False, True] (initial late 7)"

text \<open>The next message the reader takes asks to cancel the request with the id.\<close>

definition reads_cancel ::
    "('s, 'p, 'g) implementation \<Rightarrow> ('s, 'p, 'g) system \<Rightarrow> rpc_id \<Rightarrow> bool" where
  "reads_cancel I s i \<longleftrightarrow>
     (reader s = Reading \<or> reader s = ShuttingDown) \<and>
     (case inbox s of
        [] \<Rightarrow> False
      | m # ms \<Rightarrow>
          req_method m = ''$/cancelRequest'' \<and> req_id m = None \<and>
          (case notifications I ''$/cancelRequest'' of
             Some CancelNotification \<Rightarrow>
               cancelled_id I (case req_params m of Some p \<Rightarrow> p | None \<Rightarrow> null_value I) = Inr i
           | _ \<Rightarrow> False))"

lemma reads_cancel_refuses:
  assumes r: "reachable I msgs a s" and can: "cancel_only I" and rc: "reads_cancel I s i"
    and new: "newest request_key (live s) i = Some c" and q: "(r, c) \<in> set (queue s)"
    and st: "reader_step I s = Some t"
  shows "refused t r c" and "req_id r = Some i"
proof -
  note con = reachable_consistent [OF r can] and un = reachable_unstarted [OF r can]
  have live: "(r, c) \<in> set (live s)" using q by (simp add: live_def)
  obtain r' where "(r', c) \<in> set (live s)" "req_id r' = Some i"
    using newest_in [OF new] by (auto simp: request_key_def)
  then show id: "req_id r = Some i"
    using wf_live_same_context [OF _ live, of I "server s" "(r', c)"] con
    by (simp add: consistent_def)
  obtain m ms where m: "inbox s = m # ms" "req_method m = ''$/cancelRequest''" "req_id m = None"
    "notifications I ''$/cancelRequest'' = Some CancelNotification"
    "cancelled_id I (case req_params m of Some p \<Rightarrow> p | None \<Rightarrow> null_value I) = Inr i"
    using rc by (auto simp: reads_cancel_def
        split: list.splits option.splits notification_handler.splits)
  let ?s = "s\<lparr>server := snd (create_context I (server s) m)\<rparr>"
  have t: "server t = cancel_request (server ?s) i" "queue t = queue s"
    using st rc m by (auto simp: reader_step_def reads_cancel_def handle_cancel_request_def
        process_message_def begin_message_def split: reader.splits prod.splits)
  have c1: "consistent I ?s"
    using con running_ok_make_context [of I s]
    by (auto simp: consistent_def create_context_def intro: wf_live_quiet)
  have "ctx_id c < next_id (server s)" using live_id [OF con live] .
  moreover have "\<not> has_started (server s) c"
    using un q unfolding unstarted_def waiting_def by (metis Un_iff set_append snd_conv)
  ultimately have "\<not> has_started (server ?s) c"
    using make_context_old_flags(2) [of c "server s"] by (simp add: create_context_def)
  then have "is_cancelled (cancel_request (server ?s) i) c"
    using cancel_reaches [OF c1, of i c r] new live id by simp
  then show "refused t r c" using t q by (simp add: refused_def)
qed

text \<open>
  C1: The two threads compute what one would. Take any run, whatever the order in which the
  reader and the worker have moved, that has finished without a cancellation: the application
  state it leaves and the replies of the worker, in order, are those of handling the messages
  between initialize and shutdown one after the other.
\<close>

theorem concurrent_run_is_sequential:
  assumes "reachable I msgs a s" and "finished s" and "cancel_only I" and "uncancelled (server s)"
  shows "(app (server s), sent_by WorkerThread s) =
     run_sequentially I (app_after_initialize I a msgs) (worker_messages msgs)"
  using reachable_rest_alone [OF assms(1,3,4)] finished_rest_alone [OF assms(1,2)] by simp

theorem concurrent_run_is_sequential_witness:
  "app (server calm_run) = 6 \<and>
   (app (server calm_run), sent_by WorkerThread calm_run) =
     run_sequentially counter (app_after_initialize counter 0 calm) (worker_messages calm)"
proof -
  have r: "reachable counter calm 0 calm_run" unfolding calm_run_def by (rule reachable_schedule)
  have "finished calm_run" and "uncancelled (server calm_run)" and "app (server calm_run) = 6"
    by code_simp+
  with concurrent_run_is_sequential [OF r _ cancel_only_counter] show ?thesis by simp
qed

text \<open>
  C7: Every request between initialize and shutdown whose method has a handler is answered
  once, in the order in which the requests were read, in every finished run, with cancellations
  or without.
\<close>

theorem every_request_answered_once:
  assumes "reachable I msgs a s" and "finished s"
  shows "List.map reply_id (sent_by WorkerThread s) = expected_ids I (worker_messages msgs)"
  using finished_all_ids [OF assms] reachable_ids [OF assms(1)] by simp

theorem every_request_answered_once_witness:
  "List.map reply_id (sent_by WorkerThread in_turn) = expected_ids counter (worker_messages session) \<and>
   expected_ids counter (worker_messages session) = [Some (IntId 1), Some (IntId 2), Some (IntId 3)]"
proof -
  have r: "reachable counter session 0 in_turn" unfolding in_turn_def by (rule reachable_schedule)
  have "finished in_turn" by code_simp
  moreover have "expected_ids counter (worker_messages session)
      = [Some (IntId 1), Some (IntId 2), Some (IntId 3)]" by code_simp
  ultimately show ?thesis using every_request_answered_once [OF r] by simp
qed

text \<open>
  C10: A queued request that is cancelled is refused. When the reader takes a cancellation of an
  id whose newest live message still waits in the queue, every finished run from there on has
  answered that request with the error RequestCancelled, whatever the threads do in between.
\<close>

theorem cancelled_request_refused:
  assumes "reachable I msgs a s" and "cancel_only I" and "reads_cancel I s i"
    and "newest request_key (live s) i = Some c" and "(r, c) \<in> set (queue s)"
    and "requests I (req_method r) \<noteq> None"
    and "reader_step I s = Some t" and "(step I)\<^sup>*\<^sup>* t u" and "finished u"
  shows "ErrorReply \<lparr>response_id = Some i, response_error = request_cancelled\<rparr>
           \<in> set (sent_by WorkerThread u)"
proof -
  note ref = reads_cancel_refuses [OF assms(1-5,7)]
  have "reachable I msgs a t" using reach_step [OF assms(1) step_reader [OF assms(7)]] .
  from refused_steps [OF assms(8) this assms(2) ref(1)] ref(2) assms(6)
  have "refused u r c" and "reachable I msgs a u" by auto
  from finished_refused [OF this(2) assms(9) this(1)] ref(2) show ?thesis by simp
qed

theorem cancelled_request_refused_witness:
  "let t = the (reader_step counter queued_session); u = schedule counter (replicate 3 True @ replicate 30 False) t
   in ErrorReply \<lparr>response_id = Some (IntId 2), response_error = request_cancelled\<rparr>
        \<in> set (sent_by WorkerThread u)"
proof -
  let ?t = "the (reader_step counter queued_session)"
  let ?u = "schedule counter (replicate 3 True @ replicate 30 False) ?t"
  let ?c = "\<lparr>ctx_id = 4, ctx_method = ''get'', ctx_rpc_id = Some (IntId 2), supports_cancellation = False\<rparr>"
  have r: "reachable counter session 0 queued_session"
    unfolding queued_session_def by (rule reachable_schedule)
  have rc: "reads_cancel counter queued_session (IntId 2)" by code_simp
  have n: "newest request_key (live queued_session) (IntId 2) = Some ?c" by code_simp
  have q: "(request 2 ''get'', ?c) \<in> set (queue queued_session)" by code_simp
  have k: "requests counter (req_method (request 2 ''get'')) \<noteq> None"
    by (simp add: counter_def request_def)
  have "reader_step counter queued_session \<noteq> None"
    by (rule reader_moves) (use rc in \<open>auto simp: reads_cancel_def\<close>)
  then have st: "reader_step counter queued_session = Some ?t" by simp
  have f: "finished ?u" by code_simp
  from cancelled_request_refused [OF r cancel_only_counter rc n q k st schedule_steps f]
  show ?thesis by (simp add: Let_def)
qed

text \<open>
  C11: In every reachable state the registry of active requests holds for every id the newest
  message with that id that is being read, queued or processed, the registry of pending changes
  the newest change of every document; every older live change of the document is cancelled;
  the contexts of live messages are distinct; and both registries are empty at the end.
\<close>

theorem registries_hold_live:
  assumes "reachable I msgs a s" and "cancel_only I"
  shows "active_requests (server s) = newest request_key (live s)
    \<and> pending_changes (server s) = newest (change_key I) (live s)
    \<and> sorted_wrt (superseded_by I (server s)) (live s)
    \<and> distinct (List.map (ctx_id \<circ> snd) (live s))
    \<and> (finished s \<longrightarrow> active_requests (server s) = Map.empty \<and> pending_changes (server s) = Map.empty)"
  using reachable_consistent [OF assms] finished_live [OF assms(1)]
  by (auto simp: consistent_def wf_live_def)

theorem registries_hold_live_witness:
  "active_requests (server queued_session) = newest request_key (live queued_session) \<and>
   length (live queued_session) = 3"
proof -
  have r: "reachable counter session 0 queued_session"
    unfolding queued_session_def by (rule reachable_schedule)
  have "length (live queued_session) = 3" by code_simp
  with registries_hold_live [OF r cancel_only_counter] show ?thesis by simp
qed

text \<open>
  C27: No run is stuck: from every reachable state steps lead to a finished one, with the input
  used up or left after exit, the queue empty and the worker gone. Handlers poll finitely often.
\<close>

theorem every_run_finishes:
  assumes "reachable I msgs a s"
  shows "\<exists>t. (step I)\<^sup>*\<^sup>* s t \<and> reachable I msgs a t \<and> finished t \<and> live t = []"
proof -
  obtain t where t: "(step I)\<^sup>*\<^sup>* s t" "finished t" using run_finishes_from by blast
  have r: "reachable I msgs a t" using reachable_steps [OF t(1) assms] .
  have "live t = []" using finished_live [OF r t(2)] .
  with t r show ?thesis by auto
qed

theorem every_run_finishes_witness:
  "\<exists>t. (step counter)\<^sup>*\<^sup>* queued_session t \<and> reachable counter session 0 t \<and> finished t \<and> live t = []"
  by (rule every_run_finishes) (unfold queued_session_def, rule reachable_schedule)

text \<open>
  A cancellation that comes too late changes nothing: the result of a handler that has
  started for a request that does not support cancellation is the result of the request,
  whatever the reader has read since.
\<close>

lemma started_request_keeps_result:
  assumes "reachable I msgs a s" and "cancel_only I" and "worker s = Running r c (Return b v)"
    and "req_id r \<noteq> None" and "req_method r \<notin> set (cancellable_methods I)"
  shows "map_option (\<lambda>t. (worker t, app (server t))) (worker_step I s) =
     Some (Concluded r c (Result v), b)"
proof -
  note con = reachable_consistent [OF assms(1,2)]
  have "\<not> supports_cancellation c"
    using con assms(5) running_live [OF assms(3)]
    by (fastforce simp: consistent_def wf_live_def live_ok_def)
  then have "\<not> is_cancelled (server s) c"
    using con assms(3,4) by (simp add: consistent_def running_ok_def)
  then show ?thesis using assms(3,4) by (simp add: worker_step_def finish_message_def)
qed

lemma started_request_keeps_result_witness:
  "map_option (\<lambda>t. (worker t, app (server t))) (worker_step counter late_cancel) =
     Some (Concluded (request 1 ''get'') \<lparr>ctx_id = 2, ctx_method = ''get'',
             ctx_rpc_id = Some (IntId 1), supports_cancellation = False\<rparr> (Result 7), 7)"
proof -
  have r: "reachable counter late 7 late_cancel" unfolding late_cancel_def by (rule reachable_schedule)
  have w: "worker late_cancel = Running (request 1 ''get'') \<lparr>ctx_id = 2, ctx_method = ''get'',
      ctx_rpc_id = Some (IntId 1), supports_cancellation = False\<rparr> (Return 7 7)"
    unfolding late_cancel_def late_def
    by (simp add: initial_def reader_step_def worker_step_def request_def notification_def
        counter_def create_context_def make_context_def handle_message_def process_message_def
        begin_message_def finish_message_def start_request_def register_context_def
        unregister_context_def is_cancelled_def mark_started_def handle_cancel_request_def
        cancel_request_def erase_if_same_def has_started_def Let_def)
  show ?thesis
    by (rule started_request_keeps_result [OF r cancel_only_counter w])
       (simp_all add: request_def counter_def)
qed
end
