(* ===== verification/NameMap.thy ===== *)
theory NameMap
  imports Prelude "HOL-Library.AList"
begin

text \<open>
  The maps of the symbol index, \<^verbatim>\<open>std::unordered_map\<close> from names to vectors of
  entries: an entry is pushed under a name, and the entries under a name that satisfy a
  predicate are erased, the name with them when none is left. The locale states what a client
  may rely on; theory SymbolIndex uses it for symbols, macros and references.
\<close>

type_synonym 'e name_map = "(string \<times> 'e list) list"

definition entries :: "'e name_map \<Rightarrow> string \<Rightarrow> 'e list" where
  "entries m k = (case map_of m k of None \<Rightarrow> [] | Some v \<Rightarrow> v)"

definition push_entry :: "'e name_map \<Rightarrow> string \<Rightarrow> 'e \<Rightarrow> 'e name_map" where
  "push_entry m k e = AList.update k (entries m k @ [e]) m"

definition erase_entries :: "'e name_map \<Rightarrow> string \<Rightarrow> ('e \<Rightarrow> bool) \<Rightarrow> 'e name_map" where
  "erase_entries m k P =
     (case map_of m k of
        None \<Rightarrow> m
      | Some v \<Rightarrow>
          let v' = filter (\<lambda>e. \<not> P e) v
          in if v' = [] then AList.delete k m else AList.update k v' m)"

text \<open>Every name once, and none without entries.\<close>

definition wf_names :: "'e name_map \<Rightarrow> bool" where
  "wf_names m \<longleftrightarrow> distinct (List.map fst m) \<and> (\<forall>x \<in> set m. snd x \<noteq> [])"

section \<open>The contract\<close>

locale name_index =
  fixes lookup :: "'m \<Rightarrow> string \<Rightarrow> 'e list"
    and push :: "'m \<Rightarrow> string \<Rightarrow> 'e \<Rightarrow> 'm"
    and erase :: "'m \<Rightarrow> string \<Rightarrow> ('e \<Rightarrow> bool) \<Rightarrow> 'm"
    and wf :: "'m \<Rightarrow> bool"
  assumes lookup_push: "lookup (push m k e) k' = lookup m k' @ (if k' = k then [e] else [])"
    and lookup_erase:
      "lookup (erase m k P) k' = (if k' = k then filter (\<lambda>e. \<not> P e) (lookup m k') else lookup m k')"
    and wf_push: "wf m \<Longrightarrow> wf (push m k e)"
    and wf_erase: "wf m \<Longrightarrow> wf (erase m k P)"
begin

lemma lookup_push_all:
  "lookup (fold (\<lambda>x m. push m (key x) (val x)) xs m) k =
     lookup m k @ List.map val (filter (\<lambda>x. key x = k) xs)"
  by (induction xs arbitrary: m) (auto simp: lookup_push)

lemma lookup_erase_all:
  "lookup (fold (\<lambda>x m. erase m (key x) (P x)) xs m) k =
     filter (\<lambda>e. \<not> (\<exists>x \<in> set xs. key x = k \<and> P x e)) (lookup m k)"
  by (induction xs arbitrary: m) (auto simp: lookup_erase intro!: filter_cong)

lemma wf_push_all: "wf m \<Longrightarrow> wf (fold (\<lambda>x m. push m (key x) (val x)) xs m)"
  by (induction xs arbitrary: m) (auto simp: wf_push)

lemma wf_erase_all: "wf m \<Longrightarrow> wf (fold (\<lambda>x m. erase m (key x) (P x)) xs m)"
  by (induction xs arbitrary: m) (auto simp: wf_erase)

text \<open>Entries tagged with an owner: the owner's are replaced, the others stay in order.\<close>

lemma replace_owner:
  assumes "filter (\<lambda>e. owner e = p) (lookup m k) = List.map val (filter (\<lambda>x. key x = k) old)"
    and "\<And>x e. x \<in> set old \<Longrightarrow> P x e \<longleftrightarrow> e = val x" and "\<And>x. x \<in> set old \<Longrightarrow> owner (val x) = p"
  shows "lookup (fold (\<lambda>x m. erase m (key x) (P x)) old m) k =
     filter (\<lambda>e. owner e \<noteq> p) (lookup m k)"
proof -
  have "(\<exists>x \<in> set old. key x = k \<and> P x e) \<longleftrightarrow> owner e = p" if "e \<in> set (lookup m k)" for e
  proof
    assume "owner e = p"
    with that have "e \<in> set (filter (\<lambda>e. owner e = p) (lookup m k))" by simp
    then show "\<exists>x \<in> set old. key x = k \<and> P x e" using assms by auto
  qed (use assms in auto)
  then show ?thesis unfolding lookup_erase_all by (auto intro!: filter_cong)
qed

end

section \<open>The maps of the code\<close>

lemma entries_push_entry:
  "entries (push_entry m k e) k' = entries m k' @ (if k' = k then [e] else [])"
  by (simp add: entries_def push_entry_def AList.update_conv')

lemma entries_erase_entries:
  "entries (erase_entries m k P) k' =
     (if k' = k then filter (\<lambda>e. \<not> P e) (entries m k') else entries m k')"
  by (simp add: entries_def erase_entries_def AList.update_conv' AList.delete_conv' Let_def
      split: option.split)

lemma set_update: "x \<in> set (AList.update k v m) \<Longrightarrow> x = (k, v) \<or> x \<in> set m"
  by (induction m) (auto split: if_splits)

lemma wf_names_update: "wf_names m \<Longrightarrow> v \<noteq> [] \<Longrightarrow> wf_names (AList.update k v m)"
  by (auto simp: wf_names_def AList.distinct_update dest: set_update)

lemma wf_names_delete: "wf_names m \<Longrightarrow> wf_names (AList.delete k m)"
  by (auto simp: wf_names_def AList.delete_eq distinct_map_filter)

lemma wf_names_push_entry: "wf_names m \<Longrightarrow> wf_names (push_entry m k e)"
  by (simp add: push_entry_def wf_names_update)

lemma wf_names_erase_entries: "wf_names m \<Longrightarrow> wf_names (erase_entries m k P)"
  by (auto simp: erase_entries_def wf_names_update wf_names_delete Let_def split: option.split)

interpretation names: name_index entries push_entry erase_entries wf_names
  by unfold_locales
     (simp_all add: entries_push_entry entries_erase_entries wf_names_push_entry wf_names_erase_entries)

lemma wf_names_nil [simp]: "wf_names []"
  by (simp add: wf_names_def)

lemma entries_nil [simp]: "entries [] k = []"
  by (simp add: entries_def)

lemma wf_names_keys: "wf_names m \<Longrightarrow> set (List.map fst m) = {k. entries m k \<noteq> []}"
proof -
  assume wf: "wf_names m"
  have "entries m k \<noteq> []" if kv: "(k, v) \<in> set m" for k v
    using wf map_of_is_SomeI [OF _ kv] kv by (auto simp: wf_names_def entries_def)
  moreover have "k \<in> fst ` set m" if "entries m k \<noteq> []" for k
    using that by (force simp: entries_def split: option.splits dest: map_of_SomeD)
  ultimately show ?thesis by force
qed

end
