(* ===== verification/SymbolIndex.thy ===== *)
theory SymbolIndex
  imports NameMap SlangTypes
begin

text \<open>
  The workspace index of \<^verbatim>\<open>Indexer.cpp\<close>: which files declare a symbol, define a macro or
  reference a symbol, kept up to date from files read from disk, from open documents and from
  file events, and the search for the files to index. A path stands for its interned pointer:
  the set of interned paths never shrinks, so equal pointers are equal paths. The parser and the
  disk are parameters; threads only divide the files to parse among themselves.
\<close>

section \<open>What is extracted from a file\<close>

record global_symbol =
  symbol_name :: string
  symbol_kind :: syntax_kind

text \<open>
  What the parser returns for a file, as far as the index looks at it: the members of the
  compilation unit with their kind and declared name, the names the metadata lists as referenced
  in visiting order, the defined macros (\<open>None\<close> a null entry, \<open>False\<close> a macro without
  location), and whether the metadata has design elements or classes.
\<close>

record parsed_file =
  unit_members :: "(syntax_kind \<times> string) list"
  referenced_names :: "string list"
  defined_macros :: "(string \<times> bool) option list"
  has_node_meta :: bool
  has_classes :: bool

record indexed_path =
  path_symbols :: "global_symbol list"
  path_macros :: "string list"
  path_references :: "string list"

definition empty_indexed :: indexed_path where
  "empty_indexed = \<lparr>path_symbols = [], path_macros = [], path_references = []\<rparr>"

definition is_module_declaration :: "syntax_kind \<Rightarrow> bool" where
  "is_module_declaration k \<longleftrightarrow>
     k = ModuleDeclaration \<or> k = InterfaceDeclaration \<or> k = PackageDeclaration \<or> k = ProgramDeclaration"

fun extract_symbols :: "(syntax_kind \<times> string) list \<Rightarrow> global_symbol list" where
  "extract_symbols [] = []"
| "extract_symbols ((k, n) # ms) =
     (if is_module_declaration k \<and> n \<noteq> []
      then \<lparr>symbol_name = n, symbol_kind = k\<rparr> # extract_symbols ms else extract_symbols ms)"

fun first_seen :: "string set \<Rightarrow> string list \<Rightarrow> string list" where
  "first_seen seen [] = []"
| "first_seen seen (n # ns) =
     (if n \<in> seen then first_seen seen ns else n # first_seen (insert n seen) ns)"

definition extract_from_root :: "parsed_file \<Rightarrow> indexed_path \<Rightarrow> indexed_path" where
  "extract_from_root t d =
     d\<lparr>path_symbols := path_symbols d @ extract_symbols (unit_members t),
       path_references := path_references d @ first_seen {} (referenced_names t)\<rparr>"

fun macro_names :: "(string \<times> bool) option list \<Rightarrow> string list" where
  "macro_names [] = []"
| "macro_names (None # ms) = macro_names ms"
| "macro_names (Some (n, located) # ms) = (if located then n # macro_names ms else macro_names ms)"

definition extract_macros :: "parsed_file \<Rightarrow> indexed_path \<Rightarrow> indexed_path" where
  "extract_macros t d = d\<lparr>path_macros := path_macros d @ macro_names (defined_macros t)\<rparr>"

text \<open>A file as the disk has it; one that cannot be read has no entries.\<close>

datatype disk_file = Absent | Unreadable | Readable parsed_file

definition index_file :: "disk_file \<Rightarrow> indexed_path" where
  "index_file f =
     (case f of
        Readable t \<Rightarrow>
          if has_node_meta t then extract_from_root t empty_indexed
          else if \<not> has_classes t then extract_macros t empty_indexed
          else empty_indexed
      | _ \<Rightarrow> empty_indexed)"

definition index_paths :: "(string \<Rightarrow> disk_file) \<Rightarrow> string list \<Rightarrow> indexed_path list" where
  "index_paths disk paths = List.map (\<lambda>p. index_file (disk p)) paths"

section \<open>The index\<close>

record symbol_loc =
  loc_uri :: string
  loc_kind :: syntax_kind

record indexer =
  symbol_files :: "symbol_loc name_map"
  macro_files :: "string name_map"
  symbol_refs :: "string name_map"
  unique_uris :: "string list"
  indexed_files :: "string \<Rightarrow> indexed_path option"

definition empty_indexer :: indexer where
  "empty_indexer = \<lparr>symbol_files = [], macro_files = [], symbol_refs = [], unique_uris = [],
     indexed_files = Map.empty\<rparr>"

definition intern_uri :: "string \<Rightarrow> indexer \<Rightarrow> indexer" where
  "intern_uri p ix = ix\<lparr>unique_uris := list_emplace p (unique_uris ix)\<rparr>"

text \<open>The two halves the operations share: the entries of a path go, or come.\<close>

definition symbol_at :: "string \<Rightarrow> global_symbol \<Rightarrow> symbol_loc" where
  "symbol_at p s = \<lparr>loc_uri = p, loc_kind = symbol_kind s\<rparr>"

definition drop_entries :: "string \<Rightarrow> indexed_path \<Rightarrow> indexer \<Rightarrow> indexer" where
  "drop_entries p old ix =
     ix\<lparr>symbol_files := fold (\<lambda>s m. erase_entries m (symbol_name s)
                          (\<lambda>l. loc_uri l = p \<and> loc_kind l = symbol_kind s))
                        (path_symbols old) (symbol_files ix),
        macro_files := fold (\<lambda>n m. erase_entries m n (\<lambda>q. q = p)) (path_macros old) (macro_files ix),
        symbol_refs := fold (\<lambda>n m. erase_entries m n (\<lambda>q. q = p)) (path_references old)
                         (symbol_refs ix)\<rparr>"

definition add_entries :: "string \<Rightarrow> indexed_path \<Rightarrow> indexer \<Rightarrow> indexer" where
  "add_entries p new ix =
     ix\<lparr>symbol_files := fold (\<lambda>s m. push_entry m (symbol_name s) (symbol_at p s))
                        (path_symbols new) (symbol_files ix),
        macro_files := fold (\<lambda>n m. push_entry m n p) (path_macros new) (macro_files ix),
        symbol_refs := fold (\<lambda>n m. push_entry m n p) (path_references new) (symbol_refs ix),
        indexed_files := (indexed_files ix)(p \<mapsto> new)\<rparr>"

definition extract_document :: "parsed_file \<Rightarrow> indexed_path" where
  "extract_document t =
     (let d = extract_from_root t empty_indexed
      in if path_symbols d = [] then extract_macros t d else d)"

definition update_document :: "string \<Rightarrow> parsed_file \<Rightarrow> indexer \<Rightarrow> indexer" where
  "update_document p t ix =
     (let ix = intern_uri p ix;
          ix = (case indexed_files ix p of None \<Rightarrow> ix | Some old \<Rightarrow> drop_entries p old ix)
      in add_entries p (extract_document t) ix)"

definition index_path :: "string \<Rightarrow> indexed_path \<Rightarrow> indexer \<Rightarrow> indexer" where
  "index_path p f ix = add_entries p f (intern_uri p ix)"

definition add_documents :: "(string \<Rightarrow> disk_file) \<Rightarrow> string list \<Rightarrow> indexer \<Rightarrow> indexer" where
  "add_documents disk paths ix =
     fold (\<lambda>(p, f) ix. index_path p f ix) (zip paths (index_paths disk paths)) ix"

definition remove_path :: "string \<Rightarrow> indexer \<Rightarrow> indexer" where
  "remove_path p ix =
     (case indexed_files ix p of
        None \<Rightarrow> ix
      | Some old \<Rightarrow>
          (drop_entries p old ix)\<lparr>indexed_files := (indexed_files ix)(p := None)\<rparr>)"

section \<open>Queries\<close>

definition files_for_symbol :: "indexer \<Rightarrow> string \<Rightarrow> string list" where
  "files_for_symbol ix n = List.map loc_uri (entries (symbol_files ix) n)"

definition files_for_macro :: "indexer \<Rightarrow> string \<Rightarrow> string list" where
  "files_for_macro ix n = entries (macro_files ix) n"

definition files_referencing_symbol :: "indexer \<Rightarrow> string \<Rightarrow> string list" where
  "files_referencing_symbol ix n = entries (symbol_refs ix) n"

definition first_symbol_loc :: "indexer \<Rightarrow> string \<Rightarrow> symbol_loc option" where
  "first_symbol_loc ix n =
     (case map_of (symbol_files ix) n of
        None \<Rightarrow> None
      | Some v \<Rightarrow> (case v of [] \<Rightarrow> None | l # ls \<Rightarrow> Some l))"

definition all_macro_names :: "indexer \<Rightarrow> string list" where
  "all_macro_names ix = List.map fst (macro_files ix)"

definition symbol_count :: "indexer \<Rightarrow> nat" where
  "symbol_count ix = length (symbol_files ix)"

definition each_symbol :: "indexer \<Rightarrow> (string \<times> symbol_loc) list" where
  "each_symbol ix = concat (List.map (\<lambda>(n, ls). List.map (Pair n) ls) (symbol_files ix))"

section \<open>File events\<close>

datatype file_change_type = FileCreated | FileChanged | FileDeleted

text \<open>The changes in turn: the index after the removals and the paths to add.\<close>

definition remove_interned :: "string \<Rightarrow> indexer \<Rightarrow> indexer" where
  "remove_interned p ix = (if p \<in> set (unique_uris ix) then remove_path p ix else ix)"

fun apply_changes ::
    "(string \<Rightarrow> disk_file) \<Rightarrow> (file_change_type \<times> string) list \<Rightarrow> indexer \<Rightarrow> string list \<Rightarrow>
     indexer \<times> string list" where
  "apply_changes disk [] ix add = (ix, add)"
| "apply_changes disk ((FileCreated, p) # cs) ix add = apply_changes disk cs ix (add @ [p])"
| "apply_changes disk ((FileChanged, p) # cs) ix add =
     apply_changes disk cs (remove_interned p ix) (if disk p \<noteq> Absent then add @ [p] else add)"
| "apply_changes disk ((FileDeleted, p) # cs) ix add =
     apply_changes disk cs (remove_interned p ix) add"

definition watched_files_changed ::
    "(string \<Rightarrow> disk_file) \<Rightarrow> (file_change_type \<times> string) list \<Rightarrow> indexer \<Rightarrow> indexer" where
  "watched_files_changed disk changes ix =
     (case apply_changes disk changes ix [] of
        (ix, add) \<Rightarrow> if add = [] then ix else add_documents disk add ix)"

section \<open>Which files to index\<close>

definition is_excluded :: "string \<Rightarrow> string list \<Rightarrow> bool" where
  "is_excluded path dirs \<longleftrightarrow> list_ex (\<lambda>d. contains_str path d) dirs"

definition file_name :: "string \<Rightarrow> string" where
  "file_name path = rev (takeWhile (\<lambda>c. c \<noteq> CHR ''/'') (rev path))"

text \<open>\<^verbatim>\<open>fs::path::extension\<close>: from the last dot of the file name, unless it starts it.\<close>

definition extension :: "string \<Rightarrow> string" where
  "extension path =
     (let n = file_name path;
          ext = rev (takeWhile (\<lambda>c. c \<noteq> CHR ''.'') (rev n));
          stem = length n - length ext
      in if n = ''.'' \<or> n = ''..'' \<or> CHR ''.'' \<notin> set n \<or> stem = 1 then []
         else CHR ''.'' # ext)"

definition is_system_verilog_file :: "string \<Rightarrow> bool" where
  "is_system_verilog_file path \<longleftrightarrow>
     (let e = extension path in e = ''.sv'' \<or> e = ''.svh'' \<or> e = ''.v'' \<or> e = ''.vh'')"

text \<open>
  A directory as the recursive iterator sees it: entries with their path, files, directories
  with their entries, and entries that are neither.
\<close>

datatype dir_entry =
    RegularFile string
  | Directory string "dir_entry list"
  | OtherEntry string

fun collect_entry :: "string list \<Rightarrow> dir_entry \<Rightarrow> string list" where
  "collect_entry excl (RegularFile p) = (if is_system_verilog_file p then [p] else [])"
| "collect_entry excl (OtherEntry p) = []"
| "collect_entry excl (Directory p es) =
     (if is_excluded p excl then [] else concat (List.map (collect_entry excl) es))"

text \<open>The directory itself is not checked against the excluded ones.\<close>

definition collect_files ::
    "(string \<Rightarrow> dir_entry option) \<Rightarrow> string \<Rightarrow> string list \<Rightarrow> string list" where
  "collect_files tree dir excl =
     (case tree dir of
        Some (Directory p es) \<Rightarrow> concat (List.map (collect_entry excl) es)
      | _ \<Rightarrow> [])"

record index_config =
  config_dirs :: "string list"
  config_exclude_dirs :: "string list option"

definition path_join :: "string \<Rightarrow> string \<Rightarrow> string" where
  "path_join a b =
     (if starts_with b ''/'' then b
      else if a = [] \<or> ends_with a ''/'' then a @ b else a @ ''/'' @ b)"

definition config_files ::
    "(string \<Rightarrow> dir_entry option) \<Rightarrow> string option \<Rightarrow> index_config \<Rightarrow> string list" where
  "config_files tree workspace cfg =
     concat (List.map (\<lambda>dir.
       let collect = (\<lambda>d. collect_files tree d
                        (case config_exclude_dirs cfg of None \<Rightarrow> [] | Some x \<Rightarrow> x))
       in if starts_with dir ''/'' then collect dir
          else (case workspace of Some w \<Rightarrow> collect (path_join w dir) | None \<Rightarrow> []))
       (config_dirs cfg))"

definition start_indexing ::
    "(string \<Rightarrow> disk_file) \<Rightarrow> (string \<Rightarrow> dir_entry option) \<Rightarrow> index_config list \<Rightarrow> string option \<Rightarrow>
     indexer \<Rightarrow> indexer" where
  "start_indexing disk tree cfgs workspace ix =
     add_documents disk
       (if cfgs = [] then (case workspace of Some w \<Rightarrow> collect_files tree w [] | None \<Rightarrow> [])
        else concat (List.map (config_files tree workspace) cfgs)) ix"

text \<open>The older form: \<open>glob\<close> returns the files of a pattern, or an error.\<close>

definition start_indexing_globs ::
    "(string \<Rightarrow> disk_file) \<Rightarrow> (string \<Rightarrow> string list option) \<Rightarrow> string list \<Rightarrow> string list \<Rightarrow>
     indexer \<Rightarrow> indexer" where
  "start_indexing_globs disk glob patterns excl ix =
     add_documents disk
       (concat (List.map (\<lambda>pat. case glob pat of
                  None \<Rightarrow> []
                | Some out \<Rightarrow> filter (\<lambda>p. \<not> is_excluded p excl) out) patterns)) ix"


section \<open>What the index promises\<close>

text \<open>
  The index is exact: for every path and name it has the entries of the file that is stored
  for the path, in order, and no others.
\<close>

definition stored :: "indexer \<Rightarrow> string \<Rightarrow> indexed_path" where
  "stored ix p = (case indexed_files ix p of None \<Rightarrow> empty_indexed | Some f \<Rightarrow> f)"

definition exact_at :: "indexer \<Rightarrow> string \<Rightarrow> indexed_path \<Rightarrow> bool" where
  "exact_at ix p f \<longleftrightarrow>
     (\<forall>n. filter (\<lambda>l. loc_uri l = p) (entries (symbol_files ix) n) =
            List.map (symbol_at p) (filter (\<lambda>s. symbol_name s = n) (path_symbols f)) \<and>
          filter (\<lambda>q. q = p) (entries (macro_files ix) n) =
            List.map (\<lambda>_. p) (filter (\<lambda>m. m = n) (path_macros f)) \<and>
          filter (\<lambda>q. q = p) (entries (symbol_refs ix) n) =
            List.map (\<lambda>_. p) (filter (\<lambda>m. m = n) (path_references f)))"

definition exact :: "indexer \<Rightarrow> bool" where
  "exact ix \<longleftrightarrow>
     (\<forall>p. exact_at ix p (stored ix p)) \<and>
     wf_names (symbol_files ix) \<and> wf_names (macro_files ix) \<and> wf_names (symbol_refs ix) \<and>
     (\<forall>p. indexed_files ix p \<noteq> None \<longrightarrow> p \<in> set (unique_uris ix))"

lemma indexed_path_empty_simps [simp]:
  "path_symbols empty_indexed = []" "path_macros empty_indexed = []" "path_references empty_indexed = []"
  by (simp_all add: empty_indexed_def)

lemma exact_empty: "exact empty_indexer"
  by (simp add: exact_def exact_at_def stored_def empty_indexer_def)

lemma exact_intern [simp]: "exact ix \<Longrightarrow> exact (intern_uri p ix)"
  by (simp add: exact_def exact_at_def stored_def intern_uri_def)

lemma intern_uri_simps [simp]:
  "symbol_files (intern_uri p ix) = symbol_files ix"
  "macro_files (intern_uri p ix) = macro_files ix"
  "symbol_refs (intern_uri p ix) = symbol_refs ix"
  "indexed_files (intern_uri p ix) = indexed_files ix"
  "exact_at (intern_uri p ix) q f = exact_at ix q f"
  by (simp_all add: intern_uri_def exact_at_def)

lemma drop_entries_lookup:
  assumes "exact_at ix p old"
  shows "entries (symbol_files (drop_entries p old ix)) n =
           filter (\<lambda>l. loc_uri l \<noteq> p) (entries (symbol_files ix) n)"
    and "entries (macro_files (drop_entries p old ix)) n =
           filter (\<lambda>q. q \<noteq> p) (entries (macro_files ix) n)"
    and "entries (symbol_refs (drop_entries p old ix)) n =
           filter (\<lambda>q. q \<noteq> p) (entries (symbol_refs ix) n)"
proof -
  have loc: "loc_uri e = p \<and> loc_kind e = symbol_kind s \<longleftrightarrow> e = symbol_at p s" for e s
    by (cases e) (auto simp: symbol_at_def)
  show "entries (symbol_files (drop_entries p old ix)) n =
          filter (\<lambda>l. loc_uri l \<noteq> p) (entries (symbol_files ix) n)"
    using assms names.replace_owner [of loc_uri p "symbol_files ix" n "symbol_at p" symbol_name
        "path_symbols old" "\<lambda>s l. loc_uri l = p \<and> loc_kind l = symbol_kind s"] loc
    by (simp add: exact_at_def drop_entries_def symbol_at_def)
  show "entries (macro_files (drop_entries p old ix)) n =
          filter (\<lambda>q. q \<noteq> p) (entries (macro_files ix) n)"
    using assms names.replace_owner [of "\<lambda>q. q" p "macro_files ix" n "\<lambda>_. p" "\<lambda>n. n"
        "path_macros old" "\<lambda>_ q. q = p"]
    by (simp add: exact_at_def drop_entries_def)
  show "entries (symbol_refs (drop_entries p old ix)) n =
          filter (\<lambda>q. q \<noteq> p) (entries (symbol_refs ix) n)"
    using assms names.replace_owner [of "\<lambda>q. q" p "symbol_refs ix" n "\<lambda>_. p" "\<lambda>n. n"
        "path_references old" "\<lambda>_ q. q = p"]
    by (simp add: exact_at_def drop_entries_def)
qed

lemma add_entries_lookup:
  "entries (symbol_files (add_entries p new ix)) n = entries (symbol_files ix) n @
     List.map (symbol_at p) (filter (\<lambda>s. symbol_name s = n) (path_symbols new))"
  "entries (macro_files (add_entries p new ix)) n = entries (macro_files ix) n @
     List.map (\<lambda>_. p) (filter (\<lambda>m. m = n) (path_macros new))"
  "entries (symbol_refs (add_entries p new ix)) n = entries (symbol_refs ix) n @
     List.map (\<lambda>_. p) (filter (\<lambda>m. m = n) (path_references new))"
  using names.lookup_push_all [of symbol_name "symbol_at p" "path_symbols new" "symbol_files ix" n]
    names.lookup_push_all [of "\<lambda>n. n" "\<lambda>_. p" "path_macros new" "macro_files ix" n]
    names.lookup_push_all [of "\<lambda>n. n" "\<lambda>_. p" "path_references new" "symbol_refs ix" n]
  by (simp_all add: add_entries_def)

definition wf_index :: "indexer \<Rightarrow> bool" where
  "wf_index ix \<longleftrightarrow> wf_names (symbol_files ix) \<and> wf_names (macro_files ix) \<and> wf_names (symbol_refs ix)"

lemma wf_index_drop: "wf_index ix \<Longrightarrow> wf_index (drop_entries p old ix)"
  by (simp add: wf_index_def drop_entries_def names.wf_erase_all)

lemma wf_index_add: "wf_index ix \<Longrightarrow> wf_index (add_entries p new ix)"
  by (simp add: wf_index_def add_entries_def names.wf_push_all)

lemma exact_alt:
  "exact ix \<longleftrightarrow> wf_index ix \<and> (\<forall>p. exact_at ix p (stored ix p)) \<and>
     (\<forall>p. indexed_files ix p \<noteq> None \<longrightarrow> p \<in> set (unique_uris ix))"
  by (auto simp: exact_def wf_index_def)

text \<open>Dropping a path leaves the others; adding one to an index without it is exact.\<close>

lemma exact_at_drop:
  assumes "exact_at ix p old" and "exact_at ix q f"
  shows "exact_at (drop_entries p old ix) q (if q = p then empty_indexed else f)"
proof -
  have "(loc_uri x \<noteq> p \<and> loc_uri x = q) = (q \<noteq> p \<and> loc_uri x = q)" for x
    by auto
  moreover have "(x \<noteq> p \<and> x = q) = (q \<noteq> p \<and> x = q)" for x
    by auto
  ultimately show ?thesis
    using assms(2) by (simp add: exact_at_def drop_entries_lookup [OF assms(1)])
qed

lemma exact_at_add:
  assumes "exact_at ix q f" and "q = p \<Longrightarrow> f = empty_indexed"
  shows "exact_at (add_entries p new ix) q (if q = p then new else f)"
proof (cases "q = p")
  case True
  have 1: "filter (\<lambda>l. loc_uri l = p) (List.map (symbol_at p) xs) = List.map (symbol_at p) xs" for xs
    by (simp add: filter_map comp_def symbol_at_def)
  have 2: "filter (\<lambda>q. q = p) (List.map (\<lambda>_. p) xs) = List.map (\<lambda>_. p) xs" for xs :: "string list"
    by (simp add: filter_map comp_def)
  show ?thesis using assms True 1 2
    by (simp add: exact_at_def add_entries_lookup)
next
  case False
  have 1: "filter (\<lambda>l. loc_uri l = q) (List.map (symbol_at p) xs) = []" for xs
    using False by (simp add: filter_map comp_def symbol_at_def)
  have 2: "filter (\<lambda>x. x = q) (List.map (\<lambda>_. p) xs) = []" for xs :: "string list"
    using False by (simp add: filter_map comp_def)
  show ?thesis using assms False 1 2
    by (simp add: exact_at_def add_entries_lookup)
qed

lemma exact_index_path:
  assumes "exact ix" and "indexed_files ix p = None"
  shows "exact (index_path p f ix)"
proof -
  let ?ix = "intern_uri p ix"
  have e: "exact ?ix" using assms(1) by simp
  have n: "indexed_files ?ix p = None" and u: "set (unique_uris ?ix) = insert p (set (unique_uris ix))"
    using assms(2) by (simp_all add: intern_uri_def)
  have st: "stored (index_path p f ix) q = (if q = p then f else stored ?ix q)" for q
    by (simp add: stored_def index_path_def add_entries_def)
  have "exact_at (index_path p f ix) q (stored (index_path p f ix) q)" for q
    unfolding st unfolding index_path_def
    using e n by (intro exact_at_add) (auto simp: exact_alt stored_def)
  then show ?thesis using e u
    by (auto simp: exact_alt index_path_def wf_index_add) (auto simp: add_entries_def split: if_splits)
qed

lemma exact_remove_path:
  assumes "exact ix"
  shows "exact (remove_path p ix)"
proof (cases "indexed_files ix p")
  case None
  then show ?thesis using assms by (simp add: remove_path_def)
next
  case (Some old)
  have at: "exact_at ix p old" using assms Some by (metis exact_alt option.simps(5) stored_def)
  have st: "stored (remove_path p ix) q = (if q = p then empty_indexed else stored ix q)" for q
    using Some by (simp add: stored_def remove_path_def)
  have eq: "exact_at (remove_path p ix) q g = exact_at (drop_entries p old ix) q g" for q g
    using Some by (simp add: remove_path_def exact_at_def)
  have "exact_at (remove_path p ix) q (stored (remove_path p ix) q)" for q
    unfolding st eq using assms by (intro exact_at_drop [OF at]) (simp add: exact_alt)
  moreover have "wf_index (remove_path p ix)"
    using assms wf_index_drop [of ix p old] Some by (simp add: exact_alt remove_path_def wf_index_def)
  moreover have "unique_uris (remove_path p ix) = unique_uris ix"
    using Some by (simp add: remove_path_def drop_entries_def)
  ultimately show ?thesis using assms Some
    by (auto simp: exact_alt) (auto simp: remove_path_def split: if_splits)
qed

lemma exact_update_document:
  assumes "exact ix"
  shows "exact (update_document p t ix)"
proof -
  have "update_document p t ix = index_path p (extract_document t) (remove_path p ix)
    \<or> indexed_files (update_document p t ix) = indexed_files (index_path p (extract_document t) (remove_path p ix))
      \<and> symbol_files (update_document p t ix) = symbol_files (index_path p (extract_document t) (remove_path p ix))
      \<and> macro_files (update_document p t ix) = macro_files (index_path p (extract_document t) (remove_path p ix))
      \<and> symbol_refs (update_document p t ix) = symbol_refs (index_path p (extract_document t) (remove_path p ix))
      \<and> unique_uris (update_document p t ix) = unique_uris (index_path p (extract_document t) (remove_path p ix))"
    by (auto simp: update_document_def index_path_def remove_path_def intern_uri_def Let_def
        drop_entries_def add_entries_def split: option.split)
  then have "update_document p t ix = index_path p (extract_document t) (remove_path p ix)"
    by (auto intro: indexer.equality)
  moreover have "indexed_files (remove_path p ix) p = None"
    by (simp add: remove_path_def split: option.split)
  ultimately show ?thesis
    using exact_index_path exact_remove_path [OF assms] by metis
qed


section \<open>Histories\<close>

text \<open>What happens to the index; every reading of the disk sees the disk of its moment.\<close>

datatype index_event =
    Updated string parsed_file
  | Added "string \<Rightarrow> disk_file" "string list"
  | Watched "string \<Rightarrow> disk_file" "(file_change_type \<times> string) list"

fun apply_event :: "index_event \<Rightarrow> indexer \<Rightarrow> indexer" where
  "apply_event (Updated p t) ix = update_document p t ix"
| "apply_event (Added disk paths) ix = add_documents disk paths ix"
| "apply_event (Watched disk changes) ix = watched_files_changed disk changes ix"

text \<open>
  Files are added only when the index does not have them: not indexed before, and once. The code
  does not check it.
\<close>

definition fresh_paths :: "string list \<Rightarrow> indexer \<Rightarrow> bool" where
  "fresh_paths paths ix \<longleftrightarrow> distinct paths \<and> list_all (\<lambda>p. indexed_files ix p = None) paths"

fun fresh_event :: "index_event \<Rightarrow> indexer \<Rightarrow> bool" where
  "fresh_event (Updated p t) ix = True"
| "fresh_event (Added disk paths) ix = fresh_paths paths ix"
| "fresh_event (Watched disk changes) ix =
     (case apply_changes disk changes ix [] of (ix', add) \<Rightarrow> fresh_paths add ix')"

fun run_events :: "index_event list \<Rightarrow> indexer \<Rightarrow> indexer" where
  "run_events [] ix = ix"
| "run_events (e # es) ix = run_events es (apply_event e ix)"

fun fresh_run :: "index_event list \<Rightarrow> indexer \<Rightarrow> bool" where
  "fresh_run [] ix = True"
| "fresh_run (e # es) ix = (fresh_event e ix \<and> fresh_run es (apply_event e ix))"

lemma exact_remove_interned: "exact ix \<Longrightarrow> exact (remove_interned p ix)"
  by (simp add: remove_interned_def exact_remove_path)

lemma exact_apply_changes: "exact ix \<Longrightarrow> exact (fst (apply_changes disk cs ix add))"
  by (induction disk cs ix add rule: apply_changes.induct) (simp_all add: exact_remove_interned)

lemma exact_add_documents:
  assumes "exact ix" and "fresh_paths paths ix"
  shows "exact (add_documents disk paths ix)"
  using assms
proof (induction paths arbitrary: ix)
  case (Cons p ps)
  have "fresh_paths ps (index_path p f ix)" for f
    using Cons.prems(2)
    by (auto simp: fresh_paths_def list_all_iff index_path_def add_entries_def intern_uri_def)
  moreover have "exact (index_path p f ix)" for f
    using Cons.prems by (intro exact_index_path) (simp_all add: fresh_paths_def)
  ultimately show ?case using Cons.IH
    by (simp add: add_documents_def index_paths_def)
qed (simp add: add_documents_def index_paths_def)

lemma exact_apply_event: "exact ix \<Longrightarrow> fresh_event e ix \<Longrightarrow> exact (apply_event e ix)"
proof (cases e)
  case (Watched disk changes)
  assume "exact ix" and "fresh_event e ix"
  then show ?thesis using Watched exact_apply_changes [of ix disk changes "[]"]
    by (auto simp: watched_files_changed_def exact_add_documents split: prod.splits)
qed (simp_all add: exact_update_document exact_add_documents)

lemma exact_run: "exact ix \<Longrightarrow> fresh_run es ix \<Longrightarrow> exact (run_events es ix)"
  by (induction es arbitrary: ix) (simp_all add: exact_apply_event)

section \<open>The theorems\<close>

lemma filter_map_loc: "filter (\<lambda>x. x = p) (List.map loc_uri ls) = List.map loc_uri (filter (\<lambda>l. loc_uri l = p) ls)"
  by (induction ls) auto

text \<open>
  C12: However documents are opened and edited and files are added, changed and deleted, as long
  as no file is added that the index already has, a query returns a path once for every
  declaration of the name in the file stored for the path, and the same for macros and
  references; the number of symbols is the number of names some stored file declares.
\<close>

theorem index_answers_exactly:
  assumes "fresh_run es empty_indexer" and "ix = run_events es empty_indexer"
  shows "count_list (files_for_symbol ix n) p =
           length (filter (\<lambda>s. symbol_name s = n) (path_symbols (stored ix p)))
    \<and> count_list (files_for_macro ix n) p = count_list (path_macros (stored ix p)) n
    \<and> count_list (files_referencing_symbol ix n) p = count_list (path_references (stored ix p)) n
    \<and> symbol_count ix = card {n. \<exists>p. n \<in> symbol_name ` set (path_symbols (stored ix p))}"
proof -
  have ex: "exact ix" using exact_run [OF exact_empty assms(1)] assms(2) by simp
  then have at: "exact_at ix p (stored ix p)" for p by (simp add: exact_def)
  have len: "count_list xs x = length (filter (\<lambda>y. y = x) xs)" for x and xs :: "string list"
    by (induction xs) auto
  have 1: "count_list (files_for_symbol ix n) p =
      length (filter (\<lambda>s. symbol_name s = n) (path_symbols (stored ix p)))"
    using at [of p] by (simp add: len files_for_symbol_def filter_map_loc exact_at_def)
  have 2: "count_list (files_for_macro ix n) p = count_list (path_macros (stored ix p)) n"
    "count_list (files_referencing_symbol ix n) p = count_list (path_references (stored ix p)) n"
    using at [of p]
    by (simp_all add: len files_for_macro_def files_referencing_symbol_def exact_at_def)
  have "entries (symbol_files ix) m \<noteq> [] \<longleftrightarrow> (\<exists>p. m \<in> symbol_name ` set (path_symbols (stored ix p)))" for m
  proof
    assume "entries (symbol_files ix) m \<noteq> []"
    then obtain l where "l \<in> set (entries (symbol_files ix) m)" by (meson list.set_sel(1))
    then have "filter (\<lambda>e. loc_uri e = loc_uri l) (entries (symbol_files ix) m) \<noteq> []"
      by (auto simp: filter_empty_conv)
    then have "filter (\<lambda>s. symbol_name s = m) (path_symbols (stored ix (loc_uri l))) \<noteq> []"
      using at [of "loc_uri l"] by (simp add: exact_at_def)
    then show "\<exists>p. m \<in> symbol_name ` set (path_symbols (stored ix p))"
      by (auto simp: filter_empty_conv)
  next
    assume "\<exists>p. m \<in> symbol_name ` set (path_symbols (stored ix p))"
    then obtain p where "filter (\<lambda>s. symbol_name s = m) (path_symbols (stored ix p)) \<noteq> []"
      by (auto simp: filter_empty_conv)
    then have "filter (\<lambda>l. loc_uri l = p) (entries (symbol_files ix) m) \<noteq> []"
      using at [of p] by (simp add: exact_at_def)
    then show "entries (symbol_files ix) m \<noteq> []" by auto
  qed
  moreover have "symbol_count ix = card {m. entries (symbol_files ix) m \<noteq> []}"
    using ex wf_names_keys [of "symbol_files ix"] distinct_card [of "List.map fst (symbol_files ix)"]
    by (simp add: exact_def symbol_count_def wf_names_def)
  ultimately show ?thesis using 1 2 by simp
qed


text \<open>A module file and a header, to run the index on.\<close>

definition module_file :: "string \<Rightarrow> string list \<Rightarrow> parsed_file" where
  "module_file m refs =
     \<lparr>unit_members = [(ModuleDeclaration, m)], referenced_names = refs, defined_macros = [],
      has_node_meta = True, has_classes = False\<rparr>"

definition sample_events :: "index_event list" where
  "sample_events =
     [Added (\<lambda>p. if p = ''a.sv'' then Readable (module_file ''a'' [''b''])
                 else Readable (module_file ''b'' [])) [''a.sv'', ''b.sv''],
      Updated ''a.sv'' (module_file ''a2'' [''b'', ''b'']),
      Watched (\<lambda>p. Absent) [(FileDeleted, ''b.sv'')]]"

theorem index_answers_exactly_witness:
  "let ix = run_events sample_events empty_indexer
   in count_list (files_for_symbol ix ''a2'') ''a.sv'' = 1 \<and>
      count_list (files_for_symbol ix ''a'') ''a.sv'' = 0 \<and>
      count_list (files_for_symbol ix ''b'') ''b.sv'' = 0 \<and>
      count_list (files_referencing_symbol ix ''b'') ''a.sv'' = 1"
proof -
  let ?ix = "run_events sample_events empty_indexer"
  have f: "fresh_run sample_events empty_indexer" by code_simp
  note ans = index_answers_exactly [OF f refl]
  have "length (filter (\<lambda>s. symbol_name s = ''a2'') (path_symbols (stored ?ix ''a.sv''))) = 1"
    and "length (filter (\<lambda>s. symbol_name s = ''a'') (path_symbols (stored ?ix ''a.sv''))) = 0"
    and "length (filter (\<lambda>s. symbol_name s = ''b'') (path_symbols (stored ?ix ''b.sv''))) = 0"
    and "count_list (path_references (stored ?ix ''a.sv'')) ''b'' = 1"
    by code_simp+
  then show ?thesis using ans by (simp add: Let_def)
qed

text \<open>
  Opening or editing a document replaces what the index has for its path and nothing else:
  under every name the entries of other paths stay in order and the document's come last.
\<close>

lemma update_document_replaces:
  assumes "exact ix"
  shows "entries (symbol_files (update_document p t ix)) n =
           filter (\<lambda>l. loc_uri l \<noteq> p) (entries (symbol_files ix) n) @
           List.map (symbol_at p) (filter (\<lambda>s. symbol_name s = n) (path_symbols (extract_document t)))
    \<and> entries (macro_files (update_document p t ix)) n =
           filter (\<lambda>q. q \<noteq> p) (entries (macro_files ix) n) @
           List.map (\<lambda>_. p) (filter (\<lambda>m. m = n) (path_macros (extract_document t)))
    \<and> entries (symbol_refs (update_document p t ix)) n =
           filter (\<lambda>q. q \<noteq> p) (entries (symbol_refs ix) n) @
           List.map (\<lambda>_. p) (filter (\<lambda>m. m = n) (path_references (extract_document t)))"
proof (cases "indexed_files ix p")
  case None
  then have "exact_at ix p empty_indexed" using assms by (metis exact_alt option.simps(4) stored_def)
  then have none: "filter (\<lambda>l. loc_uri l \<noteq> p) (entries (symbol_files ix) n) = entries (symbol_files ix) n"
    "filter (\<lambda>q. q \<noteq> p) (entries (macro_files ix) n) = entries (macro_files ix) n"
    "filter (\<lambda>q. q \<noteq> p) (entries (symbol_refs ix) n) = entries (symbol_refs ix) n"
    by (auto simp: exact_at_def filter_empty_conv intro!: filter_True)
  show ?thesis using None by (simp add: none update_document_def Let_def add_entries_lookup)
next
  case (Some old)
  then have at: "exact_at (intern_uri p ix) p old"
    using assms by (auto simp: exact_alt stored_def split: option.splits)
  show ?thesis using Some
    by (simp add: update_document_def Let_def add_entries_lookup drop_entries_lookup [OF at])
qed

lemma update_document_replaces_witness:
  "entries (symbol_files (update_document ''a.sv'' (module_file ''a2'' [])
      (update_document ''a.sv'' (module_file ''a'' []) empty_indexer))) ''a'' = []"
  using update_document_replaces [OF exact_update_document [OF exact_empty, of "''a.sv''" "module_file ''a'' []"],
      of "''a.sv''" "module_file ''a2'' []" "''a''"]
    update_document_replaces [OF exact_empty, of "''a.sv''" "module_file ''a'' []" "''a''"]
  by (simp add: extract_document_def extract_from_root_def module_file_def is_module_declaration_def
      Let_def empty_indexer_def symbol_at_def)

text \<open>
  Indexing a path the index already has leaves its old entries: a Created event for an open
  document, say. A symbol the file no longer has is then found in it for ever, the removal of
  the path included.
\<close>

lemma reindexing_leaves_stale_entries:
  assumes "exact ix" and "indexed_files ix p = Some old" and "s \<in> set (path_symbols old)"
    and "symbol_name s \<notin> symbol_name ` set (path_symbols new)"
  shows "p \<in> set (files_for_symbol (index_path p new ix) (symbol_name s))
    \<and> p \<in> set (files_for_symbol (remove_path p (index_path p new ix)) (symbol_name s))"
proof -
  have "exact_at ix p old" using assms(1,2) by (metis exact_alt option.simps(5) stored_def)
  then have "filter (\<lambda>l. loc_uri l = p) (entries (symbol_files ix) (symbol_name s)) \<noteq> []"
    using assms(3) by (auto simp: exact_at_def filter_empty_conv)
  then have "p \<in> loc_uri ` set (entries (symbol_files ix) (symbol_name s))"
    by (auto simp: filter_empty_conv)
  moreover have other: "symbol_name x \<noteq> symbol_name s" if "x \<in> set (path_symbols new)" for x
    using assms(4) that by (metis imageI)
  moreover from other have "entries (symbol_files (index_path p new ix)) (symbol_name s)
      = entries (symbol_files ix) (symbol_name s)"
    by (auto simp: index_path_def add_entries_lookup filter_empty_conv)
  moreover from other have "entries (symbol_files (remove_path p (index_path p new ix))) (symbol_name s)
      = entries (symbol_files (index_path p new ix)) (symbol_name s)"
    by (auto simp: remove_path_def index_path_def add_entries_def drop_entries_def
        names.lookup_erase_all filter_id_conv)
  ultimately show ?thesis by (simp add: files_for_symbol_def)
qed

lemma reindexing_leaves_stale_entries_witness:
  "''a.sv'' \<in> set (files_for_symbol (remove_path ''a.sv'' (index_path ''a.sv'' empty_indexed
      (update_document ''a.sv'' (module_file ''a'' []) empty_indexer))) ''a'')"
  using reindexing_leaves_stale_entries
      [OF exact_update_document [OF exact_empty, of "''a.sv''" "module_file ''a'' []"],
       of "''a.sv''" "extract_document (module_file ''a'' [])"
        "\<lparr>symbol_name = ''a'', symbol_kind = ModuleDeclaration\<rparr>" empty_indexed]
  by (simp add: update_document_def Let_def add_entries_def intern_uri_def empty_indexer_def
      extract_document_def extract_from_root_def module_file_def is_module_declaration_def)

text \<open>Every file below a directory, with the directory it is in.\<close>

fun files_below :: "string \<Rightarrow> dir_entry \<Rightarrow> (string \<times> string) list" where
  "files_below d (RegularFile p) = [(d, p)]"
| "files_below d (OtherEntry p) = []"
| "files_below d (Directory p es) = concat (List.map (files_below p) es)"

text \<open>Paths extend the path of their directory.\<close>

fun well_placed :: "string \<Rightarrow> dir_entry \<Rightarrow> bool" where
  "well_placed d (RegularFile p) = strict_prefix d p"
| "well_placed d (OtherEntry p) = strict_prefix d p"
| "well_placed d (Directory p es) = (strict_prefix d p \<and> list_all (well_placed p) es)"

lemma is_excluded_prefix: "is_excluded d excl \<Longrightarrow> prefix d p \<Longrightarrow> is_excluded p excl"
  by (auto simp: is_excluded_def list_ex_iff) (meson prefix_imp_sublist sublist_order.order.trans)

lemma files_below_dirs:
  "well_placed d e \<Longrightarrow> (d', f) \<in> set (files_below d e) \<Longrightarrow> prefix d d'"
proof (induction e arbitrary: d)
  case (Directory p es)
  then show ?case
    by (auto simp: list_all_iff) (metis prefix_order.trans strict_prefix_def)
qed auto

lemma collect_entry_below:
  "well_placed d e \<Longrightarrow> \<not> is_excluded d excl \<Longrightarrow>
   collect_entry excl e =
     List.map snd (filter (\<lambda>(d, f). is_system_verilog_file f \<and> \<not> is_excluded d excl) (files_below d e))"
proof (induction e arbitrary: d)
  case (Directory p es)
  show ?case
  proof (cases "is_excluded p excl")
    case True
    have "\<not> (is_system_verilog_file f \<and> \<not> is_excluded d' excl)"
      if "(d', f) \<in> set (files_below p e)" "e \<in> set es" for d' f e
      using files_below_dirs [of p e d' f] that True is_excluded_prefix Directory.prems(1)
      by (auto simp: list_all_iff)
    then have "filter (\<lambda>(d, f). is_system_verilog_file f \<and> \<not> is_excluded d excl)
        (files_below d (Directory p es)) = []"
      by (fastforce simp: filter_empty_conv)
    then show ?thesis using True by simp
  next
    case False
    have "collect_entry excl e = List.map snd (filter (\<lambda>(d, f). is_system_verilog_file f \<and>
        \<not> is_excluded d excl) (files_below p e))" if "e \<in> set es" for e
      using Directory.IH [OF that _ False] Directory.prems(1) that by (simp add: list_all_iff)
    then show ?thesis using False by (simp add: map_concat filter_concat comp_def cong: map_cong)
  qed
qed auto


text \<open>
  Crawling a directory finds exactly the SystemVerilog files in it and in the directories
  below whose path contains no excluded string, in the order of the iteration; files directly in
  the directory are found even if its own path is excluded.
\<close>

lemma collect_files_exact:
  assumes "tree dir = Some (Directory root es)" and "list_all (well_placed root) es"
  shows "collect_files tree dir excl =
     List.map snd (filter (\<lambda>(d, f). is_system_verilog_file f \<and> (d = root \<or> \<not> is_excluded d excl))
       (files_below dir (Directory root es)))"
proof -
  have one: "collect_entry excl e = List.map snd (filter (\<lambda>(d, f).
      is_system_verilog_file f \<and> (d = root \<or> \<not> is_excluded d excl)) (files_below root e))"
    if "well_placed root e" for e
  proof (cases e)
    case (Directory p es')
    with that have sp: "strict_prefix root p" by simp
    have below: "strict_prefix root d" if df: "(d, f) \<in> set (files_below root e)" for d f
    proof -
      obtain e' where e': "e' \<in> set es'" "(d, f) \<in> set (files_below p e')"
        using df Directory by auto
      then have "prefix p d"
        using files_below_dirs [of p e'] \<open>well_placed root e\<close> Directory by (auto simp: list_all_iff)
      with sp show ?thesis by (metis prefix_order.less_le_trans)
    qed
    show ?thesis
    proof (cases "is_excluded root excl")
      case False
      then show ?thesis using collect_entry_below [OF that] below
        by (auto intro!: arg_cong [of _ _ "List.map snd"] filter_cong)
    next
      case True
      then have "is_excluded d excl" if "strict_prefix root d" for d
        using that is_excluded_prefix by (auto simp: strict_prefix_def)
      then have "filter (\<lambda>(d, f). is_system_verilog_file f \<and> (d = root \<or> \<not> is_excluded d excl))
          (files_below root e) = []" and "is_excluded p excl"
        using below sp by (fastforce simp: filter_empty_conv)+
      then show ?thesis using Directory by simp
    qed
  qed auto
  have "collect_files tree dir excl = concat (List.map (collect_entry excl) es)"
    using assms(1) by (simp add: collect_files_def)
  also have "\<dots> = concat (List.map (\<lambda>e. List.map snd (filter (\<lambda>(d, f).
      is_system_verilog_file f \<and> (d = root \<or> \<not> is_excluded d excl)) (files_below root e))) es)"
    using assms(2) one by (auto simp: list_all_iff intro!: arg_cong [of _ _ concat])
  finally show ?thesis by (simp add: map_concat filter_concat comp_def)
qed

lemma collect_files_exact_witness:
  "collect_files (\<lambda>d. Some (Directory ''/w'' [RegularFile ''/w/a.sv'', RegularFile ''/w/readme'',
      Directory ''/w/build'' [RegularFile ''/w/build/b.v''],
      Directory ''/w/rtl'' [RegularFile ''/w/rtl/c.svh'']])) ''/w'' [''build'']
   = [''/w/a.sv'', ''/w/rtl/c.svh'']"
  apply (subst collect_files_exact [OF refl])
  subgoal by code_simp
  subgoal by code_simp
  done

text \<open>
  What is extracted from a file with classes only depends on how it comes into the index:
  read from disk it has no entries, opened as a document its macros and references are indexed.
\<close>

lemma class_header_extraction_differs:
  assumes "has_classes t" and "\<not> has_node_meta t" and "extract_symbols (unit_members t) = []"
  shows "index_file (Readable t) = empty_indexed
    \<and> path_macros (extract_document t) = macro_names (defined_macros t)
    \<and> path_references (extract_document t) = first_seen {} (referenced_names t)"
  using assms
  by (simp add: index_file_def extract_document_def extract_from_root_def extract_macros_def)

lemma class_header_extraction_differs_witness:
  "path_macros (extract_document \<lparr>unit_members = [(ClassDeclaration, ''c'')], referenced_names = [],
     defined_macros = [Some (''M'', True)], has_node_meta = False, has_classes = True\<rparr>) = [''M'']"
  using class_header_extraction_differs [of "\<lparr>unit_members = [(ClassDeclaration, ''c'')],
      referenced_names = [], defined_macros = [Some (''M'', True)], has_node_meta = False,
      has_classes = True\<rparr>"]
  by (simp add: is_module_declaration_def)

end
