(* ===== verification/Converters.thy ===== *)
theory Converters
  imports Uri SlangTypes "HOL-Library.Word"
begin

text \<open>
  Translation between slang and LSP coordinates and kinds, \<^verbatim>\<open>util/Converters.cpp\<close> and
  \<^verbatim>\<open>util/SlangExtensions.cpp\<close>. The source manager of the library is a parameter: a record
  of the functions the code calls. LSP positions are 32-bit and wrap. A URI stands for its string,
  by which it is compared and hashed.
\<close>

section \<open>Locations\<close>

record source_loc =
  loc_buffer :: nat
  loc_offset :: nat

type_synonym source_range = "source_loc \<times> source_loc"

record source_manager =
  expanded_loc :: "source_loc \<Rightarrow> source_loc"
  expanded_range :: "source_range \<Rightarrow> source_range"
  original_loc :: "source_loc \<Rightarrow> source_loc"
  original_range :: "source_range \<Rightarrow> source_range"
  raw_line_number :: "source_loc \<Rightarrow> nat"
  line_number :: "source_loc \<Rightarrow> nat"
  column_number :: "source_loc \<Rightarrow> nat"
  location_at :: "nat \<Rightarrow> nat \<Rightarrow> nat \<Rightarrow> source_loc option"
  full_path :: "nat \<Rightarrow> string"
  macro_name :: "source_loc \<Rightarrow> string"
  no_location :: source_loc
  loc_before :: "source_loc \<Rightarrow> source_loc \<Rightarrow> bool"
  buffer_valid :: "nat \<Rightarrow> bool"
  latest_data :: "nat \<Rightarrow> bool"

record position =
  line :: "32 word"
  character :: "32 word"

record lsp_range =
  range_start :: position
  range_end :: position

record lsp_location =
  location_uri :: string
  location_range :: lsp_range

definition to_position :: "source_manager \<Rightarrow> source_loc \<Rightarrow> position" where
  "to_position sm loc =
     (let actual = expanded_loc sm loc;
          ch = column_number sm actual
      in \<lparr>line = word_of_int (int (raw_line_number sm actual) - 1),
          character = (if ch > 0 then word_of_nat (ch - 1) else 0)\<rparr>)"

text \<open>The sums are 32-bit, before the widening to the parameters of the library function.\<close>

definition to_source_location :: "source_manager \<Rightarrow> nat \<Rightarrow> position \<Rightarrow> source_loc option" where
  "to_source_location sm b p = location_at sm b (unat (line p + 1)) (unat (character p + 1))"

definition to_range :: "source_manager \<Rightarrow> source_range \<Rightarrow> lsp_range" where
  "to_range sm r =
     (let actual = expanded_range sm r
      in \<lparr>range_start = to_position sm (fst actual), range_end = to_position sm (snd actual)\<rparr>)"

definition to_original_location :: "source_manager \<Rightarrow> source_range \<Rightarrow> lsp_location" where
  "to_original_location sm r =
     (let orig = original_range sm r
      in \<lparr>location_uri = uri_str (from_file (full_path sm (loc_buffer (fst orig)))),
          location_range = to_range sm orig\<rparr>)"

definition to_range_length :: "source_manager \<Rightarrow> source_loc \<Rightarrow> nat \<Rightarrow> lsp_range" where
  "to_range_length sm loc len =
     (let start = to_position sm loc
      in \<lparr>range_start = start,
          range_end = start\<lparr>character := character start + word_of_nat len\<rparr>\<rparr>)"

definition range_to_location :: "source_manager \<Rightarrow> source_range \<Rightarrow> lsp_location" where
  "range_to_location sm r =
     (let decl = expanded_range sm r
      in \<lparr>location_uri = uri_str (from_file (full_path sm (loc_buffer (fst decl)))),
          location_range = to_range sm decl\<rparr>)"

definition loc_to_location :: "source_manager \<Rightarrow> source_loc \<Rightarrow> lsp_location" where
  "loc_to_location sm loc =
     (let actual = expanded_loc sm loc
      in \<lparr>location_uri = uri_str (from_file (full_path sm (loc_buffer actual))),
          location_range = \<lparr>range_start = to_position sm actual, range_end = to_position sm actual\<rparr>\<rparr>)"

section \<open>Kinds\<close>

datatype lsp_symbol_kind =
  InterfaceSymbol | ModuleSymbol | PackageSymbol | ClassSymbol | FunctionSymbol | NullSymbol

fun to_symbol_kind :: "syntax_kind \<Rightarrow> lsp_symbol_kind" where
  "to_symbol_kind InterfaceDeclaration = InterfaceSymbol"
| "to_symbol_kind ModuleDeclaration = ModuleSymbol"
| "to_symbol_kind CheckerDeclaration = ModuleSymbol"
| "to_symbol_kind ProgramDeclaration = ModuleSymbol"
| "to_symbol_kind PackageDeclaration = PackageSymbol"
| "to_symbol_kind ClassDeclaration = ClassSymbol"
| "to_symbol_kind FunctionDeclaration = FunctionSymbol"
| "to_symbol_kind TaskDeclaration = FunctionSymbol"
| "to_symbol_kind _ = NullSymbol"

datatype subroutine_kind = FunctionSubroutine | TaskSubroutine

fun subroutine_string :: "subroutine_kind \<Rightarrow> string" where
  "subroutine_string FunctionSubroutine = ''function''"
| "subroutine_string TaskSubroutine = ''task''"

section \<open>The token of a name\<close>

text \<open>
  A syntax node with its children: tokens, with the address of their text in memory, nodes, and
  absent children. The name and its token share their memory.
\<close>

record name_token =
  token_data :: nat
  token_text :: string

datatype syntax_child = TokenChild name_token | NodeChild "syntax_child list" | NoChild

fun find_name_token :: "syntax_child list \<Rightarrow> nat \<Rightarrow> name_token option" where
  "find_name_token [] d = None"
| "find_name_token (TokenChild t # cs) d =
     (if token_data t = d then Some t else find_name_token cs d)"
| "find_name_token (NodeChild ds # cs) d =
     (case find_name_token ds d of Some t \<Rightarrow> Some t | None \<Rightarrow> find_name_token cs d)"
| "find_name_token (NoChild # cs) d = find_name_token cs d"

section \<open>Buffers of a syntax tree\<close>

text \<open>A tree is given by its buffers; a null tree is \<open>None\<close>.\<close>

definition has_valid_buffers :: "source_manager \<Rightarrow> nat list option \<Rightarrow> bool" where
  "has_valid_buffers sm tree =
     (case tree of
        None \<Rightarrow> False
      | Some buffers \<Rightarrow> list_all (\<lambda>b. buffer_valid sm b \<longrightarrow> latest_data sm b) buffers)"

text \<open>
  The buffer of a path: first by the lexical normal forms, then by the canonical paths, which the
  file system gives or fails to.
\<close>

definition find_buffer_for_path ::
    "source_manager \<Rightarrow> (string \<Rightarrow> 'p) \<Rightarrow> (string \<Rightarrow> 'p option) \<Rightarrow> nat list \<Rightarrow> string \<Rightarrow> nat option" where
  "find_buffer_for_path sm lexical canonical buffers path =
     (case List.find (\<lambda>b. buffer_valid sm b \<and> lexical (full_path sm b) = lexical path) buffers of
        Some b \<Rightarrow> Some b
      | None \<Rightarrow>
          (case canonical path of
             None \<Rightarrow> None
           | Some c \<Rightarrow>
               List.find (\<lambda>b. buffer_valid sm b \<and> canonical (full_path sm b) = Some c) buffers))"

section \<open>Properties\<close>

fun tokens_in_order :: "syntax_child list \<Rightarrow> name_token list" where
  "tokens_in_order [] = []"
| "tokens_in_order (TokenChild t # cs) = t # tokens_in_order cs"
| "tokens_in_order (NodeChild ds # cs) = tokens_in_order ds @ tokens_in_order cs"
| "tokens_in_order (NoChild # cs) = tokens_in_order cs"

lemma find_name_token_first:
  "find_name_token cs d = List.find (\<lambda>t. token_data t = d) (tokens_in_order cs)"
proof (induction cs d rule: find_name_token.induct)
  case (3 ds cs d)
  have "List.find P (xs @ ys) = (case List.find P xs of Some x \<Rightarrow> Some x | None \<Rightarrow> List.find P ys)"
    for P and xs ys :: "name_token list"
    by (induction xs) auto
  then show ?case using 3 by (auto split: option.splits)
qed auto

text \<open>
  A location in a buffer survives the trip to the editor: when the library numbers lines
  and columns from one, within 32 bits, and finds a location by its line and column, the position
  of a location that is not in a macro leads back to it.
\<close>

lemma position_roundtrip:
  assumes "expanded_loc sm loc = loc"
    and "location_at sm (loc_buffer loc) (raw_line_number sm loc) (column_number sm loc) = Some loc"
    and "0 < raw_line_number sm loc" and "raw_line_number sm loc < 2 ^ 32"
    and "0 < column_number sm loc" and "column_number sm loc < 2 ^ 32"
  shows "to_source_location sm (loc_buffer loc) (to_position sm loc) = Some loc"
proof -
  have l: "word_of_int (int (raw_line_number sm loc) - 1) + (1 :: 32 word)
      = word_of_nat (raw_line_number sm loc)"
    by (simp add: of_nat_diff)
  have c: "word_of_nat (column_number sm loc - 1) + (1 :: 32 word)
      = word_of_nat (column_number sm loc)"
    using assms(5) by (simp add: of_nat_diff Suc_leI)
  have "unat (word_of_nat (raw_line_number sm loc) :: 32 word) = raw_line_number sm loc"
    and "unat (word_of_nat (column_number sm loc) :: 32 word) = column_number sm loc"
    using assms(4,6) by (simp_all add: unat_of_nat take_bit_nat_eq_self)
  with l c show ?thesis using assms(1,2,5)
    by (simp add: to_source_location_def to_position_def Let_def)
qed

text \<open>A source manager without macros: one file of lines of ten characters.\<close>

definition flat_manager :: source_manager where
  "flat_manager =
     \<lparr>expanded_loc = id, expanded_range = id, original_loc = id, original_range = id,
      raw_line_number = (\<lambda>l. loc_offset l div 10 + 1),
      line_number = (\<lambda>l. loc_offset l div 10 + 1), column_number = (\<lambda>l. loc_offset l mod 10 + 1),
      location_at = (\<lambda>b l c. Some \<lparr>loc_buffer = b, loc_offset = 10 * (l - 1) + (c - 1)\<rparr>),
      full_path = (\<lambda>b. ''/f.sv''), macro_name = (\<lambda>l. []),
      no_location = \<lparr>loc_buffer = 0, loc_offset = 0\<rparr>,
      loc_before = (\<lambda>a b. loc_offset a < loc_offset b), buffer_valid = (\<lambda>b. True),
      latest_data = (\<lambda>b. True)\<rparr>"

lemma position_roundtrip_witness:
  "to_source_location flat_manager 1 (to_position flat_manager \<lparr>loc_buffer = 1, loc_offset = 37\<rparr>)
     = Some \<lparr>loc_buffer = 1, loc_offset = 37\<rparr>"
  using position_roundtrip [of flat_manager "\<lparr>loc_buffer = 1, loc_offset = 37\<rparr>"]
  by (simp add: flat_manager_def)

end
