(* ===== verification/DiagClient.thy ===== *)
theory DiagClient
  imports Converters "HOL-Library.AList"
begin

text \<open>
  The diagnostics client, \<^verbatim>\<open>ServerDiagClient.cpp\<close>: how a diagnostic of the engine becomes
  an LSP diagnostic, and the bookkeeping of which documents have diagnostics the editor has not
  seen. The diagnostic engine is a parameter. The editor is a log of what it was sent.
\<close>

section \<open>Diagnostics of the engine\<close>

datatype engine_severity = IgnoredSeverity | NoteSeverity | WarningSeverity | ErrorSeverity | FatalSeverity

datatype lsp_severity = LspError | LspWarning | LspInformation | LspHint

fun convert_severity :: "engine_severity \<Rightarrow> lsp_severity" where
  "convert_severity IgnoredSeverity = LspHint"
| "convert_severity NoteSeverity = LspInformation"
| "convert_severity WarningSeverity = LspWarning"
| "convert_severity ErrorSeverity = LspError"
| "convert_severity FatalSeverity = LspError"

text \<open>The codes the client names; those of unused things belong to the analysis subsystem.\<close>

datatype diag_code =
    NoTopModules | CommandLineWarning | CommandLineError
  | UnusedArgument | UnusedAssertionDecl | UnusedDefinition | UnusedGenvar | UnusedImplicitNet
  | UnusedImport | UnusedNet | UnusedParameter | UnusedPort | UnusedTypeParameter | UnusedTypedef
  | UnusedVariable | UnusedWildcardImport
  | OtherCode nat nat

fun is_unused_code :: "diag_code \<Rightarrow> bool" where
  "is_unused_code NoTopModules = False"
| "is_unused_code CommandLineWarning = False"
| "is_unused_code CommandLineError = False"
| "is_unused_code (OtherCode s c) = False"
| "is_unused_code _ = True"

record engine_note =
  note_location :: source_loc
  note_shown_without_location :: bool
  note_message :: string

record engine_diag =
  engine_code :: diag_code
  engine_severity :: engine_severity
  engine_location :: source_loc
  engine_ranges :: "source_range list"
  expansion_locs :: "source_loc list"
  formatted_message :: string
  engine_notes :: "engine_note list"

record diag_engine =
  map_source_ranges :: "source_loc \<Rightarrow> source_range list \<Rightarrow> source_range list"
  option_name :: "diag_code \<Rightarrow> string"

section \<open>Diagnostics of the editor\<close>

record related_information =
  related_location :: lsp_location
  related_message :: string

record diagnostic =
  diag_range :: lsp_range
  diag_severity :: lsp_severity
  diag_message :: string
  diag_related :: "related_information list option"
  diag_code_name :: "string option"
  diag_href :: "string option"
  diag_unnecessary :: bool

datatype client_event =
    PublishDiagnostics string "diagnostic list"
  | ShowWarning string
  | ShowError string

record diag_client =
  diagnostics :: "(string \<times> diagnostic list) list"
  dirty_uris :: "string list"
  client_log :: "client_event list"

definition new_client :: diag_client where
  "new_client = \<lparr>diagnostics = [], dirty_uris = [], client_log = []\<rparr>"

definition send :: "client_event \<Rightarrow> diag_client \<Rightarrow> diag_client" where
  "send e c = c\<lparr>client_log := client_log c @ [e]\<rparr>"

section \<open>Locations\<close>

definition loc_min :: "source_manager \<Rightarrow> source_loc \<Rightarrow> source_loc \<Rightarrow> source_loc" where
  "loc_min sm a b = (if loc_before sm b a then b else a)"

definition loc_max :: "source_manager \<Rightarrow> source_loc \<Rightarrow> source_loc \<Rightarrow> source_loc" where
  "loc_max sm a b = (if loc_before sm a b then b else a)"

fun collapse_ranges :: "source_manager \<Rightarrow> source_range \<Rightarrow> source_range list \<Rightarrow> source_range" where
  "collapse_ranges sm whole [] = whole"
| "collapse_ranges sm whole (r # rs) =
     collapse_ranges sm
       (if loc_buffer (fst r) \<noteq> loc_buffer (fst whole) then whole
        else (loc_min sm (fst whole) (fst r), loc_max sm (snd whole) (snd r))) rs"

definition diag_location ::
    "source_manager \<Rightarrow> source_loc \<Rightarrow> source_range list \<Rightarrow> lsp_location option" where
  "diag_location sm loc ranges =
     (let has_location = (loc_buffer loc \<noteq> loc_buffer (no_location sm))
      in case ranges of
           [] \<Rightarrow> if has_location then Some (loc_to_location sm loc) else None
         | r # rs \<Rightarrow>
             let whole = collapse_ranges sm r rs;
                 whole = (if has_location \<and> loc_buffer loc = loc_buffer (fst whole)
                          then (loc_min sm (fst whole) loc, loc_max sm (snd whole) loc)
                          else whole)
             in Some (range_to_location sm whole))"

section \<open>Reporting\<close>

definition expansion_related ::
    "source_manager \<Rightarrow> diag_engine \<Rightarrow> engine_diag \<Rightarrow> related_information list" where
  "expansion_related sm eng d =
     concat (List.map (\<lambda>loc.
       case diag_location sm (original_loc sm loc) (map_source_ranges eng loc (engine_ranges d)) of
         None \<Rightarrow> []
       | Some l \<Rightarrow> [\<lparr>related_location = l, related_message = formatted_message d\<rparr>])
       (rev (expansion_locs d)))"

fun note_related ::
    "source_manager \<Rightarrow> lsp_location \<Rightarrow> engine_note list \<Rightarrow> related_information list" where
  "note_related sm main [] = []"
| "note_related sm main (n # ns) =
     (if note_location n = no_location sm then
        (if note_shown_without_location n
         then [\<lparr>related_location = main, related_message = note_message n\<rparr>] else [])
      else [\<lparr>related_location = loc_to_location sm (note_location n),
             related_message = note_message n\<rparr>])
     @ note_related sm main ns"

definition diags_of :: "diag_client \<Rightarrow> string \<Rightarrow> diagnostic list" where
  "diags_of c u = (case map_of (diagnostics c) u of None \<Rightarrow> [] | Some ds \<Rightarrow> ds)"

definition push_diag :: "string \<Rightarrow> diagnostic \<Rightarrow> diag_client \<Rightarrow> diag_client" where
  "push_diag u d c = c\<lparr>diagnostics := AList.update u (diags_of c u @ [d]) (diagnostics c)\<rparr>"

text \<open>
  The link of a code is built after the diagnostic is stored, and may throw; the thrown error is
  returned with the state it leaves.
\<close>

definition report ::
    "source_manager \<Rightarrow> diag_engine \<Rightarrow> (char \<Rightarrow> bool) \<Rightarrow> engine_diag \<Rightarrow> diag_client \<Rightarrow>
     diag_client \<times> cpp_error option" where
  "report sm eng dot d c =
     (if engine_code d = NoTopModules then (c, None)
      else if engine_severity d = NoteSeverity then (c, None)
      else if engine_code d = CommandLineWarning then (send (ShowWarning (formatted_message d)) c, None)
      else if engine_code d = CommandLineError then (send (ShowError (formatted_message d)) c, None)
      else
        case diag_location sm (engine_location d)
               (map_source_ranges eng (engine_location d) (engine_ranges d)) of
          None \<Rightarrow> (c, None)
        | Some main \<Rightarrow>
            let u = location_uri main;
                related = expansion_related sm eng d @ note_related sm main (engine_notes d);
                c = c\<lparr>dirty_uris := list_emplace u (dirty_uris c)\<rparr>;
                diag = \<lparr>diag_range = location_range main,
                        diag_severity = convert_severity (engine_severity d),
                        diag_message = formatted_message d,
                        diag_related = (if related = [] then None else Some related),
                        diag_code_name = None, diag_href = None, diag_unnecessary = False\<rparr>;
                opt = option_name eng (engine_code d)
            in if opt = [] then (push_diag u diag c, None)
               else
                 let diag = diag\<lparr>diag_code_name := Some opt\<rparr>
                 in case from_web dot (''sv-lang.com/warning-ref.html#'' @ opt) of
                      Inl e \<Rightarrow> (push_diag u diag c, Some e)
                    | Inr link \<Rightarrow>
                        (push_diag u (diag\<lparr>diag_href := Some (uri_str link),
                           diag_unnecessary := is_unused_code (engine_code d)\<rparr>) c, None))"

section \<open>Publishing\<close>

definition clear_uri :: "string \<Rightarrow> diag_client \<Rightarrow> diag_client" where
  "clear_uri u c =
     c\<lparr>diagnostics := AList.delete u (diagnostics c), dirty_uris := list_emplace u (dirty_uris c)\<rparr>"

definition clear_and_push :: "diag_client \<Rightarrow> diag_client" where
  "clear_and_push c =
     (let c = fold (\<lambda>u. send (PublishDiagnostics u [])) (List.map fst (diagnostics c)) c;
          c = fold (\<lambda>u. send (PublishDiagnostics u [])) (dirty_uris c) c
      in c\<lparr>diagnostics := [], dirty_uris := []\<rparr>)"

definition clear_all :: "diag_client \<Rightarrow> diag_client" where
  "clear_all c =
     c\<lparr>dirty_uris := fold list_emplace (List.map fst (diagnostics c)) (dirty_uris c),
       diagnostics := []\<rparr>"

definition push_diags :: "diag_client \<Rightarrow> diag_client" where
  "push_diags c =
     (fold (\<lambda>u. send (PublishDiagnostics u (diags_of c u))) (dirty_uris c) c)\<lparr>dirty_uris := []\<rparr>"

definition push_diags_first :: "string \<Rightarrow> diag_client \<Rightarrow> diag_client" where
  "push_diags_first u c =
     (let c = (if map_of (diagnostics c) u \<noteq> None then send (PublishDiagnostics u (diags_of c u)) c
               else if u \<in> set (dirty_uris c) then send (PublishDiagnostics u []) c
               else c)
      in push_diags (c\<lparr>dirty_uris := removeAll u (dirty_uris c)\<rparr>))"


section \<open>What the editor sees\<close>

text \<open>
  A publisher delivers the diagnostics of documents; a later delivery for a document replaces an
  earlier one.
\<close>

locale publisher =
  fixes seen :: "'c \<Rightarrow> 'u \<Rightarrow> 'd list" and publish :: "'u \<Rightarrow> 'd list \<Rightarrow> 'c \<Rightarrow> 'c"
  assumes seen_publish: "seen (publish u ds c) v = (if v = u then ds else seen c v)"
begin

lemma seen_publish_all:
  "seen (fold (\<lambda>u. publish u (f u)) us c) v = (if v \<in> set us then f v else seen c v)"
  by (induction us arbitrary: c) (auto simp: seen_publish)

end

fun see :: "client_event \<Rightarrow> (string \<Rightarrow> diagnostic list) \<Rightarrow> string \<Rightarrow> diagnostic list" where
  "see (PublishDiagnostics u ds) m = m(u := ds)"
| "see (ShowWarning w) m = m"
| "see (ShowError e) m = m"

definition shown :: "diag_client \<Rightarrow> string \<Rightarrow> diagnostic list" where
  "shown c = fold see (client_log c) (\<lambda>u. [])"

lemma shown_send [simp]: "shown (send e c) = see e (shown c)"
  by (simp add: shown_def send_def)

lemma shown_update [simp]:
  "shown (c\<lparr>diagnostics := d\<rparr>) = shown c" "shown (c\<lparr>dirty_uris := u\<rparr>) = shown c"
  by (simp_all add: shown_def)

interpretation editor: publisher shown "\<lambda>u ds. send (PublishDiagnostics u ds)"
  by unfold_locales simp

lemma send_simps [simp]:
  "diagnostics (send e c) = diagnostics c" "dirty_uris (send e c) = dirty_uris c"
  "diags_of (send e c) u = diags_of c u"
  by (simp_all add: send_def diags_of_def)

lemma fold_send_simps [simp]:
  "diagnostics (fold (\<lambda>u. send (f u)) us c) = diagnostics c"
  "dirty_uris (fold (\<lambda>u. send (f u)) us c) = dirty_uris c"
  by (induction us arbitrary: c) simp_all

text \<open>Only dirty documents differ from what the editor shows.\<close>

definition in_sync :: "diag_client \<Rightarrow> bool" where
  "in_sync c \<longleftrightarrow> (\<forall>u. u \<notin> set (dirty_uris c) \<longrightarrow> shown c u = diags_of c u)"

lemma in_sync_new: "in_sync new_client"
  by (simp add: in_sync_def new_client_def shown_def diags_of_def)

lemma shown_push_diag [simp]: "shown (push_diag u d c) = shown c"
  by (simp add: push_diag_def)

lemma diags_of_push_diag:
  "diags_of (push_diag u d c) v = (if v = u then diags_of c u @ [d] else diags_of c v)"
  by (simp add: push_diag_def diags_of_def AList.update_conv')

lemma dirty_push_diag [simp]: "dirty_uris (push_diag u d c) = dirty_uris c"
  by (simp add: push_diag_def)

lemma in_sync_send:
  "\<forall>u ds. e \<noteq> PublishDiagnostics u ds \<Longrightarrow> in_sync (send e c) = in_sync c"
  by (cases e) (simp_all add: in_sync_def)

lemma in_sync_push_diag:
  "in_sync c \<Longrightarrow> in_sync (push_diag u d (c\<lparr>dirty_uris := list_emplace u (dirty_uris c)\<rparr>))"
  by (simp add: in_sync_def diags_of_push_diag) (simp add: diags_of_def)

lemma in_sync_report:
  assumes "in_sync c"
  shows "in_sync (fst (report sm eng dot d c))"
  using assms
  by (simp add: report_def in_sync_push_diag in_sync_send Let_def split: option.split sum.split)

lemma in_sync_clear_uri: "in_sync c \<Longrightarrow> in_sync (clear_uri u c)"
  by (auto simp: in_sync_def clear_uri_def diags_of_def AList.delete_conv')

lemma set_fold_list_emplace: "set (fold list_emplace xs ys) = set xs \<union> set ys"
  by (induction xs arbitrary: ys) auto

lemma diags_of_none: "u \<notin> set (List.map fst (diagnostics c)) \<Longrightarrow> diags_of c u = []"
  by (auto simp: diags_of_def split: option.split dest: map_of_SomeD) (force dest: map_of_SomeD)

lemma in_sync_clear_all: "in_sync c \<Longrightarrow> in_sync (clear_all c)"
  using diags_of_none [of _ c]
  by (auto simp: in_sync_def clear_all_def set_fold_list_emplace) (simp add: diags_of_def)

lemma push_diags_shown: "in_sync c \<Longrightarrow> shown (push_diags c) u = diags_of c u"
  using editor.seen_publish_all [of "diags_of c" "dirty_uris c" c u]
  by (auto simp: push_diags_def in_sync_def)

lemma push_diags_simps [simp]:
  "diagnostics (push_diags c) = diagnostics c" "dirty_uris (push_diags c) = []"
  "diags_of (push_diags c) u = diags_of c u"
  by (simp_all add: push_diags_def diags_of_def)

lemma push_diags_first_simps [simp]:
  "diagnostics (push_diags_first u c) = diagnostics c" "dirty_uris (push_diags_first u c) = []"
  by (simp_all add: push_diags_first_def Let_def)

lemma push_diags_first_shown:
  assumes "in_sync c"
  shows "shown (push_diags_first u c) v = diags_of c v"
proof -
  define c' where "c' = (if map_of (diagnostics c) u \<noteq> None then send (PublishDiagnostics u (diags_of c u)) c
            else if u \<in> set (dirty_uris c) then send (PublishDiagnostics u []) c else c)"
  have c': "dirty_uris c' = dirty_uris c" "diags_of c' w = diags_of c w"
    "shown c' w = (if w = u \<and> (map_of (diagnostics c) u \<noteq> None \<or> u \<in> set (dirty_uris c))
       then diags_of c u else shown c w)" for w
    by (auto simp: c'_def diags_of_def)
  have d: "diags_of (c'\<lparr>dirty_uris := x\<rparr>) w = diags_of c w" for x w
    using c'(2) by (simp add: diags_of_def)
  have "in_sync (c'\<lparr>dirty_uris := removeAll u (dirty_uris c)\<rparr>)"
    using assms unfolding in_sync_def shown_update d by (auto simp: c')
  from push_diags_shown [OF this, of v] show ?thesis
    by (simp only: push_diags_first_def Let_def d c'(1) flip: c'_def)
qed

lemma clear_and_push_shown:
  assumes "in_sync c"
  shows "shown (clear_and_push c) u = []"
  using assms diags_of_none [of u c]
    editor.seen_publish_all [of "\<lambda>_. []" "dirty_uris c"]
    editor.seen_publish_all [of "\<lambda>_. []" "List.map fst (diagnostics c)"]
  by (auto simp: clear_and_push_def Let_def in_sync_def)


section \<open>The theorems\<close>

datatype diag_operation =
    Report engine_diag
  | ClearUri string
  | ClearAll
  | ClearAndPush
  | PushDiags
  | PushDiagsFirst string

fun diag_step ::
    "source_manager \<Rightarrow> diag_engine \<Rightarrow> (char \<Rightarrow> bool) \<Rightarrow> diag_operation \<Rightarrow> diag_client \<Rightarrow> diag_client" where
  "diag_step sm eng dot (Report d) c = fst (report sm eng dot d c)"
| "diag_step sm eng dot (ClearUri u) c = clear_uri u c"
| "diag_step sm eng dot ClearAll c = clear_all c"
| "diag_step sm eng dot ClearAndPush c = clear_and_push c"
| "diag_step sm eng dot PushDiags c = push_diags c"
| "diag_step sm eng dot (PushDiagsFirst u) c = push_diags_first u c"

definition diag_run ::
    "source_manager \<Rightarrow> diag_engine \<Rightarrow> (char \<Rightarrow> bool) \<Rightarrow> diag_operation list \<Rightarrow> diag_client" where
  "diag_run sm eng dot ops = fold (diag_step sm eng dot) ops new_client"

lemma in_sync_step: "in_sync c \<Longrightarrow> in_sync (diag_step sm eng dot op c)"
proof (cases op)
  case (PushDiagsFirst u)
  assume "in_sync c"
  then show ?thesis using PushDiagsFirst push_diags_first_shown [of c u]
    by (simp add: in_sync_def [of "push_diags_first u c"]) (simp add: diags_of_def)
next
  case ClearAndPush
  assume "in_sync c"
  then show ?thesis using ClearAndPush clear_and_push_shown [of c]
    by (simp add: in_sync_def [of "clear_and_push c"])
       (simp add: clear_and_push_def Let_def diags_of_def)
next
  case PushDiags
  assume "in_sync c"
  then show ?thesis using PushDiags push_diags_shown [of c]
    by (simp add: in_sync_def [of "push_diags c"])
qed (simp_all add: in_sync_report in_sync_clear_uri in_sync_clear_all)

lemma in_sync_run: "in_sync (diag_run sm eng dot ops)"
proof -
  have "in_sync c \<Longrightarrow> in_sync (fold (diag_step sm eng dot) ops c)" for c
    by (induction ops arbitrary: c) (simp_all add: in_sync_step)
  then show ?thesis by (simp add: diag_run_def in_sync_new)
qed

text \<open>
  C9: Whatever has been reported, cleared and pushed, in any order, the editor shows for every
  document the diagnostics the client has for it, except for the documents marked dirty; after a
  push, with a priority document or without, it shows exactly them; and after clear-and-push
  nothing is shown.
\<close>

theorem editor_shows_diagnostics:
  "(let c = diag_run sm eng dot ops in
     list_all (\<lambda>u. shown c u = diags_of c u) (filter (\<lambda>u. u \<notin> set (dirty_uris c)) us)
     \<and> shown (push_diags c) u = diags_of c u
     \<and> shown (push_diags_first v c) u = diags_of c u
     \<and> shown (clear_and_push c) u = [])"
  using in_sync_run [of sm eng dot ops]
  by (simp add: Let_def push_diags_shown push_diags_first_shown clear_and_push_shown)
     (simp add: list_all_iff in_sync_def)

lemma collapse_ranges_bounds:
  assumes "\<And>a c. loc_buffer a = loc_buffer c \<Longrightarrow> loc_before sm a c = (loc_offset a < loc_offset c)"
    and "list_all (\<lambda>r. loc_buffer (fst r) = b \<and> loc_buffer (snd r) = b) (w # rs)"
  shows "loc_buffer (fst (collapse_ranges sm w rs)) = b \<and> loc_buffer (snd (collapse_ranges sm w rs)) = b
    \<and> loc_offset (fst (collapse_ranges sm w rs)) = Min ((loc_offset \<circ> fst) ` set (w # rs))
    \<and> loc_offset (snd (collapse_ranges sm w rs)) = Max ((loc_offset \<circ> snd) ` set (w # rs))"
  using assms(2)
proof (induction rs arbitrary: w)
  case (Cons r rs)
  let ?w = "(loc_min sm (fst w) (fst r), loc_max sm (snd w) (snd r))"
  have "loc_offset (fst ?w) = min (loc_offset (fst w)) (loc_offset (fst r))"
    and "loc_offset (snd ?w) = max (loc_offset (snd w)) (loc_offset (snd r))"
    and b: "loc_buffer (fst ?w) = b" "loc_buffer (snd ?w) = b"
    using Cons.prems assms(1) by (auto simp: loc_min_def loc_max_def)
  moreover have "list_all (\<lambda>r. loc_buffer (fst r) = b \<and> loc_buffer (snd r) = b) (?w # rs)"
    using Cons.prems b by simp
  ultimately show ?case using Cons.IH [of ?w] Cons.prems
    by (cases rs) (simp_all add: min.assoc max.assoc)
qed simp

text \<open>
  The range of a published diagnostic is the smallest that covers the location and every
  range of the engine's diagnostic, when they are in one buffer and the library orders the
  locations of a buffer by offset.
\<close>

lemma diag_location_covers:
  assumes "\<And>a c. loc_buffer a = loc_buffer c \<Longrightarrow> loc_before sm a c = (loc_offset a < loc_offset c)"
    and "list_all (\<lambda>r. loc_buffer (fst r) = b \<and> loc_buffer (snd r) = b) ranges" and "ranges \<noteq> []"
    and "loc_buffer loc = b" and "b \<noteq> loc_buffer (no_location sm)"
  shows "\<exists>s e. diag_location sm loc ranges = Some (range_to_location sm (s, e))
    \<and> loc_buffer s = b \<and> loc_buffer e = b
    \<and> loc_offset s = Min (insert (loc_offset loc) ((loc_offset \<circ> fst) ` set ranges))
    \<and> loc_offset e = Max (insert (loc_offset loc) ((loc_offset \<circ> snd) ` set ranges))"
proof -
  obtain r rs where r: "ranges = r # rs" using assms(3) by (cases ranges) auto
  let ?w = "collapse_ranges sm r rs"
  have w: "loc_buffer (fst ?w) = b" "loc_buffer (snd ?w) = b"
    "loc_offset (fst ?w) = Min ((loc_offset \<circ> fst) ` set ranges)"
    "loc_offset (snd ?w) = Max ((loc_offset \<circ> snd) ` set ranges)"
    using collapse_ranges_bounds [OF assms(1), of b r rs] assms(2) r by auto
  have "loc_offset (loc_min sm (fst ?w) loc) = min (loc_offset loc) (loc_offset (fst ?w))"
    and "loc_offset (loc_max sm (snd ?w) loc) = max (loc_offset loc) (loc_offset (snd ?w))"
    and "loc_buffer (loc_min sm (fst ?w) loc) = b" and "loc_buffer (loc_max sm (snd ?w) loc) = b"
    using w(1,2) assms(1,4) by (auto simp: loc_min_def loc_max_def)
  moreover have "diag_location sm loc ranges
      = Some (range_to_location sm (loc_min sm (fst ?w) loc, loc_max sm (snd ?w) loc))"
    using r w(1) assms(4,5) by (simp add: diag_location_def Let_def)
  ultimately show ?thesis using w(3,4) r by (intro exI conjI) (assumption | simp)+
qed

lemma diag_location_covers_witness:
  "\<exists>s e. diag_location flat_manager \<lparr>loc_buffer = 1, loc_offset = 7\<rparr>
      [(\<lparr>loc_buffer = 1, loc_offset = 9\<rparr>, \<lparr>loc_buffer = 1, loc_offset = 12\<rparr>)]
      = Some (range_to_location flat_manager (s, e)) \<and> loc_offset s = 7 \<and> loc_offset e = 12"
  using diag_location_covers [of flat_manager 1
      "[(\<lparr>loc_buffer = 1, loc_offset = 9\<rparr>, \<lparr>loc_buffer = 1, loc_offset = 12\<rparr>)]"
      "\<lparr>loc_buffer = 1, loc_offset = 7\<rparr>"]
  by (auto simp: flat_manager_def)

end
