(* ===== verification/ConfigMerge.thy ===== *)
theory ConfigMerge
  imports Prelude "HOL-Library.AList" "HOL-Library.List_Lexorder"
begin

text \<open>
  Loading the configuration from up to three files, \<^verbatim>\<open>Config::fromFiles\<close>: each file
  that reads well is painted over the defaults, arrays are appended, and the flags have a
  precedence of their own. The JSON library is a parameter: whether a text reads as a
  configuration, the generic value it has, and the configuration of a merged object.
\<close>

section \<open>Values\<close>

datatype json =
    JsonNull
  | JsonBool bool
  | JsonInt int
  | JsonString string
  | JsonArray "json list"
  | JsonObject "(string \<times> json) list"

type_synonym json_object = "(string \<times> json) list"

definition lookup_field :: "json_object \<Rightarrow> string \<Rightarrow> json" where
  "lookup_field ob k = (case map_of ob k of Some v \<Rightarrow> v | None \<Rightarrow> JsonNull)"

fun to_array :: "json \<Rightarrow> json list option" where
  "to_array (JsonArray vs) = Some vs"
| "to_array _ = None"

fun to_string_value :: "json \<Rightarrow> string option" where
  "to_string_value (JsonString s) = Some s"
| "to_string_value _ = None"

fun to_object :: "json \<Rightarrow> json_object option" where
  "to_object (JsonObject ob) = Some ob"
| "to_object _ = None"

text \<open>
  A configuration: the fields the merge looks at or sets, and the rest. \<open>library\<close> holds what
  the JSON library decides.
\<close>

record 'c config =
  config_builds :: "json list"
  config_build_pattern :: "string option"
  config_flags :: string
  config_flags_by_file :: "(string \<times> string) list"
  config_rest :: 'c

record 'c library =
  schema_error :: "string \<Rightarrow> string option"
  parse_json :: "string \<Rightarrow> string + json"
  from_generic :: "json_object \<Rightarrow> string + 'c config"
  default_object :: json_object
  default_config :: "'c config"

section \<open>Layering\<close>

fun layer_fields :: "json_object \<Rightarrow> json_object \<Rightarrow> json_object result" where
  "layer_fields cfg [] = Inr cfg"
| "layer_fields cfg ((k, v) # fs) =
     (case to_array (lookup_field cfg k) of
        Some arr \<Rightarrow>
          (case to_array v of
             None \<Rightarrow> Inl BadAccess
           | Some new \<Rightarrow> layer_fields (AList.update k (JsonArray (arr @ new)) cfg) fs)
      | None \<Rightarrow> layer_fields (AList.update k v cfg) fs)"

text \<open>
  A file is \<open>None\<close> when it does not exist, else its text; the errors shown to the user are
  collected.
\<close>

record merge_state =
  merged :: json_object
  shown_errors :: "string list"

definition layer_file ::
    "'c library \<Rightarrow> string \<Rightarrow> string option \<Rightarrow> merge_state \<Rightarrow>
     (merge_state \<times> json_object option) result" where
  "layer_file lib path file st =
     (case file of
        None \<Rightarrow> Inr (st, None)
      | Some text \<Rightarrow>
          (case schema_error lib text of
             Some e \<Rightarrow>
               Inr (st\<lparr>shown_errors := shown_errors st @
                       [''Failed to read config from '' @ path @ '': '' @ e]\<rparr>, None)
           | None \<Rightarrow>
               (case parse_json lib text of
                  Inl e \<Rightarrow>
                    Inr (st\<lparr>shown_errors := shown_errors st @
                            [''Failed to read generic config from '' @ path @ '': '' @ e]\<rparr>, None)
                | Inr v \<Rightarrow>
                    (case to_object v of
                       None \<Rightarrow>
                         Inr (st\<lparr>shown_errors := shown_errors st @
                                 [''Failed to convert config from '' @ path @ '' to object'']\<rparr>, None)
                     | Some ob \<Rightarrow>
                         bind_result (layer_fields (merged st) ob)
                           (\<lambda>cfg. Inr (st\<lparr>merged := cfg\<rparr>, Some ob))))))"

definition layer_optional ::
    "'c library \<Rightarrow> (string \<Rightarrow> string option) \<Rightarrow> string option \<Rightarrow> merge_state \<Rightarrow>
     (merge_state \<times> json_object option) result" where
  "layer_optional lib disk conf st =
     (case conf of None \<Rightarrow> Inr (st, None) | Some path \<Rightarrow> layer_file lib path (disk path) st)"

definition has_field :: "json_object option \<Rightarrow> string \<Rightarrow> bool" where
  "has_field ob k = (case ob of None \<Rightarrow> False | Some fs \<Rightarrow> map_of fs k \<noteq> None)"

definition extract_flags :: "json_object option \<Rightarrow> string" where
  "extract_flags ob =
     (case ob of None \<Rightarrow> []
      | Some fs \<Rightarrow> (case to_string_value (lookup_field fs ''flags'') of Some s \<Rightarrow> s | None \<Rightarrow> []))"

fun join_flags :: "(string \<times> string) list \<Rightarrow> string \<Rightarrow> string" where
  "join_flags [] acc = acc"
| "join_flags ((p, f) # fs) acc = join_flags fs ((if acc = [] then [] else acc @ '' '') @ f)"

definition flags_by_file ::
    "string option \<Rightarrow> string option \<Rightarrow> string option \<Rightarrow> string \<Rightarrow> string \<Rightarrow> string \<Rightarrow>
     (string \<times> string) list" where
  "flags_by_file ws user local ws_flags user_flags local_flags =
     (if ws_flags \<noteq> [] then [(the ws, ws_flags)]
      else if user_flags \<noteq> [] then [(the user, user_flags)] else [])
     @ (if local_flags \<noteq> [] then [(the local, local_flags)] else [])"

definition from_files ::
    "'c library \<Rightarrow> (string \<Rightarrow> string option) \<Rightarrow> string option \<Rightarrow> string option \<Rightarrow> string option \<Rightarrow>
     ('c config \<times> string list) result" where
  "from_files lib disk ws user local =
     bind_result (layer_optional lib disk ws \<lparr>merged = default_object lib, shown_errors = []\<rparr>)
       (\<lambda>(st, ws_obj). bind_result (layer_optional lib disk user st)
       (\<lambda>(st, user_obj). bind_result (layer_optional lib disk local st)
       (\<lambda>(st, local_obj).
          case from_generic lib (merged st) of
            Inl e \<Rightarrow>
              Inr (default_config lib,
                   shown_errors st @ [''Failed to convert final config: '' @ e])
          | Inr cfg \<Rightarrow>
              let explicit = (has_field ws_obj ''buildPattern'' \<or> has_field user_obj ''buildPattern''
                              \<or> has_field local_obj ''buildPattern'');
                  cfg = (if \<not> explicit \<and> config_builds cfg = []
                         then cfg\<lparr>config_build_pattern := Some ''**/*.f''\<rparr> else cfg);
                  sources = flags_by_file ws user local (extract_flags ws_obj)
                              (extract_flags user_obj) (extract_flags local_obj)
              in Inr (cfg\<lparr>config_flags_by_file := sources, config_flags := join_flags sources []\<rparr>,
                      shown_errors st))))"

text \<open>The legacy globs, sorted without duplicates, or the default one.\<close>

definition index_globs :: "string list \<Rightarrow> string list" where
  "index_globs globs = (if globs = [] then [''./.../*.sv*''] else remdups_adj (sort globs))"


section \<open>What the merge promises\<close>

text \<open>The object of a file, if there is one that reads well.\<close>

definition file_object ::
    "'c library \<Rightarrow> (string \<Rightarrow> string option) \<Rightarrow> string option \<Rightarrow> json_object option" where
  "file_object lib disk conf =
     Option.bind (Option.bind conf disk)
       (\<lambda>text. if schema_error lib text = None
               then (case parse_json lib text of Inl e \<Rightarrow> None | Inr v \<Rightarrow> to_object v) else None)"

text \<open>A field painted over another: appended to an array, else in its place.\<close>

fun paint :: "json \<Rightarrow> json option \<Rightarrow> json" where
  "paint old None = old"
| "paint (JsonArray a) (Some v) = JsonArray (a @ (case to_array v of Some b \<Rightarrow> b | None \<Rightarrow> []))"
| "paint old (Some v) = v"

definition field_of :: "json_object option \<Rightarrow> string \<Rightarrow> json option" where
  "field_of ob k = Option.bind ob (\<lambda>fs. map_of fs k)"

definition unique_fields :: "json_object option \<Rightarrow> bool" where
  "unique_fields ob = (case ob of None \<Rightarrow> True | Some fs \<Rightarrow> distinct (List.map fst fs))"

lemma lookup_field_update:
  "lookup_field (AList.update k v ob) k' = (if k' = k then v else lookup_field ob k')"
  by (simp add: lookup_field_def AList.update_conv')

lemma paint_cases:
  "paint old (Some v) = (case to_array old of Some a \<Rightarrow>
     JsonArray (a @ (case to_array v of Some b \<Rightarrow> b | None \<Rightarrow> [])) | None \<Rightarrow> v)"
  by (cases old) auto

lemma layer_fields_paint:
  "layer_fields cfg fs = Inr cfg' \<Longrightarrow> distinct (List.map fst fs) \<Longrightarrow>
   lookup_field cfg' k = paint (lookup_field cfg k) (map_of fs k)"
proof (induction cfg fs rule: layer_fields.induct)
  case (2 cfg k' v fs)
  have "map_of fs k' = None" using 2(4) by (simp add: map_of_eq_None_iff)
  then show ?case
    using 2 by (auto simp: lookup_field_update paint_cases split: option.splits)
qed simp

lemma layer_optional_object:
  assumes "layer_optional lib disk conf st = Inr (st', ob)"
  shows "ob = file_object lib disk conf
    \<and> (case ob of None \<Rightarrow> merged st' = merged st | Some fs \<Rightarrow> layer_fields (merged st) fs = Inr (merged st'))"
  using assms
  by (auto simp: layer_optional_def layer_file_def file_object_def bind_result_eq_Inr
      split: option.splits sum.splits)

lemma layer_optional_paint:
  assumes "layer_optional lib disk conf st = Inr (st', ob)" and "unique_fields (file_object lib disk conf)"
  shows "lookup_field (merged st') k =
     paint (lookup_field (merged st) k) (field_of (file_object lib disk conf) k)"
  using layer_optional_object [OF assms(1)] assms(2) layer_fields_paint [of "merged st" _ "merged st'" k]
  by (auto simp: field_of_def unique_fields_def split: option.splits)

definition merged_flags :: "string \<Rightarrow> string \<Rightarrow> string \<Rightarrow> string" where
  "merged_flags ws user local =
     (let base = (if ws \<noteq> [] then ws else user)
      in if base = [] then local else if local = [] then base else base @ '' '' @ local)"

lemma join_flags_by_file:
  "join_flags (flags_by_file a b c ws user local) [] = merged_flags ws user local"
  by (simp add: flags_by_file_def merged_flags_def)

lemma from_files_flags:
  assumes "from_files lib disk ws user local = Inr (cfg, errs)"
  shows "cfg = default_config lib \<or>
    config_flags cfg = merged_flags (extract_flags (file_object lib disk ws))
      (extract_flags (file_object lib disk user)) (extract_flags (file_object lib disk local))"
proof -
  obtain s1 o1 s2 o2 s3 o3 where
    l1: "layer_optional lib disk ws \<lparr>merged = default_object lib, shown_errors = []\<rparr> = Inr (s1, o1)" and
    l2: "layer_optional lib disk user s1 = Inr (s2, o2)" and
    l3: "layer_optional lib disk local s2 = Inr (s3, o3)"
    using assms(1) by (auto simp: from_files_def bind_result_eq_Inr)
  note obs = layer_optional_object [OF l1, THEN conjunct1] layer_optional_object [OF l2, THEN conjunct1]
    layer_optional_object [OF l3, THEN conjunct1]
  show ?thesis using assms l1 l2 l3
    by (auto simp: from_files_def obs Let_def join_flags_by_file split: sum.splits)
qed

text \<open>
  C13: When loading succeeds, the merged object has in every field the defaults painted over by
  the workspace, the user and the local file in this order, arrays appended; and the flags are
  those of the workspace file, or of the user file if it has none, with the local flags after
  them. A file that is missing or does not read is left out. No build pattern and no builds give
  the default pattern.
\<close>

theorem config_merge:
  assumes "from_files lib disk ws user local = Inr (cfg, errs)"
    and "list_all (\<lambda>conf. unique_fields (file_object lib disk conf)) [ws, user, local]"
  shows "\<exists>ob. (\<forall>k. lookup_field ob k =
         paint (paint (paint (lookup_field (default_object lib) k)
           (field_of (file_object lib disk ws) k)) (field_of (file_object lib disk user) k))
           (field_of (file_object lib disk local) k))
    \<and> (case from_generic lib ob of
         Inl e \<Rightarrow> cfg = default_config lib
       | Inr c \<Rightarrow>
           config_flags cfg = merged_flags (extract_flags (file_object lib disk ws))
             (extract_flags (file_object lib disk user)) (extract_flags (file_object lib disk local))
           \<and> config_builds cfg = config_builds c \<and> config_rest cfg = config_rest c
           \<and> config_build_pattern cfg =
               (if config_builds c = [] \<and> \<not> list_ex (\<lambda>f. has_field (file_object lib disk f) ''buildPattern'')
                     [ws, user, local]
                then Some ''**/*.f'' else config_build_pattern c))"
proof -
  obtain s1 o1 s2 o2 s3 o3 where
    l1: "layer_optional lib disk ws \<lparr>merged = default_object lib, shown_errors = []\<rparr> = Inr (s1, o1)" and
    l2: "layer_optional lib disk user s1 = Inr (s2, o2)" and
    l3: "layer_optional lib disk local s2 = Inr (s3, o3)"
    using assms(1) by (auto simp: from_files_def bind_result_eq_Inr)
  note obs = layer_optional_object [OF l1, THEN conjunct1] layer_optional_object [OF l2, THEN conjunct1]
    layer_optional_object [OF l3, THEN conjunct1]
  have "lookup_field (merged s3) k =
         paint (paint (paint (lookup_field (default_object lib) k)
           (field_of (file_object lib disk ws) k)) (field_of (file_object lib disk user) k))
           (field_of (file_object lib disk local) k)" for k
    using layer_optional_paint [OF l1, of k] layer_optional_paint [OF l2, of k]
      layer_optional_paint [OF l3, of k] assms(2) by simp
  moreover have "case from_generic lib (merged s3) of
         Inl e \<Rightarrow> cfg = default_config lib
       | Inr c \<Rightarrow>
           config_flags cfg = merged_flags (extract_flags (file_object lib disk ws))
             (extract_flags (file_object lib disk user)) (extract_flags (file_object lib disk local))
           \<and> config_builds cfg = config_builds c \<and> config_rest cfg = config_rest c
           \<and> config_build_pattern cfg =
               (if config_builds c = [] \<and> \<not> list_ex (\<lambda>f. has_field (file_object lib disk f) ''buildPattern'')
                     [ws, user, local]
                then Some ''**/*.f'' else config_build_pattern c)"
    using assms(1) l1 l2 l3
    by (auto simp: from_files_def obs Let_def join_flags_by_file split: sum.splits)
  ultimately show ?thesis by blast
qed

definition sample_library :: "json_object library" where
  "sample_library =
     \<lparr>schema_error = (\<lambda>t. if t = ''bad'' then Some ''no'' else None),
      parse_json = (\<lambda>t. Inr (if t = ''w'' then JsonObject [(''flags'', JsonString ''-w''), (''index'', JsonArray [JsonInt 1])]
        else if t = ''u'' then JsonObject [(''flags'', JsonString ''-u''), (''build'', JsonString ''x.f'')]
        else JsonObject [(''flags'', JsonString ''-l''), (''index'', JsonArray [JsonInt 2]), (''build'', JsonString ''y.f'')])),
      from_generic = (\<lambda>ob. Inr \<lparr>config_builds = [], config_build_pattern = None, config_flags = [],
        config_flags_by_file = [], config_rest = ob\<rparr>),
      default_object = [(''index'', JsonArray []), (''build'', JsonNull)],
      default_config = \<lparr>config_builds = [], config_build_pattern = None, config_flags = [],
        config_flags_by_file = [], config_rest = []\<rparr>\<rparr>"

definition sample_disk :: "string \<Rightarrow> string option" where
  "sample_disk p = (if p = ''/w'' then Some ''w'' else if p = ''/u'' then Some ''u''
     else if p = ''/l'' then Some ''l'' else None)"

definition sample_result :: "json_object config \<times> string list" where
  "sample_result = projr (from_files sample_library sample_disk (Some ''/w'') (Some ''/u'') (Some ''/l''))"

theorem config_merge_witness:
  "config_flags (fst sample_result) = ''-w -l'' \<and> config_build_pattern (fst sample_result) = Some ''**/*.f''"
proof -
  have 1: "from_files sample_library sample_disk (Some ''/w'') (Some ''/u'') (Some ''/l'')
      = Inr (fst sample_result, snd sample_result)" by code_simp
  have 2: "list_all (\<lambda>conf. unique_fields (file_object sample_library sample_disk conf))
      [Some ''/w'', Some ''/u'', Some ''/l'']" by code_simp
  have 3: "merged_flags (extract_flags (file_object sample_library sample_disk (Some ''/w'')))
      (extract_flags (file_object sample_library sample_disk (Some ''/u'')))
      (extract_flags (file_object sample_library sample_disk (Some ''/l''))) = ''-w -l''" by code_simp
  have 4: "\<not> list_ex (\<lambda>f. has_field (file_object sample_library sample_disk f) ''buildPattern'')
      [Some ''/w'', Some ''/u'', Some ''/l'']" by code_simp
  show ?thesis using config_merge [OF 1 2] 3 4 by (auto simp: sample_library_def)
qed

end
