(* ===== verification/SlangDoc.thy ===== *)
theory SlangDoc
  imports Converters
begin

text \<open>
  Documents, \<^verbatim>\<open>document/SlangDoc.cpp\<close>: how the text of a document follows the changes
  the editor sends, and which diagnostics of its owners an include fragment shows. The library
  computes the line offsets of a text and is a parameter. Text is bytes, the buffer ends with
  the null byte.
\<close>

abbreviation nul :: char where
  "nul \<equiv> CHR 0x00"

section \<open>Changes\<close>

datatype content_change = PartialChange lsp_range string | WholeDocument string

text \<open>
  An exception, or an iterator past the end of the text, whose use C++ leaves undefined.
\<close>

datatype change_failure = Thrown cpp_error | UndefinedBehaviour

definition range_error :: "nat \<Rightarrow> nat \<Rightarrow> nat \<Rightarrow> cpp_error" where
  "range_error a b n =
     RuntimeError (''Range out of bounds: '' @ nat_to_string a @ '','' @ nat_to_string b @ '' / '' @
                   nat_to_string n)"

definition change_offsets ::
    "(string \<Rightarrow> nat list) \<Rightarrow> string \<Rightarrow> lsp_range \<Rightarrow> change_failure + nat \<times> nat" where
  "change_offsets line_offsets text r =
     (let lo = line_offsets text;
          a = unat (line (range_start r)); b = unat (line (range_end r))
      in if a \<ge> length lo \<or> b \<ge> length lo then Inl (Thrown (range_error a b (length lo)))
         else Inr (lo ! a + unat (character (range_start r)), lo ! b + unat (character (range_end r))))"

definition ensure_null_terminated :: "string \<Rightarrow> string" where
  "ensure_null_terminated b = (if b = [] \<or> last b \<noteq> nul then b @ [nul] else b)"

definition apply_first_change ::
    "(string \<Rightarrow> nat list) \<Rightarrow> string \<Rightarrow> content_change \<Rightarrow> change_failure + string" where
  "apply_first_change line_offsets text c =
     (case c of
        WholeDocument t \<Rightarrow> Inr (ensure_null_terminated t)
      | PartialChange r t \<Rightarrow>
          (case change_offsets line_offsets text r of
             Inl e \<Rightarrow> Inl e
           | Inr (a, b) \<Rightarrow>
               if a > length text \<or> b > length text then Inl UndefinedBehaviour
               else Inr (ensure_null_terminated (take a text @ t @ drop b text))))"

text \<open>Later changes are made in place: erase, then insert.\<close>

definition apply_next_change ::
    "(string \<Rightarrow> nat list) \<Rightarrow> string \<Rightarrow> content_change \<Rightarrow> change_failure + string" where
  "apply_next_change line_offsets buf c =
     (case c of
        WholeDocument t \<Rightarrow> Inr (ensure_null_terminated t)
      | PartialChange r t \<Rightarrow>
          (case change_offsets line_offsets buf r of
             Inl e \<Rightarrow> Inl e
           | Inr (a, b) \<Rightarrow>
               if a > length buf \<or> (b > a \<and> b > length buf) then Inl UndefinedBehaviour
               else
                 let buf = (if b > a then take a buf @ drop b buf else buf)
                 in Inr (take a buf @ t @ drop a buf)))"

fun apply_next_changes ::
    "(string \<Rightarrow> nat list) \<Rightarrow> string \<Rightarrow> content_change list \<Rightarrow> change_failure + string" where
  "apply_next_changes line_offsets buf [] = Inr buf"
| "apply_next_changes line_offsets buf (c # cs) =
     (case apply_next_change line_offsets buf c of
        Inl e \<Rightarrow> Inl e
      | Inr buf \<Rightarrow> apply_next_changes line_offsets buf cs)"

record ('t, 'a) slang_doc =
  doc_data :: string
  doc_tree :: "'t option"
  doc_analysis :: "'a option"

text \<open>A failure leaves the document as it was: the buffer is replaced at the end.\<close>

definition on_change ::
    "(string \<Rightarrow> nat list) \<Rightarrow> content_change list \<Rightarrow> ('t, 'a) slang_doc \<Rightarrow>
     change_failure + ('t, 'a) slang_doc" where
  "on_change line_offsets changes doc =
     (case changes of
        [] \<Rightarrow> Inr doc
      | c # cs \<Rightarrow>
          (case apply_first_change line_offsets (doc_data doc) c of
             Inl e \<Rightarrow> Inl e
           | Inr buf \<Rightarrow>
               (case apply_next_changes line_offsets buf cs of
                  Inl e \<Rightarrow> Inl e
                | Inr buf \<Rightarrow>
                    Inr (doc\<lparr>doc_data := buf, doc_tree := None, doc_analysis := None\<rparr>))))"

text \<open>The byte behind the compared text is a null byte wherever the function is called.\<close>

definition text_matches :: "('t, 'a) slang_doc \<Rightarrow> string \<Rightarrow> bool" where
  "text_matches doc text \<longleftrightarrow> length (doc_data doc) = length text + 1 \<and> doc_data doc = text @ [nul]"

definition reload_buffer :: "string option \<Rightarrow> ('t, 'a) slang_doc \<Rightarrow> bool \<times> ('t, 'a) slang_doc" where
  "reload_buffer disk doc =
     (case disk of
        None \<Rightarrow> (False, doc)
      | Some data \<Rightarrow> (True, doc\<lparr>doc_data := data, doc_tree := None, doc_analysis := None\<rparr>))"

section \<open>Diagnostics of an include fragment\<close>

record 'c located_diag =
  located_code :: 'c
  located_at :: source_loc

record 'c dedupe_key =
  key_code :: 'c
  key_line :: nat
  key_col :: nat

definition diag_key :: "source_manager \<Rightarrow> 'c located_diag \<Rightarrow> 'c dedupe_key" where
  "diag_key sm d =
     \<lparr>key_code = located_code d, key_line = line_number sm (located_at d),
      key_col = column_number sm (located_at d)\<rparr>"

definition is_same_problem :: "'c dedupe_key \<Rightarrow> 'c dedupe_key \<Rightarrow> bool" where
  "is_same_problem a b \<longleftrightarrow>
     key_code a = key_code b \<and> key_line a = key_line b \<and> key_col a = key_col b"

text \<open>The state is what was issued and the keys seen.\<close>

definition issue_fragment_diagnostic ::
    "source_manager \<Rightarrow> nat \<Rightarrow> 'c located_diag \<Rightarrow> 'c located_diag list \<times> 'c dedupe_key list \<Rightarrow>
     'c located_diag list \<times> 'c dedupe_key list" where
  "issue_fragment_diagnostic sm buf d st =
     (case st of (issued, seen) \<Rightarrow>
        if loc_buffer (original_loc sm (located_at d)) \<noteq> buf then (issued, seen)
        else if list_ex (\<lambda>k. is_same_problem k (diag_key sm d)) seen then (issued, seen)
        else (issued @ [d], seen @ [diag_key sm d]))"

text \<open>
  An owner: whether it is open in the editor, and the buffer of the fragment in its tree with the
  diagnostics of the tree, its compilation and its analysis; \<open>None\<close> without tree or buffer.
\<close>

record 'c include_owner =
  owner_open :: bool
  owner_view :: "(nat \<times> 'c located_diag list \<times> 'c located_diag list \<times> 'c located_diag list) option"

definition max_fragment_owners :: nat where
  "max_fragment_owners = 8"

definition ordered_owners :: "'c include_owner list \<Rightarrow> 'c include_owner list" where
  "ordered_owners os =
     take max_fragment_owners (filter owner_open os @ filter (\<lambda>x. \<not> owner_open x) os)"

definition issue_owner ::
    "source_manager \<Rightarrow> 'c include_owner \<Rightarrow> 'c located_diag list \<times> 'c dedupe_key list \<Rightarrow>
     'c located_diag list \<times> 'c dedupe_key list" where
  "issue_owner sm ow st =
     (case owner_view ow of
        None \<Rightarrow> st
      | Some (buf, parse, sem, ana) \<Rightarrow>
          fold (issue_fragment_diagnostic sm buf) ana
            (fold (issue_fragment_diagnostic sm buf) sem
              (fold (issue_fragment_diagnostic sm buf) parse st)))"

definition fragment_diagnostics ::
    "source_manager \<Rightarrow> 'c include_owner list \<Rightarrow> 'c located_diag list" where
  "fragment_diagnostics sm os = fst (fold (issue_owner sm) (ordered_owners os) ([], []))"

section \<open>The text follows the editor\<close>

text \<open>
  What the protocol asks, for texts in which a code unit is a byte and lines end with a line feed:
  a position is so many lines down and so many characters into the line, and within the line; a
  range is replaced by the text sent; the changes of a notification are made in turn, each on the
  text the one before left. Nothing of this looks at line offsets.
\<close>

definition plain_char :: "char \<Rightarrow> bool" where
  "plain_char c \<longleftrightarrow> c \<noteq> nul \<and> c \<noteq> CHR 0x0D \<and> (of_char c :: nat) < 128"

fun offset_of :: "nat \<Rightarrow> nat \<Rightarrow> string \<Rightarrow> nat option" where
  "offset_of 0 0 s = Some 0"
| "offset_of 0 (Suc c) [] = None"
| "offset_of 0 (Suc c) (x # s) = (if x = newline then None else map_option Suc (offset_of 0 c s))"
| "offset_of (Suc l) c [] = None"
| "offset_of (Suc l) c (x # s) = map_option Suc (offset_of (if x = newline then l else Suc l) c s)"

definition position_offset :: "position \<Rightarrow> string \<Rightarrow> nat option" where
  "position_offset p text = offset_of (unat (line p)) (unat (character p)) text"

fun edit :: "string \<Rightarrow> content_change \<Rightarrow> string option" where
  "edit text (WholeDocument t) = (if list_all plain_char t then Some t else None)"
| "edit text (PartialChange r t) =
     (case (position_offset (range_start r) text, position_offset (range_end r) text) of
        (Some a, Some b) \<Rightarrow>
          if a \<le> b \<and> list_all plain_char t then Some (take a text @ t @ drop b text) else None
      | _ \<Rightarrow> None)"

fun edits :: "string \<Rightarrow> content_change list \<Rightarrow> string option" where
  "edits text [] = Some text"
| "edits text (c # cs) = Option.bind (edit text c) (\<lambda>text. edits text cs)"

text \<open>
  What the library gives for a text without carriage returns: where it starts, and behind every
  line feed.
\<close>

fun newline_offsets :: "nat \<Rightarrow> string \<Rightarrow> nat list" where
  "newline_offsets n [] = []"
| "newline_offsets n (c # cs) =
     (if c = newline then Suc n # newline_offsets (Suc n) cs else newline_offsets (Suc n) cs)"

definition lines_from_zero :: "string \<Rightarrow> nat list" where
  "lines_from_zero s = 0 # newline_offsets 0 s"

definition finds_lines :: "(string \<Rightarrow> nat list) \<Rightarrow> bool" where
  "finds_lines line_offsets \<longleftrightarrow>
     (\<forall>t. CHR 0x0D \<notin> set t \<longrightarrow> line_offsets t = lines_from_zero t)"

lemma newline_offsets_null: "newline_offsets n (t @ [nul]) = newline_offsets n t"
  by (induction t arbitrary: n) auto

lemma ensure_null_terminated_append: "ensure_null_terminated (t @ [nul]) = t @ [nul]"
  by (simp add: ensure_null_terminated_def)

lemma ensure_null_terminated_plain: "list_all plain_char t \<Longrightarrow> ensure_null_terminated t = t @ [nul]"
  by (auto simp: ensure_null_terminated_def list_all_iff plain_char_def dest: last_in_set)

lemma offset_of_line:
  "offset_of l c s = Some k \<Longrightarrow>
   l < length (n # newline_offsets n s) \<and> (n # newline_offsets n s) ! l + c = n + k \<and> k \<le> length s"
proof (induction l c s arbitrary: n k rule: offset_of.induct)
  case (3 c x s)
  then obtain j where "x \<noteq> newline" "k = Suc j" "offset_of 0 c s = Some j" by (auto split: if_splits)
  then show ?case using 3(1) [of j "Suc n"] by simp
next
  case (5 l c x s)
  then obtain j where j: "k = Suc j" "offset_of (if x = newline then l else Suc l) c s = Some j" by auto
  then show ?case using 5(1) [of j "Suc n"] by (cases "x = newline") (auto simp: nth_Cons')
qed simp_all

lemma change_offsets_edit:
  assumes "finds_lines lo" "list_all plain_char t"
    and "position_offset (range_start r) t = Some a" "position_offset (range_end r) t = Some b"
  shows "change_offsets lo (t @ [nul]) r = Inr (a, b)" "a \<le> length t" "b \<le> length t"
proof -
  have "CHR 0x0D \<notin> set (t @ [nul])" using assms(2) by (auto simp: list_all_iff plain_char_def)
  then have lo: "lo (t @ [nul]) = lines_from_zero t"
    using assms(1) by (simp add: finds_lines_def lines_from_zero_def newline_offsets_null)
  note start = offset_of_line [where n = 0, OF assms(3) [unfolded position_offset_def], folded lines_from_zero_def]
    and stop = offset_of_line [where n = 0, OF assms(4) [unfolded position_offset_def], folded lines_from_zero_def]
  show "a \<le> length t" "b \<le> length t" using start stop by simp_all
  show "change_offsets lo (t @ [nul]) r = Inr (a, b)"
    using start stop by (simp add: change_offsets_def lo Let_def)
qed

lemma edit_partial:
  assumes "edit t (PartialChange r x) = Some t'"
  obtains a b where "position_offset (range_start r) t = Some a" "position_offset (range_end r) t = Some b"
    "a \<le> b" "t' = take a t @ x @ drop b t"
  using assms by (auto split: if_splits option.splits)

lemma list_all_take: "list_all P t \<Longrightarrow> list_all P (take n t)"
  by (induction t arbitrary: n) (auto simp: take_Cons' split: if_splits)

lemma list_all_drop: "list_all P t \<Longrightarrow> list_all P (drop n t)"
  by (induction t arbitrary: n) (auto simp: drop_Cons')

lemma edit_plain:
  assumes "list_all plain_char t" and "edit t c = Some t'"
  shows "list_all plain_char t'"
proof (cases c)
  case (PartialChange r x)
  with assms(2) obtain a b where "t' = take a t @ x @ drop b t" "list_all plain_char x"
    by (auto split: if_splits option.splits)
  then show ?thesis by (simp add: list_all_take [OF assms(1)] list_all_drop [OF assms(1)])
qed (use assms in \<open>auto split: if_splits\<close>)

lemma apply_first_change_edit:
  assumes "finds_lines lo" and "list_all plain_char t" and "edit t c = Some t'"
  shows "apply_first_change lo (t @ [nul]) c = Inr (t' @ [nul])"
proof (cases c)
  case (PartialChange r x)
  from assms(3) [unfolded PartialChange] obtain a b where ab: "position_offset (range_start r) t = Some a"
    "position_offset (range_end r) t = Some b" "a \<le> b" "t' = take a t @ x @ drop b t" by (rule edit_partial)
  show ?thesis
    using PartialChange ab(3,4) change_offsets_edit [OF assms(1,2) ab(1,2)] ensure_null_terminated_append [of t']
    by (simp add: apply_first_change_def)
qed (use assms in \<open>auto simp: apply_first_change_def ensure_null_terminated_plain split: if_splits\<close>)

lemma apply_next_change_edit:
  assumes "finds_lines lo" and "list_all plain_char t" and "edit t c = Some t'"
  shows "apply_next_change lo (t @ [nul]) c = Inr (t' @ [nul])"
proof (cases c)
  case (PartialChange r x)
  from assms(3) [unfolded PartialChange] obtain a b where ab: "position_offset (range_start r) t = Some a"
    "position_offset (range_end r) t = Some b" "a \<le> b" "t' = take a t @ x @ drop b t" by (rule edit_partial)
  show ?thesis
    using PartialChange ab(3,4) change_offsets_edit [OF assms(1,2) ab(1,2)]
    by (cases "a = b") (auto simp: apply_next_change_def Let_def)
qed (use assms in \<open>auto simp: apply_next_change_def ensure_null_terminated_plain split: if_splits\<close>)

lemma apply_next_changes_edits:
  "finds_lines lo \<Longrightarrow> list_all plain_char t \<Longrightarrow> edits t cs = Some t' \<Longrightarrow>
   apply_next_changes lo (t @ [nul]) cs = Inr (t' @ [nul])"
proof (induction cs arbitrary: t)
  case (Cons c cs)
  then obtain u where "edit t c = Some u" "edits u cs = Some t'"
    by (auto simp: Option.bind_eq_Some_conv)
  then show ?case using Cons.IH [OF Cons.prems(1)] Cons.prems
    by (simp add: apply_next_change_edit edit_plain)
qed simp

text \<open>
  C8: The document mirrors the editor. For texts of plain characters, single bytes other than null
  and carriage return, and changes whose positions lie within the lines they name, the document
  holds afterwards the text the protocol prescribes, reckoned by counting lines and characters, each
  change applied to the text left by the one before; its tree and analysis are dropped, and only
  an empty notification leaves it alone. The library's line offsets are those of the line starts.
\<close>

theorem document_mirrors_editor:
  assumes "finds_lines line_offsets" and "doc_data doc = text @ [nul]" and "list_all plain_char text"
    and "edits text changes = Some text'"
  shows "\<exists>doc'. on_change line_offsets changes doc = Inr doc' \<and> text_matches doc' text'
    \<and> (if changes = [] then doc' = doc else doc_tree doc' = None \<and> doc_analysis doc' = None)"
proof (cases changes)
  case Nil
  then show ?thesis using assms by (simp add: on_change_def text_matches_def)
next
  case (Cons c cs)
  then obtain u where u: "edit text c = Some u" "edits u cs = Some text'"
    using assms(4) by (auto simp: Option.bind_eq_Some_conv)
  have "apply_next_changes line_offsets (u @ [nul]) cs = Inr (text' @ [nul])"
    using apply_next_changes_edits [OF assms(1) edit_plain [OF assms(3) u(1)] u(2)] .
  then show ?thesis
    using Cons apply_first_change_edit [OF assms(1,3) u(1)] assms(2)
    by (simp add: on_change_def text_matches_def)
qed

definition sample_changes :: "content_change list" where
  "sample_changes =
     [PartialChange \<lparr>range_start = \<lparr>line = 1, character = 0\<rparr>, range_end = \<lparr>line = 1, character = 1\<rparr>\<rparr> ''xy'',
      PartialChange \<lparr>range_start = \<lparr>line = 0, character = 1\<rparr>, range_end = \<lparr>line = 1, character = 0\<rparr>\<rparr> '';'']"

theorem document_mirrors_editor_witness:
  "\<exists>doc'. on_change lines_from_zero sample_changes
      (\<lparr>doc_data = [CHR ''a'', newline, CHR ''b'', nul], doc_tree = Some (), doc_analysis = Some ()\<rparr>)
      = Inr doc' \<and> text_matches doc' ''a;xy'' \<and> doc_tree doc' = None"
proof -
  have "finds_lines lines_from_zero" by (simp add: finds_lines_def)
  moreover have "list_all plain_char [CHR ''a'', newline, CHR ''b'']" by code_simp
  moreover have "edits [CHR ''a'', newline, CHR ''b''] sample_changes = Some ''a;xy''"
    by code_simp
  moreover have "sample_changes \<noteq> []" by (simp add: sample_changes_def)
  ultimately show ?thesis
    using document_mirrors_editor [of lines_from_zero
        "\<lparr>doc_data = [CHR ''a'', newline, CHR ''b'', nul], doc_tree = Some (), doc_analysis = Some ()\<rparr>"
        "[CHR ''a'', newline, CHR ''b'']" sample_changes "''a;xy''"]
    by auto
qed

section \<open>The union over the owners\<close>

lemma is_same_problem_eq: "is_same_problem a b \<longleftrightarrow> (a :: 'c dedupe_key) = b"
  by (cases a; cases b) (simp add: is_same_problem_def)

definition in_fragment :: "source_manager \<Rightarrow> nat \<Rightarrow> 'c located_diag \<Rightarrow> bool" where
  "in_fragment sm buf d \<longleftrightarrow> loc_buffer (original_loc sm (located_at d)) = buf"

definition owner_problems :: "source_manager \<Rightarrow> 'c include_owner \<Rightarrow> 'c located_diag list" where
  "owner_problems sm ow =
     (case owner_view ow of
        None \<Rightarrow> []
      | Some (buf, parse, sem, ana) \<Rightarrow> filter (in_fragment sm buf) (parse @ sem @ ana))"

text \<open>What issuing a list of diagnostics keeps: keys seen are keys issued, each once.\<close>

definition issued_state :: "source_manager \<Rightarrow> 'c located_diag list \<Rightarrow> 'c located_diag list \<times> 'c dedupe_key list \<Rightarrow> bool" where
  "issued_state sm ds st \<longleftrightarrow>
     snd st = List.map (diag_key sm) (fst st) \<and> distinct (snd st) \<and>
     set (fst st) \<subseteq> set ds \<and> set (snd st) = diag_key sm ` set ds"

lemma issued_state_step:
  assumes "issued_state sm ds st"
  shows "issued_state sm (ds @ filter (in_fragment sm buf) [d]) (issue_fragment_diagnostic sm buf d st)"
  using assms
  by (cases st) (auto simp: issued_state_def issue_fragment_diagnostic_def in_fragment_def
      is_same_problem_eq list_ex_iff)

lemma issued_state_fold:
  "issued_state sm ds st \<Longrightarrow>
   issued_state sm (ds @ filter (in_fragment sm buf) xs) (fold (issue_fragment_diagnostic sm buf) xs st)"
proof (induction xs arbitrary: ds st)
  case (Cons x xs)
  from Cons.IH [OF issued_state_step [OF Cons.prems, of buf x]]
  show ?case by (simp split: if_splits)
qed simp

lemma issued_state_owner:
  assumes "issued_state sm ds st"
  shows "issued_state sm (ds @ owner_problems sm ow) (issue_owner sm ow st)"
proof (cases "owner_view ow")
  case None
  then show ?thesis using assms by (simp add: owner_problems_def issue_owner_def)
next
  case (Some v)
  obtain buf p s a where v: "v = (buf, p, s, a)" by (cases v)
  show ?thesis
    using issued_state_fold [OF issued_state_fold [OF issued_state_fold [OF assms, of buf p], of buf s], of buf a]
      Some v by (simp add: owner_problems_def issue_owner_def)
qed

lemma issued_state_owners:
  "issued_state sm ds st \<Longrightarrow>
   issued_state sm (ds @ concat (List.map (owner_problems sm) os)) (fold (issue_owner sm) os st)"
proof (induction os arbitrary: ds st)
  case (Cons ow os)
  from Cons.IH [OF issued_state_owner [OF Cons.prems, of ow]] show ?case by simp
qed simp

lemma open_owners_first:
  "sorted_wrt (\<lambda>a b. owner_open b \<le> owner_open a)
     (filter owner_open os @ filter (\<lambda>x. \<not> owner_open x) os)"
proof -
  have "sorted_wrt (\<lambda>a b. owner_open b \<le> owner_open a) (filter owner_open os)"
    and "sorted_wrt (\<lambda>a b. owner_open b \<le> owner_open a) (filter (\<lambda>x. \<not> owner_open x) os)"
    by (induction os) auto
  then show ?thesis by (auto simp: sorted_wrt_append)
qed

text \<open>
  An include fragment shows the union of what its first eight owners, open ones first, see in
  its text: every issued diagnostic lies in the fragment for an analysed owner, every problem an
  analysed owner sees there is issued with its code, line and column, and none twice.
\<close>

lemma fragment_diagnostics_union:
  "(let ds = fragment_diagnostics sm os;
        seen = concat (List.map (owner_problems sm) (ordered_owners os))
    in set ds \<subseteq> set seen
       \<and> diag_key sm ` set ds = diag_key sm ` set seen
       \<and> distinct (List.map (diag_key sm) ds)
       \<and> length (ordered_owners os) = min 8 (length os)
       \<and> sorted_wrt (\<lambda>a b. owner_open b \<le> owner_open a) (ordered_owners os))"
proof -
  have "issued_state sm ([] @ concat (List.map (owner_problems sm) (ordered_owners os)))
      (fold (issue_owner sm) (ordered_owners os) ([], []))"
    by (rule issued_state_owners) (simp add: issued_state_def)
  moreover have "length (ordered_owners os) = min 8 (length os)"
    using sum_length_filter_compl [of owner_open os]
    by (simp add: ordered_owners_def max_fragment_owners_def)
  moreover have "sorted_wrt (\<lambda>a b. owner_open b \<le> owner_open a) (ordered_owners os)"
    unfolding ordered_owners_def by (rule sorted_wrt_take) (rule open_owners_first)
  ultimately show ?thesis
    by (simp add: issued_state_def fragment_diagnostics_def Let_def) (metis list.set_map)
qed

end
