(* ===== verification/Driver.thy ===== *)
theory Driver
  imports SlangDoc DiagClient SymbolIndex "HOL-Library.More_List"
begin

text \<open>
  The documents of \<^verbatim>\<open>ServerDriver.cpp\<close> and \<^verbatim>\<open>document/SlangDoc.cpp\<close> as shared
  objects: the state of the driver, the syntax tree and the analysis of a document, the owners of
  an include fragment, the trees a document depends on, and its diagnostics.

  A shared pointer to a document is an address, its index in a list that only grows. The
  library is a record of the functions the code calls; source manager and diagnostic engine
  are its state. A tree value includes its address, so that equality is pointer equality. Hash maps and sets are lists in
  the order of insertion. A context of a request is tracked when it has a cancellation token;
  \<open>cancel_polls\<close> is what the next polls of it will see, and \<open>[]\<close> that it is not cancelled.
\<close>

section \<open>Actions\<close>

text \<open>
  An action may fail after it has changed the state. \<open>OutOfFuel\<close> is not a failure of the code:
  it marks a recursion that is longer than its bound.
\<close>

datatype driver_failure =
    OutOfFuel
  | Raised cpp_error
  | RequestCancelled string
  | BadChange change_failure
  | AssertionFailed

type_synonym ('x, 'w) action = "'w \<Rightarrow> (driver_failure + 'x) \<times> 'w"

definition give :: "'x \<Rightarrow> ('x, 'w) action" where
  "give x w = (Inr x, w)"

definition raise :: "driver_failure \<Rightarrow> ('x, 'w) action" where
  "raise e w = (Inl e, w)"

definition and_then :: "('x, 'w) action \<Rightarrow> ('x \<Rightarrow> ('y, 'w) action) \<Rightarrow> ('y, 'w) action" where
  "and_then m f w = (case m w of (Inl e, w') \<Rightarrow> (Inl e, w') | (Inr x, w') \<Rightarrow> f x w')"

definition look :: "('w \<Rightarrow> 'x) \<Rightarrow> ('x, 'w) action" where
  "look f w = (Inr (f w), w)"

definition change :: "('w \<Rightarrow> 'w) \<Rightarrow> (unit, 'w) action" where
  "change f w = (Inr (), f w)"

fun each :: "('x \<Rightarrow> (unit, 'w) action) \<Rightarrow> 'x list \<Rightarrow> (unit, 'w) action" where
  "each f [] = give ()"
| "each f (x # xs) = and_then (f x) (\<lambda>_. each f xs)"

fun collect :: "('x \<Rightarrow> ('y option, 'w) action) \<Rightarrow> 'x list \<Rightarrow> ('y list, 'w) action" where
  "collect f [] = give []"
| "collect f (x # xs) =
     and_then (f x) (\<lambda>y. and_then (collect f xs) (\<lambda>ys.
       give (case y of None \<Rightarrow> ys | Some y \<Rightarrow> y # ys)))"

fun thread :: "('x \<Rightarrow> 'y \<Rightarrow> ('y, 'w) action) \<Rightarrow> 'x list \<Rightarrow> 'y \<Rightarrow> ('y, 'w) action" where
  "thread f [] y = give y"
| "thread f (x # xs) y = and_then (f x y) (thread f xs)"

section \<open>State\<close>

record ('t, 'a) analysis =
  analysed :: 'a
  all_trees :: "'t list"

record ('t, 'a) document =
  document_uri :: uri
  document_buffer :: nat
  document_tree :: "'t option"
  document_analysis :: "('t, 'a) analysis option"
  include_owners :: "nat list"

record 'k compilation =
  compiled_documents :: "nat list"
  top_name :: "string option"
  design :: 'k

datatype notice = InactiveRegions string "lsp_range list" | CodeLensRefresh | InlayHintRefresh

record ('s, 't, 'a, 'k) driver =
  library :: 's
  heap :: "('t, 'a) document list"
  docs :: "(uri \<times> nat) list"
  open_docs :: "uri list"
  build_uris :: "uri list"
  full_compilation :: "'k compilation option"
  client_state :: diag_client
  workspace_index :: indexer
  cancel_polls :: "bool list"
  notices :: "notice list"

record ('s, 't, 'a, 'k, 'c) front_end =
  sources :: "'s \<Rightarrow> source_manager"
  source_text :: "'s \<Rightarrow> nat \<Rightarrow> string"
  is_cached :: "'s \<Rightarrow> string \<Rightarrow> bool"
  is_included :: "'s \<Rightarrow> nat \<Rightarrow> bool"
  read_source :: "string \<Rightarrow> 's \<Rightarrow> nat option \<times> 's"
  replace_buffer :: "nat \<Rightarrow> string \<Rightarrow> 's \<Rightarrow> nat \<times> 's"
  assign_text :: "string \<Rightarrow> string \<Rightarrow> 's \<Rightarrow> nat \<times> 's"
  reread_buffer :: "nat \<Rightarrow> 's \<Rightarrow> nat option \<times> 's"
  line_offsets :: "string \<Rightarrow> nat list"
  lexical_path :: "string \<Rightarrow> string"
  canonical_path :: "string \<Rightarrow> string option"
  parse :: "nat \<Rightarrow> 's \<Rightarrow> 't \<times> 's"
  tree_buffers :: "'t \<Rightarrow> nat list"
  tree_units :: "'t \<Rightarrow> (syntax_kind \<times> string) list"
  tree_classes :: "'t \<Rightarrow> string list"
  tree_diags :: "'t \<Rightarrow> 'c located_diag list"
  is_error_diag :: "'c located_diag \<Rightarrow> bool"
  declared_symbols :: "'t \<Rightarrow> string list"
  referenced_symbols :: "'t \<Rightarrow> string list"
  tree_parsed :: "'t \<Rightarrow> parsed_file"
  make_analysis :: "'s \<Rightarrow> nat \<Rightarrow> 't \<Rightarrow> 't list \<Rightarrow> 'k option \<Rightarrow> 'a"
  semantic_diags :: "'a \<Rightarrow> 'c located_diag list"
  analysis_diags :: "'a \<Rightarrow> 'c located_diag list"
  disabled_regions :: "'a \<Rightarrow> source_range list"
  max_instance_depth :: 'c
  set_mappings :: "nat option \<Rightarrow> 's \<Rightarrow> 's"
  engine_issue :: "'c located_diag \<Rightarrow> 's \<Rightarrow> engine_diag option \<times> 's"
  engine :: diag_engine
  uri_dot :: "char \<Rightarrow> bool"
  elaborate :: "'s \<Rightarrow> string option \<Rightarrow> 't list \<Rightarrow> 'k option \<Rightarrow> 'k"
  top_instances :: "'t \<Rightarrow> string list"
  load_sources :: "'t \<Rightarrow> (string \<Rightarrow> string list) \<Rightarrow> 's \<Rightarrow> 't list \<times> 's"
  design_diags :: "'k \<Rightarrow> 'c located_diag list"
  select_instance :: "string \<Rightarrow> 'k \<Rightarrow> bool \<times> 'k"
  resolve_fragments :: bool
  shows_inactive_regions :: bool

definition path_of :: "uri \<Rightarrow> string" where
  "path_of u = fst (get_path u)"

definition find_doc :: "uri \<Rightarrow> ('s, 't, 'a, 'k) driver \<Rightarrow> nat option" where
  "find_doc u w = map_option snd (List.find (\<lambda>(v, a). uri_eq v u) (docs w))"

definition put_doc :: "uri \<Rightarrow> nat \<Rightarrow> ('s, 't, 'a, 'k) driver \<Rightarrow> ('s, 't, 'a, 'k) driver" where
  "put_doc u a w =
     w\<lparr>docs := (if find_doc u w = None then docs w @ [(u, a)]
               else List.map (\<lambda>(v, b). (v, if uri_eq v u then a else b)) (docs w))\<rparr>"

definition has_uri :: "uri \<Rightarrow> uri list \<Rightarrow> bool" where
  "has_uri u us \<longleftrightarrow> list_ex (\<lambda>v. uri_eq v u) us"

text \<open>An address without a document reads as an empty one; none is ever used.\<close>

definition no_document :: "('t, 'a) document" where
  "no_document = \<lparr>document_uri = empty_uri, document_buffer = 0, document_tree = None,
     document_analysis = None, include_owners = []\<rparr>"

definition doc_at :: "nat \<Rightarrow> ('s, 't, 'a, 'k) driver \<Rightarrow> ('t, 'a) document" where
  "doc_at a w = nth_default no_document (heap w) a"

definition set_doc ::
    "nat \<Rightarrow> (('t, 'a) document \<Rightarrow> ('t, 'a) document) \<Rightarrow> (unit, ('s, 't, 'a, 'k) driver) action" where
  "set_doc a f = change (\<lambda>w. w\<lparr>heap := (heap w)[a := f (doc_at a w)]\<rparr>)"

definition new_doc :: "uri \<Rightarrow> nat \<Rightarrow> nat list \<Rightarrow> (nat, ('s, 't, 'a, 'k) driver) action" where
  "new_doc u b owners =
     and_then (look (\<lambda>w. length (heap w))) (\<lambda>a.
     and_then (change (\<lambda>w. w\<lparr>heap := heap w @
         [\<lparr>document_uri = u, document_buffer = b, document_tree = None,
           document_analysis = None, include_owners = owners\<rparr>]\<rparr>)) (\<lambda>_. give a))"

text \<open>A call of the library changes its state and nothing else.\<close>

definition call :: "('s \<Rightarrow> 'x \<times> 's) \<Rightarrow> ('x, ('s, 't, 'a, 'k) driver) action" where
  "call f w = (Inr (fst (f (library w))), w\<lparr>library := snd (f (library w))\<rparr>)"

text \<open>The value of a result that may hold an error instead.\<close>

definition call_value :: "('s \<Rightarrow> 'x option \<times> 's) \<Rightarrow> ('x, ('s, 't, 'a, 'k) driver) action" where
  "call_value f =
     and_then (call f) (\<lambda>r. case r of None \<Rightarrow> raise (Raised BadAccess) | Some x \<Rightarrow> give x)"

definition check_cancelled :: "bool \<Rightarrow> string \<Rightarrow> (unit, ('s, 't, 'a, 'k) driver) action" where
  "check_cancelled tracked stage w =
     (if \<not> tracked then (Inr (), w)
      else case cancel_polls w of
             [] \<Rightarrow> (Inr (), w)
           | p # ps \<Rightarrow> ((if p then Inl (RequestCancelled stage) else Inr ()), w\<lparr>cancel_polls := ps\<rparr>))"

definition notify :: "notice \<Rightarrow> (unit, ('s, 't, 'a, 'k) driver) action" where
  "notify n = change (\<lambda>w. w\<lparr>notices := notices w @ [n]\<rparr>)"

definition on_client :: "(diag_client \<Rightarrow> diag_client) \<Rightarrow> (unit, ('s, 't, 'a, 'k) driver) action" where
  "on_client f = change (\<lambda>w. w\<lparr>client_state := f (client_state w)\<rparr>)"

definition is_open :: "uri \<Rightarrow> ('s, 't, 'a, 'k) driver \<Rightarrow> bool" where
  "is_open u w = has_uri u (open_docs w)"

section \<open>Making documents\<close>

definition text_of :: "('s, 't, 'a, 'k, 'c) front_end \<Rightarrow> nat \<Rightarrow> ('s, 't, 'a, 'k) driver \<Rightarrow> string" where
  "text_of fe a w = source_text fe (library w) (document_buffer (doc_at a w))"

definition doc_from_text ::
    "('s, 't, 'a, 'k, 'c) front_end \<Rightarrow> uri \<Rightarrow> string \<Rightarrow> (nat, ('s, 't, 'a, 'k) driver) action" where
  "doc_from_text fe u text =
     and_then (look (\<lambda>w. is_cached fe (library w) (path_of u))) (\<lambda>cached.
     and_then
       (if cached then
          and_then (call_value (read_source fe (path_of u))) (\<lambda>old.
            call (replace_buffer fe old (ensure_null_terminated text)))
        else call (assign_text fe (path_of u) text)) (\<lambda>b.
     new_doc u b []))"

definition doc_open ::
    "('s, 't, 'a, 'k, 'c) front_end \<Rightarrow> uri \<Rightarrow> (nat, ('s, 't, 'a, 'k) driver) action" where
  "doc_open fe u = and_then (call_value (read_source fe (path_of u))) (\<lambda>b. new_doc u b [])"

definition doc_from_tree ::
    "('s, 't, 'a, 'k, 'c) front_end \<Rightarrow> 't \<Rightarrow> (nat, ('s, 't, 'a, 'k) driver) action" where
  "doc_from_tree fe t =
     and_then (look (\<lambda>w. from_file (full_path (sources fe (library w)) (hd (tree_buffers fe t))))) (\<lambda>u.
     and_then (new_doc u (hd (tree_buffers fe t)) []) (\<lambda>a.
     and_then (set_doc a (\<lambda>d. d\<lparr>document_tree := Some t\<rparr>)) (\<lambda>_. give a)))"

definition buffer_in_tree ::
    "('s, 't, 'a, 'k, 'c) front_end \<Rightarrow> 't \<Rightarrow> uri \<Rightarrow> ('s, 't, 'a, 'k) driver \<Rightarrow> nat option" where
  "buffer_in_tree fe t u w =
     find_buffer_for_path (sources fe (library w)) (lexical_path fe) (canonical_path fe)
       (tree_buffers fe t) (path_of u)"

section \<open>Syntax trees\<close>

definition parse_document ::
    "('s, 't, 'a, 'k, 'c) front_end \<Rightarrow> nat \<Rightarrow> bool \<Rightarrow> ('t, ('s, 't, 'a, 'k) driver) action" where
  "parse_document fe a again =
     and_then
       (if again then
          and_then (look (doc_at a)) (\<lambda>d.
          and_then (call_value (read_source fe (path_of (document_uri d)))) (\<lambda>b.
            set_doc a (\<lambda>d. d\<lparr>document_buffer := b\<rparr>)))
        else give ()) (\<lambda>_.
     and_then (look (\<lambda>w. document_buffer (doc_at a w))) (\<lambda>b.
     and_then (call (parse fe b)) (\<lambda>t.
     and_then (set_doc a (\<lambda>d. d\<lparr>document_tree := Some t\<rparr>)) (\<lambda>_. give t))))"

definition own_tree ::
    "('s, 't, 'a, 'k, 'c) front_end \<Rightarrow> nat \<Rightarrow> ('t, ('s, 't, 'a, 'k) driver) action" where
  "own_tree fe a =
     and_then (look (\<lambda>w. (doc_at a w, sources fe (library w)))) (\<lambda>(d, sm).
       case document_tree d of
         None \<Rightarrow> parse_document fe a (\<not> latest_data sm (document_buffer d))
       | Some t \<Rightarrow>
           if has_valid_buffers sm (Some (tree_buffers fe t)) then give t
           else parse_document fe a True)"

text \<open>A fragment borrows the tree of its first owner; the fuel bounds the chain of owners.\<close>

primrec tree_within ::
    "('s, 't, 'a, 'k, 'c) front_end \<Rightarrow> nat \<Rightarrow> nat \<Rightarrow> ('t, ('s, 't, 'a, 'k) driver) action" where
  "tree_within fe 0 a = raise OutOfFuel"
| "tree_within fe (Suc n) a =
     and_then (look (\<lambda>w. include_owners (doc_at a w))) (\<lambda>owners.
       case owners of
         [] \<Rightarrow> own_tree fe a
       | ow # ows \<Rightarrow>
           and_then (tree_within fe n ow) (\<lambda>t.
           and_then (look (\<lambda>w. document_tree (doc_at a w))) (\<lambda>old.
             if old = Some t then give t
             else
               and_then (set_doc a (\<lambda>d. d\<lparr>document_tree := Some t\<rparr>)) (\<lambda>_.
               and_then (look (\<lambda>w. buffer_in_tree fe t (document_uri (doc_at a w)) w)) (\<lambda>b.
               and_then (case b of None \<Rightarrow> give () | Some b \<Rightarrow> set_doc a (\<lambda>d. d\<lparr>document_buffer := b\<rparr>)) (\<lambda>_.
                 give t))))))"

definition syntax_tree ::
    "('s, 't, 'a, 'k, 'c) front_end \<Rightarrow> nat \<Rightarrow> ('t, ('s, 't, 'a, 'k) driver) action" where
  "syntax_tree fe a =
     and_then (look (\<lambda>w. Suc (length (heap w)))) (\<lambda>n. tree_within fe n a)"

section \<open>Owners\<close>

definition sync_owner_buffer ::
    "('s, 't, 'a, 'k, 'c) front_end \<Rightarrow> nat \<Rightarrow> string \<Rightarrow> (nat, ('s, 't, 'a, 'k) driver) action" where
  "sync_owner_buffer fe b text = call (replace_buffer fe b (ensure_null_terminated text))"

definition doc_from_owner ::
    "('s, 't, 'a, 'k, 'c) front_end \<Rightarrow> uri \<Rightarrow> string option \<Rightarrow> nat list \<Rightarrow>
     (nat, ('s, 't, 'a, 'k) driver) action" where
  "doc_from_owner fe u text owners =
     (case owners of
        [] \<Rightarrow> raise AssertionFailed
      | ow # ows \<Rightarrow>
          and_then (syntax_tree fe ow) (\<lambda>t.
          and_then (look (buffer_in_tree fe t u)) (\<lambda>b.
            case b of
              None \<Rightarrow> raise AssertionFailed
            | Some b \<Rightarrow>
                and_then (case text of None \<Rightarrow> give b | Some s \<Rightarrow> sync_owner_buffer fe b s) (\<lambda>b.
                  new_doc u b owners))))"

definition drop_null :: "string \<Rightarrow> string" where
  "drop_null s = (if s \<noteq> [] \<and> last s = nul then butlast s else s)"

definition add_include_owner ::
    "('s, 't, 'a, 'k, 'c) front_end \<Rightarrow> nat \<Rightarrow> nat \<Rightarrow> (unit, ('s, 't, 'a, 'k) driver) action" where
  "add_include_owner fe a ow =
     and_then (look (\<lambda>w. include_owners (doc_at a w))) (\<lambda>owners.
       if ow \<in> set owners then give ()
       else
         and_then (look (\<lambda>w. drop_null (text_of fe a w))) (\<lambda>text.
         and_then (syntax_tree fe ow) (\<lambda>t.
         and_then (look (\<lambda>w. buffer_in_tree fe t (document_uri (doc_at a w)) w)) (\<lambda>b.
         and_then (case b of None \<Rightarrow> give ()
                   | Some b \<Rightarrow> and_then (sync_owner_buffer fe b text) (\<lambda>_. give ())) (\<lambda>_.
           set_doc a (\<lambda>d. d\<lparr>include_owners := include_owners d @ [ow]\<rparr>))))))"

datatype standalone_parse = Fragment | Standalone

definition classify_tree :: "('s, 't, 'a, 'k, 'c) front_end \<Rightarrow> 't \<Rightarrow> standalone_parse" where
  "classify_tree fe t =
     (if list_ex (\<lambda>(k, n). n \<noteq> []) (tree_units fe t) then Standalone
      else if list_ex (\<lambda>n. n \<noteq> []) (tree_classes fe t) then Standalone
      else if list_ex (is_error_diag fe) (tree_diags fe t) then Fragment
      else Standalone)"

definition classify ::
    "('s, 't, 'a, 'k, 'c) front_end \<Rightarrow> nat \<Rightarrow> (standalone_parse, ('s, 't, 'a, 'k) driver) action" where
  "classify fe a = and_then (syntax_tree fe a) (\<lambda>t. give (classify_tree fe t))"

text \<open>Whether the tree of a document includes a file, its own root buffer aside.\<close>

definition tree_includes ::
    "('s, 't, 'a, 'k, 'c) front_end \<Rightarrow> 't \<Rightarrow> uri \<Rightarrow> ('s, 't, 'a, 'k) driver \<Rightarrow> bool" where
  "tree_includes fe t u w =
     (case buffer_in_tree fe t u w of None \<Rightarrow> False | Some b \<Rightarrow> is_included fe (library w) b)"

definition find_include_owners ::
    "('s, 't, 'a, 'k, 'c) front_end \<Rightarrow> uri \<Rightarrow> (nat list, ('s, 't, 'a, 'k) driver) action" where
  "find_include_owners fe u =
     (if \<not> resolve_fragments fe then give []
      else
        and_then (look docs) (collect (\<lambda>(v, a).
          and_then (look (\<lambda>w. include_owners (doc_at a w) \<noteq> [])) (\<lambda>fragment.
            if uri_eq v u \<or> fragment then give None
            else
              and_then (syntax_tree fe a) (\<lambda>t.
              and_then (look (tree_includes fe t u)) (\<lambda>found.
                give (if found then Some a else None)))))))"

definition resolve_document ::
    "('s, 't, 'a, 'k, 'c) front_end \<Rightarrow> uri \<Rightarrow> string option \<Rightarrow> (nat, ('s, 't, 'a, 'k) driver) action" where
  "resolve_document fe u text =
     and_then (find_include_owners fe u) (\<lambda>owners.
       if owners = [] then
         (case text of Some s \<Rightarrow> doc_from_text fe u s | None \<Rightarrow> doc_open fe u)
       else
         and_then (doc_open fe u) (\<lambda>standalone.
         and_then (classify fe standalone) (\<lambda>c.
           case c of
             Standalone \<Rightarrow> (case text of Some s \<Rightarrow> doc_from_text fe u s | None \<Rightarrow> give standalone)
           | Fragment \<Rightarrow> doc_from_owner fe u text owners)))"

definition get_document ::
    "('s, 't, 'a, 'k, 'c) front_end \<Rightarrow> uri \<Rightarrow> (nat, ('s, 't, 'a, 'k) driver) action" where
  "get_document fe u =
     and_then (look (find_doc u)) (\<lambda>found.
       case found of
         Some a \<Rightarrow> give a
       | None \<Rightarrow>
           and_then (resolve_document fe u None) (\<lambda>a.
           and_then (change (put_doc u a)) (\<lambda>_. give a)))"

section \<open>The trees a tree depends on\<close>

record 't dependency_state =
  to_process :: "'t list"
  known_names :: "string list"
  processed_files :: "string list"
  loaded_trees :: "'t list"

definition is_type_source :: "('s, 't, 'a, 'k, 'c) front_end \<Rightarrow> 't \<Rightarrow> bool" where
  "is_type_source fe t =
     list_ex (\<lambda>(k, n). k = PackageDeclaration \<or> k = InterfaceDeclaration) (tree_units fe t)"

definition load_dependency ::
    "('s, 't, 'a, 'k, 'c) front_end \<Rightarrow> string \<Rightarrow> 't dependency_state \<Rightarrow>
     ('t dependency_state, ('s, 't, 'a, 'k) driver) action" where
  "load_dependency fe name st =
     (if name \<in> set (known_names st) then give st
      else
        let st = st\<lparr>known_names := list_emplace name (known_names st)\<rparr> in
        and_then (look (\<lambda>w. first_symbol_loc (workspace_index w) name)) (\<lambda>found.
          case found of
            None \<Rightarrow> give st
          | Some l \<Rightarrow>
              if loc_uri l \<in> set (processed_files st) then give st
              else
                let st = st\<lparr>processed_files := list_emplace (loc_uri l) (processed_files st)\<rparr> in
                and_then (get_document fe (from_file (loc_uri l))) (\<lambda>a.
                and_then (syntax_tree fe a) (\<lambda>t.
                  let st = st\<lparr>loaded_trees := loaded_trees st @ [t]\<rparr> in
                  give (if is_type_source fe t then st\<lparr>to_process := to_process st @ [t]\<rparr> else st)))))"

primrec dependencies_within ::
    "('s, 't, 'a, 'k, 'c) front_end \<Rightarrow> nat \<Rightarrow> 't dependency_state \<Rightarrow>
     ('t dependency_state, ('s, 't, 'a, 'k) driver) action" where
  "dependencies_within fe 0 st = raise OutOfFuel"
| "dependencies_within fe (Suc n) st =
     (case to_process st of
        [] \<Rightarrow> give st
      | t # ts \<Rightarrow>
          let st = st\<lparr>to_process := ts,
                     known_names := fold list_emplace (declared_symbols fe t) (known_names st)\<rparr> in
          and_then (thread (load_dependency fe) (referenced_symbols fe t) st)
            (dependencies_within fe n))"

definition index_locs :: "indexer \<Rightarrow> symbol_loc list" where
  "index_locs ix = concat (List.map snd (symbol_files ix))"

definition dependent_trees ::
    "('s, 't, 'a, 'k, 'c) front_end \<Rightarrow> 't \<Rightarrow> ('t list, ('s, 't, 'a, 'k) driver) action" where
  "dependent_trees fe t =
     and_then (look (\<lambda>w. length (index_locs (workspace_index w)) + 2)) (\<lambda>n.
     and_then (dependencies_within fe n
         \<lparr>to_process = [t], known_names = [], processed_files = [], loaded_trees = []\<rparr>) (\<lambda>st.
       give (loaded_trees st)))"

section \<open>Analyses\<close>

definition refresh_analysis ::
    "('s, 't, 'a, 'k, 'c) front_end \<Rightarrow> bool \<Rightarrow> nat \<Rightarrow>
     (('t, 'a) analysis, ('s, 't, 'a, 'k) driver) action" where
  "refresh_analysis fe tracked a =
     and_then (check_cancelled tracked ''before analysis'') (\<lambda>_.
     and_then (syntax_tree fe a) (\<lambda>t.
     and_then (dependent_trees fe t) (\<lambda>ts.
     and_then (look (\<lambda>w.
         \<lparr>analysed = make_analysis fe (library w) (document_buffer (doc_at a w)) t (t # ts)
                       (map_option design (full_compilation w)),
          all_trees = t # ts\<rparr>)) (\<lambda>an.
     and_then (set_doc a (\<lambda>d. d\<lparr>document_analysis := Some an\<rparr>)) (\<lambda>_. give an)))))"

definition has_analysis ::
    "('s, 't, 'a, 'k, 'c) front_end \<Rightarrow> nat \<Rightarrow> ('s, 't, 'a, 'k) driver \<Rightarrow> bool" where
  "has_analysis fe a w =
     (case document_analysis (doc_at a w) of
        None \<Rightarrow> False
      | Some an \<Rightarrow>
          list_all (\<lambda>t. has_valid_buffers (sources fe (library w)) (Some (tree_buffers fe t)))
            (all_trees an))"

definition get_analysis ::
    "('s, 't, 'a, 'k, 'c) front_end \<Rightarrow> bool \<Rightarrow> nat \<Rightarrow>
     (('t, 'a) analysis, ('s, 't, 'a, 'k) driver) action" where
  "get_analysis fe tracked a =
     and_then (look (\<lambda>w. (has_analysis fe a w, document_analysis (doc_at a w)))) (\<lambda>r.
       case r of
         (True, Some an) \<Rightarrow> give an
       | _ \<Rightarrow> refresh_analysis fe tracked a)"

end
