(* ===== verification/Lifecycle.thy ===== *)
theory Lifecycle
  imports Driver
begin

text \<open>
  The life cycle of documents in \<^verbatim>\<open>ServerDriver.cpp\<close>: issuing and publishing the
  diagnostics of a document, opening, changing, saving, closing and reloading it, the binding of
  include fragments to their owners, and the creation of a driver. The checks of the code for a
  missing document or tree after calls that never return one have no branch here.
\<close>

section \<open>Issuing diagnostics\<close>

definition issue_diag ::
    "('s, 't, 'a, 'k, 'c) front_end \<Rightarrow> 'c located_diag \<Rightarrow> (unit, ('s, 't, 'a, 'k) driver) action" where
  "issue_diag fe d =
     and_then (call (engine_issue fe d)) (\<lambda>r.
       case r of
         None \<Rightarrow> give ()
       | Some ed \<Rightarrow> (\<lambda>w.
           let (c, e) = report (sources fe (library w)) (engine fe) (uri_dot fe) ed (client_state w)
           in ((case e of None \<Rightarrow> Inr () | Some e \<Rightarrow> Inl (Raised e)), w\<lparr>client_state := c\<rparr>)))"

definition issue_parse_diags ::
    "('s, 't, 'a, 'k, 'c) front_end \<Rightarrow> nat \<Rightarrow> (unit, ('s, 't, 'a, 'k) driver) action" where
  "issue_parse_diags fe a =
     and_then (syntax_tree fe a) (\<lambda>t. each (issue_diag fe) (tree_diags fe t))"

definition issue_in_fragment ::
    "('s, 't, 'a, 'k, 'c) front_end \<Rightarrow> nat \<Rightarrow> 'c located_diag \<Rightarrow> 'c dedupe_key list \<Rightarrow>
     ('c dedupe_key list, ('s, 't, 'a, 'k) driver) action" where
  "issue_in_fragment fe b d seen =
     and_then (look (\<lambda>w. issue_fragment_diagnostic (sources fe (library w)) b d ([], seen)))
       (\<lambda>(issued, seen). and_then (each (issue_diag fe) issued) (\<lambda>_. give seen))"

definition issue_for_owner ::
    "('s, 't, 'a, 'k, 'c) front_end \<Rightarrow> uri \<Rightarrow> nat \<Rightarrow> 'c dedupe_key list \<Rightarrow>
     ('c dedupe_key list, ('s, 't, 'a, 'k) driver) action" where
  "issue_for_owner fe u ow seen =
     and_then (syntax_tree fe ow) (\<lambda>t.
     and_then (look (buffer_in_tree fe t u)) (\<lambda>b.
       case b of
         None \<Rightarrow> give seen
       | Some b \<Rightarrow>
           and_then (thread (issue_in_fragment fe b) (tree_diags fe t) seen) (\<lambda>seen.
           and_then (get_analysis fe False ow) (\<lambda>an.
           and_then (thread (issue_in_fragment fe b) (semantic_diags fe (analysed an)) seen) (\<lambda>seen.
             thread (issue_in_fragment fe b) (analysis_diags fe (analysed an)) seen)))))"

definition analysed_owners :: "nat \<Rightarrow> ('s, 't, 'a, 'k) driver \<Rightarrow> nat list" where
  "analysed_owners a w =
     (let owners = include_owners (doc_at a w);
          opened = (\<lambda>ow. is_open (document_uri (doc_at ow w)) w)
      in take max_fragment_owners (filter opened owners @ filter (\<lambda>ow. \<not> opened ow) owners))"

definition issue_fragment_diags ::
    "('s, 't, 'a, 'k, 'c) front_end \<Rightarrow> nat \<Rightarrow> (unit, ('s, 't, 'a, 'k) driver) action" where
  "issue_fragment_diags fe a =
     and_then (look (\<lambda>w. (analysed_owners a w, document_uri (doc_at a w)))) (\<lambda>(owners, u).
     and_then (thread (issue_for_owner fe u) owners []) (\<lambda>_. give ()))"

definition issue_if_own ::
    "('s, 't, 'a, 'k, 'c) front_end \<Rightarrow> nat \<Rightarrow> 'c located_diag \<Rightarrow> (unit, ('s, 't, 'a, 'k) driver) action" where
  "issue_if_own fe a d =
     and_then (look (\<lambda>w. loc_buffer (original_loc (sources fe (library w)) (located_at d)) =
                         document_buffer (doc_at a w))) (\<lambda>own.
       if own then issue_diag fe d else give ())"

definition issue_diagnostics ::
    "('s, 't, 'a, 'k, 'c) front_end \<Rightarrow> bool \<Rightarrow> nat \<Rightarrow> (unit, ('s, 't, 'a, 'k) driver) action" where
  "issue_diagnostics fe tracked a =
     and_then (look (\<lambda>w. include_owners (doc_at a w) \<noteq> [])) (\<lambda>fragment.
       if fragment then issue_fragment_diags fe a
       else
         and_then (refresh_analysis fe tracked a) (\<lambda>an.
         and_then (issue_parse_diags fe a) (\<lambda>_.
         and_then (check_cancelled tracked ''before publishing semantic diagnostics'') (\<lambda>_.
         and_then (each (\<lambda>d. if located_code d = max_instance_depth fe then give ()
                             else issue_if_own fe a d) (semantic_diags fe (analysed an))) (\<lambda>_.
         and_then (check_cancelled tracked ''before publishing analysis diagnostics'') (\<lambda>_.
           each (issue_if_own fe a) (analysis_diags fe (analysed an))))))))"

section \<open>Publishing\<close>

definition inactive_regions ::
    "('s, 't, 'a, 'k, 'c) front_end \<Rightarrow> bool \<Rightarrow> nat \<Rightarrow> (lsp_range list, ('s, 't, 'a, 'k) driver) action" where
  "inactive_regions fe tracked a =
     and_then (check_cancelled tracked ''before collecting inactive regions'') (\<lambda>_.
     and_then (get_analysis fe tracked a) (\<lambda>an.
       look (\<lambda>w. List.map (to_range (sources fe (library w))) (disabled_regions fe (analysed an)))))"

definition publish_inactive_regions ::
    "('s, 't, 'a, 'k, 'c) front_end \<Rightarrow> bool \<Rightarrow> nat \<Rightarrow> (unit, ('s, 't, 'a, 'k) driver) action" where
  "publish_inactive_regions fe tracked a =
     (if \<not> shows_inactive_regions fe then give ()
      else
        and_then (check_cancelled tracked ''before collecting inactive regions'') (\<lambda>_.
        and_then (inactive_regions fe tracked a) (\<lambda>rs.
        and_then (check_cancelled tracked ''before publishing inactive regions'') (\<lambda>_.
        and_then (look (\<lambda>w. uri_str (document_uri (doc_at a w)))) (\<lambda>u.
          notify (InactiveRegions u rs))))))"

definition analyze_alone ::
    "('s, 't, 'a, 'k, 'c) front_end \<Rightarrow> bool \<Rightarrow> nat \<Rightarrow> (unit, ('s, 't, 'a, 'k) driver) action" where
  "analyze_alone fe tracked a =
     and_then (check_cancelled tracked ''before diagnostics'') (\<lambda>_.
     and_then (look (\<lambda>w. uri_str (document_uri (doc_at a w)))) (\<lambda>u.
     and_then (on_client (clear_uri u)) (\<lambda>_.
     and_then (syntax_tree fe a) (\<lambda>_.
     and_then (look (\<lambda>w. document_buffer (doc_at a w))) (\<lambda>b.
     and_then (call (\<lambda>s. ((), set_mappings fe (Some b) s))) (\<lambda>_.
     and_then (issue_diagnostics fe tracked a) (\<lambda>_.
     and_then (check_cancelled tracked ''before publishing diagnostics'') (\<lambda>_.
     and_then (on_client (push_diags_first u)) (\<lambda>_.
       publish_inactive_regions fe tracked a)))))))))"

text \<open>A fragment is followed by its open owners; the fuel bounds the chain of owners.\<close>

primrec analyze_within ::
    "('s, 't, 'a, 'k, 'c) front_end \<Rightarrow> nat \<Rightarrow> bool \<Rightarrow> nat \<Rightarrow> (unit, ('s, 't, 'a, 'k) driver) action" where
  "analyze_within fe 0 tracked a = raise OutOfFuel"
| "analyze_within fe (Suc n) tracked a =
     and_then (analyze_alone fe tracked a) (\<lambda>_.
     and_then (look (\<lambda>w. include_owners (doc_at a w))) (\<lambda>owners.
       each (\<lambda>ow.
         and_then (look (\<lambda>w. is_open (document_uri (doc_at ow w)) w)) (\<lambda>opened.
           if opened then analyze_within fe n tracked ow else give ())) owners))"

definition analyze_document ::
    "('s, 't, 'a, 'k, 'c) front_end \<Rightarrow> bool \<Rightarrow> nat \<Rightarrow> (unit, ('s, 't, 'a, 'k) driver) action" where
  "analyze_document fe tracked a =
     and_then (look (\<lambda>w. Suc (length (heap w)))) (\<lambda>n. analyze_within fe n tracked a)"

section \<open>Opening\<close>

text \<open>
  A document that includes a fragment opened before it becomes its owner, unless the fragment
  parses on its own.
\<close>

definition wants_owner ::
    "('s, 't, 'a, 'k, 'c) front_end \<Rightarrow> nat \<Rightarrow> 't \<Rightarrow> uri \<times> nat \<Rightarrow>
     (nat option, ('s, 't, 'a, 'k) driver) action" where
  "wants_owner fe new_owner t entry =
     (case entry of (u, a) \<Rightarrow>
        and_then (look (\<lambda>w. (tree_includes fe t u w, include_owners (doc_at a w)))) (\<lambda>(found, owners).
          if a = new_owner \<or> \<not> found \<or> new_owner \<in> set owners then give None
          else if owners \<noteq> [] then give (Some a)
          else
            and_then (classify fe a) (\<lambda>c.
              give (case c of Standalone \<Rightarrow> None | Fragment \<Rightarrow> Some a))))"

definition adopt_orphan_fragments ::
    "('s, 't, 'a, 'k, 'c) front_end \<Rightarrow> nat \<Rightarrow> (unit, ('s, 't, 'a, 'k) driver) action" where
  "adopt_orphan_fragments fe new_owner =
     (if \<not> resolve_fragments fe then give ()
      else
        and_then (syntax_tree fe new_owner) (\<lambda>t.
        and_then (look docs) (\<lambda>entries.
        and_then (collect (wants_owner fe new_owner t) entries)
          (each (\<lambda>a.
             and_then (add_include_owner fe a new_owner) (\<lambda>_.
             and_then (look (\<lambda>w. is_open (document_uri (doc_at a w)) w)) (\<lambda>opened.
               if opened then analyze_document fe False a else give ())))))))"

definition matches_text ::
    "('s, 't, 'a, 'k, 'c) front_end \<Rightarrow> nat \<Rightarrow> string \<Rightarrow> ('s, 't, 'a, 'k) driver \<Rightarrow> bool" where
  "matches_text fe a text w =
     text_matches \<lparr>doc_data = text_of fe a w, doc_tree = document_tree (doc_at a w),
                   doc_analysis = document_analysis (doc_at a w)\<rparr> text"

text \<open>
  What \<^verbatim>\<open>openDocument\<close> finds before it makes a document: the document, whether it is a source
  of the build, and whether it was known and is unchanged.
\<close>

definition known_document ::
    "('s, 't, 'a, 'k, 'c) front_end \<Rightarrow> uri \<Rightarrow> string \<Rightarrow>
     (nat option \<times> bool \<times> bool, ('s, 't, 'a, 'k) driver) action" where
  "known_document fe u text =
     and_then (look (\<lambda>w. (find_doc u w, has_uri u (build_uris w)))) (\<lambda>(found, in_build).
       case found of
         Some a \<Rightarrow>
           and_then (look (matches_text fe a text)) (\<lambda>matches.
             if \<not> matches then give (None, False, False)
             else
               and_then (look (\<lambda>w. include_owners (doc_at a w) \<noteq> [])) (\<lambda>fragment.
                 if fragment then give (Some a, in_build, True)
                 else
                   and_then (classify fe a) (\<lambda>c.
                     case c of
                       Standalone \<Rightarrow> give (Some a, in_build, True)
                     | Fragment \<Rightarrow>
                         and_then (find_include_owners fe u) (\<lambda>owners.
                         and_then (each (add_include_owner fe a) owners) (\<lambda>_.
                           give (Some a, in_build, owners = []))))))
       | None \<Rightarrow>
           if \<not> in_build then give (None, False, False)
           else
             and_then (doc_open fe u) (\<lambda>a.
             and_then (classify fe a) (\<lambda>c.
             and_then (look (matches_text fe a text)) (\<lambda>matches.
               if c = Standalone \<and> matches then
                 and_then (change (put_doc u a)) (\<lambda>_. give (Some a, True, False))
               else give (None, False, False)))))"

definition insert_uri :: "uri \<Rightarrow> uri list \<Rightarrow> uri list" where
  "insert_uri u us = (if has_uri u us then us else us @ [u])"

definition open_document ::
    "('s, 't, 'a, 'k, 'c) front_end \<Rightarrow> uri \<Rightarrow> string \<Rightarrow> (unit, ('s, 't, 'a, 'k) driver) action" where
  "open_document fe u text =
     and_then (known_document fe u text) (\<lambda>(found, in_build, already).
     and_then (case found of
                 Some a \<Rightarrow> give a
               | None \<Rightarrow>
                   and_then (resolve_document fe u (Some text)) (\<lambda>a.
                   and_then (change (put_doc u a)) (\<lambda>_. give a))) (\<lambda>a.
     and_then (look full_compilation) (\<lambda>comp.
     and_then (if comp \<noteq> None \<and> in_build then publish_inactive_regions fe False a
               else analyze_document fe False a) (\<lambda>_.
     and_then (change (\<lambda>w. w\<lparr>open_docs := insert_uri u (open_docs w)\<rparr>)) (\<lambda>_.
     and_then (look (\<lambda>w. include_owners (doc_at a w) \<noteq> [])) (\<lambda>fragment.
       if \<not> fragment \<and> \<not> already then adopt_orphan_fragments fe a else give ()))))))"

section \<open>Changing, closing and reloading\<close>

definition change_text ::
    "('s, 't, 'a, 'k, 'c) front_end \<Rightarrow> nat \<Rightarrow> content_change list \<Rightarrow>
     (unit, ('s, 't, 'a, 'k) driver) action" where
  "change_text fe a changes =
     and_then (look (\<lambda>w. on_change (line_offsets fe) changes
         \<lparr>doc_data = text_of fe a w, doc_tree = document_tree (doc_at a w),
          doc_analysis = document_analysis (doc_at a w)\<rparr>)) (\<lambda>r.
       case r of
         Inl e \<Rightarrow> raise (BadChange e)
       | Inr d \<Rightarrow>
           if changes = [] then give ()
           else
             and_then (look (\<lambda>w. document_buffer (doc_at a w))) (\<lambda>b.
             and_then (call (replace_buffer fe b (doc_data d))) (\<lambda>b.
               set_doc a (\<lambda>x. x\<lparr>document_buffer := b, document_tree := doc_tree d,
                                document_analysis := doc_analysis d\<rparr>))))"

definition poll_cancelled :: "bool \<Rightarrow> (bool, ('s, 't, 'a, 'k) driver) action" where
  "poll_cancelled tracked w =
     (if \<not> tracked then (Inr False, w)
      else case cancel_polls w of
             [] \<Rightarrow> (Inr False, w)
           | p # ps \<Rightarrow> (Inr p, w\<lparr>cancel_polls := ps\<rparr>))"

definition doc_did_change ::
    "('s, 't, 'a, 'k, 'c) front_end \<Rightarrow> bool \<Rightarrow> uri \<Rightarrow> content_change list \<Rightarrow>
     (unit, ('s, 't, 'a, 'k) driver) action" where
  "doc_did_change fe tracked u changes =
     and_then (get_document fe u) (\<lambda>a.
     and_then (change_text fe a changes) (\<lambda>_.
     and_then (poll_cancelled tracked) (\<lambda>cancelled.
     and_then (if cancelled then check_cancelled tracked ''before analysis'' else give ()) (\<lambda>_.
       analyze_document fe tracked a))))"

definition close_document :: "uri \<Rightarrow> (unit, ('s, 't, 'a, 'k) driver) action" where
  "close_document u =
     and_then (change (\<lambda>w. w\<lparr>open_docs := filter (\<lambda>v. \<not> uri_eq v u) (open_docs w)\<rparr>)) (\<lambda>_.
     and_then (look full_compilation) (\<lambda>comp.
       if comp = None then on_client (clear_uri (uri_str u)) else give ()))"

definition reload_text ::
    "('s, 't, 'a, 'k, 'c) front_end \<Rightarrow> nat \<Rightarrow> (bool, ('s, 't, 'a, 'k) driver) action" where
  "reload_text fe a =
     and_then (look (\<lambda>w. document_buffer (doc_at a w))) (\<lambda>b.
     and_then (call (reread_buffer fe b)) (\<lambda>r.
       case r of
         None \<Rightarrow> give False
       | Some b \<Rightarrow>
           and_then (set_doc a (\<lambda>x. x\<lparr>document_buffer := b, document_tree := None,
                                      document_analysis := None\<rparr>)) (\<lambda>_. give True)))"

definition reload_document ::
    "('s, 't, 'a, 'k, 'c) front_end \<Rightarrow> uri \<Rightarrow> (unit, ('s, 't, 'a, 'k) driver) action" where
  "reload_document fe u =
     and_then (look (is_open u)) (\<lambda>opened.
       if \<not> opened then give ()
       else
         and_then (get_document fe u) (\<lambda>a.
         and_then (reload_text fe a) (\<lambda>ok.
           if ok then analyze_document fe False a else give ())))"

definition watched_change ::
    "('s, 't, 'a, 'k, 'c) front_end \<Rightarrow> uri \<times> file_change_type \<Rightarrow>
     (nat option, ('s, 't, 'a, 'k) driver) action" where
  "watched_change fe c =
     (case c of
        (u, FileChanged) \<Rightarrow>
          and_then (look (is_open u)) (\<lambda>opened.
            if \<not> opened then give None
            else
              and_then (get_document fe u) (\<lambda>a.
              and_then (reload_text fe a) (\<lambda>ok. give (if ok then Some a else None))))
      | (u, FileDeleted) \<Rightarrow> and_then (close_document u) (\<lambda>_. give None)
      | (u, FileCreated) \<Rightarrow> give None)"

definition watched_sources_changed ::
    "('s, 't, 'a, 'k, 'c) front_end \<Rightarrow> (uri \<times> file_change_type) list \<Rightarrow>
     (unit, ('s, 't, 'a, 'k) driver) action" where
  "watched_sources_changed fe changes =
     and_then (collect (watched_change fe) changes) (each (analyze_document fe False))"

section \<open>The full compilation\<close>

definition document_trees ::
    "('s, 't, 'a, 'k, 'c) front_end \<Rightarrow> nat list \<Rightarrow> ('t list, ('s, 't, 'a, 'k) driver) action" where
  "document_trees fe = collect (\<lambda>a. and_then (syntax_tree fe a) (\<lambda>t. give (Some t)))"

definition refresh_compilation ::
    "('s, 't, 'a, 'k, 'c) front_end \<Rightarrow> (unit, ('s, 't, 'a, 'k) driver) action" where
  "refresh_compilation fe =
     and_then (look full_compilation) (\<lambda>comp.
       case comp of
         None \<Rightarrow> give ()
       | Some c \<Rightarrow>
           and_then (document_trees fe (compiled_documents c)) (\<lambda>ts.
             change (\<lambda>w. w\<lparr>full_compilation :=
               Some (c\<lparr>design := elaborate fe (library w) (top_name c) ts (Some (design c))\<rparr>)\<rparr>)))"

definition invalidate_analyses :: "(unit, ('s, 't, 'a, 'k) driver) action" where
  "invalidate_analyses =
     and_then (look docs) (\<lambda>entries.
     and_then (each (\<lambda>(u, a). set_doc a (\<lambda>d. d\<lparr>document_analysis := None\<rparr>)) entries) (\<lambda>_.
     and_then (notify CodeLensRefresh) (\<lambda>_. notify InlayHintRefresh)))"

definition set_active_instance ::
    "('s, 't, 'a, 'k, 'c) front_end \<Rightarrow> string \<Rightarrow> (bool, ('s, 't, 'a, 'k) driver) action" where
  "set_active_instance fe p =
     and_then (look full_compilation) (\<lambda>comp.
       case comp of
         None \<Rightarrow> give False
       | Some c \<Rightarrow>
           let (ok, k) = select_instance fe p (design c) in
           and_then (change (\<lambda>w. w\<lparr>full_compilation := Some (c\<lparr>design := k\<rparr>)\<rparr>)) (\<lambda>_.
             if ok then and_then invalidate_analyses (\<lambda>_. give True) else give False))"

definition publish_compilation ::
    "('s, 't, 'a, 'k, 'c) front_end \<Rightarrow> uri option \<Rightarrow> (unit, ('s, 't, 'a, 'k) driver) action" where
  "publish_compilation fe priority =
     and_then (call (\<lambda>s. ((), set_mappings fe None s))) (\<lambda>_.
     and_then (look docs) (\<lambda>entries.
     and_then (each (\<lambda>(u, a). issue_parse_diags fe a) entries) (\<lambda>_.
     and_then (look full_compilation) (\<lambda>comp.
     and_then (case comp of None \<Rightarrow> give () | Some c \<Rightarrow> each (issue_diag fe) (design_diags fe (design c))) (\<lambda>_.
       on_client (case priority of None \<Rightarrow> push_diags | Some u \<Rightarrow> push_diags_first (uri_str u)))))))"

definition doc_did_save ::
    "('s, 't, 'a, 'k, 'c) front_end \<Rightarrow> nat \<Rightarrow> (unit, ('s, 't, 'a, 'k) driver) action" where
  "doc_did_save fe a =
     and_then (syntax_tree fe a) (\<lambda>t.
     and_then (look (\<lambda>w. document_uri (doc_at a w))) (\<lambda>u.
     and_then (change (\<lambda>w. w\<lparr>workspace_index :=
         update_document (path_of u) (tree_parsed fe t) (workspace_index w)\<rparr>)) (\<lambda>_.
     and_then (look full_compilation) (\<lambda>comp.
       if comp = None then
         and_then (analyze_document fe False a) (\<lambda>_.
         and_then (look open_docs) (each (\<lambda>v.
           and_then (look (find_doc v)) (\<lambda>found.
             case found of
               None \<Rightarrow> give ()
             | Some b \<Rightarrow>
                 and_then (look (has_analysis fe b)) (\<lambda>fresh.
                   if uri_eq v u \<or> fresh then give () else analyze_document fe False b)))))
       else
         and_then (on_client clear_all) (\<lambda>_.
         and_then (refresh_compilation fe) (\<lambda>_.
         and_then invalidate_analyses (\<lambda>_.
         and_then (publish_compilation fe (Some u)) (\<lambda>_.
           publish_inactive_regions fe False a))))))))"

text \<open>\<^verbatim>\<open>SlangServer::onDocDidSave\<close>: a text that does not match overwrites the document.\<close>

definition save_document ::
    "('s, 't, 'a, 'k, 'c) front_end \<Rightarrow> uri \<Rightarrow> string option \<Rightarrow> (unit, ('s, 't, 'a, 'k) driver) action" where
  "save_document fe u text =
     and_then (look (is_open u)) (\<lambda>opened.
       if \<not> opened then give ()
       else
         and_then (get_document fe u) (\<lambda>a.
         and_then (look (\<lambda>w. case text of None \<Rightarrow> True | Some s \<Rightarrow> matches_text fe a s w)) (\<lambda>matches.
         and_then
           (if matches then give a
            else and_then (open_document fe u (the text)) (\<lambda>_. get_document fe u)) (\<lambda>a.
           doc_did_save fe a))))"

section \<open>Creating a driver\<close>

definition modules_in_file ::
    "('s, 't, 'a, 'k, 'c) front_end \<Rightarrow> string \<Rightarrow> (string list, ('s, 't, 'a, 'k) driver) action" where
  "modules_in_file fe p =
     and_then (look (find_doc (from_file p))) (\<lambda>found.
       case found of
         None \<Rightarrow> give []
       | Some a \<Rightarrow> and_then (syntax_tree fe a) (\<lambda>t. give (declared_symbols fe t)))"

text \<open>The documents of the parsed build, and every file it reads.\<close>

definition load_tree ::
    "('s, 't, 'a, 'k, 'c) front_end \<Rightarrow> 't \<Rightarrow> (unit, ('s, 't, 'a, 'k) driver) action" where
  "load_tree fe t =
     and_then (change (\<lambda>w. w\<lparr>build_uris :=
         fold (\<lambda>b us. let p = full_path (sources fe (library w)) b
                      in if p = [] then us else insert_uri (from_file p) us)
           (tree_buffers fe t) (build_uris w)\<rparr>)) (\<lambda>_.
     and_then (look (\<lambda>w. from_file (full_path (sources fe (library w)) (hd (tree_buffers fe t))))) (\<lambda>u.
     and_then (doc_from_tree fe t) (\<lambda>a. change (put_doc u a))))"

definition new_driver :: "'s \<Rightarrow> indexer \<Rightarrow> client_event list \<Rightarrow> ('s, 't, 'a, 'k) driver" where
  "new_driver s ix log =
     \<lparr>library = s, heap = [], docs = [], open_docs = [], build_uris = [], full_compilation = None,
      client_state = new_client\<lparr>client_log := log\<rparr>, workspace_index = ix, cancel_polls = [],
      notices = []\<rparr>"

text \<open>Both drivers talk to one editor: the old one empties its documents there first.\<close>

definition copy_open_documents ::
    "('s, 't, 'a, 'k, 'c) front_end \<Rightarrow> ('s, 't, 'a, 'k) driver option \<Rightarrow>
     (unit, ('s, 't, 'a, 'k) driver) action" where
  "copy_open_documents fe old =
     (case old of
        None \<Rightarrow> give ()
      | Some w\<^sub>0 \<Rightarrow>
          and_then (on_client (\<lambda>c. c\<lparr>client_log :=
              client_log (clear_and_push ((client_state w\<^sub>0)\<lparr>client_log := client_log c\<rparr>))\<rparr>)) (\<lambda>_.
            each (\<lambda>u. case find_doc u w\<^sub>0 of
                        None \<Rightarrow> give ()
                      | Some a \<Rightarrow> open_document fe u (butlast (text_of fe a w\<^sub>0)))
              (open_docs w\<^sub>0)))"

fun by_path :: "('s, 't, 'a, 'k) driver \<Rightarrow> nat list \<Rightarrow> nat list" where
  "by_path w [] = []"
| "by_path w (a # as) =
     (let rest = by_path w as; p = (\<lambda>a. path_of (document_uri (doc_at a w)))
      in a # filter (\<lambda>b. p b \<noteq> p a) rest)"

definition make_compilation ::
    "('s, 't, 'a, 'k, 'c) front_end \<Rightarrow> nat list \<Rightarrow> string option \<Rightarrow> (unit, ('s, 't, 'a, 'k) driver) action" where
  "make_compilation fe as root =
     and_then (look (\<lambda>w. by_path w as)) (\<lambda>as.
     and_then (document_trees fe as) (\<lambda>_.
     and_then (document_trees fe as) (\<lambda>ts.
       change (\<lambda>w. w\<lparr>full_compilation :=
         Some \<lparr>compiled_documents = as, top_name = root,
               design = elaborate fe (library w) root ts None\<rparr>\<rparr>))))"

definition create_for_explore ::
    "('s, 't, 'a, 'k, 'c) front_end \<Rightarrow> 't list \<Rightarrow> ('s, 't, 'a, 'k) driver option \<Rightarrow>
     (unit, ('s, 't, 'a, 'k) driver) action" where
  "create_for_explore fe trees old =
     and_then (each (load_tree fe) trees) (\<lambda>_. copy_open_documents fe old)"

definition create_from_file_lists ::
    "('s, 't, 'a, 'k, 'c) front_end \<Rightarrow> 't list \<Rightarrow> ('s, 't, 'a, 'k) driver option \<Rightarrow>
     (unit, ('s, 't, 'a, 'k) driver) action" where
  "create_from_file_lists fe trees old =
     and_then (each (load_tree fe) trees) (\<lambda>_.
     and_then (look (\<lambda>w. List.map snd (docs w))) (\<lambda>as.
       if as = [] then copy_open_documents fe old
       else
         and_then (make_compilation fe as None) (\<lambda>_.
         and_then (on_client clear_all) (\<lambda>_.
         and_then (copy_open_documents fe old) (\<lambda>_.
           publish_compilation fe None)))))"

text \<open>
  The sources of a compilation for one top are found through the index by the loader of the
  library, which starts with the tree of the top and returns all trees.
\<close>

definition top_of :: "('s, 't, 'a, 'k, 'c) front_end \<Rightarrow> 't \<Rightarrow> string option" where
  "top_of fe t =
     (case tree_units fe t of
        [(k, n)] \<Rightarrow> Some n
      | _ \<Rightarrow> (case top_instances fe t of [] \<Rightarrow> None | n # ns \<Rightarrow> Some n))"

definition create_from_top ::
    "('s, 't, 'a, 'k, 'c) front_end \<Rightarrow> 't list \<Rightarrow> uri \<Rightarrow> ('s, 't, 'a, 'k) driver option \<Rightarrow>
     (unit, ('s, 't, 'a, 'k) driver) action" where
  "create_from_top fe trees u old =
     and_then (create_for_explore fe trees old) (\<lambda>_.
     and_then (get_document fe u) (\<lambda>a.
     and_then (syntax_tree fe a) (\<lambda>t.
       case top_of fe t of
         None \<Rightarrow> on_client (send (ShowError (''No top modules found in: '' @ path_of u)))
       | Some root \<Rightarrow>
           and_then (look (\<lambda>w. files_for_symbol (workspace_index w))) (\<lambda>files.
           and_then (call (load_sources fe t files)) (\<lambda>ts.
           and_then (collect (\<lambda>t. and_then (doc_from_tree fe t) (\<lambda>a. give (Some a))) ts) (\<lambda>as.
           and_then (each (\<lambda>a.
             and_then (look (\<lambda>w. document_uri (doc_at a w))) (\<lambda>v. change (put_doc v a))) as) (\<lambda>_.
           and_then (make_compilation fe as (Some root)) (\<lambda>_.
             publish_compilation fe None))))))))"

end
