(* ===== verification/DriverLogic.thy ===== *)
theory DriverLogic
  imports Lifecycle
begin

text \<open>
  A small logic for the actions of the driver: an action is run in a state that satisfies an
  invariant, and leaves a state that satisfies it again and is related to the first, whether it
  fails or not; it never runs out of fuel. The locale \<open>effects\<close> has the rules for the
  combinators. It is interpreted with the soundness of the driver's document table, \<open>sound\<close>, and
  with what an action may change, \<open>steady\<close> and \<open>grows\<close>.
\<close>

named_theorems keeps "actions that keep the driver sound and steady"

section \<open>Runs of actions\<close>

definition runs ::
    "('w \<Rightarrow> bool) \<Rightarrow> ('w \<Rightarrow> 'w \<Rightarrow> bool) \<Rightarrow> ('x, 'w) action \<Rightarrow> 'w \<Rightarrow> ('x \<Rightarrow> 'w \<Rightarrow> bool) \<Rightarrow> bool" where
  "runs ok rel m w Q \<longleftrightarrow>
     ok (snd (m w)) \<and> rel w (snd (m w)) \<and>
     (case fst (m w) of Inl e \<Rightarrow> e \<noteq> OutOfFuel | Inr x \<Rightarrow> Q x (snd (m w)))"

lemma and_then_look: "and_then (look f) g w = g (f w) w"
  by (simp add: and_then_def look_def)

lemma and_then_give [simp]: "and_then (give x) g = g x"
  by (simp add: and_then_def give_def fun_eq_iff)

lemma runs_look [simp]: "runs ok rel (and_then (look f) g) w Q \<longleftrightarrow> runs ok rel (g (f w)) w Q"
  unfolding runs_def and_then_look by (rule refl)

lemma runs_weaken:
  assumes "runs ok rel m w P" and "\<And>x w'. ok w' \<Longrightarrow> rel w w' \<Longrightarrow> P x w' \<Longrightarrow> Q x w'"
    and "\<And>w'. rel w w' \<Longrightarrow> rel' w w'"
  shows "runs ok rel' m w Q"
  using assms by (auto simp: runs_def split: sum.splits)

definition kept :: "('w \<Rightarrow> bool) \<Rightarrow> ('w \<Rightarrow> 'w \<Rightarrow> bool) \<Rightarrow> ('x, 'w) action \<Rightarrow> bool" where
  "kept ok rel m \<longleftrightarrow> (\<forall>w. ok w \<longrightarrow> runs ok rel m w (\<lambda>_ _. True))"

lemma keptI: "(\<And>w. ok w \<Longrightarrow> runs ok rel m w (\<lambda>_ _. True)) \<Longrightarrow> kept ok rel m"
  by (simp add: kept_def)

lemma keptD: "kept ok rel m \<Longrightarrow> ok w \<Longrightarrow> runs ok rel m w (\<lambda>_ _. True)"
  by (simp add: kept_def)

lemma kept_if [keeps]: "kept ok rel m \<Longrightarrow> kept ok rel n \<Longrightarrow> kept ok rel (if c then m else n)"
  by simp

lemma kept_option [keeps]:
  "kept ok rel m \<Longrightarrow> (\<And>x. kept ok rel (f x)) \<Longrightarrow> kept ok rel (case r of None \<Rightarrow> m | Some x \<Rightarrow> f x)"
  by (cases r) simp_all

lemma kept_prod [keeps]: "(\<And>x y. kept ok rel (f x y)) \<Longrightarrow> kept ok rel (case p of (x, y) \<Rightarrow> f x y)"
  by (cases p) simp

locale effects =
  fixes ok :: "'w \<Rightarrow> bool" and rel :: "'w \<Rightarrow> 'w \<Rightarrow> bool"
  assumes refl: "rel w w" and trans: "rel u v \<Longrightarrow> rel v w \<Longrightarrow> rel u w"
begin

lemma runs_give: "ok w \<Longrightarrow> Q x w \<Longrightarrow> runs ok rel (give x) w Q"
  by (simp add: runs_def give_def refl)

lemma runs_raise: "ok w \<Longrightarrow> e \<noteq> OutOfFuel \<Longrightarrow> runs ok rel (raise e) w Q"
  by (simp add: runs_def raise_def refl)

lemma runs_change: "ok (f w) \<Longrightarrow> rel w (f w) \<Longrightarrow> Q () (f w) \<Longrightarrow> runs ok rel (change f) w Q"
  by (simp add: runs_def change_def)

lemma runs_and_then:
  assumes "runs ok rel m w P"
    and "\<And>x w'. ok w' \<Longrightarrow> rel w w' \<Longrightarrow> P x w' \<Longrightarrow> runs ok rel (g x) w' Q"
  shows "runs ok rel (and_then m g) w Q"
proof -
  obtain r v where m: "m w = (r, v)" by (cases "m w")
  show ?thesis
  proof (cases r)
    case (Inl e)
    then show ?thesis using assms(1) m by (simp add: runs_def and_then_def)
  next
    case (Inr x)
    then have v: "ok v" "rel w v" "P x v" using assms(1) m by (simp_all add: runs_def)
    have "and_then m g w = g x v" using Inr m by (simp add: and_then_def)
    with assms(2) [OF v] show ?thesis
      using trans [OF v(2)] by (simp add: runs_def cong: sum.case_cong)
  qed
qed

lemma runs_each:
  assumes "\<And>x w'. x \<in> set xs \<Longrightarrow> ok w' \<Longrightarrow> rel w w' \<Longrightarrow> runs ok rel (f x) w' (\<lambda>_ _. True)"
    and "ok w"
  shows "runs ok rel (each f xs) w (\<lambda>_ _. True)"
  using assms
proof (induction xs arbitrary: w)
  case (Cons x xs)
  show ?case unfolding each.simps
  proof (rule runs_and_then)
    show "runs ok rel (f x) w (\<lambda>_ _. True)" using Cons.prems by (simp add: refl)
    fix w' assume "ok w'" and "rel w w'"
    then show "runs ok rel (each f xs) w' (\<lambda>_ _. True)"
      using Cons.IH [of w'] Cons.prems(1) trans [OF \<open>rel w w'\<close>] by simp
  qed
qed (simp add: runs_give)

lemma runs_collect:
  assumes "\<And>x w'. x \<in> set xs \<Longrightarrow> ok w' \<Longrightarrow> rel w w' \<Longrightarrow>
      runs ok rel (f x) w' (\<lambda>r w''. \<forall>y. r = Some y \<longrightarrow> P y w'')"
    and "ok w" and "\<And>y u v. rel u v \<Longrightarrow> P y u \<Longrightarrow> P y v"
  shows "runs ok rel (collect f xs) w (\<lambda>ys w'. \<forall>y\<in>set ys. P y w')"
  using assms(1,2)
proof (induction xs arbitrary: w)
  case (Cons x xs)
  show ?case unfolding collect.simps
  proof (rule runs_and_then)
    show "runs ok rel (f x) w (\<lambda>r w''. \<forall>y. r = Some y \<longrightarrow> P y w'')"
      using Cons.prems by (simp add: refl)
    fix r w' assume w': "ok w'" "rel w w'" "\<forall>y. r = Some y \<longrightarrow> P y w'"
    show "runs ok rel (and_then (collect f xs) (\<lambda>ys. give (case r of None \<Rightarrow> ys | Some y \<Rightarrow> y # ys)))
        w' (\<lambda>ys w'. \<forall>y\<in>set ys. P y w')"
    proof (rule runs_and_then)
      show "runs ok rel (collect f xs) w' (\<lambda>ys w'. \<forall>y\<in>set ys. P y w')"
        using Cons.IH [of w'] Cons.prems(1) trans [OF w'(2)] w'(1) by simp
      fix ys w'' assume "ok w''" "rel w' w''" "\<forall>y\<in>set ys. P y w''"
      then show "runs ok rel (give (case r of None \<Rightarrow> ys | Some y \<Rightarrow> y # ys)) w''
          (\<lambda>ys w'. \<forall>y\<in>set ys. P y w')"
        using w'(3) assms(3) by (cases r) (auto intro!: runs_give)
    qed
  qed
qed (simp add: runs_give)

lemma runs_thread:
  assumes "\<And>x y w'. x \<in> set xs \<Longrightarrow> ok w' \<Longrightarrow> rel w w' \<Longrightarrow> P y w' \<Longrightarrow> runs ok rel (f x y) w' P"
    and "ok w" and "P y w"
  shows "runs ok rel (thread f xs y) w P"
  using assms
proof (induction xs arbitrary: w y)
  case (Cons x xs)
  show ?case unfolding thread.simps
  proof (rule runs_and_then)
    show "runs ok rel (f x y) w P" using Cons.prems by (simp add: refl)
    fix z w' assume "ok w'" "rel w w'" "P z w'"
    then show "runs ok rel (thread f xs z) w' P"
      using Cons.IH [of w' z] Cons.prems(1) trans [OF \<open>rel w w'\<close>] by simp
  qed
qed (simp add: runs_give)

lemma kept_and_then [keeps]:
  "kept ok rel m \<Longrightarrow> (\<And>x. kept ok rel (f x)) \<Longrightarrow> kept ok rel (and_then m f)"
  by (auto simp: kept_def intro!: runs_and_then)

lemma kept_give [keeps]: "kept ok rel (give x)"
  by (simp add: kept_def runs_give)

lemma kept_look [keeps]: "kept ok rel (look f)"
  by (simp add: kept_def runs_def look_def refl)

lemma kept_raise [keeps]: "e \<noteq> OutOfFuel \<Longrightarrow> kept ok rel (raise e)"
  by (simp add: kept_def runs_raise)

lemma kept_each [keeps]: "(\<And>x. kept ok rel (f x)) \<Longrightarrow> kept ok rel (each f xs)"
  by (auto intro!: keptI runs_each simp: keptD)

lemma kept_thread [keeps]: "(\<And>x y. kept ok rel (f x y)) \<Longrightarrow> kept ok rel (thread f xs y)"
  by (induction xs arbitrary: y) (auto intro: kept_give kept_and_then)

lemma kept_collect [keeps]: "(\<And>x. kept ok rel (f x)) \<Longrightarrow> kept ok rel (collect f xs)"
  by (induction xs) (auto intro: kept_give kept_and_then)

end

section \<open>A sound document table\<close>

definition owner_links :: "('s, 't, 'a, 'k) driver \<Rightarrow> (nat \<times> nat) set" where
  "owner_links w = {(a, b). b \<in> set (include_owners (doc_at a w))}"

definition sound :: "('s, 't, 'a, 'k) driver \<Rightarrow> bool" where
  "sound w \<longleftrightarrow>
     distinct (List.map (\<lambda>(u, a). uri_str u) (docs w)) \<and>
     (\<forall>(u, a) \<in> set (docs w). a < length (heap w) \<and> uri_eq (document_uri (doc_at a w)) u) \<and>
     (\<forall>a. set (include_owners (doc_at a w)) \<subseteq> {..<length (heap w)}) \<and>
     acyclic (owner_links w)"

text \<open>
  What an action keeps: documents stay, with their URI and, outside \<open>A\<close>, their owners; documents
  that can be found are found again; the index and the set of open documents are the same.
\<close>

definition steady :: "nat set \<Rightarrow> ('s, 't, 'a, 'k) driver \<Rightarrow> ('s, 't, 'a, 'k) driver \<Rightarrow> bool" where
  "steady A w w' \<longleftrightarrow>
     length (heap w) \<le> length (heap w') \<and>
     workspace_index w' = workspace_index w \<and> open_docs w' = open_docs w \<and>
     (\<forall>u a. find_doc u w = Some a \<longrightarrow> find_doc u w' = Some a) \<and>
     (\<forall>a < length (heap w). document_uri (doc_at a w') = document_uri (doc_at a w) \<and>
        (a \<notin> A \<longrightarrow> include_owners (doc_at a w') = include_owners (doc_at a w)))"

text \<open>Nothing is found that was not.\<close>

definition held :: "('s, 't, 'a, 'k) driver \<Rightarrow> ('s, 't, 'a, 'k) driver \<Rightarrow> bool" where
  "held w w' \<longleftrightarrow> steady {} w w' \<and> docs w' = docs w"

definition grows :: "('s, 't, 'a, 'k) driver \<Rightarrow> ('s, 't, 'a, 'k) driver \<Rightarrow> bool" where
  "grows w w' \<longleftrightarrow> length (heap w) \<le> length (heap w') \<and> workspace_index w' = workspace_index w"

text \<open>The index may be another one.\<close>

definition widens :: "('s, 't, 'a, 'k) driver \<Rightarrow> ('s, 't, 'a, 'k) driver \<Rightarrow> bool" where
  "widens w w' \<longleftrightarrow> length (heap w) \<le> length (heap w')"

interpretation steady: effects sound "steady A" for A
  by unfold_locales (auto simp: steady_def)

interpretation held: effects sound held
  by unfold_locales (auto simp: steady_def held_def)

interpretation grows: effects sound grows
  by unfold_locales (auto simp: grows_def)

interpretation widens: effects sound widens
  by unfold_locales (auto simp: widens_def)

lemma grows_widens: "grows w w' \<Longrightarrow> widens w w'"
  by (simp add: grows_def widens_def)

lemma steady_mono: "steady A w w' \<Longrightarrow> A \<subseteq> B \<Longrightarrow> steady B w w'"
  by (auto simp: steady_def)

lemma steady_grows: "steady A w w' \<Longrightarrow> grows w w'"
  by (simp add: steady_def grows_def)

lemma steady_valid: "steady A w w' \<Longrightarrow> a < length (heap w) \<Longrightarrow> a < length (heap w')"
  by (simp add: steady_def)

lemma grows_valid: "grows w w' \<Longrightarrow> a < length (heap w) \<Longrightarrow> a < length (heap w')"
  by (simp add: grows_def)

text \<open>What is not the table does not matter.\<close>

lemma doc_at_simps [simp]:
  "doc_at a (w\<lparr>library := s\<rparr>) = doc_at a w" "doc_at a (w\<lparr>docs := d\<rparr>) = doc_at a w"
  "doc_at a (w\<lparr>open_docs := us\<rparr>) = doc_at a w" "doc_at a (w\<lparr>build_uris := us\<rparr>) = doc_at a w"
  "doc_at a (w\<lparr>full_compilation := c\<rparr>) = doc_at a w" "doc_at a (w\<lparr>client_state := k\<rparr>) = doc_at a w"
  "doc_at a (w\<lparr>workspace_index := ix\<rparr>) = doc_at a w" "doc_at a (w\<lparr>cancel_polls := ps\<rparr>) = doc_at a w"
  "doc_at a (w\<lparr>notices := ns\<rparr>) = doc_at a w"
  by (simp_all add: doc_at_def)

lemma find_doc_simps [simp]:
  "find_doc u (w\<lparr>library := s\<rparr>) = find_doc u w" "find_doc u (w\<lparr>heap := h\<rparr>) = find_doc u w"
  "find_doc u (w\<lparr>open_docs := us\<rparr>) = find_doc u w" "find_doc u (w\<lparr>build_uris := us\<rparr>) = find_doc u w"
  "find_doc u (w\<lparr>full_compilation := c\<rparr>) = find_doc u w" "find_doc u (w\<lparr>client_state := k\<rparr>) = find_doc u w"
  "find_doc u (w\<lparr>workspace_index := ix\<rparr>) = find_doc u w" "find_doc u (w\<lparr>cancel_polls := ps\<rparr>) = find_doc u w"
  "find_doc u (w\<lparr>notices := ns\<rparr>) = find_doc u w"
  by (simp_all add: find_doc_def)

lemma doc_at_update:
  "doc_at b (w\<lparr>heap := (heap w)[a := d]\<rparr>) = (if b = a \<and> a < length (heap w) then d else doc_at b w)"
  by (simp add: doc_at_def nth_default_def)

lemma doc_at_append:
  "doc_at b (w\<lparr>heap := heap w @ [d]\<rparr>) = (if b = length (heap w) then d else doc_at b w)"
  by (simp add: doc_at_def nth_default_def nth_append)

lemma doc_at_beyond [simp]: "length (heap w) \<le> a \<Longrightarrow> doc_at a w = no_document"
  by (simp add: doc_at_def nth_default_def)

lemma owners_valid: "sound w \<Longrightarrow> b \<in> set (include_owners (doc_at a w)) \<Longrightarrow> b < length (heap w)"
  by (auto simp: sound_def)

section \<open>Actions that keep the table\<close>

lemma kept_weaken: "kept ok rel m \<Longrightarrow> (\<And>w w'. rel w w' \<Longrightarrow> rel' w w') \<Longrightarrow> kept ok rel' m"
  by (rule keptI) (rule runs_weaken [OF keptD])

lemma kept_steady: "kept sound held m \<Longrightarrow> kept sound (steady A) m"
  by (erule kept_weaken) (auto simp: held_def intro: steady_mono)

lemma sound_table:
  assumes "heap w' = heap w" "docs w' = docs w" "workspace_index w' = workspace_index w"
    "open_docs w' = open_docs w" "sound w"
  shows "sound w'" "held w w'"
proof -
  have "doc_at a w' = doc_at a w" "find_doc u w' = find_doc u w" for a u
    using assms(1,2) by (simp_all add: doc_at_def find_doc_def)
  with assms show "sound w'" "held w w'"
    by (simp_all add: sound_def held_def steady_def owner_links_def)
qed

lemma kept_change:
  assumes "\<And>w. heap (f w) = heap w" "\<And>w. docs (f w) = docs w"
    "\<And>w. workspace_index (f w) = workspace_index w" "\<And>w. open_docs (f w) = open_docs w"
  shows "kept sound held (change f)"
  using sound_table [OF assms] by (auto intro!: keptI held.runs_change)

lemma call_held: "kept sound held (call f)"
  by (auto simp: kept_def runs_def call_def intro: sound_table)

lemma call_value_held: "kept sound held (call_value f)"
  unfolding call_value_def by (intro keeps call_held) simp

lemma on_client_held: "kept sound held (on_client f)"
  unfolding on_client_def by (rule kept_change) simp_all

lemma notify_held: "kept sound held (notify n)"
  unfolding notify_def by (rule kept_change) simp_all

lemma check_cancelled_held: "kept sound held (check_cancelled tracked s)"
  by (auto simp: kept_def runs_def check_cancelled_def held.refl split: list.splits
      intro: sound_table)

lemma poll_cancelled_held: "kept sound held (poll_cancelled tracked)"
  by (auto simp: kept_def runs_def poll_cancelled_def held.refl split: list.splits
      intro: sound_table)

lemma set_doc_held:
  fixes f :: "('t, 'a) document \<Rightarrow> ('t, 'a) document"
  assumes "\<And>d. document_uri (f d) = document_uri d" "\<And>d. include_owners (f d) = include_owners d"
  shows "kept sound held (set_doc a f :: (unit, ('s, 't, 'a, 'k) driver) action)"
proof -
  have *: "document_uri (doc_at b (w\<lparr>heap := (heap w)[a := f (doc_at a w)]\<rparr>)) = document_uri (doc_at b w)"
    "include_owners (doc_at b (w\<lparr>heap := (heap w)[a := f (doc_at a w)]\<rparr>)) = include_owners (doc_at b w)"
    for b and w :: "('s, 't, 'a, 'k) driver"
    using assms by (simp_all add: doc_at_update)
  show ?thesis unfolding set_doc_def
    by (auto intro!: keptI held.runs_change
        simp: sound_def steady_def held_def owner_links_def * split: prod.splits)
qed

lemmas base_held = call_held call_value_held on_client_held notify_held check_cancelled_held
  poll_cancelled_held set_doc_held

lemmas [keeps] = base_held base_held [THEN kept_steady]

end
