(* ===== verification/OwnerGraph.thy ===== *)
theory OwnerGraph
  imports DriverLogic
begin

text \<open>
  The operations that make, find and bind documents keep the document table sound: a document is
  not, directly or through others, its own owner, so the recursion along owners is bounded by the
  number of documents.
\<close>

section \<open>The chain of owners\<close>

definition rank :: "('s, 't, 'a, 'k) driver \<Rightarrow> nat \<Rightarrow> nat" where
  "rank w a = card ((owner_links w)\<^sup>+ `` {a})"

lemma links_below: "sound w \<Longrightarrow> (owner_links w)\<^sup>+ `` {a} \<subseteq> {..<length (heap w)}"
  by (auto elim: tranclE dest: owners_valid simp: owner_links_def)

lemma rank_bounded: "sound w \<Longrightarrow> rank w a \<le> length (heap w)"
  using card_mono [OF finite_lessThan links_below [of w a]] by (simp add: rank_def)

lemma rank_owner:
  assumes "sound w" and "b \<in> set (include_owners (doc_at a w))"
  shows "rank w b < rank w a"
proof -
  have ab: "(a, b) \<in> owner_links w" using assms(2) by (simp add: owner_links_def)
  then have "(owner_links w)\<^sup>+ `` {b} \<subseteq> (owner_links w)\<^sup>+ `` {a}"
    and "b \<in> (owner_links w)\<^sup>+ `` {a}"
    by (auto intro: trancl_into_trancl2)
  moreover have "b \<notin> (owner_links w)\<^sup>+ `` {b}"
    using assms(1) by (simp add: sound_def acyclic_def)
  ultimately have "(owner_links w)\<^sup>+ `` {b} \<subset> (owner_links w)\<^sup>+ `` {a}" by blast
  moreover have "finite ((owner_links w)\<^sup>+ `` {a})"
    using finite_subset [OF links_below finite_lessThan] assms(1) .
  ultimately show ?thesis unfolding rank_def by (rule psubset_card_mono [rotated])
qed

lemma owners_steady:
  assumes "steady {} w w'" and "a < length (heap w)"
  shows "include_owners (doc_at a w') = include_owners (doc_at a w)"
  using assms by (simp add: steady_def)

lemma rank_steady:
  assumes "steady {} w w'" and "sound w" and "a < length (heap w)"
  shows "rank w' a = rank w a"
proof -
  have link: "(x, y) \<in> owner_links w' \<longleftrightarrow> (x, y) \<in> owner_links w" if "x < length (heap w)" for x y
    using owners_steady [OF assms(1) that] by (simp add: owner_links_def)
  have valid: "y < length (heap w)" if "(x, y) \<in> owner_links w" for x y
    using that owners_valid [OF assms(2)] by (simp add: owner_links_def)
  have "(a, y) \<in> (owner_links w)\<^sup>+ \<and> y < length (heap w)" if "(a, y) \<in> (owner_links w')\<^sup>+" for y
    using that
  proof (induction rule: trancl_induct)
    case (base y)
    then show ?case using link [OF assms(3)] valid by auto
  next
    case (step y z)
    then have "(y, z) \<in> owner_links w" using link by blast
    with step.IH show ?case using valid by (auto intro: trancl_into_trancl)
  qed
  moreover have "(a, y) \<in> (owner_links w')\<^sup>+ \<and> y < length (heap w)" if "(a, y) \<in> (owner_links w)\<^sup>+" for y
    using that
  proof (induction rule: trancl_induct)
    case (base y)
    then show ?case using link [OF assms(3)] valid by auto
  next
    case (step y z)
    then have "(y, z) \<in> owner_links w'" using link by blast
    with step show ?case using valid by (auto intro: trancl_into_trancl)
  qed
  ultimately have "(owner_links w')\<^sup>+ `` {a} = (owner_links w)\<^sup>+ `` {a}" by blast
  then show ?thesis by (simp add: rank_def)
qed

section \<open>Syntax trees\<close>

lemma parse_document_held [keeps]: "kept sound held (parse_document fe a again)"
  unfolding parse_document_def by (intro keeps) simp_all

lemma own_tree_held [keeps]: "kept sound held (own_tree fe a)"
  unfolding own_tree_def by (intro keeps)

lemma tree_within_held:
  "sound w \<Longrightarrow> rank w a < n \<Longrightarrow> runs sound held (tree_within fe n a) w (\<lambda>_ _. True)"
proof (induction n arbitrary: a)
  case (Suc n)
  show ?case
  proof (cases "include_owners (doc_at a w)")
    case Nil
    then show ?thesis using keptD [OF own_tree_held Suc.prems(1)] by simp
  next
    case (Cons ow ows)
    then have "rank w ow < n" using rank_owner [OF Suc.prems(1), of ow a] Suc.prems(2) by simp
    note first = Suc.IH [OF Suc.prems(1) this]
    show ?thesis using Cons
      by (simp, intro held.runs_and_then [OF first] keptD keeps) simp_all
  qed
qed simp

lemma syntax_tree_held:
  fixes fe :: "('s, 't, 'a, 'k, 'c) front_end"
  shows "kept sound held (syntax_tree fe a)"
proof (rule keptI)
  fix w :: "('s, 't, 'a, 'k) driver" assume w: "sound w"
  show "runs sound held (syntax_tree fe a) w (\<lambda>_ _. True)"
    unfolding syntax_tree_def runs_look
    by (rule tree_within_held [OF w]) (simp add: less_Suc_eq_le rank_bounded [OF w])
qed

lemmas [keeps] = syntax_tree_held syntax_tree_held [THEN kept_steady]

lemma classify_held: "kept sound held (classify fe a)"
  unfolding classify_def by (intro keeps)

lemmas [keeps] = classify_held classify_held [THEN kept_steady]

section \<open>New documents\<close>

definition doc_of :: "uri \<Rightarrow> nat \<Rightarrow> ('s, 't, 'a, 'k) driver \<Rightarrow> bool" where
  "doc_of u a w \<longleftrightarrow> a < length (heap w) \<and> uri_eq (document_uri (doc_at a w)) u"

lemma doc_of_steady: "steady A w w' \<Longrightarrow> doc_of u a w \<Longrightarrow> doc_of u a w'"
  by (auto simp: doc_of_def steady_def)

lemma doc_of_held: "held w w' \<Longrightarrow> doc_of u a w \<Longrightarrow> doc_of u a w'"
  by (auto simp: held_def intro: doc_of_steady)

lemma held_valid: "held w w' \<Longrightarrow> a < length (heap w) \<Longrightarrow> a < length (heap w')"
  by (auto simp: held_def intro: steady_valid)

lemma acyclic_fresh:
  assumes "finite S" and "acyclic r" and "\<And>a. (a, n) \<notin> r" and "n \<notin> S"
  shows "acyclic (r \<union> {n} \<times> S)"
  using assms(1,4)
proof (induction S rule: finite_induct)
  case (insert s S)
  have "(s, n) \<notin> (r \<union> {n} \<times> S)\<^sup>*"
    using insert.prems assms(3) by (auto elim: rtranclE)
  moreover have "r \<union> {n} \<times> insert s S = insert (n, s) (r \<union> {n} \<times> S)" by blast
  ultimately show ?case using insert by simp
qed (simp add: assms(2))

lemma new_doc_runs:
  fixes w :: "('s, 't, 'a, 'k) driver"
  assumes "sound w" and "set owners \<subseteq> {..<length (heap w)}"
  shows "runs sound held (new_doc u b owners) w
    (\<lambda>a w'. doc_of u a w' \<and> include_owners (doc_at a w') = owners)"
proof -
  define d :: "('t, 'a) document" where
    "d = \<lparr>document_uri = u, document_buffer = b, document_tree = None,
          document_analysis = None, include_owners = owners\<rparr>"
  define w' where "w' = w\<lparr>heap := heap w @ [d]\<rparr>"
  have at: "doc_at a w' = (if a = length (heap w) then d else doc_at a w)" for a
    by (simp add: w'_def doc_at_append)
  have "owner_links w' = owner_links w \<union> {length (heap w)} \<times> set owners"
    by (auto simp: owner_links_def at d_def no_document_def split: if_splits)
  moreover have "(a, length (heap w)) \<notin> owner_links w" for a
    using owners_valid [OF assms(1)] by (auto simp: owner_links_def)
  ultimately have acyclic: "acyclic (owner_links w')"
    using assms by (auto intro!: acyclic_fresh simp: sound_def)
  have d: "include_owners d = owners" "document_uri d = u" by (simp_all add: d_def)
  have same: "length (heap w') = Suc (length (heap w))" "docs w' = docs w"
    "workspace_index w' = workspace_index w" "open_docs w' = open_docs w"
    "find_doc v w' = find_doc v w" for v
    by (simp_all add: w'_def)
  have "set (include_owners (doc_at a w')) \<subseteq> {..<length (heap w')}" for a
    using assms(2) owners_valid [OF assms(1), of _ a] by (auto simp: at same(1) d intro: less_SucI)
  moreover have "\<forall>(v, a) \<in> set (docs w'). a < length (heap w') \<and> uri_eq (document_uri (doc_at a w')) v"
    using assms(1) by (auto simp: sound_def at same)
  moreover have "distinct (List.map (\<lambda>(u, a). uri_str u) (docs w'))"
    using assms(1) by (simp add: sound_def same(2))
  ultimately have "sound w'" unfolding sound_def using acyclic by blast
  moreover have "held w w'" by (simp add: held_def steady_def at same)
  moreover have "new_doc u b owners w = (Inr (length (heap w)), w')"
    by (simp add: new_doc_def and_then_def look_def change_def give_def w'_def d_def)
  ultimately show ?thesis by (simp add: runs_def doc_of_def at d same uri_eq_def cong: sum.case_cong)
qed

lemma doc_open_runs: "sound w \<Longrightarrow> runs sound held (doc_open fe u) w (doc_of u)"
  unfolding doc_open_def
  by (rule held.runs_and_then [OF keptD [OF call_value_held]])
    (auto intro: runs_weaken [OF new_doc_runs])

lemma doc_from_text_runs: "sound w \<Longrightarrow> runs sound held (doc_from_text fe u text) w (doc_of u)"
  unfolding doc_from_text_def
  by (simp, intro conjI impI; rule held.runs_and_then [OF keptD])
    (auto intro: keeps runs_weaken [OF new_doc_runs])

section \<open>Finding owners\<close>

lemma sound_entry:
  assumes "sound w" and "(v, a) \<in> set (docs w)"
  shows "doc_of v a w"
  using assms by (auto simp: sound_def doc_of_def)

definition free_owner :: "uri \<Rightarrow> nat \<Rightarrow> ('s, 't, 'a, 'k) driver \<Rightarrow> bool" where
  "free_owner u a w \<longleftrightarrow>
     a < length (heap w) \<and> include_owners (doc_at a w) = [] \<and> \<not> uri_eq (document_uri (doc_at a w)) u"

lemma free_owner_steady: "steady A w w' \<Longrightarrow> a \<notin> A \<Longrightarrow> free_owner u a w \<Longrightarrow> free_owner u a w'"
  by (auto simp: free_owner_def steady_def)

lemma free_owner_held: "held w w' \<Longrightarrow> free_owner u a w \<Longrightarrow> free_owner u a w'"
  by (auto simp: held_def intro: free_owner_steady)

lemma find_include_owners_runs:
  assumes "sound w"
  shows "runs sound held (find_include_owners fe u) w (\<lambda>ys w'. \<forall>y \<in> set ys. free_owner u y w')"
proof (cases "resolve_fragments fe")
  case True
  have entry: "runs sound held
      (and_then (look (\<lambda>w. include_owners (doc_at a w) \<noteq> [])) (\<lambda>fragment.
         if uri_eq v u \<or> fragment then give None
         else and_then (syntax_tree fe a) (\<lambda>t. and_then (look (tree_includes fe t u)) (\<lambda>found.
           give (if found then Some a else None)))))
      w' (\<lambda>r w''. \<forall>y. r = Some y \<longrightarrow> free_owner u y w'')"
    if "sound w'" and "held w w'" and "(v, a) \<in> set (docs w)" for v a w'
  proof -
    have a: "doc_of v a w'" using doc_of_held [OF that(2) sound_entry [OF assms that(3)]] .
    show ?thesis
    proof (cases "uri_eq v u \<or> include_owners (doc_at a w') \<noteq> []")
      case False
      then have "free_owner u a w'" using a by (auto simp: free_owner_def doc_of_def uri_eq_def)
      then show ?thesis using False that(1)
        by (simp, intro held.runs_and_then [OF keptD [OF syntax_tree_held]])
          (auto intro!: held.runs_give intro: free_owner_held)
    qed (use that(1) in \<open>auto intro!: held.runs_give\<close>)
  qed
  show ?thesis using True assms entry
    by (auto simp: find_include_owners_def intro!: held.runs_collect intro: free_owner_held)
qed (simp add: find_include_owners_def held.runs_give assms)

lemma find_include_owners_held: "kept sound held (find_include_owners fe u)"
  by (rule keptI) (rule runs_weaken [OF find_include_owners_runs], simp_all)

lemma doc_from_owner_runs:
  assumes "sound w" and "set owners \<subseteq> {..<length (heap w)}"
  shows "runs sound held (doc_from_owner fe u text owners) w (doc_of u)"
proof (cases owners)
  case (Cons ow ows)
  have "runs sound held
      (and_then (case text of None \<Rightarrow> give b | Some s \<Rightarrow> sync_owner_buffer fe b s)
        (\<lambda>b. new_doc u b owners)) w' (doc_of u)" if "sound w'" "held w w'" for b w'
  proof (rule held.runs_and_then [OF keptD])
    show "kept sound held (case text of None \<Rightarrow> give b | Some s \<Rightarrow> sync_owner_buffer fe b s)"
      unfolding sync_owner_buffer_def by (intro keeps)
  next
    fix b' w'' assume "sound w''" "held w' w''"
    then have "set owners \<subseteq> {..<length (heap w'')}"
      using assms(2) by (auto intro!: held_valid [OF \<open>held w' w''\<close>] held_valid [OF that(2)])
    then show "runs sound held (new_doc u b' owners) w'' (doc_of u)"
      using runs_weaken [OF new_doc_runs] \<open>sound w''\<close> by blast
  qed (rule that)
  then show ?thesis using Cons assms(1)
    by (auto simp: doc_from_owner_def intro!: held.runs_and_then [OF keptD [OF syntax_tree_held]]
        held.runs_raise split: option.split)
qed (simp add: doc_from_owner_def held.runs_raise assms(1))

lemma resolve_document_runs:
  assumes "sound w"
  shows "runs sound held (resolve_document fe u text) w (doc_of u)"
  unfolding resolve_document_def
proof (rule held.runs_and_then [OF find_include_owners_runs [OF assms]])
  fix owners w1
  assume w1: "sound w1" "held w w1" "\<forall>y \<in> set owners. free_owner u y w1"
  show "runs sound held
      (if owners = [] then (case text of Some s \<Rightarrow> doc_from_text fe u s | None \<Rightarrow> doc_open fe u)
       else and_then (doc_open fe u) (\<lambda>standalone. and_then (classify fe standalone) (\<lambda>c.
         case c of
           Standalone \<Rightarrow> (case text of Some s \<Rightarrow> doc_from_text fe u s | None \<Rightarrow> give standalone)
         | Fragment \<Rightarrow> doc_from_owner fe u text owners))) w1 (doc_of u)"
  proof (cases "owners = []")
    case True
    then show ?thesis using w1(1) by (auto intro: doc_open_runs doc_from_text_runs split: option.split)
  next
    case False
    have "runs sound held (and_then (doc_open fe u) (\<lambda>standalone. and_then (classify fe standalone) (\<lambda>c.
         case c of
           Standalone \<Rightarrow> (case text of Some s \<Rightarrow> doc_from_text fe u s | None \<Rightarrow> give standalone)
         | Fragment \<Rightarrow> doc_from_owner fe u text owners))) w1 (doc_of u)"
    proof (rule held.runs_and_then [OF doc_open_runs [OF w1(1)]],
        rule held.runs_and_then [OF keptD [OF classify_held]])
      fix a w2 c w3
      assume w2: "sound w2" "held w1 w2" "doc_of u a w2" and w3: "sound w3" "held w2 w3"
      have "set owners \<subseteq> {..<length (heap w3)}"
        using w1(3) held_valid [OF w3(2)] held_valid [OF w2(2)] by (auto simp: free_owner_def)
      then show "runs sound held (case c of
           Standalone \<Rightarrow> (case text of Some s \<Rightarrow> doc_from_text fe u s | None \<Rightarrow> give a)
         | Fragment \<Rightarrow> doc_from_owner fe u text owners) w3 (doc_of u)"
        using w3 doc_of_held [OF w3(2) w2(3)]
        by (auto intro: doc_from_text_runs doc_from_owner_runs held.runs_give
            split: standalone_parse.split option.split)
    qed
    then show ?thesis using False by simp
  qed
qed

section \<open>The document table\<close>

abbreviation table :: "('s, 't, 'a, 'k) driver \<Rightarrow> (string \<times> nat) list" where
  "table w \<equiv> List.map (\<lambda>(v, a). (uri_str v, a)) (docs w)"

lemma find_doc_map_of: "find_doc u w = map_of (table w) (uri_str u)"
proof -
  have "map_option snd (List.find (\<lambda>(v, a). uri_eq v u) es) =
      map_of (List.map (\<lambda>(v, a). (uri_str v, a)) es) (uri_str u)" for es :: "(uri \<times> nat) list"
  proof (induction es)
    case (Cons e es)
    then show ?case by (cases e) (simp add: uri_eq_def uri_str_def)
  qed simp
  from this [of "docs w"] show ?thesis unfolding find_doc_def .
qed

lemma find_doc_None: "find_doc u w = None \<longleftrightarrow> (\<forall>(v, a) \<in> set (docs w). \<not> uri_eq v u)"
  by (force simp: find_doc_map_of map_of_eq_None_iff uri_eq_def uri_str_def)

lemma find_doc_Some: "find_doc u w = Some a \<Longrightarrow> \<exists>v. (v, a) \<in> set (docs w) \<and> uri_eq v u"
  unfolding find_doc_map_of by (drule map_of_SomeD) (auto simp: uri_eq_def uri_str_def)

lemma find_doc_of:
  assumes "sound w" and "find_doc u w = Some a"
  shows "doc_of u a w"
proof -
  obtain v where "(v, a) \<in> set (docs w)" "uri_eq v u" using find_doc_Some [OF assms(2)] by blast
  with sound_entry [OF assms(1) this(1)] show ?thesis by (auto simp: doc_of_def uri_eq_def)
qed

lemma put_doc_simps [simp]:
  "heap (put_doc u a w) = heap w" "workspace_index (put_doc u a w) = workspace_index w"
  "open_docs (put_doc u a w) = open_docs w" "doc_at b (put_doc u a w) = doc_at b w"
  by (simp_all add: put_doc_def doc_at_def)

lemma find_put_doc: "find_doc v (put_doc u a w) = (if uri_eq v u then Some a else find_doc v w)"
proof (cases "find_doc u w")
  case None
  then show ?thesis
    by (auto simp: find_doc_map_of put_doc_def map_add_def uri_eq_def uri_str_def split: option.split)
next
  case (Some c)
  have *: "map_of (List.map (\<lambda>(x, b). (uri_str x, b))
        (List.map (\<lambda>(x, b). (x, if uri_eq x u then a else b)) es)) (uri_str v) =
      (if uri_eq v u then map_option (\<lambda>_. a) (map_of (List.map (\<lambda>(x, b). (uri_str x, b)) es) (uri_str u))
       else map_of (List.map (\<lambda>(x, b). (uri_str x, b)) es) (uri_str v))" for es :: "(uri \<times> nat) list"
    by (induction es) (auto simp: uri_eq_def uri_str_def)
  show ?thesis using Some * [of "docs w"] by (simp add: find_doc_map_of put_doc_def)
qed

lemma put_doc_sound:
  assumes "sound w" and "doc_of u a w"
  shows "sound (put_doc u a w)"
proof -
  have links: "owner_links (put_doc u a w) = owner_links w" by (simp add: owner_links_def)
  have keys: "distinct (List.map (\<lambda>(u, a). uri_str u) (docs (put_doc u a w)))"
  proof (cases "find_doc u w")
    case None
    then show ?thesis using assms(1)
      by (auto simp: put_doc_def sound_def find_doc_None uri_eq_def uri_str_def)
  next
    case (Some c)
    have "List.map (\<lambda>(u, a). uri_str u) (docs (put_doc u a w)) = List.map (\<lambda>(u, a). uri_str u) (docs w)"
      by (simp add: put_doc_def Some split_def comp_def)
    then show ?thesis using assms(1) by (simp add: sound_def)
  qed
  have "b < length (heap w) \<and> uri_eq (document_uri (doc_at b w)) v"
    if "(v, b) \<in> set (docs (put_doc u a w))" for v b
    using that sound_entry [OF assms(1)] assms(2)
    by (auto simp: put_doc_def doc_of_def uri_eq_def split: if_splits)
  with links keys assms(1) show ?thesis by (auto simp: sound_def)
qed

lemma get_document_runs:
  assumes "sound w"
  shows "runs sound (steady {}) (get_document fe u) w (\<lambda>a w'. doc_of u a w' \<and> find_doc u w' = Some a)"
proof (cases "find_doc u w")
  case None
  have "runs sound held (resolve_document fe u None) w (\<lambda>a w'. doc_of u a w' \<and> find_doc u w' = None)"
    by (rule runs_weaken [OF resolve_document_runs [OF assms]])
      (use None in \<open>auto simp: held_def find_doc_def\<close>)
  from runs_weaken [OF this, where rel' = "steady {}" and Q = "\<lambda>a w'. doc_of u a w' \<and> find_doc u w' = None"]
  have resolved: "runs sound (steady {}) (resolve_document fe u None) w
      (\<lambda>a w'. doc_of u a w' \<and> find_doc u w' = None)"
    by (simp add: held_def)
  have "runs sound (steady {}) (and_then (change (put_doc u a)) (\<lambda>_. give a)) w'
      (\<lambda>a w'. doc_of u a w' \<and> find_doc u w' = Some a)"
    if "sound w'" "doc_of u a w'" "find_doc u w' = None" for a w'
  proof (rule steady.runs_and_then)
    show "runs sound (steady {}) (change (put_doc u a)) w'
        (\<lambda>_ w'. doc_of u a w' \<and> find_doc u w' = Some a)"
      using that put_doc_sound [OF that(1,2)]
      by (auto intro!: steady.runs_change simp: doc_of_def steady_def find_put_doc)
        (auto simp: find_doc_None uri_eq_def dest!: find_doc_Some)
  qed (simp add: steady.runs_give)
  then show ?thesis using None
    by (auto simp: get_document_def intro!: steady.runs_and_then [OF resolved])
next
  case (Some a)
  then show ?thesis using find_doc_of [OF assms Some] assms
    by (simp add: get_document_def steady.runs_give)
qed

lemma get_document_kept [keeps]: "kept sound (steady {}) (get_document fe u)"
  by (rule keptI) (rule runs_weaken [OF get_document_runs], simp_all)

end
