(* ===== verification/Dependencies.thy ===== *)
theory Dependencies
  imports OwnerGraph
begin

text \<open>
  The trees \<^verbatim>\<open>getDependentTrees\<close> loads: the loop ends after as many rounds as the index
  has locations, and what it loads is closed under references.
\<close>

section \<open>The invariant of the loop\<close>

definition expanded :: "('s, 't, 'a, 'k, 'c) front_end \<Rightarrow> 't \<Rightarrow> 't list \<Rightarrow> 't set" where
  "expanded fe t ts = insert t (set (filter (is_type_source fe) ts))"

definition referenced_in :: "('s, 't, 'a, 'k, 'c) front_end \<Rightarrow> 't set \<Rightarrow> string set" where
  "referenced_in fe T = (\<Union>t\<in>T. set (referenced_symbols fe t))"

definition declared_in :: "('s, 't, 'a, 'k, 'c) front_end \<Rightarrow> 't set \<Rightarrow> string set" where
  "declared_in fe T = (\<Union>t\<in>T. set (declared_symbols fe t))"

definition files_of_names :: "indexer \<Rightarrow> string set \<Rightarrow> string set" where
  "files_of_names ix N = {loc_uri l | l n. n \<in> N \<and> first_symbol_loc ix n = Some l}"

text \<open>\<open>D\<close> are the trees whose names are known.\<close>

definition loading ::
    "('s, 't, 'a, 'k, 'c) front_end \<Rightarrow> indexer \<Rightarrow> 't \<Rightarrow> 't set \<Rightarrow> 't dependency_state \<Rightarrow>
     ('s, 't, 'a, 'k) driver \<Rightarrow> bool" where
  "loading fe ix t D st w \<longleftrightarrow>
     D \<union> set (to_process st) = expanded fe t (loaded_trees st) \<and>
     files_of_names ix (set (known_names st) - declared_in fe D) \<subseteq> set (processed_files st) \<and>
     set (processed_files st) \<subseteq> files_of_names ix (referenced_in fe D) \<and>
     distinct (processed_files st) \<and> length (processed_files st) = length (loaded_trees st) \<and>
     (\<forall>f \<in> set (processed_files st). find_doc (from_file f) w \<noteq> None)"

definition pending :: "indexer \<Rightarrow> 't dependency_state \<Rightarrow> nat" where
  "pending ix st = length (to_process st) + (length (index_locs ix) - length (processed_files st))"

lemma first_symbol_loc_in: "first_symbol_loc ix n = Some l \<Longrightarrow> l \<in> set (index_locs ix)"
proof -
  assume l: "first_symbol_loc ix n = Some l"
  then obtain v where v: "map_of (symbol_files ix) n = Some v"
    by (cases "map_of (symbol_files ix) n") (simp_all add: first_symbol_loc_def)
  with l have "l \<in> set v" by (cases v) (simp_all add: first_symbol_loc_def)
  with map_of_SomeD [OF v] show ?thesis by (auto simp: index_locs_def intro!: bexI)
qed

lemma files_bounded:
  assumes "loading fe ix t D st w"
  shows "length (processed_files st) \<le> length (index_locs ix)"
proof -
  have "files_of_names ix N \<subseteq> loc_uri ` set (index_locs ix)" for N
    by (auto simp: files_of_names_def dest: first_symbol_loc_in)
  then have "set (processed_files st) \<subseteq> loc_uri ` set (index_locs ix)"
    using assms by (meson loading_def subset_trans)
  from card_mono [OF _ this] have "card (set (processed_files st)) \<le> card (set (index_locs ix))"
    using card_image_le [of "set (index_locs ix)" loc_uri] by simp
  then show ?thesis using assms card_length [of "index_locs ix"]
    by (simp add: loading_def distinct_card)
qed

lemma loading_steady: "loading fe ix t D st w \<Longrightarrow> steady {} w w' \<Longrightarrow> loading fe ix t D st w'"
  by (auto simp: loading_def steady_def)

section \<open>One reference\<close>

lemma know_name:
  assumes "loading fe ix t D st w" and "files_of_names ix {n} \<subseteq> set (processed_files st)"
  shows "loading fe ix t D (st\<lparr>known_names := list_emplace n (known_names st)\<rparr>) w"
proof -
  have "files_of_names ix (insert n N - M) \<subseteq> files_of_names ix {n} \<union> files_of_names ix (N - M)" for N M
    by (auto simp: files_of_names_def)
  then show ?thesis using assms unfolding loading_def by (simp, blast)
qed

lemma load_tree_step:
  assumes "loading fe ix t D st w" and "first_symbol_loc ix n = Some l"
    and "n \<in> referenced_in fe D" and "loc_uri l \<notin> set (processed_files st)"
    and "find_doc (from_file (loc_uri l)) w \<noteq> None"
  shows "loading fe ix t D (st\<lparr>known_names := list_emplace n (known_names st),
      processed_files := list_emplace (loc_uri l) (processed_files st),
      loaded_trees := loaded_trees st @ [x],
      to_process := (if is_type_source fe x then to_process st @ [x] else to_process st)\<rparr>) w"
  using assms by (auto simp: loading_def files_of_names_def expanded_def list_emplace_def)

definition loaded_more ::
    "'t dependency_state \<Rightarrow> 't dependency_state \<Rightarrow> bool" where
  "loaded_more st st' \<longleftrightarrow>
     set (known_names st) \<subseteq> set (known_names st') \<and>
     length (to_process st') + length (processed_files st) \<le>
       length (to_process st) + length (processed_files st')"

lemma load_dependency_runs:
  assumes "sound w" and "workspace_index w = ix" and "loading fe ix t D st w"
    and "n \<in> referenced_in fe D"
  shows "runs sound (steady {}) (load_dependency fe n st) w
    (\<lambda>st' w'. loading fe ix t D st' w' \<and> n \<in> set (known_names st') \<and> loaded_more st st')"
proof -
  define st1 where "st1 = st\<lparr>known_names := list_emplace n (known_names st)\<rparr>"
  have st1: "set (known_names st1) = insert n (set (known_names st))"
    "to_process st1 = to_process st" "processed_files st1 = processed_files st"
    by (simp_all add: st1_def)
  consider (known) "n \<in> set (known_names st)"
    | (missing) "n \<notin> set (known_names st)" "first_symbol_loc ix n = None"
    | (loaded) l where "n \<notin> set (known_names st)" "first_symbol_loc ix n = Some l"
        "loc_uri l \<in> set (processed_files st)"
    | (new) l where "n \<notin> set (known_names st)" "first_symbol_loc ix n = Some l"
        "loc_uri l \<notin> set (processed_files st)"
    by (cases "first_symbol_loc ix n") auto
  then show ?thesis
  proof cases
    case known
    then show ?thesis using assms
      by (simp add: load_dependency_def steady.runs_give loaded_more_def)
  next
    case missing
    then have "loading fe ix t D st1 w"
      unfolding st1_def using assms(3) by (intro know_name) (auto simp: files_of_names_def)
    then show ?thesis using missing assms st1
      by (simp add: load_dependency_def steady.runs_give loaded_more_def flip: st1_def)
        (auto intro!: steady.runs_give)
  next
    case loaded
    then have "loading fe ix t D st1 w"
      unfolding st1_def using assms(3) by (intro know_name) (auto simp: files_of_names_def)
    then show ?thesis using loaded assms st1
      by (simp add: load_dependency_def flip: st1_def)
        (auto intro!: steady.runs_give simp: loaded_more_def)
  next
    case new
    define st2 where "st2 = st1\<lparr>processed_files := list_emplace (loc_uri l) (processed_files st1)\<rparr>"
    define st3 where "st3 x = (if is_type_source fe x
        then st2\<lparr>loaded_trees := loaded_trees st2 @ [x], to_process := to_process st2 @ [x]\<rparr>
        else st2\<lparr>loaded_trees := loaded_trees st2 @ [x]\<rparr>)" for x
    have "loading fe ix t D (st3 x) w'"
      if "loading fe ix t D st w'" "find_doc (from_file (loc_uri l)) w' \<noteq> None" for x w'
      using load_tree_step [OF that(1) new(2) assms(4) new(3) that(2), of x]
      by (simp add: st3_def st2_def st1_def split: if_splits)
    moreover have "n \<in> set (known_names (st3 x)) \<and> loaded_more st (st3 x)" for x
      using new by (auto simp: st3_def st2_def st1_def loaded_more_def list_emplace_def)
    ultimately have load: "runs sound (steady {}) (and_then (syntax_tree fe a) (\<lambda>x. give (st3 x))) w'
        (\<lambda>st' w'. loading fe ix t D st' w' \<and> n \<in> set (known_names st') \<and> loaded_more st st')"
      if "sound w'" "steady {} w w'" "find_doc (from_file (loc_uri l)) w' = Some a" for a w'
      using that loading_steady [OF loading_steady [OF assms(3) that(2)]]
      by (intro steady.runs_and_then [OF keptD [OF syntax_tree_held [THEN kept_steady]]])
        (auto intro!: steady.runs_give simp: steady_def)
    have "load_dependency fe n st w =
        and_then (get_document fe (from_file (loc_uri l))) (\<lambda>a.
          and_then (syntax_tree fe a) (\<lambda>x. give (st3 x))) w"
      using new assms(2) unfolding load_dependency_def st3_def st2_def st1_def
      by (simp add: and_then_look Let_def cong: if_cong)
    moreover have "runs sound (steady {}) (and_then (get_document fe (from_file (loc_uri l))) (\<lambda>a.
          and_then (syntax_tree fe a) (\<lambda>x. give (st3 x)))) w
        (\<lambda>st' w'. loading fe ix t D st' w' \<and> n \<in> set (known_names st') \<and> loaded_more st st')"
      by (rule steady.runs_and_then [OF get_document_runs [OF assms(1)]]) (use load in simp)
    ultimately show ?thesis by (simp add: runs_def cong: sum.case_cong)
  qed
qed

section \<open>The loop\<close>

lemma loaded_more_trans: "loaded_more a b \<Longrightarrow> loaded_more b c \<Longrightarrow> loaded_more a c"
  by (auto simp: loaded_more_def)

lemma load_references_runs:
  assumes "sound w" and "workspace_index w = ix" and "loading fe ix t D st w"
    and "set ns \<subseteq> referenced_in fe D"
  shows "runs sound (steady {}) (thread (load_dependency fe) ns st) w
    (\<lambda>st' w'. loading fe ix t D st' w' \<and> set ns \<subseteq> set (known_names st') \<and> loaded_more st st')"
  using assms
proof (induction ns arbitrary: st w)
  case Nil
  then show ?case by (simp add: steady.runs_give loaded_more_def)
next
  case (Cons n ns)
  show ?case unfolding thread.simps
  proof (rule steady.runs_and_then [OF load_dependency_runs [OF Cons.prems(1-3)]])
    show "n \<in> referenced_in fe D" using Cons.prems(4) by simp
    fix st' w'
    assume w': "sound w'" "steady {} w w'"
      and st': "loading fe ix t D st' w' \<and> n \<in> set (known_names st') \<and> loaded_more st st'"
    have "workspace_index w' = ix" using w'(2) Cons.prems(2) by (simp add: steady_def)
    from Cons.IH [OF w'(1) this] st' Cons.prems(4)
    have "runs sound (steady {}) (thread (load_dependency fe) ns st') w'
      (\<lambda>st'' w'. loading fe ix t D st'' w' \<and> set ns \<subseteq> set (known_names st'') \<and> loaded_more st' st'')"
      by simp
    then show "runs sound (steady {}) (thread (load_dependency fe) ns st') w'
      (\<lambda>st'' w'. loading fe ix t D st'' w' \<and> set (n # ns) \<subseteq> set (known_names st'') \<and> loaded_more st st'')"
      by (rule runs_weaken) (use st' in \<open>auto intro: loaded_more_trans simp: loaded_more_def\<close>)
  qed
qed

text \<open>The next tree: its declarations are known from now on.\<close>

lemma files_of_names_known:
  "files_of_names ix (set (fold list_emplace ds N) - (set ds \<union> M)) \<subseteq> files_of_names ix (set N - M)"
proof -
  have "set (fold list_emplace ds N) = set ds \<union> set N"
    by (induction ds arbitrary: N) auto
  then show ?thesis by (auto simp: files_of_names_def)
qed

lemma next_tree:
  assumes "loading fe ix t D st w" and "to_process st = x # xs"
  shows "loading fe ix t (insert x D) (st\<lparr>to_process := xs,
      known_names := fold list_emplace (declared_symbols fe x) (known_names st)\<rparr>) w"
proof -
  have "declared_in fe (insert x D) = set (declared_symbols fe x) \<union> declared_in fe D"
    by (simp add: declared_in_def)
  moreover have "files_of_names ix (referenced_in fe D) \<subseteq> files_of_names ix (referenced_in fe (insert x D))"
    by (auto simp: files_of_names_def referenced_in_def)
  ultimately show ?thesis
    using assms files_of_names_known [of ix "declared_symbols fe x" "known_names st" "declared_in fe D"]
    by (auto simp: loading_def)
qed

lemma fold_emplace_known: "set (fold list_emplace ds N) = set ds \<union> set N"
  by (induction ds arbitrary: N) auto

lemma dependencies_within_runs:
  assumes "sound w" and "workspace_index w = ix" and "loading fe ix t D st w"
    and "referenced_in fe D \<subseteq> set (known_names st)" and "pending ix st < n"
  shows "runs sound (steady {}) (dependencies_within fe n st) w
    (\<lambda>st' w'. \<exists>D'. loading fe ix t D' st' w' \<and> to_process st' = [] \<and>
       referenced_in fe D' \<subseteq> set (known_names st'))"
  using assms
proof (induction n arbitrary: st w D)
  case (Suc n)
  show ?case
  proof (cases "to_process st")
    case Nil
    then show ?thesis using Suc.prems by (auto intro!: steady.runs_give)
  next
    case (Cons x xs)
    define st1 where "st1 = st\<lparr>to_process := xs,
        known_names := fold list_emplace (declared_symbols fe x) (known_names st)\<rparr>"
    have load: "loading fe ix t (insert x D) st1 w"
      unfolding st1_def by (rule next_tree [OF Suc.prems(3) Cons])
    have refs: "set (referenced_symbols fe x) \<subseteq> referenced_in fe (insert x D)"
      by (auto simp: referenced_in_def)
    have "runs sound (steady {}) (and_then (thread (load_dependency fe) (referenced_symbols fe x) st1)
        (dependencies_within fe n)) w
        (\<lambda>st' w'. \<exists>D'. loading fe ix t D' st' w' \<and> to_process st' = [] \<and>
           referenced_in fe D' \<subseteq> set (known_names st'))"
    proof (rule steady.runs_and_then [OF load_references_runs [OF Suc.prems(1,2) load refs]])
      fix st' w'
      assume w': "sound w'" "steady {} w w'" and st': "loading fe ix t (insert x D) st' w' \<and>
        set (referenced_symbols fe x) \<subseteq> set (known_names st') \<and> loaded_more st1 st'"
      have "pending ix st' < n"
        using st' Suc.prems(5) Cons files_bounded [of fe ix t "insert x D" st' w']
        by (auto simp: pending_def loaded_more_def st1_def)
      moreover have "referenced_in fe (insert x D) \<subseteq> set (known_names st')"
        using st' Suc.prems(4)
        by (auto simp: referenced_in_def loaded_more_def st1_def fold_emplace_known)
      moreover have "workspace_index w' = ix" using w'(2) Suc.prems(2) by (simp add: steady_def)
      ultimately show "runs sound (steady {}) (dependencies_within fe n st') w'
        (\<lambda>st' w'. \<exists>D'. loading fe ix t D' st' w' \<and> to_process st' = [] \<and>
           referenced_in fe D' \<subseteq> set (known_names st'))"
        using Suc.IH [OF w'(1)] st' by blast
    qed
    then show ?thesis using Cons by (simp add: st1_def)
  qed
qed simp

text \<open>
  What was loaded for a tree: one tree per file, from the files of the referenced names, and of
  all referenced names that are not declared in the trees themselves.
\<close>

definition closed_under_references ::
    "('s, 't, 'a, 'k, 'c) front_end \<Rightarrow> indexer \<Rightarrow> 't \<Rightarrow> 't list \<Rightarrow> string list \<Rightarrow> bool" where
  "closed_under_references fe ix t ts files \<longleftrightarrow>
     (let T = expanded fe t ts
      in distinct files \<and> length files = length ts \<and>
         set files \<subseteq> files_of_names ix (referenced_in fe T) \<and>
         files_of_names ix (referenced_in fe T - declared_in fe T) \<subseteq> set files)"

section \<open>Where the trees come from\<close>

text \<open>Asking for the documents of files, one after the other, and each for its tree.\<close>

definition trees_of_files ::
    "('s, 't, 'a, 'k, 'c) front_end \<Rightarrow> string list \<Rightarrow> ('t list, ('s, 't, 'a, 'k) driver) action" where
  "trees_of_files fe = collect (\<lambda>f.
     and_then (get_document fe (from_file f)) (\<lambda>a. and_then (syntax_tree fe a) (\<lambda>t. give (Some t))))"

lemma and_then_assoc: "and_then (and_then m f) g = and_then m (\<lambda>x. and_then (f x) g)"
  by (auto simp: and_then_def fun_eq_iff split: sum.splits prod.splits)

lemma and_then_Inr:
  "and_then m f w = (Inr y, w') \<longleftrightarrow> (\<exists>x v. m w = (Inr x, v) \<and> f x v = (Inr y, w'))"
  by (auto simp: and_then_def split: sum.splits prod.splits)

lemma trees_of_files_snoc:
  assumes "trees_of_files fe fs w = (Inr ts, v)" "get_document fe (from_file f) v = (Inr a, v1)"
    "syntax_tree fe a v1 = (Inr t, v2)"
  shows "trees_of_files fe (fs @ [f]) w = (Inr (ts @ [t]), v2)"
  using assms
proof (induction fs arbitrary: w ts)
  case (Cons g fs)
  from Cons.prems(1) show ?case
    using Cons.IH [OF _ Cons.prems(2,3)]
    by (fastforce simp: trees_of_files_def and_then_Inr and_then_assoc give_def)
qed (auto simp: trees_of_files_def and_then_def give_def)

definition loaded_from ::
    "('s, 't, 'a, 'k, 'c) front_end \<Rightarrow> ('s, 't, 'a, 'k) driver \<Rightarrow> 't dependency_state \<Rightarrow>
     ('s, 't, 'a, 'k) driver \<Rightarrow> bool" where
  "loaded_from fe w st v \<longleftrightarrow> trees_of_files fe (processed_files st) w = (Inr (loaded_trees st), v)"

lemma load_dependency_from:
  assumes "loaded_from fe w st v" "load_dependency fe n st v = (Inr st', v')"
  shows "loaded_from fe w st' v'"
proof (cases "n \<in> set (known_names st)")
  case False
  show ?thesis
  proof (cases "first_symbol_loc (workspace_index v) n")
    case None
    then show ?thesis using assms False
      by (auto simp: load_dependency_def loaded_from_def and_then_look give_def Let_def)
  next
    case (Some l)
    show ?thesis
    proof (cases "loc_uri l \<in> set (processed_files st)")
      case True
      then show ?thesis using assms False Some
        by (auto simp: load_dependency_def loaded_from_def and_then_look give_def Let_def)
    next
      case new: False
      then obtain a v1 t where t: "get_document fe (from_file (loc_uri l)) v = (Inr a, v1)"
        "syntax_tree fe a v1 = (Inr t, v')"
        "processed_files st' = processed_files st @ [loc_uri l]" "loaded_trees st' = loaded_trees st @ [t]"
        using assms(2) False Some
        by (auto simp: load_dependency_def and_then_look and_then_Inr give_def Let_def list_emplace_def
            split: if_splits)
      show ?thesis unfolding loaded_from_def t(3,4)
        by (rule trees_of_files_snoc [OF assms(1) [unfolded loaded_from_def] t(1,2)])
    qed
  qed
qed (use assms in \<open>simp add: load_dependency_def give_def\<close>)

lemma load_references_from:
  "loaded_from fe w st v \<Longrightarrow> thread (load_dependency fe) ns st v = (Inr st', v') \<Longrightarrow> loaded_from fe w st' v'"
proof (induction ns arbitrary: st v)
  case (Cons n ns)
  then show ?case by (auto simp: and_then_Inr dest: load_dependency_from)
qed (simp add: give_def)

lemma dependencies_within_from:
  "loaded_from fe w st v \<Longrightarrow> dependencies_within fe n st v = (Inr st', v') \<Longrightarrow> loaded_from fe w st' v'"
proof (induction n arbitrary: st v)
  case (Suc n)
  show ?case
  proof (cases "to_process st")
    case (Cons x xs)
    define st1 where "st1 = st\<lparr>to_process := xs,
        known_names := fold list_emplace (declared_symbols fe x) (known_names st)\<rparr>"
    have "loaded_from fe w st1 v" using Suc.prems(1) by (simp add: loaded_from_def st1_def)
    moreover obtain st2 v2 where "thread (load_dependency fe) (referenced_symbols fe x) st1 v = (Inr st2, v2)"
      "dependencies_within fe n st2 v2 = (Inr st', v')"
      using Suc.prems(2) Cons by (auto simp: and_then_Inr Let_def simp flip: st1_def)
    ultimately show ?thesis using Suc.IH load_references_from by blast
  qed (use Suc.prems in \<open>simp add: give_def\<close>)
qed (simp add: raise_def)

lemma runs_and_also:
  "runs ok rel m w Q \<Longrightarrow> (\<And>x w'. m w = (Inr x, w') \<Longrightarrow> P x w') \<Longrightarrow> runs ok rel m w (\<lambda>x w'. Q x w' \<and> P x w')"
  by (cases "m w") (auto simp: runs_def split: sum.splits)

lemma dependent_trees_runs:
  assumes "sound w"
  shows "runs sound (steady {}) (dependent_trees fe t) w
    (\<lambda>ts w'. \<exists>files. closed_under_references fe (workspace_index w) t ts files \<and>
       trees_of_files fe files w = (Inr ts, w') \<and>
       (\<forall>f \<in> set files. find_doc (from_file f) w' \<noteq> None))"
proof -
  define st where
    "st = \<lparr>to_process = [t], known_names = [], processed_files = [], loaded_trees = []\<rparr>"
  define ix where "ix = workspace_index w"
  have "loaded_from fe w st w"
    by (simp add: loaded_from_def st_def trees_of_files_def give_def)
  note origin = dependencies_within_from [OF this]
  have "runs sound (steady {}) (dependencies_within fe (length (index_locs ix) + 2) st) w
      (\<lambda>st' w'. \<exists>D'. loading fe ix t D' st' w' \<and> to_process st' = [] \<and>
         referenced_in fe D' \<subseteq> set (known_names st'))"
    by (rule dependencies_within_runs [OF assms, where D = "{}"])
      (simp_all add: ix_def loading_def st_def expanded_def files_of_names_def referenced_in_def
        declared_in_def pending_def)
  from runs_and_also [OF this origin]
  have "runs sound (steady {}) (and_then (dependencies_within fe (length (index_locs ix) + 2) st)
      (\<lambda>st. give (loaded_trees st))) w
      (\<lambda>ts v. \<exists>files. closed_under_references fe ix t ts files \<and>
         trees_of_files fe files w = (Inr ts, v) \<and> (\<forall>f \<in> set files. find_doc (from_file f) v \<noteq> None))"
  proof (rule steady.runs_and_then)
    fix st' w'
    assume w': "sound w'" and "(\<exists>D'. loading fe ix t D' st' w' \<and> to_process st' = [] \<and>
      referenced_in fe D' \<subseteq> set (known_names st')) \<and> loaded_from fe w st' w'"
    then obtain D' where D': "loading fe ix t D' st' w'" "to_process st' = []"
      "referenced_in fe D' \<subseteq> set (known_names st')" and origin: "loaded_from fe w st' w'"
      by blast
    have "D' = expanded fe t (loaded_trees st')" using D' by (simp add: loading_def)
    moreover have "files_of_names ix (referenced_in fe D' - declared_in fe D') \<subseteq>
        files_of_names ix (set (known_names st') - declared_in fe D')"
      using D'(3) by (auto simp: files_of_names_def)
    ultimately have "closed_under_references fe ix t (loaded_trees st') (processed_files st')"
      using D'(1) by (auto simp: closed_under_references_def loading_def Let_def)
    moreover have "\<forall>f \<in> set (processed_files st'). find_doc (from_file f) w' \<noteq> None"
      using D'(1) by (simp add: loading_def)
    ultimately show "runs sound (steady {}) (give (loaded_trees st')) w'
      (\<lambda>ts v. \<exists>files. closed_under_references fe ix t ts files \<and>
         trees_of_files fe files w = (Inr ts, v) \<and> (\<forall>f \<in> set files. find_doc (from_file f) v \<noteq> None))"
      using w' origin unfolding loaded_from_def by (intro steady.runs_give) blast+
  qed
  then show ?thesis by (simp add: dependent_trees_def flip: st_def ix_def)
qed

lemma dependent_trees_kept [keeps]: "kept sound (steady {}) (dependent_trees fe t)"
  by (rule keptI) (rule runs_weaken [OF dependent_trees_runs], simp_all)

end
