(* ===== verification/DriverEvents.thy ===== *)
theory DriverEvents
  imports Dependencies
begin

text \<open>
  The operations of the driver as events, in any order and with any behaviour of the library and
  the disk in between: they keep the document table sound and return.
\<close>

section \<open>Analyses and diagnostics\<close>

lemma refresh_analysis_kept [keeps]: "kept sound (steady {}) (refresh_analysis fe tracked a)"
  unfolding refresh_analysis_def by (intro keeps) simp_all

lemma get_analysis_kept [keeps]: "kept sound (steady {}) (get_analysis fe tracked a)"
  unfolding get_analysis_def by (intro keeps) (auto intro: keeps split: prod.split option.split bool.split)

lemma issue_diag_kept [keeps]: "kept sound (steady {}) (issue_diag fe d)"
proof -
  have "kept sound (steady {}) (\<lambda>w.
      let (c, e) = report (sources fe (library w)) (engine fe) (uri_dot fe) ed (client_state w)
      in ((case e of None \<Rightarrow> Inr () | Some e \<Rightarrow> Inl (Raised e)), w\<lparr>client_state := c\<rparr>))" for ed
    by (rule kept_steady)
      (auto simp: kept_def runs_def split: prod.split option.split intro: sound_table)
  then show ?thesis unfolding issue_diag_def by (intro keeps)
qed

lemma issue_parse_diags_kept [keeps]: "kept sound (steady {}) (issue_parse_diags fe a)"
  unfolding issue_parse_diags_def by (intro keeps)

lemma issue_in_fragment_kept [keeps]: "kept sound (steady {}) (issue_in_fragment fe b d seen)"
  unfolding issue_in_fragment_def by (intro keeps)

lemma issue_for_owner_kept [keeps]: "kept sound (steady {}) (issue_for_owner fe u ow seen)"
  unfolding issue_for_owner_def by (intro keeps)

lemma issue_fragment_diags_kept [keeps]: "kept sound (steady {}) (issue_fragment_diags fe a)"
  unfolding issue_fragment_diags_def by (intro keeps)

lemma issue_if_own_kept [keeps]: "kept sound (steady {}) (issue_if_own fe a d)"
  unfolding issue_if_own_def by (intro keeps)

lemma issue_diagnostics_kept [keeps]: "kept sound (steady {}) (issue_diagnostics fe tracked a)"
  unfolding issue_diagnostics_def by (intro keeps)

lemma inactive_regions_kept [keeps]: "kept sound (steady {}) (inactive_regions fe tracked a)"
  unfolding inactive_regions_def by (intro keeps)

lemma publish_inactive_regions_kept [keeps]: "kept sound (steady {}) (publish_inactive_regions fe tracked a)"
  unfolding publish_inactive_regions_def by (intro keeps)

lemma analyze_alone_kept [keeps]: "kept sound (steady {}) (analyze_alone fe tracked a)"
  unfolding analyze_alone_def by (intro keeps)

lemma analyze_within_runs:
  "sound w \<Longrightarrow> a < length (heap w) \<Longrightarrow> rank w a < n \<Longrightarrow>
   runs sound (steady {}) (analyze_within fe n tracked a) w (\<lambda>_ _. True)"
proof (induction n arbitrary: a w)
  case (Suc n)
  show ?case unfolding analyze_within.simps
  proof (rule steady.runs_and_then [OF keptD [OF analyze_alone_kept Suc.prems(1)]], unfold runs_look,
      rule steady.runs_each)
    fix w' ow w''
    assume w': "sound w'" "steady {} w w'" and ow: "ow \<in> set (include_owners (doc_at a w'))"
      and w'': "sound w''" "steady {} w' w''"
    have a': "a < length (heap w')" using steady_valid [OF w'(2) Suc.prems(2)] .
    have "rank w'' ow = rank w' ow" "ow < length (heap w'')"
      using rank_steady [OF w''(2) w'(1)] owners_valid [OF w'(1) ow] steady_valid [OF w''(2)] by auto
    moreover have "rank w' ow < n"
      using rank_owner [OF w'(1) ow] rank_steady [OF w'(2) Suc.prems(1,2)] Suc.prems(3) by simp
    ultimately show "runs sound (steady {})
        (and_then (look (\<lambda>w. is_open (document_uri (doc_at ow w)) w)) (\<lambda>opened.
           if opened then analyze_within fe n tracked ow else give ())) w'' (\<lambda>_ _. True)"
      using Suc.IH [OF w''(1)] w''(1) by (simp add: steady.runs_give)
  qed
qed simp

lemma analyze_document_runs:
  assumes "sound w" and "a < length (heap w)"
  shows "runs sound (steady A) (analyze_document fe tracked a) w (\<lambda>_ _. True)"
proof -
  have "runs sound (steady {}) (analyze_document fe tracked a) w (\<lambda>_ _. True)"
    unfolding analyze_document_def runs_look
    by (rule analyze_within_runs [OF assms]) (simp add: less_Suc_eq_le rank_bounded [OF assms(1)])
  then show ?thesis by (rule runs_weaken) (auto intro: steady_mono)
qed

section \<open>Binding fragments\<close>

definition ownerless :: "nat \<Rightarrow> ('s, 't, 'a, 'k) driver \<Rightarrow> bool" where
  "ownerless a w \<longleftrightarrow> a < length (heap w) \<and> include_owners (doc_at a w) = []"

lemma ownerless_steady: "steady A w w' \<Longrightarrow> a \<notin> A \<Longrightarrow> ownerless a w \<Longrightarrow> ownerless a w'"
  by (auto simp: ownerless_def steady_def)

lemma ownerless_held: "held w w' \<Longrightarrow> ownerless a w \<Longrightarrow> ownerless a w'"
  by (auto simp: held_def intro: ownerless_steady)

lemma add_link_runs:
  assumes "sound w" and "a < length (heap w)" and "ownerless ow w" and "a \<noteq> ow"
  shows "runs sound (steady {a}) (set_doc a (\<lambda>d. d\<lparr>include_owners := include_owners d @ [ow]\<rparr>)) w
    (\<lambda>_ _. True)"
proof -
  define w' where "w' = w\<lparr>heap := (heap w)[a := (doc_at a w)\<lparr>include_owners :=
      include_owners (doc_at a w) @ [ow]\<rparr>]\<rparr>"
  have at: "doc_at b w' = (if b = a then (doc_at a w)\<lparr>include_owners :=
      include_owners (doc_at a w) @ [ow]\<rparr> else doc_at b w)" for b
    using assms(2) by (simp add: w'_def doc_at_update)
  have same: "length (heap w') = length (heap w)" "docs w' = docs w"
    "workspace_index w' = workspace_index w" "open_docs w' = open_docs w"
    "find_doc v w' = find_doc v w" for v
    by (simp_all add: w'_def)
  have "(ow, a) \<notin> (owner_links w)\<^sup>*"
    using assms(3,4) by (auto elim: converse_rtranclE simp: owner_links_def ownerless_def)
  moreover have "owner_links w' = insert (a, ow) (owner_links w)"
    by (auto simp: owner_links_def at split: if_splits)
  ultimately have "acyclic (owner_links w')" using assms(1) by (simp add: sound_def)
  then have "sound w'" using assms(1,3) by (auto simp: sound_def at same ownerless_def)
  moreover have "steady {a} w w'" by (auto simp: steady_def at same)
  ultimately show ?thesis unfolding set_doc_def by (auto intro: steady.runs_change simp: w'_def)
qed

lemma add_include_owner_runs:
  assumes "sound w" and "a < length (heap w)" and "ownerless ow w" and "a \<noteq> ow"
  shows "runs sound (steady {a}) (add_include_owner fe a ow) w (\<lambda>_ _. True)"
proof (cases "ow \<in> set (include_owners (doc_at a w))")
  case True
  then show ?thesis using assms(1) by (simp add: add_include_owner_def steady.runs_give)
next
  case False
  define prepare where "prepare s = and_then (syntax_tree fe ow) (\<lambda>t.
      and_then (look (\<lambda>w. buffer_in_tree fe t (document_uri (doc_at a w)) w)) (\<lambda>b.
        case b of None \<Rightarrow> give ()
        | Some b \<Rightarrow> and_then (sync_owner_buffer fe b s) (\<lambda>_. give ())))" for s
  have prepare: "kept sound held (prepare s)" for s
    unfolding prepare_def sync_owner_buffer_def by (intro keeps)
  have "add_include_owner fe a ow w =
      and_then (prepare (drop_null (text_of fe a w)))
        (\<lambda>_. set_doc a (\<lambda>d. d\<lparr>include_owners := include_owners d @ [ow]\<rparr>)) w"
    using False
    by (simp add: add_include_owner_def prepare_def and_then_look)
      (simp add: and_then_def look_def split: sum.split prod.split option.split)
  moreover have "runs sound (steady {a}) (and_then (prepare (drop_null (text_of fe a w)))
        (\<lambda>_. set_doc a (\<lambda>d. d\<lparr>include_owners := include_owners d @ [ow]\<rparr>))) w (\<lambda>_ _. True)"
  proof (rule steady.runs_and_then)
    show "runs sound (steady {a}) (prepare (drop_null (text_of fe a w))) w (\<lambda>_ w'. held w w')"
      using keptD [OF prepare assms(1), of "drop_null (text_of fe a w)"]
      by (auto simp: runs_def held_def intro: steady_mono split: sum.splits)
    fix w' assume "sound w'" "held w w'"
    then show "runs sound (steady {a}) (set_doc a (\<lambda>d. d\<lparr>include_owners := include_owners d @ [ow]\<rparr>))
        w' (\<lambda>_ _. True)"
      using assms by (intro add_link_runs) (auto intro: held_valid ownerless_held)
  qed
  ultimately show ?thesis by (simp add: runs_def cong: sum.case_cong)
qed

lemma wants_owner_runs:
  assumes "sound w" and "(u, a) \<in> set (docs w)"
  shows "runs sound held (wants_owner fe new_owner t (u, a)) w
    (\<lambda>r w'. \<forall>y. r = Some y \<longrightarrow> y \<noteq> new_owner \<and> y < length (heap w'))"
proof -
  have a: "a < length (heap w)" using sound_entry [OF assms] by (simp add: doc_of_def)
  then have "runs sound held (and_then (classify fe a) (\<lambda>c.
      give (case c of Standalone \<Rightarrow> None | Fragment \<Rightarrow> Some a))) w
      (\<lambda>r w'. \<forall>y. r = Some y \<longrightarrow> y \<noteq> new_owner \<and> y < length (heap w'))" if "a \<noteq> new_owner"
    using that
    by (intro held.runs_and_then [OF keptD [OF classify_held assms(1)]])
      (auto intro!: held.runs_give intro: held_valid split: standalone_parse.splits)
  then show ?thesis using a assms(1) by (auto simp: wants_owner_def intro!: held.runs_give)
qed

lemma adopt_orphan_fragments_runs:
  assumes "sound w" and "ownerless new_owner w"
  shows "runs sound (steady (- {new_owner})) (adopt_orphan_fragments fe new_owner) w (\<lambda>_ _. True)"
proof (cases "resolve_fragments fe")
  case True
  let ?A = "- {new_owner}"
  let ?valid = "\<lambda>y w. y \<noteq> new_owner \<and> y < length (heap w)"
  have collect: "runs sound (steady ?A) (collect (wants_owner fe new_owner t) (docs w')) w'
      (\<lambda>ys w''. \<forall>y \<in> set ys. ?valid y w'')" if "sound w'" for t w'
  proof -
    have "runs sound held (collect (wants_owner fe new_owner t) (docs w')) w'
      (\<lambda>ys w''. \<forall>y \<in> set ys. ?valid y w'')"
      using that by (intro held.runs_collect) (auto simp: held_def intro!: wants_owner_runs intro: steady_valid)
    then show ?thesis by (rule runs_weaken) (auto simp: held_def intro: steady_mono)
  qed
  have adopt: "runs sound (steady ?A) (and_then (add_include_owner fe a new_owner) (\<lambda>_.
      and_then (look (\<lambda>w. is_open (document_uri (doc_at a w)) w)) (\<lambda>opened.
        if opened then analyze_document fe False a else give ()))) w' (\<lambda>_ _. True)"
    if "sound w'" "steady ?A w w'" "?valid a w'" for a w'
  proof (rule steady.runs_and_then [where P = "\<lambda>_ w''. a < length (heap w'')"])
    have "runs sound (steady {a}) (add_include_owner fe a new_owner) w' (\<lambda>_ _. True)"
      using that assms(2) by (intro add_include_owner_runs) (auto intro: ownerless_steady)
    then show "runs sound (steady ?A) (add_include_owner fe a new_owner) w' (\<lambda>_ w''. a < length (heap w''))"
      by (rule runs_weaken) (use that(3) in \<open>auto intro: steady_mono steady_valid\<close>)
  qed (auto intro: analyze_document_runs steady.runs_give)
  have "runs sound (steady ?A) (and_then (syntax_tree fe new_owner) (\<lambda>t.
      and_then (look docs) (\<lambda>entries. and_then (collect (wants_owner fe new_owner t) entries)
        (each (\<lambda>a. and_then (add_include_owner fe a new_owner) (\<lambda>_.
          and_then (look (\<lambda>w. is_open (document_uri (doc_at a w)) w)) (\<lambda>opened.
            if opened then analyze_document fe False a else give ()))))))) w (\<lambda>_ _. True)"
  proof (rule steady.runs_and_then [OF keptD [OF syntax_tree_held [THEN kept_steady] assms(1)]],
      unfold runs_look, rule steady.runs_and_then [OF collect], assumption, rule steady.runs_each)
    fix w1 ys w2 a w3
    assume "sound w1" "steady ?A w w1" and w2: "sound w2" "steady ?A w1 w2" "\<forall>y \<in> set ys. ?valid y w2"
      and w3: "a \<in> set ys" "sound w3" "steady ?A w2 w3"
    then have "steady ?A w w3" by (blast intro: steady.trans)
    moreover have "?valid a w3" using w2(3) w3 steady_valid [OF w3(3)] by blast
    ultimately show "runs sound (steady ?A) (and_then (add_include_owner fe a new_owner) (\<lambda>_.
      and_then (look (\<lambda>w. is_open (document_uri (doc_at a w)) w)) (\<lambda>opened.
        if opened then analyze_document fe False a else give ()))) w3 (\<lambda>_ _. True)"
      using adopt w3(2) by blast
  qed
  then show ?thesis using True by (simp add: adopt_orphan_fragments_def)
qed (simp add: adopt_orphan_fragments_def steady.runs_give assms(1))

section \<open>Operations\<close>

lemma kept_grows: "kept sound (steady {}) m \<Longrightarrow> kept sound grows m"
  by (erule kept_weaken) (rule steady_grows)

lemma kept_grows_held: "kept sound held m \<Longrightarrow> kept sound grows m"
  by (erule kept_weaken) (auto simp: held_def intro: steady_grows)

lemma runs_grows: "runs sound (steady A) m w Q \<Longrightarrow> runs sound grows m w Q"
  by (erule runs_weaken) (auto intro: steady_grows)

lemma runs_grows_held: "runs sound held m w Q \<Longrightarrow> runs sound grows m w Q"
  by (erule runs_weaken) (auto simp: held_def intro: steady_grows)

lemmas [keeps] = base_held [THEN kept_grows_held] syntax_tree_held [THEN kept_grows_held]
  classify_held [THEN kept_grows_held] issue_diag_kept [THEN kept_grows]
  issue_parse_diags_kept [THEN kept_grows] publish_inactive_regions_kept [THEN kept_grows]
  get_document_kept [THEN kept_grows]

lemma put_doc_runs: "sound w \<Longrightarrow> doc_of u a w \<Longrightarrow> runs sound grows (change (put_doc u a)) w (\<lambda>_. doc_of u a)"
  by (auto intro!: grows.runs_change simp: put_doc_sound grows_def doc_of_def)

lemma adopt_runs_grows:
  "sound w \<Longrightarrow> ownerless a w \<Longrightarrow> runs sound grows (adopt_orphan_fragments fe a) w (\<lambda>_ _. True)"
  by (rule runs_grows) (rule adopt_orphan_fragments_runs)

lemma analyze_runs_grows:
  "sound w \<Longrightarrow> a < length (heap w) \<Longrightarrow> runs sound grows (analyze_document fe tracked a) w (\<lambda>_ _. True)"
  by (rule runs_grows) (rule analyze_document_runs)

lemma get_runs_grows:
  "sound w \<Longrightarrow> runs sound grows (get_document fe u) w (\<lambda>a w'. a < length (heap w'))"
  by (rule runs_grows) (rule runs_weaken [OF get_document_runs], simp_all add: doc_of_def)

lemma free_owner_ownerless: "free_owner u a w \<Longrightarrow> ownerless a w"
  by (simp add: free_owner_def ownerless_def)

lemma add_owners_runs:
  assumes "sound w" and "doc_of u a w" and "\<forall>y \<in> set ys. free_owner u y w"
  shows "runs sound (steady {a}) (each (add_include_owner fe a) ys) w (\<lambda>_ _. True)"
proof (rule steady.runs_each)
  fix y w' assume y: "y \<in> set ys" and w': "sound w'" "steady {a} w w'"
  then have "a \<noteq> y" using assms(2,3) by (auto simp: doc_of_def free_owner_def)
  have "ownerless y w" using assms(3) y by (auto intro: free_owner_ownerless)
  then have "ownerless y w'" using ownerless_steady [OF w'(2)] \<open>a \<noteq> y\<close> by simp
  then show "runs sound (steady {a}) (add_include_owner fe a y) w' (\<lambda>_ _. True)"
    using \<open>a \<noteq> y\<close> assms(2) steady_valid [OF w'(2)]
    by (intro add_include_owner_runs [OF w'(1)]) (simp_all add: doc_of_def)
qed (rule assms(1))

definition known_result :: "uri \<Rightarrow> nat option \<times> bool \<times> bool \<Rightarrow> ('s, 't, 'a, 'k) driver \<Rightarrow> bool" where
  "known_result u r w \<longleftrightarrow> (\<forall>a. fst r = Some a \<longrightarrow> doc_of u a w)"

lemma known_result_simps [simp]:
  "known_result u (None, b, c) w" "known_result u (Some a, b, c) w \<longleftrightarrow> doc_of u a w"
  by (simp_all add: known_result_def)

lemma classify_runs:
  assumes "sound w" and "doc_of u a w"
  shows "runs sound grows (classify fe b) w (\<lambda>_. doc_of u a)"
  by (rule runs_weaken [OF keptD [OF classify_held assms(1)]])
    (auto simp: held_def intro: doc_of_steady [OF _ assms(2)] steady_grows)

lemma known_cached_runs:
  fixes fe :: "('s, 't, 'a, 'k, 'c) front_end" and w :: "('s, 't, 'a, 'k) driver"
  assumes "sound w" and "doc_of u a w"
  shows "runs sound grows (and_then (find_include_owners fe u) (\<lambda>owners.
      and_then (each (add_include_owner fe a) owners) (\<lambda>_. give (Some a, b, owners = [])))) w (known_result u)"
proof -
  have "runs sound (steady {a}) (find_include_owners fe u) w
      (\<lambda>ys w'. doc_of u a w' \<and> (\<forall>y \<in> set ys. free_owner u y w'))"
    by (rule runs_weaken [OF find_include_owners_runs [OF assms(1)]])
      (use assms(2) in \<open>auto simp: held_def intro: doc_of_steady steady_mono\<close>)
  then have "runs sound (steady {a}) (and_then (find_include_owners fe u) (\<lambda>owners.
      and_then (each (add_include_owner fe a) owners) (\<lambda>_. give (Some a, b, owners = [])))) w (known_result u)"
  proof (rule steady.runs_and_then)
    fix ys and w' :: "('s, 't, 'a, 'k) driver" assume w': "sound w'" and ys: "doc_of u a w' \<and> (\<forall>y \<in> set ys. free_owner u y w')"
    have "runs sound (steady {a}) (each (add_include_owner fe a) ys) w' (\<lambda>_. doc_of u a)"
      by (rule runs_weaken [OF add_owners_runs [OF w']]) (use ys in \<open>auto intro: doc_of_steady\<close>)
    then show "runs sound (steady {a}) (and_then (each (add_include_owner fe a) ys)
        (\<lambda>_. give (Some a, b, ys = []))) w' (known_result u)"
      by (rule steady.runs_and_then) (simp add: steady.runs_give)
  qed
  then show ?thesis by (rule runs_grows)
qed

lemma known_document_runs:
  fixes fe :: "('s, 't, 'a, 'k, 'c) front_end" and w :: "('s, 't, 'a, 'k) driver"
  assumes "sound w"
  shows "runs sound grows (known_document fe u text) w (known_result u)"
proof (cases "find_doc u w")
  case None
  have "runs sound grows (and_then (doc_open fe u) (\<lambda>a. and_then (classify fe a) (\<lambda>c.
      and_then (look (matches_text fe a text)) (\<lambda>matches.
        if c = Standalone \<and> matches then and_then (change (put_doc u a)) (\<lambda>_. give (Some a, True, False))
        else give (None, False, False))))) w (known_result u)"
  proof (rule grows.runs_and_then [OF runs_grows_held [OF doc_open_runs [OF assms]]])
    fix a and w1 :: "('s, 't, 'a, 'k) driver" assume w1: "sound w1" "doc_of u a w1"
    from classify_runs [OF this, of fe a] show "runs sound grows (and_then (classify fe a) (\<lambda>c.
      and_then (look (matches_text fe a text)) (\<lambda>matches.
        if c = Standalone \<and> matches then and_then (change (put_doc u a)) (\<lambda>_. give (Some a, True, False))
        else give (None, False, False)))) w1 (known_result u)"
      by (rule grows.runs_and_then)
        (auto intro!: grows.runs_and_then [OF put_doc_runs] grows.runs_give)
  qed
  then show ?thesis using None assms by (simp add: known_document_def grows.runs_give)
next
  case (Some a)
  have a: "doc_of u a w" using find_doc_of [OF assms Some] .
  have "runs sound grows (and_then (classify fe a) (\<lambda>c. case c of
      Standalone \<Rightarrow> give (Some a, b, True)
    | Fragment \<Rightarrow> and_then (find_include_owners fe u) (\<lambda>owners.
        and_then (each (add_include_owner fe a) owners) (\<lambda>_. give (Some a, b, owners = []))))) w
      (known_result u)" for b
  proof (rule grows.runs_and_then)
    show "runs sound grows (classify fe a) w (\<lambda>_. doc_of u a)" by (rule classify_runs [OF assms a])
  qed (auto intro!: known_cached_runs grows.runs_give split: standalone_parse.split)
  then show ?thesis using Some assms a by (simp add: known_document_def grows.runs_give)
qed

lemma open_document_runs:
  fixes fe :: "('s, 't, 'a, 'k, 'c) front_end" and w :: "('s, 't, 'a, 'k) driver"
  assumes "sound w"
  shows "runs sound grows (open_document fe u text) w (\<lambda>_ _. True)"
proof -
  have resolve: "runs sound grows (and_then (resolve_document fe u (Some text)) (\<lambda>a.
      and_then (change (put_doc u a)) (\<lambda>_. give a))) w' (doc_of u)" if "sound w'" for w'
    by (rule grows.runs_and_then [OF runs_grows_held [OF resolve_document_runs [OF that]]])
      (auto intro!: grows.runs_and_then [OF put_doc_runs] grows.runs_give)
  have opened: "runs sound grows (and_then (change (\<lambda>w. w\<lparr>open_docs := insert_uri u (open_docs w)\<rparr>)) (\<lambda>_.
      and_then (look (\<lambda>w. include_owners (doc_at a w) \<noteq> [])) (\<lambda>fragment.
       if \<not> fragment \<and> \<not> already then adopt_orphan_fragments fe a else give ()))) w' (\<lambda>_ _. True)"
    if "sound w'" "a < length (heap w')" for a already and w' :: "('s, 't, 'a, 'k) driver"
  proof (rule grows.runs_and_then)
    show "runs sound grows (change (\<lambda>w. w\<lparr>open_docs := insert_uri u (open_docs w)\<rparr>)) w'
        (\<lambda>_ w''. a < length (heap w''))"
      using that by (auto intro!: grows.runs_change simp: sound_def grows_def owner_links_def)
  qed (auto intro!: adopt_runs_grows grows.runs_give simp: ownerless_def)
  have analyse: "runs sound grows (if c then publish_inactive_regions fe False a
      else analyze_document fe False a) w' (\<lambda>_ w''. a < length (heap w''))"
    if "sound w'" "a < length (heap w')" for a c and w' :: "('s, 't, 'a, 'k) driver"
  proof -
    have "runs sound grows (if c then publish_inactive_regions fe False a
      else analyze_document fe False a) w' (\<lambda>_ _. True)"
      using that by (auto intro: analyze_runs_grows keptD keeps)
    then show ?thesis by (rule runs_weaken) (use that(2) in \<open>auto simp: grows_def\<close>)
  qed
  show ?thesis unfolding open_document_def
  proof (rule grows.runs_and_then [OF known_document_runs [OF assms]], clarify)
    fix found in_build already and w1 :: "('s, 't, 'a, 'k) driver"
    assume w1: "sound w1" "known_result u (found, in_build, already) w1"
    have "runs sound grows (case found of Some a \<Rightarrow> give a | None \<Rightarrow>
        and_then (resolve_document fe u (Some text)) (\<lambda>a. and_then (change (put_doc u a)) (\<lambda>_. give a)))
        w1 (doc_of u)"
      using w1 resolve by (cases found) (auto intro: grows.runs_give)
    then show "runs sound grows (and_then (case found of Some a \<Rightarrow> give a | None \<Rightarrow>
        and_then (resolve_document fe u (Some text)) (\<lambda>a. and_then (change (put_doc u a)) (\<lambda>_. give a)))
      (\<lambda>a. and_then (look full_compilation) (\<lambda>comp.
        and_then (if comp \<noteq> None \<and> in_build then publish_inactive_regions fe False a
                  else analyze_document fe False a) (\<lambda>_.
        and_then (change (\<lambda>w. w\<lparr>open_docs := insert_uri u (open_docs w)\<rparr>)) (\<lambda>_.
        and_then (look (\<lambda>w. include_owners (doc_at a w) \<noteq> [])) (\<lambda>fragment.
          if \<not> fragment \<and> \<not> already then adopt_orphan_fragments fe a else give ())))))) w1 (\<lambda>_ _. True)"
      by (rule grows.runs_and_then, unfold runs_look)
        (rule grows.runs_and_then [OF analyse], simp_all add: doc_of_def opened)
  qed
qed

lemma open_document_kept [keeps]: "kept sound grows (open_document fe u text)"
  by (rule keptI) (rule open_document_runs)

lemma valid_runs:
  assumes "kept sound grows m" and "sound w" and "a < length (heap w)"
  shows "runs sound grows m w (\<lambda>_ w'. a < length (heap w'))"
  by (rule runs_weaken [OF keptD [OF assms(1,2)]]) (use assms(3) in \<open>auto simp: grows_def\<close>)

lemma change_text_kept [keeps]: "kept sound grows (change_text fe a changes)"
  unfolding change_text_def
  by (intro keeps, split sum.split, intro conjI allI impI keeps) simp_all

lemma doc_did_change_kept [keeps]: "kept sound grows (doc_did_change fe tracked u changes)"
proof (rule keptI)
  fix w :: "('a, 'b, 'c, 'd) driver" assume w: "sound w"
  have "kept sound grows (if c then check_cancelled tracked s else give ())" for c s
    by (intro keeps)
  then show "runs sound grows (doc_did_change fe tracked u changes) w (\<lambda>_ _. True)"
    unfolding doc_did_change_def
    by (intro grows.runs_and_then [OF get_runs_grows [OF w]] grows.runs_and_then [OF valid_runs])
      (auto intro: keeps analyze_runs_grows)
qed

lemma close_document_kept [keeps]: "kept sound grows (close_document u)"
proof -
  have "kept sound grows (change (\<lambda>w. w\<lparr>open_docs := f (open_docs w)\<rparr>))" for f
    by (auto intro!: keptI grows.runs_change simp: sound_def grows_def owner_links_def)
  then show ?thesis unfolding close_document_def by (intro keeps)
qed

lemma reload_text_kept [keeps]: "kept sound grows (reload_text fe a)"
  unfolding reload_text_def by (intro keeps) simp_all

lemma reload_document_kept [keeps]: "kept sound grows (reload_document fe u)"
proof (rule keptI)
  fix w :: "('a, 'b, 'c, 'd) driver" assume w: "sound w"
  have "runs sound grows (and_then (get_document fe u) (\<lambda>a. and_then (reload_text fe a) (\<lambda>ok.
      if ok then analyze_document fe False a else give ()))) w (\<lambda>_ _. True)"
    by (intro grows.runs_and_then [OF get_runs_grows [OF w]] grows.runs_and_then [OF valid_runs])
      (auto intro: keeps analyze_runs_grows grows.runs_give)
  then show "runs sound grows (reload_document fe u) w (\<lambda>_ _. True)"
    using w by (simp add: reload_document_def grows.runs_give)
qed

lemma watched_change_runs:
  assumes "sound w"
  shows "runs sound grows (watched_change fe c) w (\<lambda>r w'. \<forall>a. r = Some a \<longrightarrow> a < length (heap w'))"
proof (cases c)
  case (Pair u k)
  show ?thesis
  proof (cases k)
    case FileChanged
    have "runs sound grows (and_then (get_document fe u) (\<lambda>a. and_then (reload_text fe a) (\<lambda>ok.
        give (if ok then Some a else None)))) w (\<lambda>r w'. \<forall>a. r = Some a \<longrightarrow> a < length (heap w'))"
      by (intro grows.runs_and_then [OF get_runs_grows [OF assms]] grows.runs_and_then [OF valid_runs])
        (auto intro: keeps grows.runs_give)
    then show ?thesis using Pair FileChanged assms by (simp add: watched_change_def grows.runs_give)
  next
    case FileDeleted
    then show ?thesis using Pair assms
      by (auto simp: watched_change_def intro!: grows.runs_and_then [OF keptD] grows.runs_give keeps)
  qed (simp add: watched_change_def Pair assms grows.runs_give)
qed

lemma watched_sources_kept [keeps]: "kept sound grows (watched_sources_changed fe changes)"
proof (rule keptI)
  fix w :: "('a, 'b, 'c, 'd) driver" assume w: "sound w"
  have "runs sound grows (collect (watched_change fe) changes) w (\<lambda>ys w'. \<forall>y \<in> set ys. y < length (heap w'))"
    by (rule grows.runs_collect) (auto intro: watched_change_runs w simp: grows_def)
  then show "runs sound grows (watched_sources_changed fe changes) w (\<lambda>_ _. True)"
    unfolding watched_sources_changed_def
    by (rule grows.runs_and_then) (auto intro!: grows.runs_each analyze_runs_grows simp: grows_def)
qed

lemma document_trees_kept [keeps]: "kept sound grows (document_trees fe as)"
  unfolding document_trees_def by (intro keeps)

lemma set_compilation_kept [keeps]:
  "kept sound grows (change (\<lambda>w. w\<lparr>full_compilation := f w\<rparr>))"
  by (rule kept_grows_held, rule kept_change) simp_all

lemma refresh_compilation_kept [keeps]: "kept sound grows (refresh_compilation fe)"
  unfolding refresh_compilation_def by (intro keeps)

lemma invalidate_analyses_kept [keeps]: "kept sound grows invalidate_analyses"
  unfolding invalidate_analyses_def by (intro keeps) simp_all

lemma set_active_instance_kept [keeps]: "kept sound grows (set_active_instance fe p)"
  unfolding set_active_instance_def Let_def by (intro keeps)

lemma publish_compilation_kept [keeps]: "kept sound grows (publish_compilation fe priority)"
  unfolding publish_compilation_def by (intro keeps)

text \<open>Saving updates the index.\<close>

lemma runs_widens: "runs sound grows m w Q \<Longrightarrow> runs sound widens m w Q"
  by (erule runs_weaken) (auto intro: grows_widens)

lemma kept_widens: "kept sound grows m \<Longrightarrow> kept sound widens m"
  by (erule kept_weaken) (rule grows_widens)

lemma valid_widens:
  assumes "kept sound widens m" and "sound w" and "a < length (heap w)"
  shows "runs sound widens m w (\<lambda>_ w'. a < length (heap w'))"
  by (rule runs_weaken [OF keptD [OF assms(1,2)]]) (use assms(3) in \<open>auto simp: widens_def\<close>)

lemma doc_did_save_runs:
  fixes fe :: "('s, 't, 'a, 'k, 'c) front_end" and w :: "('s, 't, 'a, 'k) driver"
  assumes "sound w" and "a < length (heap w)"
  shows "runs sound widens (doc_did_save fe a) w (\<lambda>_ _. True)"
proof -
  have index: "kept sound widens (change (\<lambda>w. w\<lparr>workspace_index := f (workspace_index w)\<rparr>))" for f
    by (auto intro!: keptI widens.runs_change simp: sound_def widens_def owner_links_def)
  have others: "kept sound grows (each (\<lambda>v. and_then (look (find_doc v)) (\<lambda>found. case found of
      None \<Rightarrow> give ()
    | Some b \<Rightarrow> and_then (look (has_analysis fe b)) (\<lambda>fresh.
        if uri_eq v u \<or> fresh then give () else analyze_document fe False b))) vs)" for u vs
    by (intro keptI grows.runs_each) (auto split: option.split
        intro!: grows.runs_give analyze_runs_grows dest: find_doc_of simp: doc_of_def)
  have compiled: "kept sound grows (and_then (on_client clear_all) (\<lambda>_. and_then (refresh_compilation fe) (\<lambda>_.
      and_then invalidate_analyses (\<lambda>_. and_then (publish_compilation fe p) (\<lambda>_.
        publish_inactive_regions fe False a)))))" for p
    by (intro keeps)
  show ?thesis unfolding doc_did_save_def
  proof (rule widens.runs_and_then [OF valid_widens [OF kept_widens assms]], rule keeps, unfold runs_look,
      rule widens.runs_and_then [OF valid_widens], rule index, assumption, assumption, unfold runs_look)
    fix w' :: "('s, 't, 'a, 'k) driver" assume "sound w'" "a < length (heap w')"
    then show "runs sound widens (if full_compilation w' = None then
        and_then (analyze_document fe False a) (\<lambda>_. and_then (look open_docs) (each (\<lambda>v.
          and_then (look (find_doc v)) (\<lambda>found. case found of
            None \<Rightarrow> give ()
          | Some b \<Rightarrow> and_then (look (has_analysis fe b)) (\<lambda>fresh.
              if uri_eq v u \<or> fresh then give () else analyze_document fe False b)))))
      else and_then (on_client clear_all) (\<lambda>_. and_then (refresh_compilation fe) (\<lambda>_.
        and_then invalidate_analyses (\<lambda>_. and_then (publish_compilation fe (Some u)) (\<lambda>_.
          publish_inactive_regions fe False a))))) w' (\<lambda>_ _. True)" for u
      by (auto intro!: runs_widens grows.runs_and_then [OF analyze_runs_grows] keptD [OF others] keptD [OF compiled])
  qed
qed

lemma save_document_kept: "kept sound widens (save_document fe u text)"
proof (rule keptI)
  fix w :: "('a, 'b, 'c, 'd) driver" assume w: "sound w"
  have "runs sound widens (and_then (open_document fe u s) (\<lambda>_. get_document fe u)) w'
      (\<lambda>a w'. a < length (heap w'))" if "sound w'" for s and w' :: "('a, 'b, 'c, 'd) driver"
    by (rule runs_widens, rule grows.runs_and_then [OF open_document_runs [OF that]]) (rule get_runs_grows)
  then have "runs sound widens (and_then (get_document fe u) (\<lambda>a.
      and_then (look (\<lambda>w. case text of None \<Rightarrow> True | Some s \<Rightarrow> matches_text fe a s w)) (\<lambda>matches.
      and_then (if matches then give a else and_then (open_document fe u (the text)) (\<lambda>_. get_document fe u))
        (\<lambda>a. doc_did_save fe a)))) w (\<lambda>_ _. True)"
    by (intro widens.runs_and_then [OF runs_widens [OF get_runs_grows [OF w]]], unfold runs_look)
      (rule widens.runs_and_then [where P = "\<lambda>a w'. a < length (heap w')"],
       auto intro: doc_did_save_runs widens.runs_give)
  then show "runs sound widens (save_document fe u text) w (\<lambda>_ _. True)"
    using w by (simp add: save_document_def widens.runs_give)
qed

section \<open>Creating a driver\<close>

lemma sound_new_driver: "sound (new_driver s ix log)"
  by (simp add: sound_def new_driver_def doc_at_def nth_default_def no_document_def owner_links_def
      acyclic_def)

lemma doc_from_tree_runs:
  assumes "sound w"
  shows "runs sound held (doc_from_tree fe t) w
    (doc_of (from_file (full_path (sources fe (library w)) (hd (tree_buffers fe t)))))"
  unfolding doc_from_tree_def runs_look
  by (rule held.runs_and_then [OF new_doc_runs [OF assms]], simp,
      rule held.runs_and_then [OF runs_weaken [OF keptD [OF set_doc_held]]])
    (auto intro: held.runs_give doc_of_held)

lemma load_tree_kept [keeps]: "kept sound grows (load_tree fe t)"
proof -
  have "kept sound grows (change (\<lambda>w. w\<lparr>build_uris := f w\<rparr>))" for f
    by (rule kept_grows_held, rule kept_change) simp_all
  moreover have "kept sound grows
      (and_then (look (\<lambda>w. from_file (full_path (sources fe (library w)) (hd (tree_buffers fe t))))) (\<lambda>u.
        and_then (doc_from_tree fe t) (\<lambda>a. change (put_doc u a))))"
    by (rule keptI, unfold runs_look, rule grows.runs_and_then [OF runs_grows_held [OF doc_from_tree_runs]])
      (auto intro: runs_weaken [OF put_doc_runs])
  ultimately show ?thesis unfolding load_tree_def by (rule grows.kept_and_then)
qed

lemma copy_open_documents_kept [keeps]: "kept sound grows (copy_open_documents fe old)"
  unfolding copy_open_documents_def by (intro keeps)

lemma make_compilation_kept [keeps]: "kept sound grows (make_compilation fe as root)"
  unfolding make_compilation_def by (intro keeps)

lemma create_for_explore_kept [keeps]: "kept sound grows (create_for_explore fe trees old)"
  unfolding create_for_explore_def by (intro keeps)

lemma create_from_file_lists_kept [keeps]: "kept sound grows (create_from_file_lists fe trees old)"
  unfolding create_from_file_lists_def by (intro keeps)

lemma put_documents_runs:
  assumes "sound w" and "\<forall>a \<in> set as. a < length (heap w)"
  shows "runs sound grows (each (\<lambda>a. and_then (look (\<lambda>w. document_uri (doc_at a w)))
    (\<lambda>v. change (put_doc v a))) as) w (\<lambda>_ _. True)"
proof (rule grows.runs_each)
  fix a w' assume "a \<in> set as" and w': "sound w'" "grows w w'"
  then have "a < length (heap w')" using assms(2) by (auto simp: grows_def)
  then have "doc_of (document_uri (doc_at a w')) a w'" by (simp add: doc_of_def uri_eq_def)
  from put_doc_runs [OF w'(1) this]
  show "runs sound grows (and_then (look (\<lambda>w. document_uri (doc_at a w))) (\<lambda>v. change (put_doc v a))) w'
      (\<lambda>_ _. True)"
    by (simp add: runs_weaken)
qed (rule assms(1))

lemma create_from_top_kept [keeps]: "kept sound grows (create_from_top fe trees u old)"
proof -
  have documents: "kept sound grows (and_then
      (collect (\<lambda>t. and_then (doc_from_tree fe t) (\<lambda>a. give (Some a))) ts) (\<lambda>as.
      and_then (each (\<lambda>a. and_then (look (\<lambda>w. document_uri (doc_at a w)))
        (\<lambda>v. change (put_doc v a))) as) (\<lambda>_.
      and_then (make_compilation fe as root) (\<lambda>_. publish_compilation fe None))))" for ts root
  proof (rule keptI, rule grows.runs_and_then)
    fix w :: "('a, 'b, 'c, 'd) driver" assume w: "sound w"
    show "runs sound grows (collect (\<lambda>t. and_then (doc_from_tree fe t) (\<lambda>a. give (Some a))) ts) w
        (\<lambda>as w'. \<forall>a \<in> set as. a < length (heap w'))"
      by (intro grows.runs_collect w grows.runs_and_then [OF runs_grows_held [OF doc_from_tree_runs]])
        (auto intro: grows.runs_give simp: doc_of_def grows_def)
    fix as and w' :: "('a, 'b, 'c, 'd) driver"
    assume w': "sound w'" "\<forall>a \<in> set as. a < length (heap w')"
    have rest: "kept sound grows (and_then (make_compilation fe as root) (\<lambda>_. publish_compilation fe None))"
      by (intro keeps)
    show "runs sound grows (and_then (each (\<lambda>a. and_then (look (\<lambda>w. document_uri (doc_at a w)))
        (\<lambda>v. change (put_doc v a))) as) (\<lambda>_.
        and_then (make_compilation fe as root) (\<lambda>_. publish_compilation fe None))) w' (\<lambda>_ _. True)"
      by (rule grows.runs_and_then [OF put_documents_runs [OF w']]) (rule keptD [OF rest])
  qed
  show ?thesis unfolding create_from_top_def by (intro keeps documents)
qed

section \<open>Any sequence of operations\<close>

text \<open>
  What the server asks of a driver, and \<open>Outside\<close> for what happens without it: files change on the
  disk, requests are cancelled, the index is updated.
\<close>

datatype ('s, 't, 'a, 'k) driver_event =
    CreateForExplore "'t list" "('s, 't, 'a, 'k) driver option"
  | CreateFromFileLists "'t list" "('s, 't, 'a, 'k) driver option"
  | CreateFromTop "'t list" uri "('s, 't, 'a, 'k) driver option"
  | OpenDocument uri string
  | GetDocument uri
  | ChangeDocument bool uri "content_change list"
  | SaveDocument uri "string option"
  | CloseDocument uri
  | ReloadDocument uri
  | WatchedFiles "(uri \<times> file_change_type) list"
  | ActivateInstance string
  | ModulesInFile string
  | Outside 's "bool list" indexer

fun serve ::
    "('s, 't, 'a, 'k, 'c) front_end \<Rightarrow> ('s, 't, 'a, 'k) driver_event \<Rightarrow>
     (unit, ('s, 't, 'a, 'k) driver) action" where
  "serve fe (CreateForExplore ts old) = create_for_explore fe ts old"
| "serve fe (CreateFromFileLists ts old) = create_from_file_lists fe ts old"
| "serve fe (CreateFromTop ts u old) = create_from_top fe ts u old"
| "serve fe (OpenDocument u text) = open_document fe u text"
| "serve fe (GetDocument u) = and_then (get_document fe u) (\<lambda>_. give ())"
| "serve fe (ChangeDocument tracked u cs) = doc_did_change fe tracked u cs"
| "serve fe (SaveDocument u text) = save_document fe u text"
| "serve fe (CloseDocument u) = close_document u"
| "serve fe (ReloadDocument u) = reload_document fe u"
| "serve fe (WatchedFiles cs) = watched_sources_changed fe cs"
| "serve fe (ActivateInstance p) = and_then (set_active_instance fe p) (\<lambda>_. give ())"
| "serve fe (ModulesInFile p) = and_then (modules_in_file fe p) (\<lambda>_. give ())"
| "serve fe (Outside s ps ix) = change (\<lambda>w. w\<lparr>library := s, cancel_polls := ps, workspace_index := ix\<rparr>)"

text \<open>An exception ends its event only: the server reports it and goes on with the state it left.\<close>

definition serve_all ::
    "('s, 't, 'a, 'k, 'c) front_end \<Rightarrow> ('s, 't, 'a, 'k) driver_event list \<Rightarrow>
     ('s, 't, 'a, 'k) driver \<Rightarrow> ('s, 't, 'a, 'k) driver" where
  "serve_all fe es w = fold (\<lambda>e w. snd (serve fe e w)) es w"

lemma modules_in_file_kept [keeps]: "kept sound grows (modules_in_file fe p)"
  unfolding modules_in_file_def by (intro keeps)

lemma serve_kept: "kept sound widens (serve fe e)"
proof (cases e)
  case (Outside s ps ix)
  then show ?thesis
    by (auto intro!: keptI widens.runs_change simp: sound_def widens_def owner_links_def)
next
  case (SaveDocument u t)
  then show ?thesis by (simp add: save_document_kept)
qed (simp, rule kept_widens, intro keeps)+

lemma serve_all_sound: "sound w \<Longrightarrow> sound (serve_all fe es w)"
proof (induction es arbitrary: w)
  case (Cons e es)
  have "sound (snd (serve fe e w))" using keptD [OF serve_kept [of fe e] Cons.prems] by (simp add: runs_def)
  from Cons.IH [OF this] show ?case by (simp add: serve_all_def)
qed (simp add: serve_all_def)

text \<open>
  C2: The document table of a driver stays sound. After any sequence of operations, failed ones
  included, and whatever the library, the disk and the index do in between: every URI has at most
  one entry, which leads to a document of that URI; the owners of a document are documents; and no
  document owns itself, directly or through others.
\<close>

theorem document_table_sound:
  "(let w = serve_all fe es (new_driver s ix log)
    in distinct (List.map (\<lambda>(u, a). uri_str u) (docs w))
       \<and> set (docs w) \<subseteq> {(u, a). a < length (heap w) \<and> uri_eq (document_uri (doc_at a w)) u}
       \<and> set (include_owners (doc_at a w)) \<subseteq> {..<length (heap w)}
       \<and> acyclic {(a, b). b \<in> set (include_owners (doc_at a w))})"
  using serve_all_sound [OF sound_new_driver, of fe es s ix log]
  by (auto simp: sound_def owner_links_def Let_def)

text \<open>
  C3: Every operation returns. In every state a driver can reach the recursions along the owners
  of a document and the loop over its dependencies end within their bounds, the number of
  documents and of locations in the index, so that no operation runs without end.
\<close>

theorem driver_operations_return:
  "fst (serve fe e (serve_all fe es (new_driver s ix log))) \<noteq> Inl OutOfFuel"
  using keptD [OF serve_kept [of fe e] serve_all_sound [OF sound_new_driver, of fe es s ix log]]
  by (auto simp: runs_def split: sum.splits)


section \<open>Examples\<close>

text \<open>
  Three files: \<^verbatim>\<open>c.sv\<close> includes \<^verbatim>\<open>a.vh\<close>, which includes \<^verbatim>\<open>b.vh\<close>; neither header
  parses on its own. A tree is the list of its buffers, its own first; an included file has a
  buffer of its own in every tree.
\<close>

definition header_path :: "nat \<Rightarrow> string" where
  "header_path b = (if b = 1 \<or> b = 31 then ''/a.vh''
     else if b = 2 \<or> b = 12 \<or> b = 32 then ''/b.vh'' else if b = 3 then ''/c.sv'' else [])"

definition header_buffer :: "string \<Rightarrow> nat option" where
  "header_buffer p = List.find (\<lambda>b. header_path b = p) [1, 2, 3]"

definition headers :: "(unit, nat list, unit, unit, nat) front_end" where
  "headers =
     \<lparr>sources = (\<lambda>s. flat_manager\<lparr>full_path := header_path\<rparr>), source_text = (\<lambda>s b. [nul]),
      is_cached = (\<lambda>s p. False), is_included = (\<lambda>s b. 10 \<le> b),
      read_source = (\<lambda>p s. (header_buffer p, s)), replace_buffer = (\<lambda>b t s. (b, s)),
      assign_text = (\<lambda>p t s. (the (header_buffer p), s)), reread_buffer = (\<lambda>b s. (Some b, s)),
      line_offsets = lines_from_zero, lexical_path = id, canonical_path = (\<lambda>p. None),
      parse = (\<lambda>b s. (if b = 1 then [1, 12] else if b = 3 then [3, 31, 32] else [b], s)),
      tree_buffers = id, tree_units = (\<lambda>t. []), tree_classes = (\<lambda>t. []),
      tree_diags = (\<lambda>t. if hd t = 3 then []
        else [\<lparr>located_code = 0, located_at = \<lparr>loc_buffer = hd t, loc_offset = 0\<rparr>\<rparr>]),
      is_error_diag = (\<lambda>d. True), declared_symbols = (\<lambda>t. []), referenced_symbols = (\<lambda>t. []),
      tree_parsed = (\<lambda>t. module_file [] []), make_analysis = (\<lambda>s b t ts k. ()),
      semantic_diags = (\<lambda>a. []), analysis_diags = (\<lambda>a. []), disabled_regions = (\<lambda>a. []),
      max_instance_depth = 1, set_mappings = (\<lambda>b s. s), engine_issue = (\<lambda>d s. (None, s)),
      engine = \<lparr>map_source_ranges = (\<lambda>l rs. rs), option_name = (\<lambda>c. [])\<rparr>, uri_dot = (\<lambda>c. True),
      elaborate = (\<lambda>s r ts k. ()),
      top_instances = (\<lambda>t. []), load_sources = (\<lambda>t files s. ([t], s)), design_diags = (\<lambda>k. []), select_instance = (\<lambda>p k. (False, k)),
      resolve_fragments = True, shows_inactive_regions = False\<rparr>"

text \<open>
  Opened from the inside out, \<^verbatim>\<open>b.vh\<close> is adopted by \<^verbatim>\<open>a.vh\<close>, which \<^verbatim>\<open>c.sv\<close> then adopts:
  an owner can be a fragment.
\<close>

lemma owner_is_fragment:
  "(let w = serve_all headers
        [OpenDocument (from_file ''/b.vh'') [], OpenDocument (from_file ''/a.vh'') [],
         OpenDocument (from_file ''/c.sv'') []] (new_driver () empty_indexer [])
    in List.map (\<lambda>d. (uri_path (document_uri d), include_owners d)) (heap w)) =
   [(''/b.vh'', [1, 2]), (''/a.vh'', [2]), (''/c.sv'', [])]"
  by code_simp

text \<open>Opened again with another text, \<^verbatim>\<open>c.sv\<close> is a new document; the old one stays an owner.\<close>

lemma replaced_owner_stays:
  "(let w = serve_all headers
        [OpenDocument (from_file ''/b.vh'') [], OpenDocument (from_file ''/c.sv'') [],
         OpenDocument (from_file ''/c.sv'') ''x''] (new_driver () empty_indexer [])
    in (List.map (\<lambda>d. (uri_path (document_uri d), include_owners d)) (heap w),
        List.map snd (docs w))) =
   ([(''/b.vh'', [1, 2]), (''/c.sv'', []), (''/c.sv'', [])], [0, 2])"
  by code_simp

text \<open>A document that cannot be read is an exception, not an absent document.\<close>

lemma get_document_unreadable:
  assumes "find_doc u w = None" and "\<not> resolve_fragments fe"
    and "fst (read_source fe (path_of u) (library w)) = None"
  shows "fst (get_document fe u w) = Inl (Raised BadAccess)"
  using assms
  by (simp add: get_document_def resolve_document_def find_include_owners_def doc_open_def
      call_value_def and_then_def look_def call_def raise_def give_def)

end
