(* ===== verification/SnippetReader.thy ===== *)
theory SnippetReader
  imports Snippet
begin

text \<open>
  What an editor makes of a snippet: a reader of the snippet grammar for literal text, tab stops
  and placeholders, and the proof that it reads back what was put in with the operations of
  \<^verbatim>\<open>SnippetString\<close>. The completion providers state what they offer in these terms.
\<close>

section \<open>The reader\<close>

datatype snippet_element = Literal char | Stop nat | Hole nat string

text \<open>The text of a placeholder, up to the brace that no backslash precedes, and the rest.\<close>

fun until_brace :: "string \<Rightarrow> (string \<times> string) option" where
  "until_brace [] = None"
| "until_brace [c] = (if c = CHR ''}'' then Some ([], []) else None)"
| "until_brace (c # d # s) =
     (if c = CHR ''}'' then Some ([], d # s)
      else if c = backslash then map_option (map_prod (Cons d) id) (until_brace s)
      else map_option (map_prod (Cons c) id) (until_brace (d # s)))"

lemma until_brace_shorter: "until_brace s = Some (v, r) \<Longrightarrow> length r < length s"
proof (induction s arbitrary: v r rule: until_brace.induct)
  case (3 c d s)
  then show ?case by (cases "c = CHR ''}''"; cases "c = backslash") (auto intro: less_SucI)
qed (auto split: if_splits)

function read_snippet :: "string \<Rightarrow> snippet_element list option" where
  "read_snippet [] = Some []"
| "read_snippet (c # s) =
     (if c = backslash then
        (if s \<noteq> [] \<and> hd s \<in> {CHR ''$'', CHR ''}'', backslash}
         then map_option (Cons (Literal (hd s))) (read_snippet (tl s))
         else map_option (Cons (Literal c)) (read_snippet s))
      else if c = CHR ''$'' then
        (if s \<noteq> [] \<and> hd s = CHR ''{'' then
           (let ds = takeWhile is_digit (tl s); r = dropWhile is_digit (tl s)
            in if ds = [] \<or> r = [] \<or> hd r \<noteq> CHR '':'' then None
               else case until_brace (tl r) of
                      None \<Rightarrow> None
                    | Some (v, rest) \<Rightarrow>
                        map_option (Cons (Hole (digits_value ds) v)) (read_snippet rest))
         else
           (let ds = takeWhile is_digit s
            in if ds = [] then map_option (Cons (Literal c)) (read_snippet s)
               else map_option (Cons (Stop (digits_value ds)))
                      (read_snippet (dropWhile is_digit s))))
      else map_option (Cons (Literal c)) (read_snippet s))"
  by pat_completeness auto
termination
proof (relation "measure length")
  fix c s ds r x v rest
  assume *: "r = dropWhile is_digit (tl s)" "until_brace (tl r) = Some x" "(v, rest) = x"
  then have "length rest < length (tl r)" using until_brace_shorter by metis
  also have "\<dots> \<le> length (tl s)"
    using * length_dropWhile_le [of is_digit "tl s"] by simp
  finally show "(rest, c # s) \<in> measure length" by simp
next
  fix c s ds
  show "(dropWhile is_digit s, c # s) \<in> measure length"
    by (simp add: length_dropWhile_le le_imp_less_Suc)
qed (auto simp: le_imp_less_Suc)

declare read_snippet.simps(2) [simp del]

lemma read_literal:
  "c \<noteq> backslash \<Longrightarrow> c \<noteq> CHR ''$'' \<Longrightarrow>
   read_snippet (c # s) = map_option (Cons (Literal c)) (read_snippet s)"
  by (simp add: read_snippet.simps(2))

lemma read_escaped:
  "read_snippet (escape t @ s) = map_option (append (map Literal t)) (read_snippet s)"
proof (induction t)
  case Nil
  show ?case by (simp add: escape_def option.map_ident)
next
  case (Cons c t)
  have "read_snippet (escape_char c @ u) = map_option (Cons (Literal c)) (read_snippet u)" for u
    by (simp add: escape_char_def read_literal read_snippet.simps(2) [of backslash])
  with Cons show ?case
    by (simp add: escape_def option.map_comp comp_def)
qed

lemma until_brace_plain:
  "c \<noteq> CHR ''}'' \<Longrightarrow> c \<noteq> backslash \<Longrightarrow>
   until_brace (c # s) = map_option (map_prod (Cons c) id) (until_brace s)"
  by (cases s) simp_all

lemma until_brace_escaped:
  "until_brace (escape v @ CHR ''}'' # s) = Some (v, s)"
proof (induction v)
  case Nil
  show ?case by (cases s) (simp_all add: escape_def)
next
  case (Cons c v)
  then show ?case by (simp add: escape_def escape_char_def until_brace_plain)
qed

lemma takeWhile_digits:
  "list_all is_digit ds \<Longrightarrow> s = [] \<or> \<not> is_digit (hd s) \<Longrightarrow>
   takeWhile is_digit (ds @ s) = ds \<and> dropWhile is_digit (ds @ s) = s"
  by (cases s) (auto simp: list_all_iff)

lemma not_digit_specials [simp]:
  "\<not> is_digit CHR ''{''" "\<not> is_digit CHR '':''" "\<not> is_digit CHR ''$''"
  by (simp_all add: is_digit_def)

lemma digits_nat_to_string [simp]: "list_all is_digit (nat_to_string n)"
  using nat_to_string_digits by (simp add: list_all_iff)

lemma read_stop:
  assumes "s = [] \<or> \<not> is_digit (hd s)"
  shows "read_snippet (CHR ''$'' # nat_to_string n @ s) =
    map_option (Cons (Stop n)) (read_snippet s)"
proof -
  have "hd (nat_to_string n) \<noteq> CHR ''{''"
    using nat_to_string_digits [of "hd (nat_to_string n)" n] by auto
  with takeWhile_digits [OF digits_nat_to_string assms, of n] show ?thesis
    by (simp add: read_snippet.simps(2) [of "CHR ''$''"] Let_def)
qed

lemma read_hole:
  "read_snippet (''${'' @ nat_to_string n @ '':'' @ escape v @ ''}'' @ s) =
   map_option (Cons (Hole n v)) (read_snippet s)"
  using takeWhile_digits [OF digits_nat_to_string, of "'':'' @ escape v @ ''}'' @ s" n]
  by (simp add: read_snippet.simps(2) [of "CHR ''$''"] Let_def until_brace_escaped)

section \<open>Reading back what was appended\<close>

text \<open>The text an operation appends, the elements it stands for, and the operations covered.\<close>

fun op_text :: "snippet \<Rightarrow> snippet_op \<Rightarrow> string" where
  "op_text s (Text t) = escape t"
| "op_text s (Tabstop n) = ''$'' @ int_to_string (fst (take_tabstop n s))"
| "op_text s (Placeholder v n) =
     ''${'' @ int_to_string (fst (take_tabstop n s)) @ '':'' @ escape v @ ''}''"
| "op_text s x = []"

fun op_elements :: "snippet \<Rightarrow> snippet_op \<Rightarrow> snippet_element list" where
  "op_elements s (Text t) = map Literal t"
| "op_elements s (Tabstop n) = [Stop (nat (fst (take_tabstop n s)))]"
| "op_elements s (Placeholder v n) = [Hole (nat (fst (take_tabstop n s))) v]"
| "op_elements s x = []"

fun plain_op :: "snippet_op \<Rightarrow> bool" where
  "plain_op (Text t) \<longleftrightarrow> True"
| "plain_op (Tabstop n) \<longleftrightarrow> (case n of None \<Rightarrow> True | Some k \<Rightarrow> 0 \<le> k)"
| "plain_op (Placeholder v n) \<longleftrightarrow> (case n of None \<Rightarrow> True | Some k \<Rightarrow> 0 \<le> k)"
| "plain_op x \<longleftrightarrow> False"

fun appended :: "snippet \<Rightarrow> snippet_op list \<Rightarrow> string" where
  "appended s [] = []"
| "appended s (x # xs) = op_text s x @ appended (run_op x s) xs"

fun elements :: "snippet \<Rightarrow> snippet_op list \<Rightarrow> snippet_element list" where
  "elements s [] = []"
| "elements s (x # xs) = op_elements s x @ elements (run_op x s) xs"

text \<open>After a tab stop the next character must not prolong its number.\<close>

fun separated :: "snippet \<Rightarrow> snippet_op list \<Rightarrow> bool" where
  "separated s [] \<longleftrightarrow> True"
| "separated s (x # xs) \<longleftrightarrow>
     (case x of
        Tabstop n \<Rightarrow>
          (let r = appended (run_op x s) xs in r = [] \<or> \<not> is_digit (hd r))
      | _ \<Rightarrow> True) \<and>
     separated (run_op x s) xs"

lemma run_op_value:
  "plain_op x \<Longrightarrow> snippet_value (run_op x s) = snippet_value s @ op_text s x"
  by (cases x)
    (simp_all add: append_text_def append_tabstop_def append_placeholder_def add_value_def
      take_tabstop_def Let_def split: option.split)

lemma fold_run_op_value:
  "list_all plain_op xs \<Longrightarrow>
   snippet_value (fold run_op xs s) = snippet_value s @ appended s xs"
  by (induction xs arbitrary: s) (simp_all add: run_op_value)

lemma take_tabstop_nonneg:
  "plain_op x \<Longrightarrow> op_number x = Some n \<Longrightarrow> 0 \<le> next_tabstop s \<Longrightarrow>
   0 \<le> fst (take_tabstop n s) \<and> 0 \<le> next_tabstop (snd (take_tabstop n s))"
  by (cases n; cases x) (auto simp: take_tabstop_def split: if_splits)

lemma run_op_nonneg:
  "plain_op x \<Longrightarrow> 0 \<le> next_tabstop s \<Longrightarrow> 0 \<le> next_tabstop (run_op x s)"
  using take_tabstop_nonneg [of x _ s] by (auto simp: next_tabstop_run_op split: option.split)

lemma int_to_string_nonneg: "0 \<le> k \<Longrightarrow> int_to_string k = nat_to_string (nat k)"
  by (simp add: int_to_string_def)

lemma read_appended:
  "list_all plain_op xs \<Longrightarrow> separated s xs \<Longrightarrow> 0 \<le> next_tabstop s \<Longrightarrow>
   read_snippet (appended s xs) = Some (elements s xs)"
proof (induction xs arbitrary: s)
  case (Cons x xs)
  then have rest: "read_snippet (appended (run_op x s) xs) = Some (elements (run_op x s) xs)"
    using run_op_nonneg by auto
  show ?case
  proof (cases x)
    case (Text t)
    with rest show ?thesis by (simp add: read_escaped)
  next
    case (Tabstop n)
    with Cons.prems have "0 \<le> fst (take_tabstop n s)"
      using take_tabstop_nonneg [of x n s] by simp
    with rest Cons.prems Tabstop show ?thesis
      by (simp add: int_to_string_nonneg read_stop Let_def)
  next
    case (Placeholder v n)
    with Cons.prems have "0 \<le> fst (take_tabstop n s)"
      using take_tabstop_nonneg [of x n s] by simp
    with rest read_hole Placeholder show ?thesis by (simp add: int_to_string_nonneg)
  qed (use Cons.prems in auto)
qed simp

text \<open>
  C29: An editor reads back what was put into a snippet: for any sequence of texts, tab stops and
  placeholders, where no text that starts with a digit follows a tab stop, the built string is
  read as the characters of the texts and the stops and placeholders with the numbers that were
  given out, in order, whatever characters texts and placeholders hold.
\<close>

theorem snippet_reads_back:
  "list_all plain_op ops \<Longrightarrow> separated (new_snippet []) ops \<Longrightarrow>
   read_snippet (snippet_value (fold run_op ops (new_snippet []))) =
     Some (elements (new_snippet []) ops)"
  by (simp add: fold_run_op_value read_appended new_snippet_def)

theorem snippet_reads_back_witness:
  "read_snippet (snippet_value (fold run_op
      [Text ''f($'', Placeholder ''a}'' None, Text '', '', Tabstop (Some 0), Text '')'']
      (new_snippet []))) =
   Some [Literal CHR ''f'', Literal CHR ''('', Literal CHR ''$'', Hole 1 ''a}'', Literal CHR '','',
         Literal CHR '' '', Stop 0, Literal CHR '')'']"
  by (subst snippet_reads_back)
    (simp_all add: new_snippet_def append_text_def append_tabstop_def append_placeholder_def
      add_value_def take_tabstop_def Let_def escape_def escape_char_def is_digit_def)

end
