(* ===== verification/CompletionItem.thy ===== *)
theory CompletionItem
  imports MarkdownText Converters SnippetReader
begin

text \<open>
  The completion items the server offers (\<^verbatim>\<open>lsp/LspTypes.h\<close>, the fields the providers
  set) and the rules a client reads them by: which text an accepted item inserts. The deferred
  data of an item is of a type of its own.
\<close>

datatype item_kind =
    TextItem | MethodItem | FunctionItem | ConstructorItem | FieldItem | VariableItem | ClassItem
  | InterfaceItem | ModuleItem | PropertyItem | UnitItem | ValueItem | EnumItem | KeywordItem
  | SnippetItem | ColorItem | FileItem | ReferenceItem | FolderItem | EnumMemberItem
  | ConstantItem | StructItem | EventItem | OperatorItem | TypeParameterItem

datatype text_format = PlainText | SnippetText

datatype insert_mode = AsIs | AdjustIndentation

record text_edit =
  edit_range :: lsp_range
  edit_text :: string

datatype item_edit = Replace text_edit | InsertReplace string lsp_range lsp_range

datatype documentation = DocString string | DocMarkup markup_content

record 'd completion_item =
  item_label :: string
  label_detail :: "string option"
  label_description :: "string option"
  item_kind :: "item_kind option"
  item_documentation :: "documentation option"
  sort_text :: "string option"
  filter_text :: "string option"
  insert_text :: "string option"
  insert_format :: "text_format option"
  insert_mode :: "insert_mode option"
  item_text_edit :: "item_edit option"
  additional_edits :: "text_edit list option"
  item_data :: "'d option"

definition labelled :: "string \<Rightarrow> 'd completion_item" where
  "labelled l =
     \<lparr>item_label = l, label_detail = None, label_description = None, item_kind = None,
      item_documentation = None, sort_text = None, filter_text = None, insert_text = None,
      insert_format = None, insert_mode = None, item_text_edit = None, additional_edits = None,
      item_data = None\<rparr>"

section \<open>What a client inserts\<close>

text \<open>The text edit wins over the insert text, and the insert text over the label.\<close>

fun edit_new_text :: "item_edit \<Rightarrow> string" where
  "edit_new_text (Replace e) = edit_text e"
| "edit_new_text (InsertReplace t i r) = t"

definition inserted_text :: "'d completion_item \<Rightarrow> string" where
  "inserted_text item =
     (case item_text_edit item of
        Some e \<Rightarrow> edit_new_text e
      | None \<Rightarrow> (case insert_text item of Some t \<Rightarrow> t | None \<Rightarrow> item_label item))"

text \<open>What it stands for in the editor: a snippet is read, plain text is taken literally.\<close>

definition inserted_elements :: "'d completion_item \<Rightarrow> snippet_element list option" where
  "inserted_elements item =
     (if insert_format item = Some SnippetText then read_snippet (inserted_text item)
      else Some (map Literal (inserted_text item)))"

section \<open>Keywords\<close>

text \<open>\<^verbatim>\<open>addKeywordCompletions\<close> of \<^verbatim>\<open>completions/KeywordCompletions.cpp\<close>.\<close>

definition keyword_item :: "string \<Rightarrow> 'd completion_item" where
  "keyword_item k = (labelled k)\<lparr>item_kind := Some KeywordItem, filter_text := Some k\<rparr>"

definition block_item :: "string \<Rightarrow> string \<Rightarrow> 'd completion_item" where
  "block_item k body =
     (labelled k)\<lparr>item_kind := Some SnippetItem, filter_text := Some k,
       insert_text := Some body, insert_format := Some SnippetText\<rparr>"

definition add_keyword_completions :: "'d completion_item list \<Rightarrow> 'd completion_item list" where
  "add_keyword_completions results =
     results @ map keyword_item [''logic'', ''assign'', ''wire'', ''reg''] @
     [block_item ''always_ff''
        (''always_ff @($0) begin'' @ [newline, tab] @ [newline] @ ''end''),
      block_item ''always_comb''
        (''always_comb begin'' @ [newline, tab] @ ''$0'' @ [newline] @ ''end''),
      block_item ''always_latch''
        (''always_latch begin'' @ [newline, tab] @ ''$0'' @ [newline] @ ''end'')]"

end
