(* ===== verification/SystemTasks.thy ===== *)
theory SystemTasks
  imports CompletionItem
begin

text \<open>
  Completions for the built-in system tasks and functions,
  \<^verbatim>\<open>completions/SystemTaskCompletions.cpp\<close>: from the documented signature of a subroutine
  to the snippet with one placeholder per required argument. The library's classes of
  characters are a parameter, and so are the table of documentation texts and the subroutines
  of a compilation. Views are strings and positions are natural numbers; \<^verbatim>\<open>npos\<close> is
  \<open>None\<close>.
\<close>

record char_info =
  is_whitespace :: "char \<Rightarrow> bool"
  is_alpha_numeric :: "char \<Rightarrow> bool"

record task_doc =
  doc_signature :: string
  doc_description :: string

datatype signature_args = CallArgs string | WithClause string

section \<open>Views\<close>

definition trim :: "char_info \<Rightarrow> string \<Rightarrow> string" where
  "trim ci s = rev (dropWhile (is_whitespace ci) (rev (dropWhile (is_whitespace ci) s)))"

definition is_name_char :: "char_info \<Rightarrow> char \<Rightarrow> bool" where
  "is_name_char ci c \<longleftrightarrow> is_alpha_numeric ci c \<or> c = CHR ''_'' \<or> c = CHR ''$''"

definition boundary_before :: "char_info \<Rightarrow> string \<Rightarrow> nat \<Rightarrow> bool" where
  "boundary_before ci s pos \<longleftrightarrow> pos = 0 \<or> \<not> is_name_char ci (s ! (pos - 1))"

definition boundary_after :: "char_info \<Rightarrow> string \<Rightarrow> nat \<Rightarrow> bool" where
  "boundary_after ci s pos \<longleftrightarrow> pos = length s \<or> \<not> is_name_char ci (s ! pos)"

definition base_insert_text :: "string \<Rightarrow> string" where
  "base_insert_text label = (if label \<noteq> [] \<and> hd label = CHR ''$'' then tl label else label)"

definition first_signature :: "char_info \<Rightarrow> string \<Rightarrow> string" where
  "first_signature ci s =
     trim ci (case find_char newline s of Some i \<Rightarrow> take i s | None \<Rightarrow> s)"

text \<open>\<^verbatim>\<open>s.find(p, pos)\<close>.\<close>

fun find_str :: "string \<Rightarrow> string \<Rightarrow> nat option" where
  "find_str p [] = (if p = [] then Some 0 else None)"
| "find_str p (c # s) =
     (if prefix p (c # s) then Some 0 else map_option Suc (find_str p s))"

definition find_from :: "string \<Rightarrow> nat \<Rightarrow> string \<Rightarrow> nat option" where
  "find_from p pos s =
     (if pos > length s then None else map_option (\<lambda>i. pos + i) (find_str p (drop pos s)))"

lemma find_str_Some: "find_str p s = Some i \<Longrightarrow> prefix p (drop i s) \<and> i + length p \<le> length s"
proof (induction s arbitrary: i)
  case (Cons c s)
  then show ?case by (auto split: if_splits dest: prefix_length_le)
qed (auto split: if_splits)

lemma find_from_Some:
  "find_from p pos s = Some i \<Longrightarrow> pos \<le> i \<and> i + length p \<le> length s \<and> prefix p (drop i s)"
  by (auto simp: find_from_def add.commute dest: find_str_Some split: if_splits)

function find_name_from :: "char_info \<Rightarrow> string \<Rightarrow> string \<Rightarrow> nat \<Rightarrow> nat option" where
  "find_name_from ci s name pos =
     (if name = [] then None
      else case find_from name pos s of
             None \<Rightarrow> None
           | Some p \<Rightarrow>
               if boundary_before ci s p \<and> boundary_after ci s (p + length name)
               then Some (p + length name)
               else find_name_from ci s name (p + length name))"
  by pat_completeness auto
termination
proof (relation "measure (\<lambda>(ci, s, name, pos). length s - pos)")
  fix ci s and name :: string and pos p
  assume "name \<noteq> []" "find_from name pos s = Some p"
  then have "pos \<le> p" "0 < length name" "p + length name \<le> length s"
    using find_from_Some [of name pos s p] by auto
  then have "pos < p + length name" "p + length name \<le> length s" by linarith+
  then show "((ci, s, name, p + length name), (ci, s, name, pos))
      \<in> measure (\<lambda>(ci, s, name, pos). length s - pos)"
    by simp
qed simp

declare find_name_from.simps [simp del]

definition find_subroutine_name :: "char_info \<Rightarrow> string \<Rightarrow> string \<Rightarrow> string \<Rightarrow> nat option" where
  "find_subroutine_name ci s label ins =
     (case find_name_from ci s label 0 of
        Some e \<Rightarrow> Some e
      | None \<Rightarrow> find_name_from ci s ins 0)"

section \<open>Brackets\<close>

text \<open>The offset of the bracket that closes the first one, from a depth on.\<close>

fun close_offset :: "char \<Rightarrow> char \<Rightarrow> int \<Rightarrow> string \<Rightarrow> nat option" where
  "close_offset opn cls depth [] = None"
| "close_offset opn cls depth (c # s) =
     (if c = opn then map_option Suc (close_offset opn cls (depth + 1) s)
      else if c = cls then
        (if depth - 1 = 0 then Some 0 else map_option Suc (close_offset opn cls (depth - 1) s))
      else map_option Suc (close_offset opn cls depth s))"

definition find_balanced_close :: "string \<Rightarrow> nat \<Rightarrow> char \<Rightarrow> char \<Rightarrow> nat option" where
  "find_balanced_close s open_pos opn cls =
     map_option (\<lambda>i. open_pos + i) (close_offset opn cls 0 (drop open_pos s))"

definition find_balanced_contents :: "string \<Rightarrow> nat \<Rightarrow> char \<Rightarrow> char \<Rightarrow> string option" where
  "find_balanced_contents s open_pos opn cls =
     map_option (\<lambda>i. take (i - 1) (drop (open_pos + 1) s))
       (close_offset opn cls 0 (drop open_pos s))"

function strip_segments_from :: "string \<Rightarrow> nat \<Rightarrow> string" where
  "strip_segments_from s i =
     (if i \<ge> length s then []
      else if s ! i \<noteq> CHR ''['' then s ! i # strip_segments_from s (i + 1)
      else case find_balanced_close s i (CHR ''['') (CHR '']'') of
             None \<Rightarrow> s ! i # strip_segments_from s (i + 1)
           | Some k \<Rightarrow> strip_segments_from s (k + 1))"
  by pat_completeness auto
termination
  by (relation "measure (\<lambda>(s, i). length s - i)") (auto simp: find_balanced_close_def)

declare strip_segments_from.simps [simp del]

definition strip_optional_segments :: "char_info \<Rightarrow> string \<Rightarrow> string" where
  "strip_optional_segments ci s = trim ci (strip_segments_from s 0)"

definition get_signature_args :: "char_info \<Rightarrow> string \<Rightarrow> task_doc \<Rightarrow> signature_args option" where
  "get_signature_args ci label doc =
     (let sig = first_signature ci (doc_signature doc);
          ins = base_insert_text label
      in case find_subroutine_name ci sig label ins of
           None \<Rightarrow> None
         | Some e \<Rightarrow>
             let rest = trim ci (drop e sig)
             in if starts_with rest ''with '' then Some (WithClause rest)
                else if rest = [] \<or> (hd rest \<noteq> CHR ''('' \<and> hd rest \<noteq> CHR ''['') then None
                else if hd rest = CHR ''['' then Some (CallArgs [])
                else map_option CallArgs
                       (find_balanced_contents rest 0 (CHR ''('') (CHR '')'')))"

section \<open>Arguments\<close>

text \<open>The text since \<^verbatim>\<open>start\<close> is kept along.\<close>

fun split_args :: "char_info \<Rightarrow> int \<Rightarrow> string \<Rightarrow> string \<Rightarrow> string list" where
  "split_args ci depth piece [] = [trim ci piece]"
| "split_args ci depth piece (c # s) =
     (if c = CHR ''('' then split_args ci (depth + 1) (piece @ [c]) s
      else if c = CHR '')'' \<and> depth > 0 then split_args ci (depth - 1) (piece @ [c]) s
      else if c = CHR '','' \<and> depth = 0 then trim ci piece # split_args ci depth [] s
      else split_args ci depth (piece @ [c]) s)"

definition split_signature_args :: "char_info \<Rightarrow> string \<Rightarrow> string list" where
  "split_signature_args ci args = split_args ci 0 [] args"

lemma length_trim: "length (trim ci s) \<le> length s"
  by (simp add: trim_def) (metis length_dropWhile_le length_rev order_trans)

function strip_front_markers :: "char_info \<Rightarrow> string \<Rightarrow> string" where
  "strip_front_markers ci s =
     (if s \<noteq> [] \<and> (hd s = CHR ''['' \<or> hd s = CHR '','')
      then strip_front_markers ci (trim ci (tl s)) else s)"
  by pat_completeness auto
termination
proof (relation "measure (\<lambda>(ci, s). length s)")
  fix ci and s :: string
  assume "s \<noteq> [] \<and> (hd s = CHR ''['' \<or> hd s = CHR '','')"
  with length_trim [of ci "tl s"] show "((ci, trim ci (tl s)), ci, s) \<in> measure (\<lambda>(ci, s). length s)"
    by (cases s) auto
qed simp

function strip_back_markers :: "char_info \<Rightarrow> string \<Rightarrow> string" where
  "strip_back_markers ci s =
     (if s \<noteq> [] \<and> (last s = CHR ''['' \<or> last s = CHR '']'')
      then strip_back_markers ci (trim ci (butlast s)) else s)"
  by pat_completeness auto
termination
proof (relation "measure (\<lambda>(ci, s). length s)")
  fix ci and s :: string
  assume "s \<noteq> [] \<and> (last s = CHR ''['' \<or> last s = CHR '']'')"
  with length_trim [of ci "butlast s"]
  show "((ci, trim ci (butlast s)), ci, s) \<in> measure (\<lambda>(ci, s). length s)"
    by (cases s) auto
qed simp

declare strip_front_markers.simps [simp del] strip_back_markers.simps [simp del]

definition strip_optional_markers :: "char_info \<Rightarrow> string \<Rightarrow> string" where
  "strip_optional_markers ci arg =
     strip_back_markers ci (strip_front_markers ci (trim ci arg))"

text \<open>The position of the equals sign outside all brackets.\<close>

fun default_pos :: "int \<Rightarrow> int \<Rightarrow> string \<Rightarrow> nat option" where
  "default_pos parens brackets [] = None"
| "default_pos parens brackets (c # s) =
     (if c = CHR ''('' then map_option Suc (default_pos (parens + 1) brackets s)
      else if c = CHR '')'' then
        map_option Suc (default_pos (if parens > 0 then parens - 1 else parens) brackets s)
      else if c = CHR ''['' then map_option Suc (default_pos parens (brackets + 1) s)
      else if c = CHR '']'' then
        map_option Suc (default_pos parens (if brackets > 0 then brackets - 1 else brackets) s)
      else if c = CHR ''='' \<and> parens = 0 \<and> brackets = 0 then Some 0
      else map_option Suc (default_pos parens brackets s))"

definition strip_default_value :: "char_info \<Rightarrow> string \<Rightarrow> string" where
  "strip_default_value ci arg =
     (case default_pos 0 0 arg of Some i \<Rightarrow> trim ci (take i arg) | None \<Rightarrow> trim ci arg)"

definition has_default_value :: "char_info \<Rightarrow> string \<Rightarrow> bool" where
  "has_default_value ci arg \<longleftrightarrow> length (strip_default_value ci arg) \<noteq> length (trim ci arg)"

definition with_placeholder :: "char_info \<Rightarrow> string \<Rightarrow> string" where
  "with_placeholder ci s =
     (case find_char (CHR ''('') s of
        None \<Rightarrow> ''item.expr''
      | Some i \<Rightarrow>
          (case find_balanced_contents s i (CHR ''('') (CHR '')'') of
             None \<Rightarrow> ''item.expr''
           | Some contents \<Rightarrow>
               (if trim ci contents = [] then ''item.expr'' else trim ci contents)))"

definition argument_placeholder :: "char_info \<Rightarrow> string \<Rightarrow> string option" where
  "argument_placeholder ci arg =
     (let arg = strip_default_value ci (strip_optional_markers ci arg)
      in if arg = [] then None
         else if arg = ''...'' then Some []
         else let r = dropWhile (\<lambda>c. \<not> is_name_char ci c) (rev arg)
              in if r = [] then None else Some (rev (takeWhile (is_name_char ci) r)))"

definition should_quote :: "string \<Rightarrow> bool" where
  "should_quote placeholder \<longleftrightarrow> placeholder = ''format''"

definition should_include_default :: "string \<Rightarrow> bool \<Rightarrow> bool" where
  "should_include_default placeholder skipped \<longleftrightarrow> placeholder = ''format'' \<and> \<not> skipped"

section \<open>The snippet\<close>

record arg_state =
  built :: snippet
  needs_comma :: bool
  final_tabstop :: bool
  skipped_default :: bool

definition add_argument :: "char_info \<Rightarrow> string \<Rightarrow> arg_state \<Rightarrow> arg_state" where
  "add_argument ci arg s =
     (case argument_placeholder ci arg of
        None \<Rightarrow> s
      | Some placeholder \<Rightarrow>
          let defaulted = has_default_value ci (strip_optional_markers ci arg)
          in if placeholder = [] \<and> skipped_default s then s
             else if defaulted \<and> \<not> should_include_default placeholder (skipped_default s)
             then s\<lparr>skipped_default := True\<rparr>
             else
               let b = (if needs_comma s then append_text '', '' (built s) else built s)
               in if placeholder = []
                  then s\<lparr>built := append_tabstop (Some 0) b, final_tabstop := True,
                         needs_comma := True\<rparr>
                  else if should_quote placeholder
                  then s\<lparr>built := append_text [CHR 0x22] (append_placeholder placeholder None
                                     (append_text [CHR 0x22] b)),
                         needs_comma := True\<rparr>
                  else s\<lparr>built := append_placeholder placeholder None b, needs_comma := True\<rparr>)"

definition build_snippet_from_args :: "char_info \<Rightarrow> string \<Rightarrow> signature_args \<Rightarrow> string" where
  "build_snippet_from_args ci ins sig =
     (let start = append_text ins (new_snippet [])
      in case sig of
           WithClause value \<Rightarrow>
             snippet_value (append_text '')''
               (append_placeholder (with_placeholder ci value) None (append_text '' with ('' start)))
         | CallArgs value \<Rightarrow>
             let args = strip_optional_segments ci value;
                 s = fold (add_argument ci) (split_signature_args ci args)
                       \<lparr>built = append_text ''('' start, needs_comma = False,
                        final_tabstop = False, skipped_default = False\<rparr>;
                 b = (if \<not> needs_comma s \<and> args = ''...'' then append_tabstop (Some 0) (built s)
                      else if needs_comma s \<and> contains_str args ''...'' \<and> \<not> final_tabstop s
                      then append_tabstop (Some 0) (append_text '', '' (built s))
                      else built s)
             in snippet_value (append_text '')'' b))"

definition system_subroutine_snippet :: "char_info \<Rightarrow> string \<Rightarrow> task_doc option \<Rightarrow> string" where
  "system_subroutine_snippet ci label doc =
     (let ins = base_insert_text label
      in case doc of
           None \<Rightarrow> ins
         | Some d \<Rightarrow>
             (case get_signature_args ci label d of
                Some args \<Rightarrow> build_snippet_from_args ci ins args
              | None \<Rightarrow> snippet_value (append_text ins (new_snippet []))))"

section \<open>The items\<close>

definition system_subroutine_completion ::
    "char_info \<Rightarrow> string \<Rightarrow> subroutine_kind \<Rightarrow> task_doc option \<Rightarrow> 'd completion_item" where
  "system_subroutine_completion ci label kind doc =
     (let snip = system_subroutine_snippet ci label doc
      in (labelled label)
           \<lparr>label_detail :=
              Some (case doc of
                      Some d \<Rightarrow> '' '' @ doc_signature d
                    | None \<Rightarrow> (if kind = TaskSubroutine then '' task'' else '' function'')),
            item_documentation :=
              map_option (\<lambda>d. DocMarkup (doc_build (
                let md = doc_add_paragraph
                           (para_append_code_block (doc_signature d) \<lparr>buffer = []\<rparr>)
                           \<lparr>paragraphs = []\<rparr>
                in if doc_description d = [] then md
                   else doc_add_paragraph (para_append_text (doc_description d) \<lparr>buffer = []\<rparr>) md)))
                doc,
            item_kind := Some FunctionItem,
            filter_text := Some label,
            insert_text := Some (if starts_with label ''$'' then backslash # CHR ''$'' # snip
                                 else snip),
            insert_format := Some SnippetText\<rparr>)"

text \<open>
  The list for a compilation: the names the library knows, without the unknown name, with their
  labels, the documentation table and the registered subroutines. It is built once; the first
  call fills the cache the later ones read.
\<close>

definition system_subroutine_items ::
    "char_info \<Rightarrow> ('n \<Rightarrow> string) \<Rightarrow> ('n \<Rightarrow> task_doc option) \<Rightarrow> 'n list \<Rightarrow>
     ('n \<Rightarrow> subroutine_kind option) \<Rightarrow> 'd completion_item list" where
  "system_subroutine_items ci name_label docs names subroutine =
     concat (map (\<lambda>n.
       if name_label n = [] \<or> hd (name_label n) \<noteq> CHR ''$'' then []
       else case subroutine n of
              None \<Rightarrow> []
            | Some k \<Rightarrow> [system_subroutine_completion ci (name_label n) k (docs n)]) names)"

definition add_system_subroutine_completions ::
    "char_info \<Rightarrow> ('n \<Rightarrow> string) \<Rightarrow> ('n \<Rightarrow> task_doc option) \<Rightarrow> 'n list \<Rightarrow>
     ('n \<Rightarrow> subroutine_kind option) \<Rightarrow> 'd completion_item list option \<Rightarrow>
     'd completion_item list \<Rightarrow> 'd completion_item list \<times> 'd completion_item list option" where
  "add_system_subroutine_completions ci name_label docs names subroutine cached results =
     (let items = (case cached of
                     Some items \<Rightarrow> items
                   | None \<Rightarrow> system_subroutine_items ci name_label docs names subroutine)
      in (results @ items, Some items))"

section \<open>What is offered\<close>

text \<open>
  The documented arguments that name something, each with whether it has a default value; the
  ones that are offered: all of them up to the first with a default that is not a format, and
  after it the named ones without a default.
\<close>

definition described :: "char_info \<Rightarrow> string list \<Rightarrow> (string \<times> bool) list" where
  "described ci args =
     concat (map (\<lambda>a. case argument_placeholder ci a of
                        None \<Rightarrow> []
                      | Some p \<Rightarrow> [(p, has_default_value ci (strip_optional_markers ci a))]) args)"

definition before_skip :: "string \<times> bool \<Rightarrow> bool" where
  "before_skip a \<longleftrightarrow> \<not> snd a \<or> fst a = ''format''"

definition after_skip :: "(string \<times> bool) list \<Rightarrow> string list" where
  "after_skip ds = map fst (filter (\<lambda>(p, d). p \<noteq> [] \<and> \<not> d) ds)"

definition offered :: "(string \<times> bool) list \<Rightarrow> string list" where
  "offered ds = map fst (takeWhile before_skip ds) @ after_skip (dropWhile before_skip ds)"

text \<open>An argument that is only an ellipsis is the final tab stop, a format is quoted.\<close>

definition argument_ops :: "string \<Rightarrow> snippet_op list" where
  "argument_ops p =
     (if p = [] then [Tabstop (Some 0)]
      else if should_quote p then [Text [CHR 0x22], Placeholder p None, Text [CHR 0x22]]
      else [Placeholder p None])"

fun offered_ops :: "bool \<Rightarrow> string list \<Rightarrow> snippet_op list" where
  "offered_ops comma [] = []"
| "offered_ops comma (p # ps) =
     (if comma then [Text '', ''] else []) @ argument_ops p @ offered_ops True ps"

definition rest_ops :: "string \<Rightarrow> string list \<Rightarrow> snippet_op list" where
  "rest_ops args ps =
     (if ps = [] \<and> args = ''...'' then [Tabstop (Some 0)]
      else if ps \<noteq> [] \<and> contains_str args ''...'' \<and> [] \<notin> set ps
      then [Text '', '', Tabstop (Some 0)] else [])"

definition offered_from :: "bool \<Rightarrow> (string \<times> bool) list \<Rightarrow> string list" where
  "offered_from skipped ds = (if skipped then after_skip ds else offered ds)"

lemma offered_from_Nil [simp]: "offered_from skipped [] = []"
  by (simp add: offered_from_def offered_def after_skip_def)

lemma offered_from_Cons:
  "offered_from skipped ((p, d) # ds) =
     (if p = [] \<and> skipped then offered_from skipped ds
      else if d \<and> \<not> should_include_default p skipped then offered_from True ds
      else p # offered_from skipped ds)"
  by (auto simp: offered_from_def offered_def after_skip_def before_skip_def
      should_include_default_def)

lemma add_argument_cases:
  fixes s :: arg_state and ci :: char_info and a :: string
  defines "s' \<equiv> add_argument ci a s"
    and "d \<equiv> has_default_value ci (strip_optional_markers ci a)"
  shows "argument_placeholder ci a = None \<Longrightarrow> s' = s"
    and "argument_placeholder ci a = Some p \<Longrightarrow> p = [] \<and> skipped_default s \<Longrightarrow> s' = s"
    and "argument_placeholder ci a = Some p \<Longrightarrow> \<not> (p = [] \<and> skipped_default s) \<Longrightarrow>
      d \<and> \<not> should_include_default p (skipped_default s) \<Longrightarrow> s' = s\<lparr>skipped_default := True\<rparr>"
    and "argument_placeholder ci a = Some p \<Longrightarrow> \<not> (p = [] \<and> skipped_default s) \<Longrightarrow>
      \<not> (d \<and> \<not> should_include_default p (skipped_default s)) \<Longrightarrow>
      s' = s\<lparr>built := fold run_op ((if needs_comma s then [Text '', ''] else []) @ argument_ops p)
                     (built s),
             needs_comma := True, final_tabstop := final_tabstop s \<or> p = []\<rparr>"
  by (auto simp: s'_def d_def add_argument_def argument_ops_def should_quote_def Let_def)

lemma fold_add_argument:
  fixes s :: arg_state and ci :: char_info
  defines "ps \<equiv> \<lambda>args s. offered_from (skipped_default s) (described ci args)"
  shows "built (fold (add_argument ci) args s) =
      fold run_op (offered_ops (needs_comma s) (ps args s)) (built s) \<and>
    needs_comma (fold (add_argument ci) args s) = (needs_comma s \<or> ps args s \<noteq> []) \<and>
    final_tabstop (fold (add_argument ci) args s) = (final_tabstop s \<or> [] \<in> set (ps args s))"
proof (induction args arbitrary: s)
  case Nil
  show ?case by (simp add: described_def ps_def)
next
  case (Cons a args)
  let ?d = "has_default_value ci (strip_optional_markers ci a)"
  note step = add_argument_cases [where ci = ci and a = a and s = s]
  show ?case
  proof (cases "argument_placeholder ci a")
    case None
    then have "ps (a # args) s = ps args s" by (simp add: ps_def described_def)
    with Cons [of s] step(1) [OF None] show ?thesis by simp
  next
    case (Some p)
    have ps: "ps (a # args) s = offered_from (skipped_default s) ((p, ?d) # described ci args)"
      using Some by (simp add: ps_def described_def)
    consider (drop) "p = [] \<and> skipped_default s"
      | (skip) "\<not> (p = [] \<and> skipped_default s)" "?d \<and> \<not> should_include_default p (skipped_default s)"
      | (keep) "\<not> (p = [] \<and> skipped_default s)" "\<not> (?d \<and> \<not> should_include_default p (skipped_default s))"
      by blast
    then show ?thesis
    proof cases
      case drop
      then have "ps (a # args) s = ps args s" by (simp add: ps offered_from_Cons) (simp add: ps_def)
      with Cons [of s] step(2) [OF Some drop] show ?thesis by simp
    next
      case skip
      then have "ps (a # args) s = ps args (s\<lparr>skipped_default := True\<rparr>)"
        unfolding ps offered_from_Cons by (simp add: ps_def)
      with Cons [of "s\<lparr>skipped_default := True\<rparr>"] step(3) [OF Some skip] show ?thesis by simp
    next
      case keep
      then have "ps (a # args) s = p # ps args s"
        unfolding ps offered_from_Cons by (auto simp: ps_def)
      moreover from step(4) [OF Some keep] have "ps args (add_argument ci a s) = ps args s"
        by (simp add: ps_def)
      ultimately show ?thesis
        using Cons [of "add_argument ci a s"] step(4) [OF Some keep] by auto
    qed
  qed
qed

section \<open>Reading a completion\<close>

text \<open>A sufficient condition for tab stops to be separated from what follows.\<close>

fun stops_closed :: "snippet_op list \<Rightarrow> bool" where
  "stops_closed [] \<longleftrightarrow> True"
| "stops_closed [x] \<longleftrightarrow> True"
| "stops_closed (x # y # xs) \<longleftrightarrow>
     (case (x, y) of
        (Tabstop n, Text t) \<Rightarrow> t \<noteq> [] \<and> \<not> is_digit (hd t)
      | (Tabstop n, _) \<Rightarrow> False
      | _ \<Rightarrow> True) \<and> stops_closed (y # xs)"

lemma escape_head: "t \<noteq> [] \<Longrightarrow> \<not> is_digit (hd t) \<Longrightarrow> escape t \<noteq> [] \<and> \<not> is_digit (hd (escape t))"
  by (cases t) (auto simp: escape_def escape_char_def is_digit_def)

lemma stops_closed_separated: "stops_closed xs \<Longrightarrow> separated s xs"
proof (induction xs arbitrary: s rule: stops_closed.induct)
  case (2 x)
  then show ?case by (cases x) simp_all
next
  case (3 x y xs)
  then show ?case
    using escape_head by (cases x; cases y) (auto simp: Let_def)
qed simp

lemma stops_closed_Cons:
  "\<not> (\<exists>n. x = Tabstop n) \<Longrightarrow> stops_closed (x # xs) = stops_closed xs"
  by (cases xs; cases x) auto

lemma offered_ops_closed:
  "stops_closed (Text t # xs) \<Longrightarrow> t \<noteq> [] \<Longrightarrow> \<not> is_digit (hd t) \<Longrightarrow>
   stops_closed (offered_ops c ps @ Text t # xs)"
proof (induction c ps rule: offered_ops.induct)
  case (2 c p ps)
  then have rest: "stops_closed (offered_ops True ps @ Text t # xs)" by simp
  have "stops_closed (argument_ops p @ offered_ops True ps @ Text t # xs)"
    using rest 2(3-) by (cases ps)
      (auto simp: argument_ops_def stops_closed_Cons is_digit_def)
  then show ?case by (simp add: stops_closed_Cons)
qed simp

text \<open>The elements a list of arguments is read as, with the number of the next placeholder.\<close>

definition argument_elements :: "nat \<Rightarrow> string \<Rightarrow> snippet_element list" where
  "argument_elements k p =
     (if p = [] then [Stop 0]
      else if p = ''format'' then [Literal (CHR 0x22), Hole k p, Literal (CHR 0x22)]
      else [Hole k p])"

fun offered_elements :: "nat \<Rightarrow> bool \<Rightarrow> string list \<Rightarrow> snippet_element list" where
  "offered_elements k comma [] = []"
| "offered_elements k comma (p # ps) =
     (if comma then map Literal '', '' else []) @ argument_elements k p @
     offered_elements (if p = [] then k else k + 1) True ps"

definition rest_elements :: "string \<Rightarrow> string list \<Rightarrow> snippet_element list" where
  "rest_elements args ps =
     (if ps = [] \<and> args = ''...'' then [Stop 0]
      else if ps \<noteq> [] \<and> contains_str args ''...'' \<and> [] \<notin> set ps
      then map Literal '', '' @ [Stop 0] else [])"

lemma elements_append:
  "elements s (xs @ ys) = elements s xs @ elements (fold run_op xs s) ys"
  by (induction xs arbitrary: s) simp_all

lemma next_tabstop_argument_ops:
  "1 \<le> next_tabstop s \<Longrightarrow>
   next_tabstop (fold run_op (argument_ops p) s) =
     (if p = [] then next_tabstop s else next_tabstop s + 1)"
  by (simp add: argument_ops_def next_tabstop_run_op take_tabstop_def del: run_op.simps)

lemma argument_ops_elements:
  "elements s (argument_ops p) = argument_elements (nat (next_tabstop s)) p"
  by (auto simp: argument_ops_def argument_elements_def should_quote_def next_tabstop_run_op
      take_tabstop_def simp del: run_op.simps)

lemma offered_ops_elements:
  "1 \<le> next_tabstop s \<Longrightarrow>
   elements s (offered_ops c ps) = offered_elements (nat (next_tabstop s)) c ps"
proof (induction c ps arbitrary: s rule: offered_ops.induct)
  case (2 c p ps)
  let ?s = "fold run_op (if c then [Text '', ''] else []) s"
  have tabs: "next_tabstop ?s = next_tabstop s"
    by (simp add: next_tabstop_run_op del: run_op.simps)
  with 2 have "elements (fold run_op (argument_ops p) ?s) (offered_ops True ps) =
      offered_elements (nat (if p = [] then next_tabstop s else next_tabstop s + 1)) True ps"
    by (simp add: next_tabstop_argument_ops)
  with 2(2) tabs show ?case
    by (auto simp: elements_append argument_ops_elements nat_add_distrib)
qed simp

lemma rest_ops_elements: "elements s (rest_ops args ps) = rest_elements args ps"
  by (simp add: rest_ops_def rest_elements_def take_tabstop_def del: run_op.simps)

definition signature_ops :: "char_info \<Rightarrow> string \<Rightarrow> signature_args \<Rightarrow> snippet_op list" where
  "signature_ops ci name sig =
     (case sig of
        WithClause v \<Rightarrow>
          [Text name, Text '' with ('', Placeholder (with_placeholder ci v) None, Text '')'']
      | CallArgs v \<Rightarrow>
          let args = strip_optional_segments ci v;
              ps = offered (described ci (split_signature_args ci args))
          in [Text name, Text ''(''] @ offered_ops False ps @ rest_ops args ps @ [Text '')''])"

lemma build_snippet_ops:
  "build_snippet_from_args ci name sig =
   snippet_value (fold run_op (signature_ops ci name sig) (new_snippet []))"
proof (cases sig)
  case (WithClause v)
  then show ?thesis by (simp add: build_snippet_from_args_def signature_ops_def)
next
  case (CallArgs v)
  let ?args = "strip_optional_segments ci v"
  let ?s = "\<lparr>built = append_text ''('' (append_text name (new_snippet [])), needs_comma = False,
      final_tabstop = False, skipped_default = False\<rparr>"
  have from_start: "offered_from False ds = offered ds" for ds by (simp add: offered_from_def)
  from CallArgs fold_add_argument [of ci "split_signature_args ci ?args" ?s] show ?thesis
    by (auto simp: build_snippet_from_args_def signature_ops_def Let_def rest_ops_def from_start)
qed

lemma plain_offered_ops: "list_all plain_op (offered_ops c ps)"
  by (induction c ps rule: offered_ops.induct) (simp_all add: argument_ops_def)

lemma plain_signature_ops: "list_all plain_op (signature_ops ci name sig)"
  by (simp add: signature_ops_def plain_offered_ops rest_ops_def Let_def split: signature_args.split)

lemma closed_signature_ops: "stops_closed (signature_ops ci name sig)"
proof (cases sig)
  case (CallArgs v)
  have close: "\<not> is_digit (CHR '','')" "\<not> is_digit (CHR '')'')" by (simp_all add: is_digit_def)
  have tail: "stops_closed (offered_ops False ps @ rest_ops args ps @ [Text '')''])" for args ps
  proof (cases "ps = []")
    case True
    with close show ?thesis by (simp add: rest_ops_def)
  next
    case False
    with close offered_ops_closed [of "'')''" "[]" False ps]
      offered_ops_closed [of "'', ''" "[Tabstop (Some 0), Text '')'']" False ps]
    show ?thesis by (simp add: rest_ops_def)
  qed
  from CallArgs show ?thesis by (simp add: signature_ops_def Let_def stops_closed_Cons tail)
qed (simp add: signature_ops_def)

text \<open>The elements of a call, and of a signature.\<close>

definition call_elements :: "char_info \<Rightarrow> string \<Rightarrow> snippet_element list" where
  "call_elements ci v =
     (let args = strip_optional_segments ci v;
          ps = offered (described ci (split_signature_args ci args))
      in map Literal ''('' @ offered_elements 1 False ps @ rest_elements args ps @
         map Literal '')'')"

fun signature_elements :: "char_info \<Rightarrow> signature_args \<Rightarrow> snippet_element list" where
  "signature_elements ci (WithClause v) =
     map Literal '' with ('' @ [Hole 1 (with_placeholder ci v)] @ map Literal '')''"
| "signature_elements ci (CallArgs v) = call_elements ci v"

lemma read_signature:
  "read_snippet (build_snippet_from_args ci name sig) =
   Some (map Literal name @ signature_elements ci sig)"
proof -
  have "read_snippet (build_snippet_from_args ci name sig) =
      Some (elements (new_snippet []) (signature_ops ci name sig))"
    using read_appended [OF plain_signature_ops stops_closed_separated [OF closed_signature_ops],
        of "new_snippet []"] fold_run_op_value [OF plain_signature_ops]
    by (simp add: build_snippet_ops new_snippet_def)
  moreover have "elements (new_snippet []) (signature_ops ci name sig) =
      map Literal name @ signature_elements ci sig"
  proof (cases sig)
    case (CallArgs v)
    have "next_tabstop (run_op (Text ''('') (run_op (Text name) (new_snippet []))) = 1"
      by (simp add: next_tabstop_run_op new_snippet_def del: run_op.simps)
    with CallArgs show ?thesis
      by (simp add: signature_ops_def Let_def elements_append rest_ops_elements
          offered_ops_elements call_elements_def del: run_op.simps)
  next
    case (WithClause v)
    then show ?thesis
      by (simp add: signature_ops_def next_tabstop_run_op new_snippet_def del: run_op.simps)
  qed
  ultimately show ?thesis by simp
qed

text \<open>
  Accepting the completion of a documented system task inserts its name, dollar sign
  included, and a call with one numbered placeholder for each offered argument: every argument
  of the signature up to the first that has a default value and is no format, and after it the
  named ones without a default; a format is quoted, an ellipsis becomes the final tab stop, and
  the text is read that way whatever characters the signature holds.
\<close>

lemma system_task_completion_reads:
  "inserted_elements (system_subroutine_completion ci (CHR ''$'' # name) k (Some d)) =
   Some (map Literal (CHR ''$'' # name) @
     (case get_signature_args ci (CHR ''$'' # name) d of
        None \<Rightarrow> []
      | Some sig \<Rightarrow> signature_elements ci sig))"
  (is "inserted_elements ?item = _")
proof -
  have dollar: "read_snippet (backslash # CHR ''$'' # s) =
      map_option (Cons (Literal (CHR ''$''))) (read_snippet s)" for s
    by (simp add: read_snippet.simps(2) [of backslash])
  have plain: "read_snippet (snippet_value (append_text name (new_snippet []))) =
      Some (map Literal name)"
    using read_escaped [of name "[]"]
    by (simp add: append_text_def add_value_def new_snippet_def)
  have "inserted_text ?item =
      backslash # CHR ''$'' # system_subroutine_snippet ci (CHR ''$'' # name) (Some d)"
    by (simp add: system_subroutine_completion_def labelled_def inserted_text_def Let_def)
  moreover have "insert_format ?item = Some SnippetText"
    by (simp add: system_subroutine_completion_def Let_def)
  ultimately show ?thesis
    by (simp add: inserted_elements_def dollar Let_def system_subroutine_snippet_def
        base_insert_text_def read_signature plain split: option.split)
qed

end
