(* ===== verification/TokenIndex.thy ===== *)
theory TokenIndex
  imports Converters
begin

text \<open>
  The token index of a document, class \<^verbatim>\<open>SyntaxIndexer\<close> of
  \<^verbatim>\<open>document/SyntaxIndexer.cpp\<close>: the walk over a syntax tree that collects the tokens of
  one buffer with the nodes they belong to, the disabled regions, the macro expansions and the
  nodes that may get inlay hints, and the lookups by location that the handlers make. A syntax
  tree of the library is a value with identities for its nodes and tokens; the classes of kinds
  the library tests are a parameter.
\<close>

section \<open>Syntax trees\<close>

record token_info =
  token_id :: nat
  token_kind :: token_kind
  token_start :: source_loc
  token_end :: source_loc
  token_missing :: bool
  raw_text :: string
  value_text :: string

text \<open>
  Of a node: its identity and kind, the location of its first token, the location of its
  directive where it is a macro usage, and its disabled tokens where it is a branch.
\<close>

record node_info =
  node_id :: nat
  node_kind :: syntax_kind
  first_location :: source_loc
  directive_location :: source_loc
  disabled_tokens :: "token_info list"

datatype syntax_node = Node (info_of: node_info) "node_child list"
  and node_child = ChildNode syntax_node | ChildToken token | NoChild
  and token = Token (token_of: token_info) (trivia_of: "trivia list")
  and trivia =
    DirectiveTrivia string syntax_node
  | SkippedTokens string "token list"
  | PlainTrivia blank_kind string "syntax_node option"

fun trivia_raw_text :: "trivia \<Rightarrow> string" where
  "trivia_raw_text (DirectiveTrivia raw n) = raw"
| "trivia_raw_text (SkippedTokens raw ts) = raw"
| "trivia_raw_text (PlainTrivia k raw n) = raw"

record branch_kinds =
  is_conditional_branch :: "syntax_kind \<Rightarrow> bool"
  is_unconditional_branch :: "syntax_kind \<Rightarrow> bool"

section \<open>The index\<close>

record syntax_index =
  focus :: nat
  current_macro :: "nat option"
  expansion_tokens :: "token list"
  collected :: "token list"
  disabled_regions :: "source_range list"
  token_to_parent :: "nat \<rightharpoonup> nat"
  collected_hints :: "32 word \<rightharpoonup> node_info"
  macro_expansions :: "nat \<rightharpoonup> token list"
  parent_changes :: "nat \<rightharpoonup> nat"

definition expansion_text :: "token list \<Rightarrow> string" where
  "expansion_text toks =
     concat (map (\<lambda>t. concat (map trivia_raw_text (trivia_of t)) @ raw_text (token_of t)) toks)"

abbreviation in_focus :: "syntax_index \<Rightarrow> source_loc \<Rightarrow> bool" where
  "in_focus s loc \<equiv> loc_buffer loc = focus s"

definition flush_macro_expansion :: "syntax_index \<Rightarrow> syntax_index" where
  "flush_macro_expansion s =
     (case current_macro s of
        None \<Rightarrow> s
      | Some m \<Rightarrow>
          (if expansion_tokens s \<noteq> []
           then s\<lparr>macro_expansions := (macro_expansions s)(m \<mapsto> expansion_tokens s),
                  expansion_tokens := [], current_macro := None\<rparr>
           else s\<lparr>current_macro := None\<rparr>))"

text \<open>\<^verbatim>\<open>emplace\<close> into the map of hints keeps an entry that is there.\<close>

definition emplace_hint :: "node_info \<Rightarrow> syntax_index \<Rightarrow> syntax_index" where
  "emplace_hint n s =
     (let offset = word_of_nat (loc_offset (first_location n))
      in case collected_hints s offset of
           Some m \<Rightarrow> s
         | None \<Rightarrow> s\<lparr>collected_hints := (collected_hints s)(offset \<mapsto> n)\<rparr>)"

definition note_hint :: "node_info \<Rightarrow> syntax_index \<Rightarrow> syntax_index" where
  "note_hint n s =
     (if node_kind n = MacroUsage \<or> node_kind n = ParameterDeclaration
      then (if in_focus s (first_location n) then emplace_hint n s else s)
      else if node_kind n \<in> {InvocationExpression, HierarchyInstantiation, ClassName,
                              AssignmentPatternExpression}
      then emplace_hint n s
      else s)"

definition add_disabled_range :: "token_info list \<Rightarrow> syntax_index \<Rightarrow> syntax_index" where
  "add_disabled_range toks s =
     (if toks = [] then s
      else s\<lparr>disabled_regions :=
               disabled_regions s @ [(token_start (hd toks), token_end (last toks))]\<rparr>)"

definition note_branch :: "branch_kinds \<Rightarrow> node_info \<Rightarrow> syntax_index \<Rightarrow> syntax_index" where
  "note_branch bk n s =
     (if \<not> in_focus s (first_location n) then s
      else if is_conditional_branch bk (node_kind n)
      then add_disabled_range (disabled_tokens n) s
      else if is_unconditional_branch bk (node_kind n)
      then add_disabled_range (disabled_tokens n) s
      else s)"

text \<open>
  After a directive was visited its parent becomes the node whose token carries it, and a macro
  usage of the buffer starts the collection of its expansion.
\<close>

definition enter_directive :: "node_info \<Rightarrow> node_info \<Rightarrow> syntax_index \<Rightarrow> syntax_index" where
  "enter_directive parent n s =
     (let s = s\<lparr>parent_changes := (parent_changes s)(node_id n \<mapsto> node_id parent)\<rparr>
      in if node_kind n = MacroUsage \<and> in_focus s (directive_location n)
         then (flush_macro_expansion s)\<lparr>current_macro := Some (node_id n)\<rparr>
         else s)"

definition collect_token :: "node_info \<Rightarrow> token \<Rightarrow> syntax_index \<Rightarrow> syntax_index" where
  "collect_token parent t s =
     s\<lparr>collected := collected s @ [t],
        token_to_parent := (token_to_parent s)(token_id (token_of t) \<mapsto> node_id parent)\<rparr>"

definition take_skipped :: "node_info \<Rightarrow> token \<Rightarrow> syntax_index \<Rightarrow> syntax_index" where
  "take_skipped parent t s =
     (if in_focus s (token_start (token_of t)) \<and> \<not> token_missing (token_of t) \<and>
         token_kind (token_of t) \<noteq> PlaceholderToken
      then collect_token parent t s else s)"

definition take_token :: "node_info \<Rightarrow> token \<Rightarrow> syntax_index \<Rightarrow> syntax_index" where
  "take_token parent t s =
     (if current_macro s \<noteq> None \<and> \<not> in_focus s (token_start (token_of t))
      then s\<lparr>expansion_tokens := expansion_tokens s @ [t]\<rparr>
      else
        let s = (if current_macro s \<noteq> None then flush_macro_expansion s else s)
        in if in_focus s (token_start (token_of t)) \<and>
              token_kind (token_of t) \<noteq> PlaceholderToken
           then collect_token parent t s else s)"

fun visit :: "branch_kinds \<Rightarrow> syntax_node \<Rightarrow> syntax_index \<Rightarrow> syntax_index"
  and visit_children ::
    "branch_kinds \<Rightarrow> node_info \<Rightarrow> node_child list \<Rightarrow> syntax_index \<Rightarrow> syntax_index"
  and process_trivia ::
    "branch_kinds \<Rightarrow> node_info \<Rightarrow> trivia list \<Rightarrow> syntax_index \<Rightarrow> syntax_index"
  and process_skipped ::
    "branch_kinds \<Rightarrow> node_info \<Rightarrow> token list \<Rightarrow> syntax_index \<Rightarrow> syntax_index" where
  "visit bk (Node n cs) s = visit_children bk n cs (note_hint n s)"
| "visit_children bk n [] s = s"
| "visit_children bk n (ChildNode c # cs) s = visit_children bk n cs (visit bk c s)"
| "visit_children bk n (ChildToken (Token t tr) # cs) s =
     visit_children bk n cs (take_token n (Token t tr) (process_trivia bk n tr s))"
| "visit_children bk n (NoChild # cs) s = visit_children bk n cs s"
| "process_trivia bk n [] s = s"
| "process_trivia bk n (DirectiveTrivia raw d # ts) s =
     process_trivia bk n ts
       (note_branch bk (info_of d) (enter_directive n (info_of d) (visit bk d s)))"
| "process_trivia bk n (SkippedTokens raw toks # ts) s =
     process_trivia bk n ts (process_skipped bk n toks s)"
| "process_trivia bk n (PlainTrivia k raw syn # ts) s =
     process_trivia bk n ts
       (case syn of None \<Rightarrow> s | Some d \<Rightarrow> note_branch bk (info_of d) s)"
| "process_skipped bk n [] s = s"
| "process_skipped bk n (Token t tr # toks) s =
     process_skipped bk n toks (take_skipped n (Token t tr) (process_trivia bk n tr s))"

text \<open>
  The constructor: the first buffer of the tree unless a buffer is asked for; \<open>None\<close> is the
  failed assertion that the tree has a buffer. Buffer 0 is the library's invalid buffer.
\<close>

definition empty_index :: "nat \<Rightarrow> syntax_index" where
  "empty_index b =
     \<lparr>focus = b, current_macro = None, expansion_tokens = [], collected = [],
      disabled_regions = [], token_to_parent = Map.empty, collected_hints = Map.empty,
      macro_expansions = Map.empty, parent_changes = Map.empty\<rparr>"

definition syntax_indexer ::
    "branch_kinds \<Rightarrow> nat list \<Rightarrow> nat \<Rightarrow> syntax_node \<Rightarrow> syntax_index option" where
  "syntax_indexer bk buffers focus_buffer root =
     (if buffers = [] then None
      else let b = (if focus_buffer \<noteq> 0 then focus_buffer else hd buffers)
           in Some (flush_macro_expansion (visit bk root (empty_index b))))"

text \<open>
  A hint is kept by offset alone: an invocation of another buffer takes the place of the
  invocation of the indexed buffer that starts at the same offset.
\<close>

lemma hint_of_another_buffer:
  assumes "node_kind n = InvocationExpression" "node_kind m = InvocationExpression"
    and "loc_offset (first_location n) = loc_offset (first_location m)"
    and "collected_hints s (word_of_nat (loc_offset (first_location n))) = None"
  shows "collected_hints (note_hint m (note_hint n s))
    (word_of_nat (loc_offset (first_location m))) = Some n"
  using assms by (simp add: note_hint_def emplace_hint_def Let_def)

section \<open>What is collected\<close>

text \<open>
  The tokens of a tree in the order of its text, each with the node it belongs to and whether
  the parser skipped it; the trivia of a token come before it.
\<close>

record occurrence =
  occ_parent :: nat
  occ_skipped :: bool
  occ_token :: token

fun tokens_of_node :: "syntax_node \<Rightarrow> occurrence list"
  and tokens_of_children :: "node_info \<Rightarrow> node_child list \<Rightarrow> occurrence list"
  and tokens_of_trivia :: "node_info \<Rightarrow> trivia list \<Rightarrow> occurrence list"
  and tokens_of_skipped :: "node_info \<Rightarrow> token list \<Rightarrow> occurrence list" where
  "tokens_of_node (Node n cs) = tokens_of_children n cs"
| "tokens_of_children n [] = []"
| "tokens_of_children n (ChildNode c # cs) = tokens_of_node c @ tokens_of_children n cs"
| "tokens_of_children n (ChildToken (Token t tr) # cs) =
     tokens_of_trivia n tr @
     \<lparr>occ_parent = node_id n, occ_skipped = False, occ_token = Token t tr\<rparr> #
     tokens_of_children n cs"
| "tokens_of_children n (NoChild # cs) = tokens_of_children n cs"
| "tokens_of_trivia n [] = []"
| "tokens_of_trivia n (DirectiveTrivia raw d # ts) = tokens_of_node d @ tokens_of_trivia n ts"
| "tokens_of_trivia n (SkippedTokens raw toks # ts) =
     tokens_of_skipped n toks @ tokens_of_trivia n ts"
| "tokens_of_trivia n (PlainTrivia k raw syn # ts) = tokens_of_trivia n ts"
| "tokens_of_skipped n [] = []"
| "tokens_of_skipped n (Token t tr # toks) =
     tokens_of_trivia n tr @
     \<lparr>occ_parent = node_id n, occ_skipped = True, occ_token = Token t tr\<rparr> #
     tokens_of_skipped n toks"

definition wanted :: "nat \<Rightarrow> occurrence \<Rightarrow> bool" where
  "wanted b oc \<longleftrightarrow>
     (let t = token_of (occ_token oc)
      in loc_buffer (token_start t) = b \<and> token_kind t \<noteq> PlaceholderToken \<and>
         \<not> (occ_skipped oc \<and> token_missing t))"

definition parents_of :: "occurrence list \<Rightarrow> nat \<rightharpoonup> nat" where
  "parents_of ocs =
     map_of (rev (map (\<lambda>oc. (token_id (token_of (occ_token oc)), occ_parent oc)) ocs))"

definition extends :: "occurrence list \<Rightarrow> syntax_index \<Rightarrow> syntax_index \<Rightarrow> bool" where
  "extends ocs s s' \<longleftrightarrow>
     focus s' = focus s \<and>
     collected s' = collected s @ map occ_token (filter (wanted (focus s)) ocs) \<and>
     token_to_parent s' = token_to_parent s ++ parents_of (filter (wanted (focus s)) ocs)"

lemma parents_of_append: "parents_of (xs @ ys) = parents_of xs ++ parents_of ys"
  by (simp add: parents_of_def)

lemma parents_of_Nil [simp]: "parents_of [] = Map.empty"
  by (simp add: parents_of_def)

lemma parents_of_single [simp]:
  "parents_of [oc] = [token_id (token_of (occ_token oc)) \<mapsto> occ_parent oc]"
  by (simp add: parents_of_def)

lemma extends_trans:
  "extends xs s s' \<Longrightarrow> extends ys s' s'' \<Longrightarrow> extends (xs @ ys) s s''"
  by (simp add: extends_def parents_of_append)

lemma extends_refl: "extends [] s s"
  by (simp add: extends_def)

text \<open>Steps that collect no token, and the two that may.\<close>

named_theorems silent \<open>steps that leave the collected tokens alone\<close>

lemma silent_flush [silent]: "extends [] s (flush_macro_expansion s)"
  by (simp add: flush_macro_expansion_def extends_def split: option.split)

lemma silent_hint [silent]: "extends [] s (note_hint n s)"
  by (simp add: note_hint_def emplace_hint_def extends_def Let_def split: option.split)

lemma silent_branch [silent]: "extends [] s (note_branch bk n s)"
  by (simp add: note_branch_def add_disabled_range_def extends_def)

lemma silent_directive [silent]: "extends [] s (enter_directive parent n s)"
  by (simp add: enter_directive_def extends_def Let_def flush_macro_expansion_def
      split: option.split)

lemma silent_after: "extends [] s' s'' \<Longrightarrow> extends xs s s' \<Longrightarrow> extends xs s s''"
  using extends_trans [of xs s s' "[]" s''] by simp

lemma collect_extends:
  "wanted (focus s) oc \<Longrightarrow> occ_parent oc = node_id n \<Longrightarrow>
   extends [oc] s (collect_token n (occ_token oc) s)"
  by (simp add: extends_def collect_token_def)

lemma take_token_extends:
  "extends [\<lparr>occ_parent = node_id n, occ_skipped = False, occ_token = t\<rparr>] s (take_token n t s)"
  (is "extends [?oc] s _")
proof (cases "in_focus s (token_start (token_of t))")
  case True
  have "extends [?oc] s (take_token n t s)" if "current_macro s = None"
    using that True collect_extends [of s ?oc n]
    by (cases "token_kind (token_of t) = PlaceholderToken")
      (simp_all add: take_token_def wanted_def extends_def Let_def)
  moreover have "extends [?oc] s (take_token n t s)" if "current_macro s \<noteq> None"
  proof -
    from silent_flush [of s] have "extends [] s (flush_macro_expansion s)" .
    moreover from this True have "extends [?oc] (flush_macro_expansion s) (take_token n t s)"
      using that collect_extends [of "flush_macro_expansion s" ?oc n]
      by (cases "token_kind (token_of t) = PlaceholderToken")
        (simp_all add: take_token_def wanted_def extends_def Let_def)
    ultimately show ?thesis using extends_trans [of "[]"] by fastforce
  qed
  ultimately show ?thesis by blast
next
  case False
  then show ?thesis
    by (auto simp add: take_token_def wanted_def extends_def Let_def)
qed

lemma take_skipped_extends:
  "extends [\<lparr>occ_parent = node_id n, occ_skipped = True, occ_token = t\<rparr>] s (take_skipped n t s)"
  by (simp add: take_skipped_def wanted_def extends_def Let_def collect_token_def)

lemma walk_extends:
  "extends (tokens_of_node t) s (visit bk t s)"
  "extends (tokens_of_children n cs) s (visit_children bk n cs s)"
  "extends (tokens_of_trivia n tr) s (process_trivia bk n tr s)"
  "extends (tokens_of_skipped n toks) s (process_skipped bk n toks s)"
proof (induction bk t s and bk n cs s and bk n tr s and bk n toks s
    rule: visit_visit_children_process_trivia_process_skipped.induct)
  case (1 bk n cs s)
  then show ?case using extends_trans [OF silent_hint] by fastforce
next
  case (4 bk n t tr cs s)
  then show ?case
    using extends_trans [OF extends_trans [OF 4(1) take_token_extends] 4(2)] by simp
next
  case (7 bk n raw d ts s)
  then show ?case
    using extends_trans [OF silent_after [OF silent_branch silent_after [OF silent_directive 7(1)]]]
    by simp
next
  case (9 bk n k raw syn ts s)
  then show ?case using extends_trans [OF silent_branch] by (cases syn) fastforce+
next
  case (11 bk n t tr toks s)
  then show ?case
    using extends_trans [OF extends_trans [OF 11(1) take_skipped_extends] 11(2)] by simp
qed (auto simp: extends_refl intro: extends_trans)

text \<open>
  C17: Indexing collects exactly the tokens of the asked buffer, in the order of the text and
  including the ones the parser skipped, without placeholders and skipped tokens that are
  missing, whatever macro expansions are being gathered meanwhile; and the node a token is
  found under is the one whose child or trivia it is.
\<close>

theorem indexed_tokens:
  "map_option (\<lambda>ix. (collected ix, token_to_parent ix)) (syntax_indexer bk buffers b root) =
   (if buffers = [] then None
    else let ocs = filter (wanted (if b \<noteq> 0 then b else hd buffers)) (tokens_of_node root)
         in Some (map occ_token ocs, parents_of ocs))"
proof -
  have "extends (tokens_of_node root) (empty_index c)
      (flush_macro_expansion (visit bk root (empty_index c)))" for c
    using silent_after [OF silent_flush walk_extends(1)] .
  then show ?thesis by (simp add: extends_def syntax_indexer_def Let_def empty_index_def)
qed

end
