(* ===== verification/TokenLookup.thy ===== *)
theory TokenLookup
  imports TokenIndex
begin

text \<open>
  The lookups by location of the token index (\<^verbatim>\<open>document/SyntaxIndexer.cpp\<close>): the binary
  search for the token at or before a location, the word and token at a location, the tokens
  around it, and the lowest node that contains it. Locations are compared by the library: its
  \<^verbatim>\<open><\<close> is a field of the source manager, and \<^verbatim>\<open><=\<close> is the absence of the
  converse. An index of -1 is \<open>None\<close>; indexes are mathematical integers.
\<close>

section \<open>Operations\<close>

abbreviation not_after :: "source_manager \<Rightarrow> source_loc \<Rightarrow> source_loc \<Rightarrow> bool" where
  "not_after sm a b \<equiv> \<not> loc_before sm b a"

abbreviation start_of :: "token \<Rightarrow> source_loc" where
  "start_of t \<equiv> token_start (token_of t)"

abbreviation end_of :: "token \<Rightarrow> source_loc" where
  "end_of t \<equiv> token_end (token_of t)"

function search :: "source_manager \<Rightarrow> token list \<Rightarrow> source_loc \<Rightarrow> nat \<Rightarrow> nat \<Rightarrow> nat" where
  "search sm toks loc low high =
     (if low + 1 < high
      then let mid = low + (high - low) div 2
           in if not_after sm (start_of (toks ! mid)) loc
              then search sm toks loc mid high
              else search sm toks loc low mid
      else low)"
  by pat_completeness auto
termination
  by (relation "measure (\<lambda>(sm, toks, loc, low, high). high - low)") auto

declare search.simps [simp del]

definition token_index_before :: "source_manager \<Rightarrow> syntax_index \<Rightarrow> source_loc \<Rightarrow> nat option" where
  "token_index_before sm ix loc =
     (if loc_buffer loc \<noteq> focus ix then None
      else if collected ix = [] then None
      else if loc_before sm loc (start_of (collected ix ! 0)) then None
      else Some (search sm (collected ix) loc 0 (length (collected ix))))"

definition editor_contains :: "source_manager \<Rightarrow> token \<Rightarrow> source_loc \<Rightarrow> bool" where
  "editor_contains sm t loc \<longleftrightarrow>
     not_after sm (start_of t) loc \<and> loc_before sm loc (end_of t)"

definition is_id_token :: "token_kind \<Rightarrow> bool" where
  "is_id_token k \<longleftrightarrow>
     k \<in> {IdentifierToken, SystemIdentifierToken, DirectiveToken, MacroUsageToken}"

definition get_word_token_at :: "source_manager \<Rightarrow> syntax_index \<Rightarrow> source_loc \<Rightarrow> token option" where
  "get_word_token_at sm ix loc =
     (case token_index_before sm ix loc of
        None \<Rightarrow> None
      | Some i \<Rightarrow>
          let t = collected ix ! i
          in if is_id_token (token_kind (token_of t)) \<and> editor_contains sm t loc then Some t
             else if i = 0 then None
             else let p = collected ix ! (i - 1)
                  in if is_id_token (token_kind (token_of p)) \<and> editor_contains sm p loc
                     then Some p else None)"

text \<open>\<^verbatim>\<open>SourceRange::contains\<close> is the library's.\<close>

definition get_token_at ::
    "source_manager \<Rightarrow> (source_range \<Rightarrow> source_loc \<Rightarrow> bool) \<Rightarrow> syntax_index \<Rightarrow> source_loc \<Rightarrow>
     token option" where
  "get_token_at sm range_contains ix loc =
     (case token_index_before sm ix loc of
        None \<Rightarrow> None
      | Some i \<Rightarrow>
          let t = collected ix ! i
          in if range_contains (start_of t, end_of t) loc then Some t else None)"

text \<open>The loop of \<^verbatim>\<open>getTokenBefore\<close> counts the tokens up to the index.\<close>

fun step_back :: "source_manager \<Rightarrow> token list \<Rightarrow> source_loc \<Rightarrow> nat \<Rightarrow> nat" where
  "step_back sm toks loc 0 = 0"
| "step_back sm toks loc (Suc i) =
     (if not_after sm loc (start_of (toks ! i)) then step_back sm toks loc i else Suc i)"

definition get_token_before :: "source_manager \<Rightarrow> syntax_index \<Rightarrow> source_loc \<Rightarrow> token option" where
  "get_token_before sm ix loc =
     (let n = step_back sm (collected ix) loc
                (case token_index_before sm ix loc of None \<Rightarrow> 0 | Some i \<Rightarrow> Suc i);
          n = (if n > 0 \<and> loc_before sm loc (end_of (collected ix ! (n - 1))) then n - 1 else n)
      in if n > 0 then Some (collected ix ! (n - 1)) else None)"

text \<open>
  \<^verbatim>\<open>std::lower_bound\<close>: the halving search for the first token that does not start
  before the location.
\<close>

function lower_bound :: "source_manager \<Rightarrow> token list \<Rightarrow> source_loc \<Rightarrow> nat \<Rightarrow> nat \<Rightarrow> nat" where
  "lower_bound sm toks loc first count =
     (if count = 0 then first
      else let step = count div 2
           in if loc_before sm (start_of (toks ! (first + step))) loc
              then lower_bound sm toks loc (first + step + 1) (count - (step + 1))
              else lower_bound sm toks loc first step)"
  by pat_completeness auto
termination
  by (relation "measure (\<lambda>(sm, toks, loc, first, count). count)") auto

declare lower_bound.simps [simp del]

definition get_token_after :: "source_manager \<Rightarrow> syntax_index \<Rightarrow> source_loc \<Rightarrow> token option" where
  "get_token_after sm ix loc =
     (if loc_buffer loc \<noteq> focus ix \<or> collected ix = [] then None
      else let i = lower_bound sm (collected ix) loc 0 (length (collected ix))
           in if i < length (collected ix) then Some (collected ix ! i) else None)"

definition get_token_parent :: "syntax_index \<Rightarrow> token \<Rightarrow> nat option" where
  "get_token_parent ix t = token_to_parent ix (token_id (token_of t))"

text \<open>
  The nodes from a node up its parents, where the parents are the library's as changed by the
  index. The loop over a cyclic chain would not end: then the value is \<open>None\<close>.
\<close>

definition parent_in :: "(nat \<Rightarrow> nat option) \<Rightarrow> syntax_index \<Rightarrow> nat \<Rightarrow> nat option" where
  "parent_in parents ix n =
     (case parent_changes ix n of Some p \<Rightarrow> Some p | None \<Rightarrow> parents n)"

partial_function (option) parent_chain :: "(nat \<Rightarrow> nat option) \<Rightarrow> nat option \<Rightarrow> nat list option" where
  "parent_chain parent node =
     (case node of
        None \<Rightarrow> Some []
      | Some n \<Rightarrow>
          Option.bind (parent_chain parent (parent n)) (\<lambda>ns. Some (n # ns)))"

lemma parent_chain_None [simp]: "parent_chain parent None = Some []"
  by (simp add: parent_chain.simps)

lemma parent_chain_Some:
  "parent_chain parent (Some n) = map_option (Cons n) (parent_chain parent (parent n))"
  by (subst parent_chain.simps) (simp add: map_conv_bind_option comp_def)

text \<open>
  The second loop stops at the first node of the chain that the set contains.
\<close>

partial_function (option) first_shared ::
    "(nat \<Rightarrow> nat option) \<Rightarrow> nat set \<Rightarrow> nat option \<Rightarrow> nat option option" where
  "first_shared parent before node =
     (case node of
        None \<Rightarrow> Some None
      | Some n \<Rightarrow> (if n \<in> before then Some (Some n) else first_shared parent before (parent n)))"

definition get_syntax_at ::
    "source_manager \<Rightarrow> (nat \<Rightarrow> nat option) \<Rightarrow> syntax_index \<Rightarrow> source_loc \<Rightarrow> nat option option" where
  "get_syntax_at sm parents ix loc =
     (case token_index_before sm ix loc of
        None \<Rightarrow> Some None
      | Some i \<Rightarrow>
          let t = collected ix ! i
          in if loc_before sm loc (end_of t) \<or> (token_missing (token_of t) \<and> loc = start_of t)
             then Some (get_token_parent ix t)
             else if i + 1 \<ge> length (collected ix) then Some None
             else
               (case parent_chain (parent_in parents ix) (get_token_parent ix t) of
                  None \<Rightarrow> None
                | Some before \<Rightarrow>
                    first_shared (parent_in parents ix) (set before)
                      (get_token_parent ix (collected ix ! (i + 1)))))"

section \<open>Searching\<close>

text \<open>
  What the lookups need of the tokens: that the library orders the locations of the buffer by
  offset, and that the tokens start in order.
\<close>

definition orders_by_offset :: "source_manager \<Rightarrow> nat \<Rightarrow> bool" where
  "orders_by_offset sm b \<longleftrightarrow>
     (\<forall>x y. loc_buffer x = b \<longrightarrow> loc_buffer y = b \<longrightarrow>
        loc_before sm x y = (loc_offset x < loc_offset y))"

definition start_offset :: "token \<Rightarrow> nat" where
  "start_offset t = loc_offset (start_of t)"

definition in_text_order :: "syntax_index \<Rightarrow> bool" where
  "in_text_order ix \<longleftrightarrow>
     list_all (\<lambda>t. in_focus ix (start_of t) \<and> in_focus ix (end_of t)) (collected ix) \<and>
     sorted (map start_offset (collected ix))"

text \<open>Tokens that do not overlap: each ends before the next one starts.\<close>

definition disjoint_tokens :: "syntax_index \<Rightarrow> bool" where
  "disjoint_tokens ix \<longleftrightarrow>
     sorted_wrt (\<lambda>t u. loc_offset (end_of t) \<le> start_offset u) (collected ix)"

lemma before_iff:
  "orders_by_offset sm b \<Longrightarrow> loc_buffer x = b \<Longrightarrow> loc_buffer y = b \<Longrightarrow>
   loc_before sm x y \<longleftrightarrow> loc_offset x < loc_offset y"
  by (simp add: orders_by_offset_def)

lemma in_focus_nth:
  "in_text_order ix \<Longrightarrow> i < length (collected ix) \<Longrightarrow>
   in_focus ix (start_of (collected ix ! i)) \<and> in_focus ix (end_of (collected ix ! i))"
  by (simp add: in_text_order_def list_all_length)

lemma start_offset_mono:
  "in_text_order ix \<Longrightarrow> i \<le> j \<Longrightarrow> j < length (collected ix) \<Longrightarrow>
   start_offset (collected ix ! i) \<le> start_offset (collected ix ! j)"
  unfolding in_text_order_def using sorted_nth_mono [of "map start_offset (collected ix)" i j]
  by simp

text \<open>The search stays within its bounds whatever the tokens are.\<close>

lemma search_bounds: "low < high \<Longrightarrow> low \<le> search sm toks loc low high \<and> search sm toks loc low high < high"
proof (induction sm toks loc low high rule: search.induct)
  case (1 sm toks loc low high)
  show ?case
  proof (cases "low + 1 < high")
    case True
    let ?mid = "low + (high - low) div 2"
    from True have "low < ?mid" "?mid < high" by auto
    with 1 True show ?thesis
      by (subst (1 2) search.simps) (fastforce simp add: Let_def)
  next
    case False
    with 1(3) show ?thesis by (simp add: search.simps [of sm toks loc low high])
  qed
qed

lemma search_correct:
  assumes "low < high" "high \<le> length toks"
    and "not_after sm (start_of (toks ! low)) loc"
    and "high < length toks \<Longrightarrow> loc_before sm loc (start_of (toks ! high))"
  shows "not_after sm (start_of (toks ! search sm toks loc low high)) loc \<and>
    (search sm toks loc low high + 1 < length toks \<longrightarrow>
     loc_before sm loc (start_of (toks ! (search sm toks loc low high + 1))))"
  using assms
proof (induction sm toks loc low high rule: search.induct)
  case (1 sm toks loc low high)
  show ?case
  proof (cases "low + 1 < high")
    case True
    let ?mid = "low + (high - low) div 2"
    from True have mid: "low < ?mid" "?mid < high" by auto
    show ?thesis
    proof (cases "not_after sm (start_of (toks ! ?mid)) loc")
      case yes: True
      with True have "search sm toks loc low high = search sm toks loc ?mid high"
        by (subst search.simps) (simp add: Let_def)
      with 1(1) [OF True refl yes] 1(3-) mid yes show ?thesis by simp
    next
      case no: False
      with True have "search sm toks loc low high = search sm toks loc low ?mid"
        by (subst search.simps) (simp add: Let_def)
      with 1(2) [OF True refl no] 1(3-) mid no show ?thesis by simp
    qed
  next
    case False
    with 1(3) have "search sm toks loc low high = low" "high = low + 1"
      by (auto simp: search.simps [of sm toks loc low high])
    with 1(4-) show ?thesis by (cases "high < length toks") auto
  qed
qed

text \<open>
  The index a lookup starts from is within the collected tokens, so that none of the
  accesses that follow it is out of range, for any tokens and any comparison of locations.
\<close>

lemma token_index_in_bounds:
  "set_option (token_index_before sm ix loc) \<subseteq> {..<length (collected ix)} \<and>
   lower_bound sm toks loc 0 (length toks) \<le> length toks"
proof
  show "set_option (token_index_before sm ix loc) \<subseteq> {..<length (collected ix)}"
    using search_bounds [of 0 "length (collected ix)" sm "collected ix" loc]
    by (auto simp: token_index_before_def)
  have "lower_bound sm toks loc first count \<le> first + count" for first count
  proof (induction sm toks loc first count rule: lower_bound.induct)
    case (1 sm toks loc first count)
    show ?case
    proof (cases "count = 0")
      case True
      then show ?thesis by (simp add: lower_bound.simps)
    next
      case False
      then have "count div 2 < count" by simp
      with 1 [OF False refl] False show ?thesis
        by (subst lower_bound.simps) (auto simp: Let_def)
    qed
  qed
  from this [of 0 "length toks"] show "lower_bound sm toks loc 0 (length toks) \<le> length toks"
    by simp
qed

text \<open>What an index found by the search says of every token.\<close>

lemma index_before_Some:
  assumes "orders_by_offset sm (focus ix)" and "in_text_order ix"
    and found: "token_index_before sm ix loc = Some k"
  shows "in_focus ix loc" and "k < length (collected ix)"
    and "j < length (collected ix) \<Longrightarrow> start_offset (collected ix ! j) \<le> loc_offset loc \<longleftrightarrow> j \<le> k"
proof -
  let ?toks = "collected ix" and ?p = "\<lambda>t. start_offset t \<le> loc_offset loc"
  from found have *: "in_focus ix loc" "0 < length ?toks" "not_after sm (start_of (?toks ! 0)) loc"
    and k: "k = search sm ?toks loc 0 (length ?toks)"
    by (auto simp: token_index_before_def split: if_splits)
  show "in_focus ix loc" by (rule *)
  have cmp: "not_after sm (start_of (?toks ! i)) loc \<longleftrightarrow> ?p (?toks ! i)" if "i < length ?toks" for i
    using before_iff [OF assms(1), of loc "start_of (?toks ! i)"] in_focus_nth [OF assms(2) that] *
    by (auto simp: start_offset_def)
  show len: "k < length ?toks" using search_bounds [OF *(2)] k by simp
  have "not_after sm (start_of (?toks ! k)) loc \<and>
      (k + 1 < length ?toks \<longrightarrow> loc_before sm loc (start_of (?toks ! (k + 1))))"
    unfolding k using * by (intro search_correct) auto
  with len cmp have here: "?p (?toks ! k)" and after: "k + 1 < length ?toks \<Longrightarrow> \<not> ?p (?toks ! (k + 1))"
    by (metis, metis)
  assume j: "j < length ?toks"
  show "?p (?toks ! j) \<longleftrightarrow> j \<le> k"
  proof
    assume "j \<le> k"
    with here len start_offset_mono [OF assms(2), of j k] show "?p (?toks ! j)" by simp
  next
    assume "?p (?toks ! j)"
    show "j \<le> k"
    proof (rule ccontr)
      assume "\<not> j \<le> k"
      with j start_offset_mono [OF assms(2), of "k + 1" j] after \<open>?p (?toks ! j)\<close>
      show False by fastforce
    qed
  qed
qed

lemma index_before_None:
  assumes "orders_by_offset sm (focus ix)" and "in_text_order ix"
    and none: "token_index_before sm ix loc = None" "in_focus ix loc"
    and j: "j < length (collected ix)"
  shows "loc_offset loc < start_offset (collected ix ! j)"
proof -
  from j none have "loc_before sm loc (start_of (collected ix ! 0))"
    by (auto simp: token_index_before_def split: if_splits)
  with j none before_iff [OF assms(1), of loc "start_of (collected ix ! 0)"]
    in_focus_nth [OF assms(2), of 0]
  have "loc_offset loc < start_offset (collected ix ! 0)"
    by (cases "collected ix") (auto simp: start_offset_def)
  with start_offset_mono [OF assms(2), of 0 j] j show ?thesis by simp
qed

text \<open>
  C18: The binary search of the token index finds the token a linear scan would: where tokens
  start in the order of the buffer, it is the last one that starts at or before the location,
  and there is none exactly when all start after it or the location is in another buffer.
\<close>

theorem token_index_before_linear:
  assumes "orders_by_offset sm (focus ix)" and "in_text_order ix"
  shows "token_index_before sm ix loc =
    (let n = (if in_focus ix loc
              then length (takeWhile (\<lambda>t. start_offset t \<le> loc_offset loc) (collected ix)) else 0)
     in if n = 0 then None else Some (n - 1))"
proof (cases "token_index_before sm ix loc")
  case None
  have "takeWhile (\<lambda>t. start_offset t \<le> loc_offset loc) (collected ix) = []" if "in_focus ix loc"
    using index_before_None [OF assms None that, of 0] by (cases "collected ix") auto
  with None show ?thesis by simp
next
  case (Some k)
  note at = index_before_Some [OF assms Some]
  have "takeWhile (\<lambda>t. start_offset t \<le> loc_offset loc) (collected ix) = take (k + 1) (collected ix)"
    using at by (intro takeWhile_eq_take_P_nth) auto
  with Some at(1,2) show ?thesis by simp
qed

text \<open>A buffer with two words, one of them after a scope operator, for the examples.\<close>

definition sample_token :: "nat \<Rightarrow> token_kind \<Rightarrow> nat \<Rightarrow> string \<Rightarrow> token" where
  "sample_token i k off raw =
     Token \<lparr>token_id = i, token_kind = k, token_start = \<lparr>loc_buffer = 1, loc_offset = off\<rparr>,
            token_end = \<lparr>loc_buffer = 1, loc_offset = off + length raw\<rparr>,
            token_missing = False, raw_text = raw, value_text = raw\<rparr> []"

definition sample_manager :: source_manager where
  "sample_manager =
     \<lparr>expanded_loc = id, expanded_range = id, original_loc = id, original_range = id,
      raw_line_number = (\<lambda>l. 1), line_number = (\<lambda>l. 1), column_number = (\<lambda>l. loc_offset l + 1),
      location_at = (\<lambda>b l c. Some \<lparr>loc_buffer = b, loc_offset = c - 1\<rparr>),
      full_path = (\<lambda>b. ''/a.sv''), macro_name = (\<lambda>l. []),
      no_location = \<lparr>loc_buffer = 0, loc_offset = 0\<rparr>,
      loc_before = (\<lambda>x y. loc_buffer x = loc_buffer y \<and> loc_offset x < loc_offset y),
      buffer_valid = (\<lambda>b. True), latest_data = (\<lambda>b. True)\<rparr>"

definition sample_index :: syntax_index where
  "sample_index = (empty_index 1)
     \<lparr>collected := [sample_token 1 IdentifierToken 0 ''pkg'', sample_token 2 DoubleColonToken 3 ''::'',
                    sample_token 3 IdentifierToken 5 ''v''],
      token_to_parent := [1 \<mapsto> 11, 2 \<mapsto> 10, 3 \<mapsto> 12]\<rparr>"

abbreviation sample_loc :: "nat \<Rightarrow> source_loc" where
  "sample_loc off \<equiv> \<lparr>loc_buffer = 1, loc_offset = off\<rparr>"

lemma sample_ok:
  "orders_by_offset sample_manager (focus sample_index)" "in_text_order sample_index"
  "disjoint_tokens sample_index"
  by (simp_all add: orders_by_offset_def sample_manager_def sample_index_def empty_index_def
      in_text_order_def disjoint_tokens_def sample_token_def start_offset_def)

theorem token_index_before_linear_witness:
  "token_index_before sample_manager sample_index (sample_loc 4) = Some 1"
  unfolding token_index_before_linear [OF sample_ok(1,2)]
  by (simp add: sample_index_def sample_token_def start_offset_def empty_index_def Let_def)

section \<open>Words and neighbours\<close>

definition word_at :: "source_loc \<Rightarrow> token \<Rightarrow> bool" where
  "word_at loc t \<longleftrightarrow>
     is_id_token (token_kind (token_of t)) \<and> start_offset t \<le> loc_offset loc \<and>
     loc_offset loc < loc_offset (end_of t)"

lemma editor_contains_iff:
  "orders_by_offset sm (focus ix) \<Longrightarrow> in_text_order ix \<Longrightarrow> in_focus ix loc \<Longrightarrow>
   t \<in> set (collected ix) \<Longrightarrow>
   editor_contains sm t loc \<longleftrightarrow>
     start_offset t \<le> loc_offset loc \<and> loc_offset loc < loc_offset (end_of t)"
  by (auto simp: editor_contains_def orders_by_offset_def in_text_order_def list_all_iff
      start_offset_def)

lemma find_at:
  "k < length xs \<Longrightarrow> P (xs ! k) \<Longrightarrow> (\<And>j. j < k \<Longrightarrow> \<not> P (xs ! j)) \<Longrightarrow>
   List.find P xs = Some (xs ! k)"
  by (metis find_Some_iff)

lemma disjoint_ends:
  "disjoint_tokens ix \<Longrightarrow> i < j \<Longrightarrow> j < length (collected ix) \<Longrightarrow>
   loc_offset (end_of (collected ix ! i)) \<le> start_offset (collected ix ! j)"
  unfolding disjoint_tokens_def by (rule sorted_wrt_nth_less)

lemma word_token_find:
  assumes "orders_by_offset sm (focus ix)" and "in_text_order ix" and "disjoint_tokens ix"
  shows "get_word_token_at sm ix loc =
    (if in_focus ix loc then List.find (word_at loc) (collected ix) else None)"
proof (cases "token_index_before sm ix loc")
  case None
  have "List.find (word_at loc) (collected ix) = None" if "in_focus ix loc"
    using index_before_None [OF assms(1,2) None that]
    by (fastforce simp: find_None_iff in_set_conv_nth word_at_def)
  with None show ?thesis
    by (simp add: get_word_token_at_def)
next
  case (Some k)
  let ?toks = "collected ix"
  note at = index_before_Some [OF assms(1,2) Some]
  have word: "is_id_token (token_kind (token_of t)) \<and> editor_contains sm t loc \<longleftrightarrow> word_at loc t"
    if "t \<in> set ?toks" for t
    using editor_contains_iff [OF assms(1,2) at(1) that] by (auto simp: word_at_def)
  have earlier: "\<not> word_at loc (?toks ! j)" if "j < k" for j
    using disjoint_ends [OF assms(3) that at(2)] at(3) [OF at(2)] by (simp add: word_at_def)
  have later: "\<not> word_at loc (?toks ! j)" if "k < j" "j < length ?toks" for j
    using at(3) [OF that(2)] that(1) by (simp add: word_at_def)
  show ?thesis
  proof (cases "word_at loc (?toks ! k)")
    case True
    with find_at [of k ?toks "word_at loc", OF at(2) True earlier] word [OF nth_mem [OF at(2)]] Some at(1) show ?thesis
      by (simp add: get_word_token_at_def)
  next
    case False
    have "\<not> word_at loc (?toks ! j)" if "j < length ?toks" for j
      using that earlier later False by (cases "j < k"; cases "j = k") auto
    then have "List.find (word_at loc) ?toks = None"
      by (auto simp: find_None_iff in_set_conv_nth)
    moreover have "get_word_token_at sm ix loc = None"
      using Some False earlier [of "k - 1"] word [OF nth_mem [OF at(2)]]
        word [OF nth_mem, of "k - 1"] at(2)
      by (cases "k = 0") (auto simp: get_word_token_at_def Let_def)
    ultimately show ?thesis by simp
  qed
qed

text \<open>
  Where tokens do not overlap, the word at a location is the identifier, system identifier,
  directive or macro usage that contains it, the end excluded, and there is none exactly when
  no such token does: the second probe, meant for the token before a location at its end, never
  adds one.
\<close>

lemma word_token_exact:
  assumes "orders_by_offset sm (focus ix)" and "in_text_order ix" and "disjoint_tokens ix"
  shows "get_word_token_at sm ix loc =
    (if in_focus ix loc then List.find (word_at loc) (collected ix) else None)"
  by (rule word_token_find [OF assms])

lemma word_token_exact_witness:
  "get_word_token_at sample_manager sample_index (sample_loc 2) =
     Some (sample_token 1 IdentifierToken 0 ''pkg'') \<and>
   get_word_token_at sample_manager sample_index (sample_loc 3) = None"
  unfolding word_token_exact [OF sample_ok]
  by (simp add: sample_index_def sample_token_def start_offset_def empty_index_def word_at_def
      is_id_token_def)

lemma step_back_spec:
  "step_back sm toks loc n \<le> n"
  "i < n \<Longrightarrow> step_back sm toks loc n \<le> i \<Longrightarrow> not_after sm loc (start_of (toks ! i))"
  "0 < step_back sm toks loc n \<Longrightarrow> loc_before sm (start_of (toks ! (step_back sm toks loc n - 1))) loc"
  by (induction n) (auto simp: less_Suc_eq split: if_splits)

lemma filter_eq_take:
  "(\<And>j. j < length xs \<Longrightarrow> P (xs ! j) \<longleftrightarrow> j < m) \<Longrightarrow> filter P xs = take m xs"
proof (induction xs arbitrary: m)
  case (Cons x xs)
  show ?case
  proof (cases m)
    case 0
    with Cons.prems have "\<not> P y" if "y \<in> set (x # xs)" for y
      using that by (metis in_set_conv_nth not_less_zero)
    with 0 show ?thesis by (simp add: filter_empty_conv)
  next
    case (Suc k)
    have "filter P xs = take k xs"
      using Cons.prems [of "Suc j" for j] Suc by (intro Cons.IH) auto
    with Cons.prems [of 0] Suc show ?thesis by simp
  qed
qed simp

lemma lower_bound_spec:
  assumes "first + count \<le> length toks"
    and "\<And>i j. i \<le> j \<Longrightarrow> j < length toks \<Longrightarrow> B (toks ! j) \<Longrightarrow> B (toks ! i)"
    and "\<And>j. j < length toks \<Longrightarrow> loc_before sm (start_of (toks ! j)) loc \<longleftrightarrow> B (toks ! j)"
    and "\<And>j. j < first \<Longrightarrow> B (toks ! j)"
    and "\<And>j. first + count \<le> j \<Longrightarrow> j < length toks \<Longrightarrow> \<not> B (toks ! j)"
    and "j < length toks"
  shows "B (toks ! j) \<longleftrightarrow> j < lower_bound sm toks loc first count"
  using assms
proof (induction sm toks loc first count rule: lower_bound.induct)
  case (1 sm toks loc first count)
  show ?case
  proof (cases "count = 0")
    case True
    then have "lower_bound sm toks loc first count = first" by (subst lower_bound.simps) simp
    with True 1(6) [of j] 1(7) [of j] 1(8) show ?thesis by (cases "j < first") auto
  next
    case False
    let ?s = "count div 2"
    from False 1(3) have s: "?s < count" "first + ?s < length toks" by auto
    show ?thesis
    proof (cases "B (toks ! (first + ?s))")
      case True
      then have go: "loc_before sm (start_of (toks ! (first + ?s))) loc" using 1(5) s by simp
      with False have "lower_bound sm toks loc first count =
          lower_bound sm toks loc (first + ?s + 1) (count - (?s + 1))"
        by (subst lower_bound.simps) (simp add: Let_def)
      moreover have "B (toks ! j') " if "j' < first + ?s + 1" for j'
        using that 1(4) [of j' "first + ?s"] s True by simp
      ultimately show ?thesis
        using 1(1) [OF False refl go] 1(3-) s by (simp add: add.assoc)
    next
      case no: False
      then have stay: "\<not> loc_before sm (start_of (toks ! (first + ?s))) loc" using 1(5) s by simp
      with False have "lower_bound sm toks loc first count = lower_bound sm toks loc first ?s"
        by (subst lower_bound.simps) (simp add: Let_def)
      moreover have "\<not> B (toks ! j')" if "first + ?s \<le> j'" "j' < length toks" for j'
        using that 1(4) [of "first + ?s" j'] no by blast
      ultimately show ?thesis
        using 1(2) [OF False refl stay] 1(3-) s by simp
    qed
  qed
qed

lemma token_after_find:
  assumes "orders_by_offset sm (focus ix)" and "in_text_order ix" and foc: "in_focus ix loc"
  shows "get_token_after sm ix loc =
    List.find (\<lambda>t. loc_offset loc \<le> start_offset t) (collected ix)"
proof -
  let ?toks = "collected ix" and ?B = "\<lambda>t. start_offset t < loc_offset loc"
  define r where "r = lower_bound sm ?toks loc 0 (length ?toks)"
  have r: "?B (?toks ! j) \<longleftrightarrow> j < r" if "j < length ?toks" for j
    unfolding r_def
  proof (rule lower_bound_spec [OF _ _ _ _ _ that])
    fix i j assume "i \<le> j" "j < length ?toks" "?B (?toks ! j)"
    then show "?B (?toks ! i)" using start_offset_mono [OF assms(2), of i j] by simp
  next
    fix j assume "j < length ?toks"
    then show "loc_before sm (start_of (?toks ! j)) loc \<longleftrightarrow> ?B (?toks ! j)"
      using before_iff [OF assms(1)] in_focus_nth [OF assms(2)] foc by (simp add: start_offset_def)
  qed auto
  show ?thesis
  proof (cases "r < length ?toks")
    case True
    then have "List.find (\<lambda>t. loc_offset loc \<le> start_offset t) ?toks = Some (?toks ! r)"
      using r [of r] r by (intro find_at) (auto simp: not_less [symmetric])
    with True foc show ?thesis by (auto simp: get_token_after_def r_def [symmetric])
  next
    case False
    then have "List.find (\<lambda>t. loc_offset loc \<le> start_offset t) ?toks = None"
      using r by (fastforce simp: find_None_iff in_set_conv_nth)
    with False show ?thesis by (simp add: get_token_after_def r_def [symmetric])
  qed
qed

lemma token_before_last:
  assumes order: "orders_by_offset sm (focus ix)" "in_text_order ix" "disjoint_tokens ix"
    and foc: "in_focus ix loc"
  shows "get_token_before sm ix loc =
    (let ts = filter (\<lambda>t. start_offset t < loc_offset loc \<and> loc_offset (end_of t) \<le> loc_offset loc)
                (collected ix)
     in if ts = [] then None else Some (last ts))"
proof -
  let ?toks = "collected ix"
    and ?P = "\<lambda>t. start_offset t < loc_offset loc \<and> loc_offset (end_of t) \<le> loc_offset loc"
  define n0 where
    "n0 = (case token_index_before sm ix loc of None \<Rightarrow> 0 | Some i \<Rightarrow> Suc i)"
  have n0: "n0 \<le> length ?toks" "\<And>j. j < length ?toks \<Longrightarrow> start_offset (?toks ! j) \<le> loc_offset loc \<longleftrightarrow> j < n0"
  proof (atomize (full), cases "token_index_before sm ix loc")
    case None
    with index_before_None [OF order(1,2) None foc]
    show "n0 \<le> length ?toks \<and> (\<forall>j<length ?toks. start_offset (?toks ! j) \<le> loc_offset loc \<longleftrightarrow> j < n0)"
      by (auto simp: n0_def not_le)
  next
    case (Some k)
    with index_before_Some [OF order(1,2) Some]
    show "n0 \<le> length ?toks \<and> (\<forall>j<length ?toks. start_offset (?toks ! j) \<le> loc_offset loc \<longleftrightarrow> j < n0)"
      by (auto simp: n0_def less_Suc_eq_le)
  qed
  define n where "n = step_back sm ?toks loc n0"
  have n: "n \<le> n0" "\<And>j. n \<le> j \<Longrightarrow> j < n0 \<Longrightarrow> not_after sm loc (start_of (?toks ! j))"
    "0 < n \<Longrightarrow> loc_before sm (start_of (?toks ! (n - 1))) loc"
    unfolding n_def using step_back_spec by blast+
  have lt: "loc_before sm (start_of (?toks ! j)) loc \<longleftrightarrow> start_offset (?toks ! j) < loc_offset loc"
    if "j < length ?toks" for j
    using before_iff [OF order(1)] in_focus_nth [OF order(2) that] foc by (simp add: start_offset_def)
  have starts: "start_offset (?toks ! j) < loc_offset loc \<longleftrightarrow> j < n" if j: "j < length ?toks" for j
  proof (cases "j < n")
    case True
    with n n0 lt [of "n - 1"] have "start_offset (?toks ! (n - 1)) < loc_offset loc" by simp
    moreover from True n(1) n0(1) have "j \<le> n - 1" "n - 1 < length ?toks" by auto
    then have "start_offset (?toks ! j) \<le> start_offset (?toks ! (n - 1))"
      by (rule start_offset_mono [OF order(2)])
    ultimately show ?thesis using True by simp
  next
    case False
    with n(2) [of j] n0(2) [OF j] lt [OF j] show ?thesis by (cases "j < n0") auto
  qed
  have ends: "loc_offset (end_of (?toks ! j)) \<le> loc_offset loc" if "j + 1 < n" for j
  proof -
    from that n(1) n0(1) have "j < n - 1" "n - 1 < length ?toks" "n - 1 < n" by auto
    with disjoint_ends [OF order(3), of j "n - 1"] starts [of "n - 1"] show ?thesis by simp
  qed
  define m where
    "m = (if n > 0 \<and> loc_before sm loc (end_of (?toks ! (n - 1))) then n - 1 else n)"
  have last_end: "loc_before sm loc (end_of (?toks ! (n - 1))) \<longleftrightarrow>
      loc_offset loc < loc_offset (end_of (?toks ! (n - 1)))" if "n > 0"
    using before_iff [OF order(1) foc] in_focus_nth [OF order(2), of "n - 1"] that n n0 by simp
  have "?P (?toks ! j) \<longleftrightarrow> j < m" if "j < length ?toks" for j
    using starts [OF that] ends [of j] last_end
    by (cases "j + 1 < n"; cases "j + 1 = n") (auto simp: m_def not_less)
  then have "filter ?P ?toks = take m ?toks" by (rule filter_eq_take)
  moreover have "m \<le> length ?toks" using n n0 by (auto simp: m_def)
  moreover have "get_token_before sm ix loc = (if m > 0 then Some (?toks ! (m - 1)) else None)"
    by (simp add: get_token_before_def n0_def [symmetric] n_def [symmetric] m_def Let_def)
  ultimately show ?thesis by (auto simp: Let_def last_conv_nth)
qed

text \<open>
  The neighbours of a location: the token before it is the last one that starts before the
  location and ends at or before it, and the token after it is the first one that starts at or
  after it; so where no token is empty no token between the two can be skipped.
\<close>

lemma neighbour_tokens:
  assumes "orders_by_offset sm (focus ix)" and "in_text_order ix" and "disjoint_tokens ix"
    and "in_focus ix loc"
  shows "get_token_after sm ix loc =
      List.find (\<lambda>t. loc_offset loc \<le> start_offset t) (collected ix) \<and>
    get_token_before sm ix loc =
      (let ts = filter (\<lambda>t. start_offset t < loc_offset loc \<and>
                            loc_offset (end_of t) \<le> loc_offset loc) (collected ix)
       in if ts = [] then None else Some (last ts))"
  using token_after_find [OF assms(1,2,4)] token_before_last [OF assms] by blast

lemma neighbour_tokens_witness:
  "get_token_after sample_manager sample_index (sample_loc 5) =
     Some (sample_token 3 IdentifierToken 5 ''v'') \<and>
   get_token_before sample_manager sample_index (sample_loc 5) =
     Some (sample_token 2 DoubleColonToken 3 ''::'')"
  using neighbour_tokens [OF sample_ok, of "sample_loc 5"]
  by (simp add: sample_index_def sample_token_def start_offset_def empty_index_def Let_def)

section \<open>The node at a location\<close>

definition ancestor :: "(nat \<Rightarrow> nat option) \<Rightarrow> nat \<Rightarrow> nat \<Rightarrow> bool" where
  "ancestor parent a n \<longleftrightarrow> (n, a) \<in> {(x, y). parent x = Some y}\<^sup>*"

definition ancestor_of :: "(nat \<Rightarrow> nat option) \<Rightarrow> nat \<Rightarrow> nat option \<Rightarrow> bool" where
  "ancestor_of parent a node \<longleftrightarrow> (\<exists>n. node = Some n \<and> ancestor parent a n)"

lemma ancestor_step:
  "ancestor parent a n \<longleftrightarrow> a = n \<or> (\<exists>p. parent n = Some p \<and> ancestor parent a p)"
  unfolding ancestor_def by (subst rtrancl_eq_or_trancl) (auto simp: tranclD
      dest: tranclD intro: rtrancl_into_trancl2)

lemma ancestor_refl [simp]: "ancestor parent n n"
  by (simp add: ancestor_def)

lemma ancestor_trans: "ancestor parent a b \<Longrightarrow> ancestor parent b c \<Longrightarrow> ancestor parent a c"
  unfolding ancestor_def by simp

lemma ancestor_linear:
  assumes "ancestor parent a n" "ancestor parent b n"
  shows "ancestor parent a b \<or> ancestor parent b a"
proof -
  have "single_valued {(x, y). parent x = Some y}" by (auto simp: single_valued_def)
  from single_valued_confluent [OF this] assms show ?thesis by (auto simp: ancestor_def)
qed

lemma parent_chain_returns:
  assumes "\<And>x y. parent x = Some y \<Longrightarrow> (rank y :: nat) < rank x"
  shows "\<exists>ns. parent_chain parent node = Some ns \<and> (\<forall>a. a \<in> set ns \<longleftrightarrow> ancestor_of parent a node)"
proof -
  have "\<exists>ns. parent_chain parent (Some n) = Some ns \<and>
      (\<forall>a. a \<in> set ns \<longleftrightarrow> ancestor parent a n)" for n
  proof (induction "rank n" arbitrary: n rule: less_induct)
    case less
    show ?case
    proof (cases "parent n")
      case None
      then show ?thesis by (auto simp: parent_chain_Some ancestor_step [of parent _ n])
    next
      case (Some p)
      with less assms obtain ns where "parent_chain parent (Some p) = Some ns"
        "\<forall>a. a \<in> set ns \<longleftrightarrow> ancestor parent a p" by blast
      with Some show ?thesis by (auto simp: parent_chain_Some ancestor_step [of parent _ n])
    qed
  qed
  then show ?thesis by (cases node) (auto simp: ancestor_of_def)
qed

lemma first_shared_lowest:
  assumes "\<And>x y. parent x = Some y \<Longrightarrow> (rank y :: nat) < rank x"
  shows "\<exists>r. first_shared parent S node = Some r \<and>
    (\<forall>l. r = Some l \<longrightarrow> l \<in> S \<and> ancestor_of parent l node) \<and>
    (\<forall>a\<in>S. ancestor_of parent a node \<longrightarrow> ancestor_of parent a r)"
proof -
  have "\<exists>r. first_shared parent S (Some n) = Some r \<and>
    (\<forall>l. r = Some l \<longrightarrow> l \<in> S \<and> ancestor parent l n) \<and>
    (\<forall>a\<in>S. ancestor parent a n \<longrightarrow> ancestor_of parent a r)" for n
  proof (induction "rank n" arbitrary: n rule: less_induct)
    case less
    show ?case
    proof (cases "n \<in> S")
      case True
      then show ?thesis by (subst first_shared.simps) (simp add: ancestor_of_def)
    next
      case out: False
      show ?thesis
      proof (cases "parent n")
        case None
        then have "\<not> ancestor parent a n" if "a \<in> S" for a
          using that out by (auto simp: ancestor_step [of parent a n])
        moreover have "first_shared parent S (Some n) = Some None"
          using None out by (subst first_shared.simps, simp) (subst first_shared.simps, simp)
        ultimately show ?thesis by auto
      next
        case (Some p)
        with out have "first_shared parent S (Some n) = first_shared parent S (Some p)"
          by (subst first_shared.simps) simp
        moreover have "ancestor parent a n \<longleftrightarrow> ancestor parent a p" if "a \<in> S" for a
          using that out Some by (auto simp: ancestor_step [of parent a n])
        ultimately show ?thesis using less [of p] assms [OF Some] by auto
      qed
    qed
  qed
  moreover have "first_shared parent S None = Some None" by (subst first_shared.simps) simp
  ultimately show ?thesis by (cases node) (auto simp: ancestor_of_def)
qed

text \<open>
  Between two tokens the node at a location is the lowest common ancestor of the nodes of
  the two: the lookup returns where no chain of parents is cyclic, its node contains both
  tokens, and every node that contains both contains it.
\<close>

lemma syntax_between_tokens:
  assumes acyclic: "\<And>x y. parent_in parents ix x = Some y \<Longrightarrow> (rank y :: nat) < rank x"
    and at: "token_index_before sm ix loc = Some i"
    and next_token: "i + 1 < length (collected ix)"
    and outside: "not_after sm (end_of (collected ix ! i)) loc"
      "\<not> (token_missing (token_of (collected ix ! i)) \<and> loc = start_of (collected ix ! i))"
  defines "common \<equiv> \<lambda>a. ancestor_of (parent_in parents ix) a
      (get_token_parent ix (collected ix ! i)) \<and>
    ancestor_of (parent_in parents ix) a (get_token_parent ix (collected ix ! (i + 1)))"
  shows "\<exists>r. get_syntax_at sm parents ix loc = Some r \<and>
    (\<forall>l. r = Some l \<longrightarrow> common l) \<and>
    (\<forall>a. common a \<longrightarrow> ancestor_of (parent_in parents ix) a r)"
proof -
  let ?P = "parent_in parents ix"
  obtain ns where ns: "parent_chain ?P (get_token_parent ix (collected ix ! i)) = Some ns"
    "\<And>a. a \<in> set ns \<longleftrightarrow> ancestor_of ?P a (get_token_parent ix (collected ix ! i))"
    using parent_chain_returns [of ?P rank, OF acyclic] by blast
  obtain r where r: "first_shared ?P (set ns) (get_token_parent ix (collected ix ! (i + 1))) = Some r"
    "\<forall>l. r = Some l \<longrightarrow> l \<in> set ns \<and>
       ancestor_of ?P l (get_token_parent ix (collected ix ! (i + 1)))"
    "\<forall>a\<in>set ns. ancestor_of ?P a (get_token_parent ix (collected ix ! (i + 1))) \<longrightarrow>
       ancestor_of ?P a r"
    using first_shared_lowest [of ?P rank, OF acyclic] by blast
  have "get_syntax_at sm parents ix loc = Some r"
    using at next_token outside ns(1) r(1) by (auto simp: get_syntax_at_def Let_def)
  with ns(2) r(2,3) show ?thesis by (auto simp: common_def)
qed

text \<open>Two words with a gap in between, each in a node of its own below a common one.\<close>

definition gap_index :: syntax_index where
  "gap_index = (empty_index 1)
     \<lparr>collected := [sample_token 1 IdentifierToken 0 ''a'', sample_token 2 IdentifierToken 4 ''b''],
      token_to_parent := [1 \<mapsto> 11, 2 \<mapsto> 12]\<rparr>"

lemma syntax_between_tokens_witness:
  "\<exists>r. get_syntax_at sample_manager [11 \<mapsto> 10, 12 \<mapsto> 10] gap_index (sample_loc 2) = Some r \<and>
    ancestor_of (parent_in [11 \<mapsto> 10, 12 \<mapsto> 10] gap_index) 10 r"
proof -
  let ?P = "parent_in [11 \<mapsto> 10, 12 \<mapsto> 10] gap_index"
  have P: "?P = [11 \<mapsto> 10, 12 \<mapsto> 10]"
    by (simp add: fun_eq_iff parent_in_def gap_index_def empty_index_def)
  have at: "token_index_before sample_manager gap_index (sample_loc 2) = Some 0"
    by (simp add: token_index_before_def gap_index_def empty_index_def sample_token_def
        sample_manager_def search.simps)
  have up: "ancestor ?P 10 11" "ancestor ?P 10 12"
    unfolding P by (simp_all add: ancestor_step [of _ 10 11] ancestor_step [of _ 10 12])
  have "ancestor_of ?P 10 (get_token_parent gap_index (collected gap_index ! 0))"
    "ancestor_of ?P 10 (get_token_parent gap_index (collected gap_index ! (0 + 1)))"
    using up by (simp_all add: ancestor_of_def get_token_parent_def gap_index_def empty_index_def
        sample_token_def)
  moreover have "(y :: nat) - 10 < x - 10" if "?P x = Some y" for x y
    using that by (auto simp: P split: if_splits)
  moreover have "0 + 1 < length (collected gap_index)"
    "not_after sample_manager (end_of (collected gap_index ! 0)) (sample_loc 2)"
    "\<not> (token_missing (token_of (collected gap_index ! 0)) \<and>
        sample_loc 2 = start_of (collected gap_index ! 0))"
    by (simp_all add: gap_index_def empty_index_def sample_token_def sample_manager_def)
  ultimately show ?thesis
    using syntax_between_tokens [where rank = "\<lambda>n. n - 10" and parents = "[11 \<mapsto> 10, 12 \<mapsto> 10]",
      OF _ at] by blast
qed

end
