(* ===== verification/Completion.thy ===== *)
theory Completion
  imports SystemTasks TokenLookup SymbolIndex TextFormat
begin

text \<open>
  Completion requests: the site around the cursor, the query it asks for and the edit of every
  item (\<^verbatim>\<open>completions/CompletionDispatch.cpp\<close>), the context a position is in
  (\<^verbatim>\<open>completions/CompletionContext.cpp\<close>), and the candidates and resolution of macros
  and design units (\<^verbatim>\<open>completions/MacroCompletions.cpp\<close>,
  \<^verbatim>\<open>completions/InstanceCompletions.cpp\<close>). The symbols of a compilation are the
  library's: the candidates from scopes and the scope of an assignment pattern are parameters.
\<close>

section \<open>The site\<close>

definition trigger_characters :: "string list" where
  "trigger_characters = [''`'', ''#'', ''.'', ''('', '':'', ''['', ''$'', ''{'']"

record completion_site =
  replacement_range :: lsp_range
  target_token :: "token option"
  before_token :: "token option"
  after_token :: "token option"
  typed_prefix :: string

abbreviation kind_of_token :: "token \<Rightarrow> token_kind" where
  "kind_of_token t \<equiv> token_kind (token_of t)"

abbreviation raw_of :: "token \<Rightarrow> string" where
  "raw_of t \<equiv> raw_text (token_of t)"

definition word_target :: "source_manager \<Rightarrow> syntax_index \<Rightarrow> source_loc \<Rightarrow> token option" where
  "word_target sm ix cursor =
     (let target =
        (case get_word_token_at sm ix cursor of
           Some t \<Rightarrow> Some t
         | None \<Rightarrow>
             if loc_offset cursor > 0
             then get_word_token_at sm ix (cursor\<lparr>loc_offset := loc_offset cursor - 1\<rparr>) else None)
      in case target of
           None \<Rightarrow> None
         | Some t \<Rightarrow>
             if loc_before sm cursor (start_of t) \<or> loc_before sm (end_of t) cursor then None
             else Some t)"

text \<open>
  The token that is replaced, the two ends of the replaced text and the token before it. A
  dollar sign or backtick that ends at the cursor is a target as well.
\<close>

definition replaced_span ::
    "source_manager \<Rightarrow> syntax_index \<Rightarrow> source_loc \<Rightarrow>
     token option \<times> source_loc \<times> source_loc \<times> token option" where
  "replaced_span sm ix cursor =
     (case word_target sm ix cursor of
        Some t \<Rightarrow> (Some t, start_of t, end_of t, get_token_before sm ix (start_of t))
      | None \<Rightarrow>
          (let prev = get_token_before sm ix cursor
           in case prev of
                None \<Rightarrow> (None, cursor, cursor, prev)
              | Some m \<Rightarrow>
                  if end_of m = cursor \<and> (kind_of_token m = DollarToken \<or> raw_of m = ''`'')
                  then (Some m, start_of m, end_of m, get_token_before sm ix (start_of m))
                  else (None, cursor, cursor, prev)))"

definition get_completion_site ::
    "source_manager \<Rightarrow> syntax_index \<Rightarrow> source_loc \<Rightarrow> completion_site" where
  "get_completion_site sm ix cursor =
     (case replaced_span sm ix cursor of
        (target, start, end', before) \<Rightarrow>
          \<lparr>replacement_range = \<lparr>range_start = to_position sm start, range_end = to_position sm end'\<rparr>,
           target_token = target,
           before_token = before,
           after_token = get_token_after sm ix end',
           typed_prefix =
             (case target of
                None \<Rightarrow> []
              | Some t \<Rightarrow> take (min (loc_offset cursor - loc_offset start) (length (raw_of t)))
                            (raw_of t))\<rparr>)"

fun is_blank_trivia :: "trivia \<Rightarrow> bool" where
  "is_blank_trivia (PlainTrivia k raw n) \<longleftrightarrow> k = Whitespace \<or> k = EndOfLine"
| "is_blank_trivia _ \<longleftrightarrow> False"

definition separated_only_by_whitespace :: "token \<Rightarrow> bool" where
  "separated_only_by_whitespace t \<longleftrightarrow> list_all is_blank_trivia (trivia_of t)"

section \<open>Queries\<close>

datatype trigger_kind = Invoked | TriggerCharacter | TriggerForIncomplete

record request_trigger =
  trigger_kind :: trigger_kind
  trigger_character :: "string option"

datatype completion_query =
    SystemSubroutineQuery lsp_range bool
  | MacroQuery lsp_range string bool
  | ScopedAccessQuery lsp_range "token option" bool
  | MemberAccessQuery lsp_range "token option" bool
  | InstanceQuery lsp_range "token option"
  | StructAssignQuery lsp_range source_loc
  | StructMemberQuery lsp_range source_loc bool
  | LexicalQuery lsp_range bool bool

fun query_range :: "completion_query \<Rightarrow> lsp_range" where
  "query_range (SystemSubroutineQuery r c) = r"
| "query_range (MacroQuery r p c) = r"
| "query_range (ScopedAccessQuery r t c) = r"
| "query_range (MemberAccessQuery r t c) = r"
| "query_range (InstanceQuery r t) = r"
| "query_range (StructAssignQuery r l) = r"
| "query_range (StructMemberQuery r l c) = r"
| "query_range (LexicalQuery r c i) = r"

fun followed_by_call :: "completion_query \<Rightarrow> bool" where
  "followed_by_call (SystemSubroutineQuery r c) = c"
| "followed_by_call (MacroQuery r p c) = c"
| "followed_by_call (ScopedAccessQuery r t c) = c"
| "followed_by_call (MemberAccessQuery r t c) = c"
| "followed_by_call (LexicalQuery r c i) = c"
| "followed_by_call _ = False"

fun followed_by_instantiation :: "completion_query \<Rightarrow> bool" where
  "followed_by_instantiation (LexicalQuery r c i) = i"
| "followed_by_instantiation _ = False"

fun is_struct_assign :: "completion_query \<Rightarrow> bool" where
  "is_struct_assign (StructAssignQuery r l) = True"
| "is_struct_assign _ = False"

fun is_incomplete :: "completion_query \<Rightarrow> bool" where
  "is_incomplete (MacroQuery r p c) = True"
| "is_incomplete _ = False"

definition query_from_location ::
    "source_manager \<Rightarrow> syntax_index \<Rightarrow> (source_loc \<Rightarrow> bool) \<Rightarrow> source_loc \<Rightarrow> request_trigger \<Rightarrow>
     completion_query" where
  "query_from_location sm ix in_pattern cursor trig =
     (let site = get_completion_site sm ix cursor;
          r = replacement_range site;
          after_is = (\<lambda>ks. case after_token site of
                             Some t \<Rightarrow> kind_of_token t \<in> ks \<and> separated_only_by_whitespace t
                           | None \<Rightarrow> False);
          call = after_is {OpenParenthesisToken};
          instantiation = after_is {IdentifierToken, HashToken};
          colon = (case after_token site of Some t \<Rightarrow> kind_of_token t = ColonToken | None \<Rightarrow> False);
          target_starts = (\<lambda>c. case target_token site of
                                 Some t \<Rightarrow> starts_with (raw_of t) c | None \<Rightarrow> False);
          before_is = (\<lambda>k. case before_token site of
                             Some t \<Rightarrow> kind_of_token t = k | None \<Rightarrow> False);
          receiver = (case before_token site of
                        Some t \<Rightarrow> get_token_before sm ix (start_of t) | None \<Rightarrow> None)
      in if target_starts ''$'' then SystemSubroutineQuery r call
         else if target_starts ''`'' then MacroQuery r (typed_prefix site) call
         else if before_is DoubleColonToken then ScopedAccessQuery r receiver call
         else if before_is DotToken then MemberAccessQuery r receiver call
         else if target_token site = None \<and> before_is HashToken then InstanceQuery r receiver
         else if in_pattern cursor then
           (if trigger_kind trig = TriggerCharacter \<and> trigger_character trig = Some ''{''
            then StructAssignQuery r cursor else StructMemberQuery r cursor colon)
         else LexicalQuery r call instantiation)"

section \<open>Edits\<close>

definition set_completion_edit ::
    "lsp_range \<Rightarrow> bool \<Rightarrow> bool \<Rightarrow> 'd completion_item \<Rightarrow> 'd completion_item" where
  "set_completion_edit r call instantiation item =
     (let item =
        (if (call \<and> item_kind item = Some ConstantItem) \<or>
            (instantiation \<and> item_kind item = Some ModuleItem)
         then item\<lparr>insert_text := Some (item_label item), insert_format := Some PlainText\<rparr>
         else item);
          new_text = (case insert_text item of Some t \<Rightarrow> t | None \<Rightarrow> item_label item);
          label_only = (call \<and> insert_format item = Some SnippetText) \<or>
                       (instantiation \<and> item_kind item = Some ModuleItem);
          new_text =
            (if label_only \<and> insert_format item = Some SnippetText
             then snippet_value (append_text (item_label item) (new_snippet []))
             else if label_only then item_label item
             else new_text)
      in item\<lparr>item_text_edit := Some (Replace \<lparr>edit_range = r, edit_text = new_text\<rparr>)\<rparr>)"

definition set_query_edit :: "completion_query \<Rightarrow> 'd completion_item \<Rightarrow> 'd completion_item" where
  "set_query_edit q =
     set_completion_edit (query_range q) (followed_by_call q) (followed_by_instantiation q)"

definition update_completion_edit_text :: "'d completion_item \<Rightarrow> 'd completion_item" where
  "update_completion_edit_text item =
     (case (insert_text item, item_text_edit item) of
        (Some t, Some (Replace e)) \<Rightarrow>
          item\<lparr>item_text_edit := Some (Replace (e\<lparr>edit_text := t\<rparr>))\<rparr>
      | (Some t, Some (InsertReplace u i r)) \<Rightarrow>
          item\<lparr>item_text_edit := Some (InsertReplace t i r)\<rparr>
      | _ \<Rightarrow> item)"

text \<open>
  The entry point: nothing for an opening brace that starts no assignment pattern, otherwise the
  candidates of the query, each with its edit.
\<close>

definition get_completions ::
    "(completion_query \<Rightarrow> 'd completion_item list \<Rightarrow> 'd completion_item list) \<Rightarrow>
     request_trigger \<Rightarrow> completion_query \<Rightarrow> 'd completion_item list \<Rightarrow> 'd completion_item list" where
  "get_completions candidates trig q results =
     (if trigger_kind trig = TriggerCharacter \<and> trigger_character trig = Some ''{'' \<and>
         \<not> is_struct_assign q
      then results
      else map (set_query_edit q) (candidates q results))"

section \<open>Macros\<close>

definition matches_prefix :: "string \<Rightarrow> string \<Rightarrow> bool" where
  "matches_prefix name typed =
     (let typed = (if starts_with typed ''`'' then tl typed else typed)
      in if length typed > length name then False
         else list_all (\<lambda>i. to_lower (name ! i) = to_lower (typed ! i)) [0..<length typed])"

text \<open>
  A macro definition: its name, whether it has a location, its formal arguments, and the code
  block the server shows for it.
\<close>

record macro_definition =
  define_name :: string
  define_located :: bool
  define_formals :: "string list option"
  define_block :: markup_content

definition macro_item :: "string \<Rightarrow> 'd completion_item" where
  "macro_item name =
     (labelled (CHR ''`'' # name))\<lparr>label_detail := Some '' Macro'', item_kind := Some ConstantItem,
       filter_text := Some (CHR ''`'' # name)\<rparr>"

fun add_formals :: "bool \<Rightarrow> string list \<Rightarrow> snippet \<Rightarrow> snippet" where
  "add_formals first [] s = s"
| "add_formals first (a # as) s =
     add_formals False as
       (append_placeholder a None (if first then s else append_text '', '' s))"

definition macro_completion_text :: "macro_definition \<Rightarrow> string" where
  "macro_completion_text m =
     (let s = append_text (define_name m) (append_text ''`'' (new_snippet []))
      in snippet_value
           (case define_formals m of
              None \<Rightarrow> s
            | Some formals \<Rightarrow>
                append_text '')'' (add_formals True formals (append_text ''('' s))))"

definition resolve_macro_item :: "macro_definition \<Rightarrow> 'd completion_item \<Rightarrow> 'd completion_item" where
  "resolve_macro_item m item =
     (let item = item\<lparr>item_documentation := Some (DocMarkup (define_block m))\<rparr>
      in if insert_text item = None
         then item\<lparr>insert_text := Some (macro_completion_text m), insert_format := Some SnippetText\<rparr>
         else item)"

text \<open>The two loops share the set of labels seen.\<close>

fun add_defined_macros ::
    "string \<Rightarrow> macro_definition list \<Rightarrow> string set \<Rightarrow> 'd completion_item list \<Rightarrow>
     string set \<times> 'd completion_item list" where
  "add_defined_macros typed [] seen results = (seen, results)"
| "add_defined_macros typed (m # ms) seen results =
     (let label = CHR ''`'' # define_name m
      in if \<not> define_located m \<or> \<not> matches_prefix (define_name m) typed \<or> label \<in> seen
         then add_defined_macros typed ms seen results
         else add_defined_macros typed ms (insert label seen)
                (results @ [resolve_macro_item m (macro_item (define_name m))]))"

fun add_indexed_macros ::
    "string \<Rightarrow> string list \<Rightarrow> string set \<Rightarrow> 'd completion_item list \<Rightarrow> 'd completion_item list" where
  "add_indexed_macros typed [] seen results = results"
| "add_indexed_macros typed (n # ns) seen results =
     (if \<not> matches_prefix n typed \<or> CHR ''`'' # n \<in> seen
      then add_indexed_macros typed ns seen results
      else add_indexed_macros typed ns (insert (CHR ''`'' # n) seen) (results @ [macro_item n]))"

definition macro_completions ::
    "string \<Rightarrow> macro_definition list \<Rightarrow> indexer \<Rightarrow> 'd completion_item list \<Rightarrow>
     'd completion_item list" where
  "macro_completions typed defined ix results =
     (case add_defined_macros typed defined {} results of
        (seen, results) \<Rightarrow> add_indexed_macros typed (all_macro_names ix) seen results)"

text \<open>
  \<open>load\<close> parses a file and gives its macros, or fails. Cutting the backtick off an
  empty label throws.
\<close>

definition resolve_macro ::
    "indexer \<Rightarrow> (string \<Rightarrow> macro_definition list option) \<Rightarrow> 'd completion_item \<Rightarrow>
     'd completion_item result" where
  "resolve_macro ix load item =
     (if item_label item = [] then Inl OutOfRange
      else case files_for_macro ix (tl (item_label item)) of
        [] \<Rightarrow> Inr item
      | p # ps \<Rightarrow>
          (case load p of
             None \<Rightarrow> Inr item
           | Some ms \<Rightarrow>
               (case List.find (\<lambda>m. define_name m = tl (item_label item)) ms of
                  None \<Rightarrow> Inr item
                | Some m \<Rightarrow> Inr (update_completion_edit_text (resolve_macro_item m item)))))"

section \<open>Design units\<close>

text \<open>
  A parameter declaration: the kind of its keyword where it has one, and its declarators with
  the printed default. The ports of a header as the visitor meets them.
\<close>

datatype parameter_declaration =
    ValueParameters "token_kind option" "(string \<times> string option) list"
  | TypeParameters "token_kind option" "(string \<times> string option) list"

fun declaration_keyword :: "parameter_declaration \<Rightarrow> token_kind option" where
  "declaration_keyword (ValueParameters k ds) = k"
| "declaration_keyword (TypeParameters k ds) = k"

fun declarators :: "parameter_declaration \<Rightarrow> (string \<times> string option) list" where
  "declarators (ValueParameters k ds) = ds"
| "declarators (TypeParameters k ds) = ds"

datatype port_syntax =
    PortDeclarator string | ExplicitNonAnsiPort string | OtherPortSyntax "port_syntax list"

fun visit_port :: "port_syntax \<Rightarrow> string list \<times> nat \<Rightarrow> string list \<times> nat" where
  "visit_port (PortDeclarator n) (names, m) = (names @ [n], max m (length n))"
| "visit_port (ExplicitNonAnsiPort n) (names, m) = (names @ [n], max m (length n))"
| "visit_port (OtherPortSyntax ps) st = fold visit_port ps st"

record module_header =
  header_name :: string
  header_block :: markup_content
  header_parameters :: "parameter_declaration list option"
  header_ports :: "port_syntax option"

fun collect_params ::
    "bool \<Rightarrow> parameter_declaration list \<Rightarrow> (string \<times> string) list \<times> nat \<Rightarrow>
     (string \<times> string) list \<times> nat" where
  "collect_params last_local [] st = st"
| "collect_params last_local (d # ds) st =
     (let last_local = (case declaration_keyword d of
                          Some k \<Rightarrow> k = LocalParamKeyword | None \<Rightarrow> last_local)
      in if last_local then collect_params last_local ds st
         else collect_params last_local ds
           (fold (\<lambda>(n, def) (ps, m).
                    (ps @ [(n, ltrim (case def of Some t \<Rightarrow> t | None \<Rightarrow> []))], max m (length n)))
              (declarators d) st))"

text \<open>\<^verbatim>\<open>std::string(maxLen - name.length(), ' ')\<close>, whose count wraps around below zero.\<close>

definition pad :: "nat \<Rightarrow> string \<Rightarrow> string result" where
  "pad m name =
     (if length name > m then Inl LengthError
      else Inr (name @ replicate (m - length name) (CHR '' '')))"

definition param_text :: "string \<times> string \<Rightarrow> string" where
  "param_text p =
     (if snd p = [] then fst p else fst p @ '' /* default '' @ snd p @ '' */'')"

fun append_params :: "nat \<Rightarrow> (string \<times> string) list \<Rightarrow> snippet \<Rightarrow> snippet result" where
  "append_params m [] s = Inr s"
| "append_params m (p # ps) s =
     bind_result (pad m (fst p)) (\<lambda>fmt.
       let s = append_text (tab # ''.'' @ fmt @ ''('') s;
           s = append_placeholder (param_text p) None s;
           s = append_text '')'' s
       in append_params m ps
            (append_text (if ps \<noteq> [] then '','' @ [newline] else newline # '' '') s))"

fun append_ports :: "nat \<Rightarrow> string list \<Rightarrow> snippet \<Rightarrow> snippet result" where
  "append_ports m [] s = Inr s"
| "append_ports m (n # ns) s =
     bind_result (pad m n) (\<lambda>fmt.
       let s = append_text (tab # ''.'' @ fmt @ ''('') s;
           s = append_placeholder n None s;
           s = append_text '')'' s
       in append_ports m ns
            (append_text (if ns \<noteq> [] then '','' @ [newline] else [newline]) s))"

definition resolve_module_instance ::
    "module_header \<Rightarrow> bool \<Rightarrow> 'd completion_item \<Rightarrow> 'd completion_item result" where
  "resolve_module_instance h exclude_name item =
     (let item = item\<lparr>item_documentation := Some (DocMarkup (header_block h))\<rparr>
      in if insert_text item \<noteq> None then Inr item
         else
           let (params, m) = (case header_parameters h of
                                Some ds \<Rightarrow> collect_params False ds ([], 0) | None \<Rightarrow> ([], 0));
               s = (if exclude_name then new_snippet [] else append_text (header_name h) (new_snippet []));
               with_params =
                 (if params = [] then Inr s
                  else let s = (if exclude_name then s else append_text '' #'' s);
                           s = append_text (CHR ''('' # [newline]) s
                       in map_sum id (append_text '')'') (append_params m params s));
               (ports, m') = (case header_ports h of
                                Some p \<Rightarrow> visit_port p ([], 0) | None \<Rightarrow> ([], 0))
           in bind_result with_params (\<lambda>s.
                let s = append_text '' '' s;
                    s = append_placeholder (to_camel_case (header_name h)) None s;
                    s = append_text '' ('' s
                in bind_result
                     (if ports = [] then Inr s else append_ports m' ports (append_text [newline] s))
                     (\<lambda>s. Inr (item\<lparr>insert_text := Some (snippet_value (append_text '');'' s)),
                                    insert_format := Some SnippetText\<rparr>))))"

definition instance_item :: "(syntax_kind \<Rightarrow> string) \<Rightarrow> string \<Rightarrow> syntax_kind \<Rightarrow> 'd completion_item" where
  "instance_item kind_string name kind =
     (labelled name)
       \<lparr>label_detail := Some (if kind = ModuleDeclaration then '' Module''
                             else if kind = InterfaceDeclaration then '' Interface''
                             else kind_string kind),
        item_kind := Some ModuleItem, filter_text := Some name\<rparr>"

datatype context_kind = PortListContext | ExpressionContext | ModuleMemberContext
  | ProceduralContext | UnknownContext

text \<open>One symbol of the index: \<open>None\<close> where it is not offered in the context.\<close>

definition unit_item :: "context_kind \<Rightarrow> string \<times> symbol_loc \<Rightarrow> 'd completion_item option" where
  "unit_item ctx unit =
     (let item = (\<lambda>detail ins. (labelled (fst unit))
                   \<lparr>label_detail := Some detail, item_kind := Some ModuleItem,
                    filter_text := Some (fst unit), insert_text := ins\<rparr>)
      in case loc_kind (snd unit) of
           ModuleDeclaration \<Rightarrow>
             (if ctx \<noteq> ModuleMemberContext then None else Some (item '' Module'' None))
         | InterfaceDeclaration \<Rightarrow>
             Some (item '' Interface'' (if ctx \<noteq> ModuleMemberContext then Some (fst unit) else None))
         | PackageDeclaration \<Rightarrow> Some (item '' Package'' None)
         | ClassDeclaration \<Rightarrow>
             (if ctx = ExpressionContext then None else Some (item '' Class'' None))
         | _ \<Rightarrow> None)"

fun add_units ::
    "context_kind \<Rightarrow> (string \<times> symbol_loc) list \<Rightarrow> string set \<Rightarrow> 'd completion_item list \<Rightarrow>
     'd completion_item list" where
  "add_units ctx [] seen results = results"
| "add_units ctx (unit # units) seen results =
     (if fst unit \<in> seen then add_units ctx units seen results
      else add_units ctx units (insert (fst unit) seen)
             (case unit_item ctx unit of None \<Rightarrow> results | Some i \<Rightarrow> results @ [i]))"

definition add_instance_completions ::
    "indexer \<Rightarrow> context_kind \<Rightarrow> 'd completion_item list \<Rightarrow> 'd completion_item list" where
  "add_instance_completions ix ctx results = add_units ctx (each_symbol ix) {} results"

text \<open>
  The units of a parsed file, with their kinds: the first module or interface of the name ends
  the search, any other unit of the name is used and the search goes on.
\<close>

fun resolve_in_tree ::
    "(syntax_kind \<times> module_header) list \<Rightarrow> string \<Rightarrow> bool \<Rightarrow> 'd completion_item \<Rightarrow>
     'd completion_item result" where
  "resolve_in_tree [] name exclude_name item = Inr item"
| "resolve_in_tree ((k, h) # us) name exclude_name item =
     (if header_name h \<noteq> name then resolve_in_tree us name exclude_name item
      else if k = InterfaceDeclaration \<or> k = ModuleDeclaration
      then resolve_module_instance h exclude_name item
      else resolve_in_tree us name exclude_name
             (item\<lparr>item_documentation := Some (DocMarkup (header_block h)),
                   insert_text := Some (header_name h), insert_format := Some PlainText\<rparr>))"

definition resolve_unit ::
    "indexer \<Rightarrow> (string \<Rightarrow> (syntax_kind \<times> module_header) list option) \<Rightarrow> string option \<Rightarrow> bool \<Rightarrow>
     'd completion_item \<Rightarrow> 'd completion_item result" where
  "resolve_unit ix load module_path exclude_name item =
     (let name = item_label item
      in case (case module_path of
                 Some p \<Rightarrow> Some p
               | None \<Rightarrow> (case files_for_symbol ix name of [] \<Rightarrow> None | p # ps \<Rightarrow> Some p)) of
           None \<Rightarrow> Inr item
         | Some p \<Rightarrow>
             (case load p of
                None \<Rightarrow> Inr item
              | Some us \<Rightarrow>
                  map_sum id update_completion_edit_text
                    (resolve_in_tree us name exclude_name item)))"

text \<open>After a hash sign: the rest of an instantiation of the module before it.\<close>

definition instance_completions ::
    "(syntax_kind \<Rightarrow> string) \<Rightarrow> indexer \<Rightarrow>
     (string \<Rightarrow> (syntax_kind \<times> module_header) list option) \<Rightarrow> token option \<Rightarrow>
     'd completion_item list \<Rightarrow> 'd completion_item list result" where
  "instance_completions kind_string ix load module_token results =
     (case module_token of
        None \<Rightarrow> Inr results
      | Some t \<Rightarrow>
          (case first_symbol_loc ix (value_text (token_of t)) of
             None \<Rightarrow> Inr results
           | Some l \<Rightarrow>
               bind_result
                 (resolve_unit ix load (Some (loc_uri l)) True
                   (instance_item kind_string (value_text (token_of t)) (loc_kind l)))
                 (\<lambda>item. Inr (results @ [item]))))"

section \<open>Resolving an item\<close>

text \<open>
  The handler of a resolve request: items of system tasks stay as they are; the kind of the
  others is read without a check. Members are resolved by the parameter, and cancelled requests
  end with the error of the context.
\<close>

definition completion_item_resolve ::
    "cpp_error option \<Rightarrow> indexer \<Rightarrow> (string \<Rightarrow> macro_definition list option) \<Rightarrow>
     (string \<Rightarrow> (syntax_kind \<times> module_header) list option) \<Rightarrow>
     ('d completion_item \<Rightarrow> 'd completion_item result) \<Rightarrow> 'd completion_item \<Rightarrow>
     'd completion_item result" where
  "completion_item_resolve cancelled ix load_macros load_units resolve_member item =
     (case cancelled of
        Some e \<Rightarrow> Inl e
      | None \<Rightarrow>
          if item_label item \<noteq> [] \<and> hd (item_label item) = CHR ''$'' then Inr item
          else case item_kind item of
                 None \<Rightarrow> Inl BadAccess
               | Some ConstantItem \<Rightarrow> resolve_macro ix load_macros item
               | Some ModuleItem \<Rightarrow> resolve_unit ix load_units None False item
               | Some _ \<Rightarrow> resolve_member item)"

section \<open>The context of a position\<close>

definition is_expression_context :: "(syntax_kind \<Rightarrow> bool) \<Rightarrow> syntax_kind \<Rightarrow> bool" where
  "is_expression_context is_selector k \<longleftrightarrow>
     is_selector k \<or>
     k \<in> {OrderedPortConnection, NamedPortConnection, OrderedArgument, NamedArgument,
           OrderedParamAssignment, NamedParamAssignment, ConditionalExpression,
           ConditionalStatement, ParenthesizedExpression, InvocationExpression,
           ExpressionStatement, EqualsValueClause, MacroActualArgument, MacroActualArgumentList}"

definition is_port_list_context :: "syntax_kind \<Rightarrow> bool" where
  "is_port_list_context k \<longleftrightarrow>
     k \<in> {AnsiPortList, NonAnsiPortList, WildcardPortList, ImplicitAnsiPort, PortDeclaration}"

definition is_module_member_context :: "syntax_kind \<Rightarrow> bool" where
  "is_module_member_context k \<longleftrightarrow>
     k \<in> {ModuleDeclaration, InterfaceDeclaration, ProgramDeclaration, PackageDeclaration,
           ClassDeclaration, GenerateBlock, GenerateRegion}"

definition is_procedural_block_context :: "syntax_kind \<Rightarrow> bool" where
  "is_procedural_block_context k \<longleftrightarrow>
     k \<in> {FunctionDeclaration, TaskDeclaration, AlwaysBlock, AlwaysCombBlock, AlwaysFFBlock,
           AlwaysLatchBlock, InitialBlock, FinalBlock, SequentialBlockStatement,
           ParallelBlockStatement}"

text \<open>What the walk reads of a node: its kind and the end of its first token.\<close>

record node_facts =
  facts_kind :: "nat \<Rightarrow> syntax_kind"
  facts_first_end :: "nat \<Rightarrow> source_loc"
  facts_selector :: "syntax_kind \<Rightarrow> bool"
  facts_assignment :: "syntax_kind \<Rightarrow> bool"
  facts_member :: "syntax_kind \<Rightarrow> bool"

definition node_context ::
    "source_manager \<Rightarrow> node_facts \<Rightarrow> source_loc \<Rightarrow> nat \<Rightarrow> context_kind option" where
  "node_context sm nf loc n =
     (let k = facts_kind nf n
      in if facts_assignment nf k \<or> is_expression_context (facts_selector nf) k
         then Some ExpressionContext
         else if is_procedural_block_context k then Some ProceduralContext
         else if is_port_list_context k then Some PortListContext
         else if is_module_member_context k then Some ModuleMemberContext
         else if facts_member nf k \<and> loc_before sm (facts_first_end nf n) loc
         then Some ExpressionContext
         else None)"

partial_function (option) walk_context ::
    "source_manager \<Rightarrow> node_facts \<Rightarrow> (nat \<Rightarrow> nat option) \<Rightarrow> source_loc \<Rightarrow> context_kind \<Rightarrow>
     nat option \<Rightarrow> context_kind option" where
  "walk_context sm nf parent loc otherwise node =
     (case node of
        None \<Rightarrow> Some otherwise
      | Some n \<Rightarrow>
          (case node_context sm nf loc n of
             Some c \<Rightarrow> Some c
           | None \<Rightarrow> walk_context sm nf parent loc otherwise (parent n)))"

definition context_at ::
    "source_manager \<Rightarrow> node_facts \<Rightarrow> (nat \<Rightarrow> nat option) \<Rightarrow> syntax_index \<Rightarrow> bool \<Rightarrow> source_loc \<Rightarrow>
     context_kind option" where
  "context_at sm nf parents ix has_scope loc =
     Option.bind (get_syntax_at sm parents ix loc)
       (walk_context sm nf (parent_in parents ix) loc
         (if has_scope then ModuleMemberContext else UnknownContext))"

end
