(* ===== verification/CompletionSound.thy ===== *)
theory CompletionSound
  imports Completion
begin

text \<open>
  What completion requests promise: edits that keep the shape of the source around the cursor,
  replacement ranges that cover it, macro candidates without duplicates, and instantiations
  that connect every port.
\<close>

section \<open>Edits\<close>

lemma read_label:
  "read_snippet (snippet_value (append_text l (new_snippet []))) = Some (map Literal l)"
  using read_escaped [of l "[]"] by (simp add: append_text_def add_value_def new_snippet_def)

text \<open>When the source already has the call or instance that the item would insert.\<close>

definition keeps_shape :: "bool \<Rightarrow> bool \<Rightarrow> 'd completion_item \<Rightarrow> bool" where
  "keeps_shape call instantiation item \<longleftrightarrow>
     (call \<and> (item_kind item = Some ConstantItem \<or> insert_format item = Some SnippetText)) \<or>
     (instantiation \<and> item_kind item = Some ModuleItem)"

lemma edit_elements:
  "inserted_elements (set_completion_edit r call instantiation item) =
     (if keeps_shape call instantiation item then Some (map Literal (item_label item))
      else inserted_elements (item\<lparr>item_text_edit := None\<rparr>))"
  by (cases "insert_format item = Some SnippetText")
    (auto simp: set_completion_edit_def keeps_shape_def inserted_elements_def inserted_text_def
      read_label Let_def split: option.splits)

text \<open>
  The edit of a completion item replaces the range of the query. Before an existing call or
  instance, an item that would insert one inserts exactly its label instead, as the editor reads
  it, whatever characters the label holds; every other item inserts what it inserted without
  the edit.
\<close>

lemma completion_edit_shape:
  "inserted_elements (set_query_edit q item) =
     (if keeps_shape (followed_by_call q) (followed_by_instantiation q) item
      then Some (map Literal (item_label item))
      else inserted_elements (item\<lparr>item_text_edit := None\<rparr>)) \<and>
   (\<exists>t. item_text_edit (set_query_edit q item) =
      Some (Replace \<lparr>edit_range = query_range q, edit_text = t\<rparr>))"
  by (simp add: set_query_edit_def edit_elements) (simp add: set_completion_edit_def Let_def)

text \<open>An item with its edit set, where its label was inserted as plain text.\<close>

definition plain_label :: "'d completion_item \<Rightarrow> bool" where
  "plain_label item \<longleftrightarrow>
     insert_text item = Some (item_label item) \<and> insert_format item = Some PlainText \<and>
     (\<exists>r. item_text_edit item = Some (Replace \<lparr>edit_range = r, edit_text = item_label item\<rparr>))"

lemma plain_label_elements: "plain_label item \<Longrightarrow> inserted_elements item = Some (map Literal (item_label item))"
  by (auto simp: plain_label_def inserted_elements_def inserted_text_def)

lemma edit_plain_label:
  "(call \<and> item_kind item = Some ConstantItem) \<or> (instantiation \<and> item_kind item = Some ModuleItem) \<Longrightarrow>
   plain_label (set_completion_edit r call instantiation item)"
  by (auto simp: set_completion_edit_def plain_label_def Let_def)

lemma update_plain_label:
  "insert_text item = Some (item_label item) \<Longrightarrow> insert_format item = Some PlainText \<Longrightarrow>
   item_text_edit item = Some (Replace e) \<Longrightarrow> plain_label (update_completion_edit_text item)"
  by (cases e) (auto simp: update_completion_edit_text_def plain_label_def)

lemma resolve_macro_item_plain:
  "plain_label item \<Longrightarrow> plain_label (update_completion_edit_text (resolve_macro_item m item))"
  by (auto simp: resolve_macro_item_def plain_label_def update_completion_edit_text_def)

definition unit_resolved :: "string \<Rightarrow> 'd completion_item \<Rightarrow> bool" where
  "unit_resolved name item \<longleftrightarrow>
     item_label item = name \<and> insert_text item = Some name \<and> insert_format item = Some PlainText \<and>
     (\<exists>e. item_text_edit item = Some (Replace e))"

lemma resolve_in_tree_plain:
  "resolve_in_tree us name ex item = Inr item' \<Longrightarrow> unit_resolved name item \<Longrightarrow>
   unit_resolved name item'"
proof (induction us name ex item rule: resolve_in_tree.induct)
  case (2 k h us name ex item)
  then show ?case
    by (auto simp: unit_resolved_def resolve_module_instance_def Let_def split: if_splits)
qed simp

lemma resolve_unit_plain:
  assumes "resolve_unit ix load path ex item = Inr item'" and "plain_label item"
  shows "plain_label item' \<and> item_label item' = item_label item"
proof -
  have item: "unit_resolved (item_label item) item"
    using assms(2) by (auto simp: plain_label_def unit_resolved_def)
  show ?thesis
  proof (cases "item' = item")
    case True
    with assms(2) show ?thesis by simp
  next
    case False
    with assms(1) obtain us i where i: "resolve_in_tree us (item_label item) ex item = Inr i"
      "item' = update_completion_edit_text i"
      by (auto simp: resolve_unit_def Let_def split: option.splits list.splits)
        (auto split: sum.splits simp: map_sum_def)
    with item resolve_in_tree_plain have "unit_resolved (item_label item) i" by blast
    with i(2) show ?thesis
      using update_plain_label [of i]
      by (auto simp: unit_resolved_def update_completion_edit_text_def)
  qed
qed

text \<open>
  C30: Resolving keeps that shape: a macro in front of an argument list and a design unit in
  front of an instance still insert only their name after the documentation was added, so that
  neither an argument list nor an instantiation is doubled.
\<close>

theorem resolved_item_keeps_shape:
  assumes "call \<and> item_kind item = Some ConstantItem \<or>
      instantiation \<and> item_kind item = Some ModuleItem"
    and "completion_item_resolve cancelled ix load_macros load_units resolve_member
      (set_completion_edit r call instantiation item) = Inr item'"
  shows "inserted_elements item' = Some (map Literal (item_label item))"
proof -
  let ?e = "set_completion_edit r call instantiation item"
  have e: "plain_label ?e" "item_label ?e = item_label item" "item_kind ?e = item_kind item"
    using edit_plain_label [OF assms(1)] by (auto simp: set_completion_edit_def Let_def)
  have "plain_label item' \<and> item_label item' = item_label item"
  proof (cases "item' = ?e")
    case True
    with e show ?thesis by simp
  next
    case False
    show ?thesis
    proof (cases "item_kind item = Some ConstantItem")
      case True
      with False assms(2) e(3) have "resolve_macro ix load_macros ?e = Inr item'"
        by (auto simp: completion_item_resolve_def split: option.splits if_splits)
      with False obtain m where "item' = update_completion_edit_text (resolve_macro_item m ?e)"
        by (auto simp: resolve_macro_def split: list.splits option.splits if_splits)
      with resolve_macro_item_plain [OF e(1), of m] e(2) show ?thesis
        by (auto simp: update_completion_edit_text_def resolve_macro_item_def Let_def
            split: option.splits item_edit.splits)
    next
      case module: False
      with assms(1) have "item_kind item = Some ModuleItem" by blast
      with False assms(2) e(3) have "resolve_unit ix load_units None False ?e = Inr item'"
        by (auto simp: completion_item_resolve_def split: option.splits if_splits)
      with resolve_unit_plain [OF _ e(1)] e(2) show ?thesis by metis
    qed
  qed
  with plain_label_elements [of item'] show ?thesis by simp
qed

text \<open>A macro with an argument, indexed in one file, in front of an argument list.\<close>

definition sample_macro :: macro_definition where
  "sample_macro = \<lparr>define_name = ''M'', define_located = True, define_formals = Some [''x''],
     define_block = \<lparr>markup_kind = ''markdown'', markup_value = ''M''\<rparr>\<rparr>"

theorem resolved_item_keeps_shape_witness:
  "inserted_elements
     (case completion_item_resolve None (empty_indexer\<lparr>macro_files := [(''M'', [''/m.svh''])]\<rparr>)
             (\<lambda>p. Some [sample_macro]) (\<lambda>p. None) Inr
             (set_completion_edit \<lparr>range_start = \<lparr>line = 0, character = 0\<rparr>,
                range_end = \<lparr>line = 0, character = 2\<rparr>\<rparr> True False
                (macro_item ''M'' :: nat completion_item)) of
        Inr i \<Rightarrow> i | Inl e \<Rightarrow> labelled []) =
   Some [Literal CHR ''`'', Literal CHR ''M'']"
  (is "inserted_elements (case ?resolved of Inr i \<Rightarrow> i | Inl e \<Rightarrow> _) = _")
proof -
  obtain i where "?resolved = Inr i"
    by (simp add: completion_item_resolve_def set_completion_edit_def macro_item_def labelled_def
        resolve_macro_def files_for_macro_def entries_def sample_macro_def)
  from resolved_item_keeps_shape [OF _ this] this show ?thesis
    by (simp add: macro_item_def labelled_def)
qed

section \<open>The site\<close>

lemma token_before_member:
  assumes "orders_by_offset sm (focus ix)" "in_text_order ix" "disjoint_tokens ix"
    "in_focus ix loc" and "get_token_before sm ix loc = Some m"
  shows "m \<in> set (collected ix) \<and> start_offset m < loc_offset loc \<and>
    loc_offset (end_of m) \<le> loc_offset loc"
proof -
  let ?ts = "filter (\<lambda>t. start_offset t < loc_offset loc \<and> loc_offset (end_of t) \<le> loc_offset loc)
    (collected ix)"
  from assms(5) token_before_last [OF assms(1-4)] have "?ts \<noteq> []" "m = last ?ts"
    by (auto simp: Let_def split: if_splits)
  then have "m \<in> set ?ts" using last_in_set by blast
  then show ?thesis by simp
qed

abbreviation one_back :: "source_loc \<Rightarrow> source_loc" where
  "one_back l \<equiv> l\<lparr>loc_offset := loc_offset l - 1\<rparr>"

text \<open>The word the cursor is in, else the one that ends at it.\<close>

lemma word_target_find:
  assumes order: "orders_by_offset sm (focus ix)" "in_text_order ix" "disjoint_tokens ix"
    and foc: "in_focus ix cursor"
  shows "word_target sm ix cursor =
    (case List.find (word_at cursor) (collected ix) of
       Some t \<Rightarrow> Some t
     | None \<Rightarrow> if loc_offset cursor > 0
              then List.find (word_at (one_back cursor)) (collected ix) else None)"
proof -
  have keep: "\<not> (loc_before sm cursor (start_of t) \<or> loc_before sm (end_of t) cursor)"
    if "t \<in> set (collected ix)" "word_at cursor t \<or> loc_offset cursor > 0 \<and> word_at (one_back cursor) t"
    for t
  proof -
    from that(1) order(2) have "in_focus ix (start_of t)" "in_focus ix (end_of t)"
      by (auto simp: in_text_order_def list_all_iff)
    with before_iff [OF order(1)] foc that(2) show ?thesis
      by (auto simp: word_at_def start_offset_def)
  qed
  have found: "t \<in> set (collected ix) \<and> P t" if "List.find P (collected ix) = Some t" for P t
    using that by (auto simp: find_Some_iff)
  show ?thesis
    using word_token_find [OF order, of cursor] word_token_find [OF order, of "one_back cursor"] foc
    by (auto simp: word_target_def Let_def dest!: found dest: keep split: option.splits)
qed

text \<open>
  C31: What a completion replaces: the text between two places with the cursor in between, the
  ends of a collected token where there is a target, and nothing otherwise; and a word that the
  cursor touches, at its end as well, is never left out.
\<close>

theorem replaced_span_covers:
  assumes "orders_by_offset sm (focus ix)" and "in_text_order ix" and "disjoint_tokens ix"
    and "in_focus ix cursor"
  shows "case replaced_span sm ix cursor of (target, start, end', before) \<Rightarrow>
    loc_offset start \<le> loc_offset cursor \<and> loc_offset cursor \<le> loc_offset end' \<and>
    (case target of
       Some t \<Rightarrow> t \<in> set (collected ix) \<and> start = start_of t \<and> end' = end_of t
     | None \<Rightarrow> start = cursor \<and> end' = cursor \<and>
         List.find (word_at cursor) (collected ix) = None \<and>
         (loc_offset cursor = 0 \<or> List.find (word_at (one_back cursor)) (collected ix) = None))"
proof (cases "word_target sm ix cursor")
  case (Some t)
  then have "t \<in> set (collected ix) \<and>
      (word_at cursor t \<or> loc_offset cursor > 0 \<and> word_at (one_back cursor) t)"
    using word_target_find [OF assms] by (auto simp: find_Some_iff split: option.splits if_splits)
  with Some show ?thesis by (auto simp: replaced_span_def word_at_def start_offset_def)
next
  case None
  then have none: "List.find (word_at cursor) (collected ix) = None"
    "loc_offset cursor = 0 \<or> List.find (word_at (one_back cursor)) (collected ix) = None"
    using word_target_find [OF assms] by (auto split: option.splits if_splits)
  show ?thesis
  proof (cases "get_token_before sm ix cursor")
    case before: (Some m)
    with token_before_member [OF assms before] None none show ?thesis
      by (cases "end_of m = cursor \<and> (kind_of_token m = DollarToken \<or> raw_of m = ''`'')")
        (auto simp: replaced_span_def start_offset_def Let_def)
  next
    case before: None
    with None none show ?thesis by (simp add: replaced_span_def)
  qed
qed

theorem replaced_span_covers_witness:
  "case replaced_span sample_manager sample_index (sample_loc 3) of (target, start, end', before) \<Rightarrow>
     loc_offset start \<le> 3 \<and> 3 \<le> loc_offset end'"
  using replaced_span_covers [OF sample_ok, of "sample_loc 3"]
  by (simp add: sample_index_def empty_index_def split_beta)

section \<open>Macros\<close>

lemma defined_macros_spec:
  fixes results :: "'d completion_item list"
  defines "label \<equiv> \<lambda>n :: string. CHR ''`'' # n"
  assumes "add_defined_macros typed ms seen results = (seen', results')"
  shows "\<exists>items. results' = results @ items \<and> distinct (map item_label items) \<and>
    set (map item_label items) \<inter> seen = {} \<and> seen' = seen \<union> set (map item_label items) \<and>
    set (map item_label items) =
      label ` {define_name m | m. m \<in> set ms \<and> define_located m \<and> matches_prefix (define_name m) typed}
      - seen"
  using assms(2)
proof (induction typed ms seen results rule: add_defined_macros.induct)
  case (1 typed seen results)
  then show ?case by (intro exI [of _ "[]"]) simp
next
  case (2 typed m ms seen results)
  let ?l = "label (define_name m)"
  let ?skip = "\<not> define_located m \<or> \<not> matches_prefix (define_name m) typed \<or> ?l \<in> seen"
  show ?case
  proof (cases ?skip)
    case True
    with 2 obtain items where "results' = results @ items \<and> distinct (map item_label items) \<and>
      set (map item_label items) \<inter> seen = {} \<and> seen' = seen \<union> set (map item_label items) \<and>
      set (map item_label items) =
      label ` {define_name m | m. m \<in> set ms \<and> define_located m \<and> matches_prefix (define_name m) typed}
      - seen"
      by (auto simp: label_def Let_def)
    with True show ?thesis by (intro exI [of _ items]) auto
  next
    case False
    let ?i = "resolve_macro_item m (macro_item (define_name m)) :: 'd completion_item"
    have l: "item_label ?i = ?l"
      by (simp add: resolve_macro_item_def macro_item_def labelled_def label_def Let_def)
    from False 2 obtain items where
      "results' = (results @ [?i]) @ items \<and> distinct (map item_label items) \<and>
      set (map item_label items) \<inter> insert ?l seen = {} \<and>
      seen' = insert ?l seen \<union> set (map item_label items) \<and>
      set (map item_label items) =
      label ` {define_name m | m. m \<in> set ms \<and> define_located m \<and> matches_prefix (define_name m) typed}
      - insert ?l seen"
      by (auto simp: label_def Let_def)
    with False l show ?thesis by (intro exI [of _ "?i # items"]) auto
  qed
qed

lemma indexed_macros_spec:
  fixes results :: "'d completion_item list"
  defines "label \<equiv> \<lambda>n :: string. CHR ''`'' # n"
  shows "\<exists>items. add_indexed_macros typed ns seen results = results @ items \<and>
    distinct (map item_label items) \<and>
    set (map item_label items) = label ` {n \<in> set ns. matches_prefix n typed} - seen"
proof (induction typed ns seen results rule: add_indexed_macros.induct)
  case (1 typed seen results)
  then show ?case by (intro exI [of _ "[]"]) simp
next
  case (2 typed n ns seen results)
  show ?case
  proof (cases "\<not> matches_prefix n typed \<or> label n \<in> seen")
    case True
    with 2(1) obtain items where "add_indexed_macros typed ns seen results = results @ items \<and>
      distinct (map item_label items) \<and>
      set (map item_label items) = label ` {n \<in> set ns. matches_prefix n typed} - seen"
      by (auto simp: label_def)
    with True show ?thesis by (intro exI [of _ items]) (auto simp: label_def)
  next
    case False
    let ?i = "macro_item n :: 'd completion_item"
    have l: "item_label ?i = label n" by (simp add: macro_item_def labelled_def label_def)
    from False 2(2) obtain items where
      "add_indexed_macros typed ns (insert (label n) seen) (results @ [?i]) =
        (results @ [?i]) @ items \<and> distinct (map item_label items) \<and>
      set (map item_label items) =
        label ` {n \<in> set ns. matches_prefix n typed} - insert (label n) seen"
      by (auto simp: label_def)
    with False l show ?thesis by (intro exI [of _ "?i # items"]) (auto simp: label_def)
  qed
qed

text \<open>
  A name is wanted if it starts with what was typed behind the backtick, when both are written in
  lower case. \<open>described\<close> says where the rest of a candidate comes from: the first definition of
  the document that has its name and a location, else nowhere.
\<close>

definition wanted :: "string \<Rightarrow> string \<Rightarrow> bool" where
  "wanted typed n \<longleftrightarrow>
     (\<exists>rest. map to_lower n =
        map to_lower (case typed of c # t \<Rightarrow> if c = CHR ''`'' then t else c # t | [] \<Rightarrow> []) @ rest)"

lemma matches_prefix_wanted: "matches_prefix n typed = wanted typed n"
proof -
  define t where "t = (if starts_with typed ''`'' then tl typed else typed)"
  have cut: "(case typed of c # t \<Rightarrow> if c = CHR ''`'' then t else c # t | [] \<Rightarrow> []) = t"
    by (cases typed) (simp_all add: t_def)
  have "(length t \<le> length n \<and> (\<forall>i < length t. to_lower (n ! i) = to_lower (t ! i))) \<longleftrightarrow>
      prefix (map to_lower t) (map to_lower n)"
  proof -
    have "prefix (map to_lower t) (map to_lower n) \<longleftrightarrow>
        map to_lower t = take (length t) (map to_lower n)"
      by (metis length_map prefix_def take_is_prefix append_eq_conv_conj)
    then show ?thesis
      by (auto simp: list_eq_iff_nth_eq min_def split: if_splits)
  qed
  moreover have "matches_prefix n typed = (length t \<le> length n \<and> (\<forall>i < length t. to_lower (n ! i) = to_lower (t ! i)))"
    unfolding matches_prefix_def t_def [symmetric] Let_def by (auto simp: list_all_iff not_less)
  moreover have "wanted typed n = prefix (map to_lower t) (map to_lower n)"
    unfolding wanted_def cut prefix_def by (rule refl)
  ultimately show ?thesis by simp
qed

definition definition_of :: "macro_definition list \<Rightarrow> string \<Rightarrow> macro_definition option" where
  "definition_of defined l = List.find (\<lambda>m. define_located m \<and> CHR ''`'' # define_name m = l) defined"

definition described :: "macro_definition list \<Rightarrow> 'd completion_item \<Rightarrow> bool" where
  "described defined i \<longleftrightarrow>
     (case definition_of defined (item_label i) of
        Some m \<Rightarrow> item_documentation i = Some (DocMarkup (define_block m)) \<and>
          insert_text i = Some (macro_completion_text m) \<and> insert_format i = Some SnippetText
      | None \<Rightarrow> item_documentation i = None \<and> insert_text i = None)"

lemma resolved_macro_label [simp]:
  "item_label (resolve_macro_item m (macro_item (define_name m))) = CHR ''`'' # define_name m"
  "item_label (macro_item n) = CHR ''`'' # n"
  by (simp_all add: resolve_macro_item_def macro_item_def labelled_def Let_def)

lemma defined_macros_described:
  fixes results :: "'d completion_item list"
  assumes "add_defined_macros typed ms seen results = (seen', results')"
  shows "\<exists>items. results' = results @ items \<and>
    list_all (\<lambda>i. item_label i \<notin> seen \<and> (\<exists>m. definition_of ms (item_label i) = Some m \<and>
      matches_prefix (define_name m) typed \<and> i = resolve_macro_item m (macro_item (define_name m)))) items"
  using assms
proof (induction typed ms seen results rule: add_defined_macros.induct)
  case (2 typed m ms seen results)
  let ?l = "CHR ''`'' # define_name m"
  let ?skip = "\<not> define_located m \<or> \<not> matches_prefix (define_name m) typed \<or> ?l \<in> seen"
  show ?case
  proof (cases ?skip)
    case True
    then obtain items where items: "results' = results @ items"
      "list_all (\<lambda>i. item_label i \<notin> seen \<and> (\<exists>m. definition_of ms (item_label i) = Some m \<and>
        matches_prefix (define_name m) typed \<and> i = resolve_macro_item m (macro_item (define_name m)))) items"
      using 2(1) [OF refl] 2(3) by (auto simp: Let_def)
    have "definition_of (m # ms) (item_label i) = definition_of ms (item_label i)" if "i \<in> set items" for i
      using items(2) that True by (auto simp: definition_of_def list_all_iff)
    with items show ?thesis by (intro exI [of _ items]) (auto simp: list_all_iff)
  next
    case False
    let ?i = "resolve_macro_item m (macro_item (define_name m)) :: 'd completion_item"
    obtain items where items: "results' = (results @ [?i]) @ items"
      "list_all (\<lambda>i. item_label i \<notin> insert ?l seen \<and> (\<exists>m. definition_of ms (item_label i) = Some m \<and>
        matches_prefix (define_name m) typed \<and> i = resolve_macro_item m (macro_item (define_name m)))) items"
      using 2(2) [OF refl] 2(3) False by (auto simp: Let_def)
    have "definition_of (m # ms) (item_label i) = definition_of ms (item_label i)" if "i \<in> set items" for i
      using items(2) that by (auto simp: definition_of_def list_all_iff)
    with items False show ?thesis
      by (intro exI [of _ "?i # items"]) (auto simp: list_all_iff definition_of_def)
  qed
qed simp

lemma indexed_macros_plain:
  "\<exists>items. add_indexed_macros typed ns seen results = results @ items \<and>
    list_all (\<lambda>i. item_label i \<notin> seen \<and> (\<exists>n. matches_prefix n typed \<and> i = macro_item n)) items"
proof (induction typed ns seen results rule: add_indexed_macros.induct)
  case (2 typed n ns seen results)
  show ?case
  proof (cases "\<not> matches_prefix n typed \<or> CHR ''`'' # n \<in> seen")
    case False
    with 2(2) obtain items where
      "add_indexed_macros typed ns (insert (CHR ''`'' # n) seen) (results @ [macro_item n]) =
        (results @ [macro_item n]) @ items"
      "list_all (\<lambda>i. item_label i \<notin> insert (CHR ''`'' # n) seen \<and>
        (\<exists>n. matches_prefix n typed \<and> i = macro_item n)) items" by blast
    with False show ?thesis by (intro exI [of _ "macro_item n # items"]) (auto simp: list_all_iff)
  qed (use 2(1) in auto)
qed simp

lemma described_resolved:
  assumes "definition_of ms (item_label i) = Some m" and "i = resolve_macro_item m (macro_item (define_name m))"
  shows "described ms i"
  unfolding described_def assms(1) unfolding assms(2)
  by (simp add: resolve_macro_item_def macro_item_def labelled_def Let_def)

lemma described_plain:
  "definition_of ms (CHR ''`'' # n) = None \<Longrightarrow> described ms (macro_item n)"
  by (simp add: described_def) (simp add: macro_item_def labelled_def)

text \<open>
  C32: The macro candidates are exactly the macros that the document defines at a location or
  the workspace index knows and whose name starts with what was typed, upper and lower case
  alike; each is offered once, with the documentation and the snippet of the first definition of the
  document that has a location, if there is one, and with neither otherwise.
\<close>

theorem macro_completions_exact:
  "\<exists>items. macro_completions typed defined ix results = results @ items \<and>
     distinct (map item_label items) \<and>
     set (map item_label items) = (\<lambda>n. CHR ''`'' # n) `
       ({define_name m | m. m \<in> set defined \<and> define_located m \<and> wanted typed (define_name m)} \<union>
        {n \<in> set (all_macro_names ix). wanted typed n}) \<and>
     list_all (described defined) items"
proof -
  obtain seen results' where first: "add_defined_macros typed defined {} results = (seen, results')"
    by (cases "add_defined_macros typed defined {} results")
  from defined_macros_spec [OF first] obtain items where items: "results' = results @ items"
    "distinct (map item_label items)" "seen = set (map item_label items)"
    "set (map item_label items) = (\<lambda>n. CHR ''`'' # n) ` {define_name m | m. m \<in> set defined \<and>
       define_located m \<and> matches_prefix (define_name m) typed}"
    by auto
  have described_items: "list_all (described defined) items"
    using defined_macros_described [OF first] items(1) by (auto simp: list_all_iff intro: described_resolved)
  from indexed_macros_spec [of typed "all_macro_names ix" seen results'] obtain more where
    more: "add_indexed_macros typed (all_macro_names ix) seen results' = results' @ more"
    "distinct (map item_label more)"
    "set (map item_label more) =
       (\<lambda>n. CHR ''`'' # n) ` {n \<in> set (all_macro_names ix). matches_prefix n typed} - seen"
    by auto
  have "described defined i" if i: "i \<in> set more" for i
  proof -
    obtain n where n: "i = macro_item n" "CHR ''`'' # n \<notin> seen" "matches_prefix n typed"
      using indexed_macros_plain [of typed "all_macro_names ix" seen results'] more(1) i
      by (auto simp: list_all_iff)
    then have "definition_of defined (CHR ''`'' # n) = None"
      unfolding items(3,4) definition_of_def find_None_iff by auto
    then show ?thesis unfolding n(1) by (rule described_plain)
  qed
  then have described_more: "list_all (described defined) more" by (simp add: list_all_iff)
  have all: "macro_completions typed defined ix results = results @ items @ more"
    using first more(1) items(1) by (simp add: macro_completions_def)
  have names: "set (map item_label (items @ more)) = (\<lambda>n. CHR ''`'' # n) `
      ({define_name m | m. m \<in> set defined \<and> define_located m \<and> matches_prefix (define_name m) typed} \<union>
       {n \<in> set (all_macro_names ix). matches_prefix n typed})"
    unfolding map_append set_append items(4) more(3) items(3) image_Un by blast
  show ?thesis
    using all names described_items described_more items(2,3) more(2,3)
    unfolding matches_prefix_wanted by (intro exI [of _ "items @ more"]) auto
qed

section \<open>Instantiations\<close>

text \<open>The longest name bounds every collected name, so that no padding wraps around.\<close>

abbreviation bounded_names :: "('a \<Rightarrow> string) \<Rightarrow> 'a list \<times> nat \<Rightarrow> bool" where
  "bounded_names name st \<equiv> \<forall>p\<in>set (fst st). length (name p) \<le> snd st"

lemma bounded_names_fold:
  "bounded_names fst st \<Longrightarrow>
   bounded_names fst
     (fold (\<lambda>(n, def) (ps, m). (ps @ [(n, f def)], max m (length n))) ds st)"
proof (induction ds arbitrary: st)
  case (Cons d ds)
  obtain n def ps m where "d = (n, def)" "st = (ps, m)" by (cases d; cases st)
  with Cons.prems Cons.IH [of "(ps @ [(n, f def)], max m (length n))"] show ?case
    by (simp add: le_max_iff_disj)
qed simp

lemma bounded_collect_params:
  "bounded_names fst st \<Longrightarrow> bounded_names fst (collect_params l ds st)"
proof (induction l ds st rule: collect_params.induct)
  case (2 l d ds st)
  show ?case
  proof (cases "case declaration_keyword d of Some k \<Rightarrow> k = LocalParamKeyword | None \<Rightarrow> l")
    case True
    with 2 show ?thesis by (simp add: Let_def)
  next
    case False
    with 2(2) [OF refl False bounded_names_fold [OF 2(3)]] show ?thesis by (simp add: Let_def)
  qed
qed simp

fun port_names :: "port_syntax \<Rightarrow> string list" where
  "port_names (PortDeclarator n) = [n]"
| "port_names (ExplicitNonAnsiPort n) = [n]"
| "port_names (OtherPortSyntax ps) = concat (map port_names ps)"

lemma visit_port_spec:
  "fst (visit_port p st) = fst st @ port_names p \<and>
   (bounded_names id st \<longrightarrow> bounded_names id (visit_port p st))"
proof (induction p arbitrary: st)
  case (OtherPortSyntax ps)
  then show ?case
    by (induction ps arbitrary: st) auto
qed (auto simp: split_beta le_max_iff_disj)

text \<open>The operations of the loops, and the placeholders of a list of operations.\<close>

definition padded :: "nat \<Rightarrow> string \<Rightarrow> string" where
  "padded m name = name @ replicate (m - length name) (CHR '' '')"

definition connection_ops :: "nat \<Rightarrow> string \<Rightarrow> string \<Rightarrow> string \<Rightarrow> snippet_op list" where
  "connection_ops m name value sep =
     [Text (tab # ''.'' @ padded m name @ ''(''), Placeholder value None, Text '')'', Text sep]"

fun param_ops :: "nat \<Rightarrow> (string \<times> string) list \<Rightarrow> snippet_op list" where
  "param_ops m [] = []"
| "param_ops m (p # ps) =
     connection_ops m (fst p) (param_text p)
       (if ps \<noteq> [] then '','' @ [newline] else newline # '' '') @ param_ops m ps"

fun port_ops :: "nat \<Rightarrow> string list \<Rightarrow> snippet_op list" where
  "port_ops m [] = []"
| "port_ops m (n # ns) =
     connection_ops m n n (if ns \<noteq> [] then '','' @ [newline] else [newline]) @ port_ops m ns"

lemma append_params_ops:
  "\<forall>p\<in>set ps. length (fst p) \<le> m \<Longrightarrow> append_params m ps s = Inr (fold run_op (param_ops m ps) s)"
  by (induction m ps s rule: append_params.induct)
    (simp_all add: pad_def padded_def connection_ops_def Let_def)

lemma append_ports_ops:
  "\<forall>n\<in>set ns. length n \<le> m \<Longrightarrow> append_ports m ns s = Inr (fold run_op (port_ops m ns) s)"
  by (induction m ns s rule: append_ports.induct)
    (simp_all add: pad_def padded_def connection_ops_def Let_def)

fun op_placeholder :: "snippet_op \<Rightarrow> string list" where
  "op_placeholder (Placeholder v n) = [v]"
| "op_placeholder x = []"

fun numbered_op :: "snippet_op \<Rightarrow> bool" where
  "numbered_op (Text t) \<longleftrightarrow> True"
| "numbered_op (Placeholder v n) \<longleftrightarrow> n = None"
| "numbered_op x \<longleftrightarrow> False"

text \<open>The elements of numbered operations, from a number on.\<close>

fun rendered :: "nat \<Rightarrow> snippet_op list \<Rightarrow> snippet_element list" where
  "rendered k [] = []"
| "rendered k (Text t # ops) = map Literal t @ rendered k ops"
| "rendered k (Placeholder v n # ops) = Hole k v # rendered (Suc k) ops"
| "rendered k (x # ops) = rendered k ops"

lemma elements_rendered:
  "list_all numbered_op ops \<Longrightarrow> 0 \<le> next_tabstop s \<Longrightarrow>
   elements s ops = rendered (nat (next_tabstop s)) ops"
proof (induction ops arbitrary: s)
  case (Cons x ops)
  show ?case
  proof (cases x)
    case (Text t)
    with Cons show ?thesis by (simp add: next_tabstop_run_op del: run_op.simps)
  next
    case (Placeholder v n)
    with Cons show ?thesis
      by (simp add: next_tabstop_run_op take_tabstop_def nat_add_distrib del: run_op.simps)
  qed (use Cons in auto)
qed simp

lemma numbered_plain: "list_all numbered_op ops \<Longrightarrow> list_all plain_op ops \<and> separated s ops"
proof (induction ops arbitrary: s)
  case (Cons x ops)
  then show ?case by (cases x) auto
qed simp

lemma read_numbered:
  assumes "list_all numbered_op ops"
  shows "read_snippet (snippet_value (fold run_op ops (new_snippet []))) = Some (rendered 1 ops)"
  using numbered_plain [OF assms, of "new_snippet []"] elements_rendered [OF assms, of "new_snippet []"]
  by (simp add: fold_run_op_value read_appended new_snippet_def)

lemma rendered_append:
  "list_all numbered_op xs \<Longrightarrow>
   rendered k (xs @ ys) = rendered k xs @ rendered (k + length (concat (map op_placeholder xs))) ys"
  by (induction k xs rule: rendered.induct) auto

lemma numbered_loop_ops:
  "list_all numbered_op (param_ops m ps)" "list_all numbered_op (port_ops m ns)"
  "concat (map op_placeholder (param_ops m ps)) = map param_text ps"
  "concat (map op_placeholder (port_ops m ns)) = ns"
proof -
  show "list_all numbered_op (param_ops m ps)"
    "concat (map op_placeholder (param_ops m ps)) = map param_text ps"
    by (induction m ps rule: param_ops.induct) (simp_all add: connection_ops_def)
  show "list_all numbered_op (port_ops m ns)" "concat (map op_placeholder (port_ops m ns)) = ns"
    by (induction m ns rule: port_ops.induct) (simp_all add: connection_ops_def)
qed

definition instance_params :: "module_header \<Rightarrow> (string \<times> string) list \<times> nat" where
  "instance_params h =
     (case header_parameters h of Some ds \<Rightarrow> collect_params False ds ([], 0) | None \<Rightarrow> ([], 0))"

definition instance_ports :: "module_header \<Rightarrow> string list" where
  "instance_ports h = (case header_ports h of Some p \<Rightarrow> port_names p | None \<Rightarrow> [])"

definition instance_ops :: "module_header \<Rightarrow> bool \<Rightarrow> nat \<Rightarrow> snippet_op list" where
  "instance_ops h ex m' =
     (if ex then [] else [Text (header_name h)]) @
     (if fst (instance_params h) = [] then []
      else (if ex then [] else [Text '' #'']) @ [Text (CHR ''('' # [newline])] @
        param_ops (snd (instance_params h)) (fst (instance_params h)) @ [Text '')'']) @
     [Text '' '', Placeholder (to_camel_case (header_name h)) None, Text '' (''] @
     (if instance_ports h = [] then [] else Text [newline] # port_ops m' (instance_ports h)) @
     [Text '');'']"

text \<open>
  What an instantiation is, as elements of a snippet and up to white space: the name, the
  connections of the parameters after a hash sign, the name of the instance to fill in, and the
  connections of the ports. A connection is a dot, a name, and in parentheses the value to fill in.
\<close>

fun connections :: "nat \<Rightarrow> (string \<times> string) list \<Rightarrow> snippet_element list" where
  "connections k [] = []"
| "connections k ((n, v) # cs) =
     map Literal (''.'' @ n @ ''('') @ [Hole k v] @ map Literal (if cs = [] then '')'' else ''),'') @
     connections (Suc k) cs"

definition dense :: "snippet_element list \<Rightarrow> snippet_element list" where
  "dense es = filter (\<lambda>e. e \<notin> Literal ` {CHR '' '', tab, newline}) es"

text \<open>
  A parameter can be overridden unless the last keyword up to it in the list makes it local; its
  value is its name, with the default in a comment.
\<close>

definition ruling_keyword :: "parameter_declaration list \<Rightarrow> token_kind option" where
  "ruling_keyword ds =
     (let ks = filter (\<lambda>k. k \<noteq> None) (map declaration_keyword ds) in if ks = [] then None else last ks)"

definition overridable :: "parameter_declaration list \<Rightarrow> (string \<times> string) list" where
  "overridable ds =
     concat (map (\<lambda>i. if ruling_keyword (take (Suc i) ds) = Some LocalParamKeyword then []
       else map (\<lambda>(n, def). (n, ltrim (case def of Some t \<Rightarrow> t | None \<Rightarrow> []))) (declarators (ds ! i)))
       [0..<length ds])"

definition instantiation_text :: "module_header \<Rightarrow> bool \<Rightarrow> snippet_element list" where
  "instantiation_text h ex =
     (let params = (case header_parameters h of Some ds \<Rightarrow> overridable ds | None \<Rightarrow> []);
          ports = instance_ports h
      in (if ex then [] else map Literal (header_name h)) @
         (if params = [] then []
          else map Literal (if ex then ''('' else ''#('') @
            connections 1 (map (\<lambda>(n, v). (n, if v = [] then n else n @ '' /* default '' @ v @ '' */'')) params) @
            map Literal '')'') @
         [Hole (Suc (length params)) (to_camel_case (header_name h))] @ map Literal ''('' @
         connections (length params + 2) (map (\<lambda>n. (n, n)) ports) @ map Literal '');'')"

lemma ruling_append:
  "ruling_keyword (ds @ [d]) = (case declaration_keyword d of None \<Rightarrow> ruling_keyword ds | Some k \<Rightarrow> Some k)"
  by (auto simp: ruling_keyword_def Let_def split: option.split)

lemma fold_declarators:
  "fst (fold (\<lambda>(n, def) (ps, m). (ps @ [(n, f def)], max m (length n))) ds st) =
     fst st @ map (\<lambda>(n, def). (n, f def)) ds"
  by (induction ds arbitrary: st) (auto split: prod.splits)

lemma collect_params_overridable:
  "fst (collect_params (ruling_keyword pre = Some LocalParamKeyword) ds st) =
   fst st @ concat (map (\<lambda>i. if ruling_keyword (pre @ take (Suc i) ds) = Some LocalParamKeyword then []
       else map (\<lambda>(n, def). (n, ltrim (case def of Some t \<Rightarrow> t | None \<Rightarrow> []))) (declarators (ds ! i)))
       [0..<length ds])"
proof (induction ds arbitrary: pre st)
  case (Cons d ds)
  let ?local = "case declaration_keyword d of Some k \<Rightarrow> k = LocalParamKeyword
    | None \<Rightarrow> ruling_keyword pre = Some LocalParamKeyword"
  have l: "?local = (ruling_keyword (pre @ [d]) = Some LocalParamKeyword)"
    by (simp add: ruling_append split: option.split)
  have "[0..<length (d # ds)] = 0 # map Suc [0..<length ds]"
    by (simp add: upt_conv_Cons map_Suc_upt del: upt_Suc)
  then show ?case
    using Cons [of "pre @ [d]"]
    by (cases "ruling_keyword (pre @ [d]) = Some LocalParamKeyword")
      (simp_all add: l Let_def fold_declarators comp_def del: upt_Suc cong: if_cong)
qed simp

lemma instance_params_overridable:
  "fst (instance_params h) = (case header_parameters h of Some ds \<Rightarrow> overridable ds | None \<Rightarrow> [])"
  using collect_params_overridable [of "[]" _ "([], 0)"]
  by (simp add: instance_params_def overridable_def ruling_keyword_def split: option.split)

lemma dense_simps [simp]: "dense (xs @ ys) = dense xs @ dense ys" "dense [] = []"
  "dense (Hole k v # es) = Hole k v # dense es"
  "dense (Literal c # es) = (if c \<in> {CHR '' '', tab, newline} then dense es else Literal c # dense es)"
  by (auto simp: dense_def)

lemma dense_spaces [simp]: "dense (replicate n (Literal (CHR '' ''))) = []"
  by (induction n) simp_all

lemma dense_param_ops:
  "dense (rendered k (param_ops m ps)) = dense (connections k (map (\<lambda>p. (fst p, param_text p)) ps))"
  by (induction m ps arbitrary: k rule: param_ops.induct) (simp_all add: connection_ops_def padded_def)

lemma dense_port_ops:
  "dense (rendered k (port_ops m ns)) = dense (connections k (map (\<lambda>n. (n, n)) ns))"
  by (induction m ns arbitrary: k rule: port_ops.induct) (simp_all add: connection_ops_def padded_def)

lemma dense_instance_ops: "dense (rendered 1 (instance_ops h ex m')) = dense (instantiation_text h ex)"
proof -
  have vals: "(\<lambda>p. (fst p, param_text p)) =
      (\<lambda>(n, v). (n, if v = [] then n else n @ '' /* default '' @ v @ '' */''))"
    by (auto simp: param_text_def)
  show ?thesis
    unfolding instance_ops_def instantiation_text_def instance_params_overridable [symmetric] Let_def
    by (simp add: rendered_append numbered_loop_ops dense_param_ops dense_port_ops vals)
qed

text \<open>
  C33: The instantiation offered for a module or interface is always built, without any padding
  wrapping around, and what an editor reads from it is, up to white space, the name (unless it is
  typed already), a connection \<^verbatim>\<open>.name(value)\<close> for each parameter that can be overridden, the
  instance name, and a connection for each port of the header that the visitor meets, with the
  values and the instance name as placeholders numbered in this order from one on. The visitor
  meets declarators and explicit ports of an old-style list: not the plain ports of such a list, nor
  the explicit ones of a new-style list.
\<close>

theorem instance_completion_connects:
  "\<exists>s es. resolve_module_instance h ex (item\<lparr>insert_text := None\<rparr>) =
     Inr (item\<lparr>item_documentation := Some (DocMarkup (header_block h)), insert_text := Some s,
               insert_format := Some SnippetText\<rparr>) \<and>
     read_snippet s = Some es \<and> dense es = dense (instantiation_text h ex)"
proof -
  obtain ps m where ps: "instance_params h = (ps, m)" by (cases "instance_params h")
  have bound: "\<forall>p\<in>set ps. length (fst p) \<le> m"
  proof (cases "header_parameters h")
    case None
    with ps show ?thesis by (simp add: instance_params_def)
  next
    case (Some ds)
    with ps bounded_collect_params [of "([], 0)" False ds] show ?thesis
      by (simp add: instance_params_def)
  qed
  define st where "st = (case header_ports h of Some p \<Rightarrow> visit_port p ([], 0) | None \<Rightarrow> ([], 0))"
  have st: "fst st = instance_ports h" "\<forall>n\<in>set (fst st). length n \<le> snd st"
    using visit_port_spec [of _ "([], 0)"]
    by (auto simp: st_def instance_ports_def split: option.splits)
  let ?ops = "instance_ops h ex (snd st)"
  have "resolve_module_instance h ex (item\<lparr>insert_text := None\<rparr>) =
     Inr (item\<lparr>item_documentation := Some (DocMarkup (header_block h)),
               insert_text := Some (snippet_value (fold run_op ?ops (new_snippet []))),
               insert_format := Some SnippetText\<rparr>)"
    using append_params_ops [OF bound] append_ports_ops [OF st(2)] ps st(1)
    by (cases st) (simp add: resolve_module_instance_def instance_ops_def Let_def
        instance_params_def [symmetric] st_def [symmetric])
  moreover have "list_all numbered_op ?ops"
    by (simp add: instance_ops_def numbered_loop_ops)
  ultimately show ?thesis using read_numbered [of ?ops] dense_instance_ops by blast
qed

end
