(* ===== verification/WcpClient.thy ===== *)
theory WcpClient
  imports Prelude
begin

text \<open>
  The connection to a waveform viewer, \<^verbatim>\<open>WcpClient.cpp\<close> and \<^verbatim>\<open>WcpClient.h\<close>: messages end
  with a null character on a socket that takes and gives what it likes, a greeting is exchanged
  first, and events of the viewer are passed to the server. What the socket does is a parameter:
  the outcome of each \<^verbatim>\<open>select\<close> with its \<^verbatim>\<open>recv\<close>, and of each \<^verbatim>\<open>send\<close>. So are the JSON texts.
  A loop runs as long as there are outcomes.
\<close>

section \<open>The socket\<close>

abbreviation null :: char where
  "null \<equiv> CHR 0x00"

datatype poll = SelectFailed | NothingReady | ReceiveFailed | Disconnected | Chunk string

text \<open>
  \<open>delivered\<close> is what the socket took so far, \<open>sends\<close> what it will answer to the next calls of
  \<^verbatim>\<open>send\<close>, \<open>None\<close> an error; \<open>closed\<close> counts how often its descriptors were closed.
\<close>

record wcp_client =
  running :: bool
  receive_buffer :: string
  delivered :: string
  sends :: "nat option list"
  closed :: nat

definition stop :: "wcp_client \<Rightarrow> wcp_client" where
  "stop c = c\<lparr>closed := Suc (closed c), running := False\<rparr>"

fun send_buffer :: "string \<Rightarrow> nat option list \<Rightarrow> string \<times> nat option list" where
  "send_buffer buff [] = ([], [])"
| "send_buffer buff (r # rs) =
     (if buff = [] then ([], r # rs)
      else case r of
             None \<Rightarrow> ([], rs)
           | Some n \<Rightarrow> (case send_buffer (drop n buff) rs of (out, rs) \<Rightarrow> (take n buff @ out, rs)))"

definition send_bytes :: "string \<Rightarrow> wcp_client \<Rightarrow> wcp_client" where
  "send_bytes buff c =
     (case send_buffer buff (sends c) of
        (out, rs) \<Rightarrow> c\<lparr>delivered := delivered c @ out, sends := rs\<rparr>)"

definition send_message :: "string \<Rightarrow> wcp_client \<Rightarrow> wcp_client" where
  "send_message text c = send_bytes [null] (send_bytes text c)"

text \<open>One message at most is taken out of the buffer, and only after something was received.\<close>

definition get_message :: "poll \<Rightarrow> wcp_client \<Rightarrow> string option \<times> wcp_client" where
  "get_message p c =
     (case p of
        SelectFailed \<Rightarrow> (None, stop c)
      | NothingReady \<Rightarrow> (None, c)
      | ReceiveFailed \<Rightarrow> (None, stop c)
      | Disconnected \<Rightarrow> (None, stop c)
      | Chunk bytes \<Rightarrow>
          let buff = receive_buffer c @ bytes in
          case find_char null buff of
            None \<Rightarrow> (None, c\<lparr>receive_buffer := buff\<rparr>)
          | Some pos \<Rightarrow> (Some (take pos buff), c\<lparr>receive_buffer := drop (pos + 1) buff\<rparr>))"

section \<open>Messages\<close>

record greeting =
  greeting_type :: string
  greeting_version :: string
  greeting_commands :: "string list"

datatype wcp_message =
    GreetingMessage greeting
  | AddVariables "string list"
  | AddItems "string list" bool
  | Load string

datatype s2c_message = Response | Event

datatype s2c_event =
    WaveformsLoaded string
  | GotoDeclaration string
  | AddDrivers string
  | AddLoads string

text \<open>The JSON library, and the interface of the server, whose calls may fail with an exception.\<close>

record wcp_json =
  write_message :: "wcp_message \<Rightarrow> string"
  read_greeting :: "string \<Rightarrow> greeting option"
  read_message :: "string \<Rightarrow> s2c_message option"
  read_event :: "string \<Rightarrow> s2c_event option"

record ('e, 'w) wcp_server =
  on_waveform_loaded :: "string \<Rightarrow> 'w \<Rightarrow> ('e + unit) \<times> 'w"
  on_goto_declaration :: "string \<Rightarrow> 'w \<Rightarrow> ('e + unit) \<times> 'w"
  get_drivers :: "string \<Rightarrow> 'w \<Rightarrow> ('e + string list) \<times> 'w"
  get_loads :: "string \<Rightarrow> 'w \<Rightarrow> ('e + string list) \<times> 'w"

definition add_item :: "wcp_json \<Rightarrow> string \<Rightarrow> bool \<Rightarrow> wcp_client \<Rightarrow> wcp_client" where
  "add_item json path recursive c = send_message (write_message json (AddItems [path] recursive)) c"

definition load_waveform :: "wcp_json \<Rightarrow> string \<Rightarrow> wcp_client \<Rightarrow> wcp_client" where
  "load_waveform json source c = send_message (write_message json (Load source)) c"

section \<open>The greeting\<close>

definition client_greeting :: greeting where
  "client_greeting =
     \<lparr>greeting_type = ''greeting'', greeting_version = ''0'',
      greeting_commands = [''waveforms_loaded'', ''goto_declaration'', ''add_drivers'', ''add_loads'']\<rparr>"

definition required_commands :: "string list" where
  "required_commands = [''add_items'', ''get_item_list'', ''get_item_info'', ''focus_item'', ''load'']"

text \<open>Each outcome comes with whether two seconds have passed.\<close>

fun await_greeting :: "(poll \<times> bool) list \<Rightarrow> wcp_client \<Rightarrow> string option \<times> wcp_client" where
  "await_greeting [] c = (None, c)"
| "await_greeting ((p, late) # ps) c =
     (case get_message p c of
        (Some m, c) \<Rightarrow> (Some m, c)
      | (None, c) \<Rightarrow> if late then (None, stop c) else await_greeting ps c)"

definition check_greeting :: "greeting option \<Rightarrow> wcp_client \<Rightarrow> wcp_client" where
  "check_greeting g c =
     (case g of
        None \<Rightarrow> stop c
      | Some g \<Rightarrow>
          let c = (if greeting_type g \<noteq> ''greeting'' then stop c else c);
              c = (if greeting_version g \<noteq> ''0'' then stop c else c)
          in fold (\<lambda>cmd c. if cmd \<in> set (greeting_commands g) then c else stop c) required_commands c)"

definition greet :: "wcp_json \<Rightarrow> bool \<Rightarrow> (poll \<times> bool) list \<Rightarrow> wcp_client \<Rightarrow> wcp_client" where
  "greet json accepted ps c =
     (if \<not> accepted then stop c
      else
        let c = send_message (write_message json (GreetingMessage client_greeting)) c in
        case await_greeting ps c of
          (None, c) \<Rightarrow> c
        | (Some m, c) \<Rightarrow> check_greeting (read_greeting json m) c)"

section \<open>Events\<close>

definition handle_event ::
    "wcp_json \<Rightarrow> ('e, 'w) wcp_server \<Rightarrow> s2c_event \<Rightarrow> wcp_client \<times> 'w \<Rightarrow> wcp_client \<times> 'w" where
  "handle_event json srv ev cw =
     (case cw of (c, w) \<Rightarrow>
        case ev of
          WaveformsLoaded source \<Rightarrow> (c, snd (on_waveform_loaded srv source w))
        | GotoDeclaration v \<Rightarrow> (c, snd (on_goto_declaration srv v w))
        | AddDrivers v \<Rightarrow>
            (case get_drivers srv v w of
               (Inl e, w) \<Rightarrow> (c, w)
             | (Inr vs, w) \<Rightarrow> (send_message (write_message json (AddVariables vs)) c, w))
        | AddLoads v \<Rightarrow>
            (case get_loads srv v w of
               (Inl e, w) \<Rightarrow> (c, w)
             | (Inr vs, w) \<Rightarrow> (send_message (write_message json (AddVariables vs)) c, w)))"

definition handle_wcp_message ::
    "wcp_json \<Rightarrow> ('e, 'w) wcp_server \<Rightarrow> string \<Rightarrow> wcp_client \<times> 'w \<Rightarrow> wcp_client \<times> 'w" where
  "handle_wcp_message json srv m cw =
     (case read_message json m of
        Some Event \<Rightarrow> (case read_event json m of None \<Rightarrow> cw | Some ev \<Rightarrow> handle_event json srv ev cw)
      | _ \<Rightarrow> cw)"

fun run_client ::
    "wcp_json \<Rightarrow> ('e, 'w) wcp_server \<Rightarrow> poll list \<Rightarrow> wcp_client \<times> 'w \<Rightarrow> wcp_client \<times> 'w" where
  "run_client json srv [] (c, w) = (if running c then (c, w) else (stop c, w))"
| "run_client json srv (p # ps) (c, w) =
     (if \<not> running c then (stop c, w)
      else case get_message p c of
             (None, c) \<Rightarrow> run_client json srv ps (c, w)
           | (Some m, c) \<Rightarrow> run_client json srv ps (handle_wcp_message json srv m (c, w)))"

section \<open>Framing\<close>

definition framed :: "string list \<Rightarrow> string" where
  "framed ms = concat (List.map (\<lambda>m. m @ [null]) ms)"

lemma framed_simps [simp]: "framed [] = []" "framed (m # ms) = m @ null # framed ms"
  by (simp_all add: framed_def)

fun chunk_bytes :: "poll \<Rightarrow> string" where
  "chunk_bytes (Chunk s) = s"
| "chunk_bytes _ = []"

definition stream :: "poll list \<Rightarrow> string" where
  "stream ps = concat (List.map chunk_bytes ps)"

lemma stream_simps [simp]: "stream [] = []" "stream (p # ps) = chunk_bytes p @ stream ps"
  by (simp_all add: stream_def)

definition is_chunk :: "poll \<Rightarrow> bool" where
  "is_chunk p \<longleftrightarrow> (case p of Chunk s \<Rightarrow> True | _ \<Rightarrow> False)"

definition ends_session :: "poll \<Rightarrow> bool" where
  "ends_session p \<longleftrightarrow> p = SelectFailed \<or> p = ReceiveFailed \<or> p = Disconnected"

lemma stop_simps [simp]:
  "running (stop c) = False" "closed (stop c) = Suc (closed c)"
  "receive_buffer (stop c) = receive_buffer c" "delivered (stop c) = delivered c" "sends (stop c) = sends c"
  by (simp_all add: stop_def)

lemma split_at_null:
  assumes "find_char null buff = Some pos"
  shows "buff = take pos buff @ null # drop (pos + 1) buff" "null \<notin> set (take pos buff)"
  using find_char_Some [OF assms] id_take_nth_drop [of pos buff] by auto

lemma get_message_None:
  "get_message p c = (None, c') \<Longrightarrow> receive_buffer c' = receive_buffer c @ chunk_bytes p"
  by (auto simp: get_message_def Let_def split: poll.splits option.splits)

lemma get_message_Some:
  assumes "get_message p c = (Some m, c')"
  shows "receive_buffer c @ chunk_bytes p = m @ null # receive_buffer c'"
    and "null \<notin> set m" and "running c' = running c" and "is_chunk p"
proof -
  obtain bytes pos where p: "p = Chunk bytes" and pos: "find_char null (receive_buffer c @ bytes) = Some pos"
    and m: "m = take pos (receive_buffer c @ bytes)"
    and c': "c' = c\<lparr>receive_buffer := drop (pos + 1) (receive_buffer c @ bytes)\<rparr>"
    using assms by (auto simp: get_message_def Let_def split: poll.splits option.splits)
  show "receive_buffer c @ chunk_bytes p = m @ null # receive_buffer c'"
  proof -
    have "receive_buffer c' = drop (pos + 1) (receive_buffer c @ bytes)" using c' by simp
    then show ?thesis using split_at_null(1) [OF pos] by (simp only: p m chunk_bytes.simps)
  qed
  show "null \<notin> set m" using split_at_null(2) [OF pos] m by simp
  show "running c' = running c" "is_chunk p" using c' p by (simp_all add: is_chunk_def)
qed

lemma up_to_null:
  "m @ null # x = s @ null # y \<Longrightarrow> null \<notin> set m \<Longrightarrow> null \<notin> set s \<Longrightarrow> m = s \<and> x = y"
proof (induction m arbitrary: s)
  case (Cons a m)
  then show ?case by (cases s) auto
next
  case Nil
  then show ?case by (cases s) auto
qed

text \<open>What handling a message does to a client does not look at its buffer.\<close>

lemma send_message_buffer:
  "send_message s (c\<lparr>receive_buffer := b\<rparr>) = (send_message s c)\<lparr>receive_buffer := b\<rparr>"
  by (simp add: send_message_def send_bytes_def split: prod.splits)

lemma handle_message_buffer:
  "handle_wcp_message json srv m (c\<lparr>receive_buffer := b\<rparr>, w) =
     map_prod (receive_buffer_update (\<lambda>_. b)) id (handle_wcp_message json srv m (c, w))"
  by (simp add: handle_wcp_message_def handle_event_def send_message_buffer
      split: option.splits s2c_message.splits s2c_event.splits sum.splits prod.splits)

lemma handle_messages_buffer:
  "fold (handle_wcp_message json srv) ms (c\<lparr>receive_buffer := b\<rparr>, w) =
     map_prod (receive_buffer_update (\<lambda>_. b)) id (fold (handle_wcp_message json srv) ms (c, w))"
proof (induction ms arbitrary: c w)
  case (Cons m ms)
  obtain c1 w1 where h: "handle_wcp_message json srv m (c, w) = (c1, w1)"
    by (cases "handle_wcp_message json srv m (c, w)")
  then show ?case using Cons by (simp add: handle_message_buffer)
qed simp

lemma handle_wcp_message_keeps:
  "running (fst (handle_wcp_message json srv m cw)) = running (fst cw) \<and>
   closed (fst (handle_wcp_message json srv m cw)) = closed (fst cw) \<and>
   receive_buffer (fst (handle_wcp_message json srv m cw)) = receive_buffer (fst cw)"
  by (cases cw) (auto simp: handle_wcp_message_def handle_event_def send_message_def send_bytes_def
      split: option.splits s2c_message.splits s2c_event.splits sum.splits prod.splits)

text \<open>
  A session in which nothing failed, its messages in \<open>sent\<close> and the unfinished one in \<open>tail\<close>. How
  many null characters a read brings decides whether the loop keeps up.
\<close>

definition nulls :: "string \<Rightarrow> nat" where
  "nulls s = length (filter (\<lambda>c. c = null) s)"

lemma nulls_simps [simp]:
  "nulls [] = 0" "nulls (c # s) = (if c = null then Suc (nulls s) else nulls s)"
  "nulls (s @ t) = nulls s + nulls t"
  by (simp_all add: nulls_def)

lemma nulls_0: "nulls s = 0 \<longleftrightarrow> null \<notin> set s"
  by (induction s) auto

lemma framed_first:
  assumes "m @ null # rest = framed sent @ tail" and "null \<notin> set m" and "null \<notin> set tail"
    and "list_all (\<lambda>m. null \<notin> set m) sent"
  obtains sent' where "sent = m # sent'" "rest = framed sent' @ tail"
proof (cases sent)
  case Nil
  then show ?thesis using assms(1,3) by (metis append_Nil framed_simps(1) in_set_conv_decomp)
next
  case (Cons s ss)
  then show ?thesis using up_to_null [of m rest s "framed ss @ tail"] assms that by simp
qed

definition handles_first ::
    "wcp_json \<Rightarrow> ('e, 'w) wcp_server \<Rightarrow> poll list \<Rightarrow> wcp_client \<times> 'w \<Rightarrow> string list \<Rightarrow> string \<Rightarrow> nat \<Rightarrow> bool" where
  "handles_first json srv ps cw sent tail k \<longleftrightarrow>
     k \<le> length sent
     \<and> run_client json srv ps cw =
         map_prod (receive_buffer_update (\<lambda>_. framed (drop k sent) @ tail)) id
           (fold (handle_wcp_message json srv) (take k sent) cw)
     \<and> (null \<notin> set (receive_buffer (fst cw)) \<and> list_all (\<lambda>p. nulls (chunk_bytes p) \<le> 1) ps \<longrightarrow>
         k = length sent)"

lemma update_buffer_twice:
  "map_prod (receive_buffer_update (\<lambda>_. b)) id (map_prod (receive_buffer_update (\<lambda>_. b')) id cw) =
   map_prod (receive_buffer_update (\<lambda>_. b)) id cw"
  by (cases cw) simp

lemma handles_first_idle:
  assumes "running c" and "get_message p c = (None, c1)" and "\<not> ends_session p"
    and "handles_first json srv ps (c1, w) sent tail k"
  shows "handles_first json srv (p # ps) (c, w) sent tail k"
proof -
  have c1: "c1 = c\<lparr>receive_buffer := receive_buffer c @ chunk_bytes p\<rparr>"
    using assms(2,3) by (auto simp: get_message_def ends_session_def Let_def split: poll.splits option.splits)
  have keep: "null \<notin> set (receive_buffer c) \<longrightarrow> null \<notin> set (receive_buffer c1)"
    using assms(2,3) find_char_None [of null "receive_buffer c @ chunk_bytes p"]
    by (auto simp: get_message_def ends_session_def Let_def split: poll.splits option.splits)
  have "run_client json srv (p # ps) (c, w) = run_client json srv ps (c1, w)"
    using assms(1,2) by simp
  with assms(4) keep show ?thesis
    by (simp add: handles_first_def c1 handle_messages_buffer update_buffer_twice)
qed

lemma handles_first_message:
  assumes "running c" and "get_message p c = (Some m, c1)"
    and "handles_first json srv ps (handle_wcp_message json srv m (c1, w)) sent tail k"
  shows "handles_first json srv (p # ps) (c, w) (m # sent) tail (Suc k)"
proof -
  note first = get_message_Some [OF assms(2)]
  obtain c2 w2 where h: "handle_wcp_message json srv m (c, w) = (c2, w2)"
    by (cases "handle_wcp_message json srv m (c, w)")
  have c1: "c1 = c\<lparr>receive_buffer := receive_buffer c1\<rparr>"
    using assms(2) by (auto simp: get_message_def Let_def split: poll.splits option.splits)
  have h1: "handle_wcp_message json srv m (c1, w) = (c2\<lparr>receive_buffer := receive_buffer c1\<rparr>, w2)"
    using handle_message_buffer [of json srv m "receive_buffer c1" c w] h c1 by simp
  have "run_client json srv (p # ps) (c, w) = run_client json srv ps (c2\<lparr>receive_buffer := receive_buffer c1\<rparr>, w2)"
    using assms(1,2) h1 by simp
  moreover have "null \<notin> set (receive_buffer c1)"
    if "null \<notin> set (receive_buffer c)" "nulls (chunk_bytes p) \<le> 1"
  proof -
    have "nulls (receive_buffer c @ chunk_bytes p) = nulls (m @ null # receive_buffer c1)"
      using first(1) by simp
    with that show ?thesis by (simp add: nulls_0 [symmetric])
  qed
  ultimately show ?thesis
    using assms(3) by (simp add: handles_first_def h h1 handle_messages_buffer update_buffer_twice)
qed

lemma run_client_handles:
  assumes "running c" and "list_all (\<lambda>p. \<not> ends_session p) ps"
    and "receive_buffer c @ stream ps = framed sent @ tail"
    and "list_all (\<lambda>m. null \<notin> set m) sent" and "null \<notin> set tail"
  shows "\<exists>k. handles_first json srv ps (c, w) sent tail k"
  using assms
proof (induction ps arbitrary: c w sent)
  case Nil
  then have "receive_buffer c = framed sent @ tail" by simp
  moreover from this have "c\<lparr>receive_buffer := framed sent @ tail\<rparr> = c" by simp
  ultimately have "handles_first json srv [] (c, w) sent tail 0"
    using Nil.prems(1) by (cases sent) (simp_all add: handles_first_def)
  then show ?case by blast
next
  case (Cons p ps)
  obtain r c1 where g: "get_message p c = (r, c1)" by (cases "get_message p c")
  have fine: "\<not> ends_session p" "list_all (\<lambda>p. \<not> ends_session p) ps" using Cons.prems(2) by simp_all
  have running1: "running c1"
    using g Cons.prems(1) fine(1)
    by (auto simp: get_message_def ends_session_def Let_def split: poll.splits option.splits)
  show ?case
  proof (cases r)
    case None
    have "receive_buffer c1 @ stream ps = framed sent @ tail"
      using Cons.prems(3) get_message_None [OF g [unfolded None]] by simp
    then obtain k where "handles_first json srv ps (c1, w) sent tail k"
      using Cons.IH [OF running1 fine(2) _ Cons.prems(4,5)] by blast
    from handles_first_idle [OF Cons.prems(1) g [unfolded None] fine(1) this] show ?thesis by (rule exI)
  next
    case (Some m)
    note first = get_message_Some [OF g [unfolded Some]]
    have "m @ null # (receive_buffer c1 @ stream ps) = framed sent @ tail"
      using first(1) Cons.prems(3) by (metis append_Cons append_assoc stream_simps(2))
    then obtain sent' where sent: "sent = m # sent'" "receive_buffer c1 @ stream ps = framed sent' @ tail"
      by (rule framed_first) (use first(2) Cons.prems(4,5) in auto)
    obtain c2 w2 where h: "handle_wcp_message json srv m (c1, w) = (c2, w2)"
      by (cases "handle_wcp_message json srv m (c1, w)")
    have c2: "running c2" "receive_buffer c2 @ stream ps = framed sent' @ tail"
      using handle_wcp_message_keeps [of json srv m "(c1, w)"] h running1 sent(2) by simp_all
    obtain k where "handles_first json srv ps (c2, w2) sent' tail k"
      using Cons.IH [OF c2(1) fine(2) c2(2) _ Cons.prems(5)] Cons.prems(4) sent(1) by auto
    then have "handles_first json srv (p # ps) (c, w) sent tail (Suc k)"
      unfolding sent(1) h [symmetric] by (rule handles_first_message [OF Cons.prems(1) g [unfolded Some]])
    then show ?thesis by blast
  qed
qed

text \<open>
  C19: Messages of the viewer are handled in order and whole. However the bytes of a session that
  does not fail arrive in pieces, the loop handles the first \<open>k\<close> of the messages sent, each once,
  whole and in order, and does nothing else: client and server end as if those were handed to
  \<^verbatim>\<open>runClient\<close>'s handler one after the other; what is left in the buffer are the other
  messages and the unfinished one. When no read brings the end of more than one message, all
  messages sent are handled; otherwise some may be left waiting.
\<close>

theorem wcp_messages_in_order:
  assumes "running c" and "receive_buffer c = []" and "list_all (\<lambda>p. \<not> ends_session p) ps"
    and "stream ps = framed sent @ tail" and "list_all (\<lambda>m. null \<notin> set m) sent" and "null \<notin> set tail"
  shows "\<exists>k c' w'. k \<le> length sent
    \<and> fold (handle_wcp_message json srv) (take k sent) (c, w) = (c', w')
    \<and> run_client json srv ps (c, w) = (c'\<lparr>receive_buffer := framed (drop k sent) @ tail\<rparr>, w')
    \<and> (list_all (\<lambda>p. nulls (chunk_bytes p) \<le> 1) ps \<longrightarrow> k = length sent)"
proof -
  obtain k where "handles_first json srv ps (c, w) sent tail k"
    using run_client_handles [of c ps sent tail json srv w] assms by auto
  then show ?thesis using assms(2)
    by (cases "fold (handle_wcp_message json srv) (take k sent) (c, w)")
      (auto simp: handles_first_def intro!: exI [of _ k])
qed

definition new_wcp_client :: "nat option list \<Rightarrow> wcp_client" where
  "new_wcp_client out =
     \<lparr>running = True, receive_buffer = [], delivered = [], sends = out, closed = 0\<rparr>"

definition quiet_server :: "(unit, nat) wcp_server" where
  "quiet_server =
     \<lparr>on_waveform_loaded = (\<lambda>p n. (Inr (), Suc n)), on_goto_declaration = (\<lambda>p n. (Inr (), n)),
      get_drivers = (\<lambda>p n. (Inl (), n)), get_loads = (\<lambda>p n. (Inr [p], n))\<rparr>"

definition sample_json :: wcp_json where
  "sample_json =
     \<lparr>write_message = (\<lambda>m. case m of AddVariables vs \<Rightarrow> concat vs | Load s \<Rightarrow> s | _ \<Rightarrow> []),
      read_greeting = (\<lambda>s. None),
      read_message = (\<lambda>s. if s = [] then None else Some Event),
      read_event = (\<lambda>s. if hd s = CHR ''w'' then Some (WaveformsLoaded (tl s))
                         else if hd s = CHR ''l'' then Some (AddLoads (tl s)) else None)\<rparr>"

theorem wcp_messages_in_order_witness:
  "\<exists>c'. run_client sample_json quiet_server
      [Chunk ''w'', Chunk [CHR ''x'', null, CHR ''l''], NothingReady, Chunk [CHR ''y'', null, CHR ''w'']]
      (new_wcp_client [Some 1, Some 1], 0) = (c', 1)
    \<and> delivered c' = [CHR ''y'', null] \<and> receive_buffer c' = ''w''"
proof -
  let ?ps = "[Chunk ''w'', Chunk [CHR ''x'', null, CHR ''l''], NothingReady, Chunk [CHR ''y'', null, CHR ''w'']]"
  have *: "running (new_wcp_client [Some 1, Some 1])" "receive_buffer (new_wcp_client [Some 1, Some 1]) = []"
    "list_all (\<lambda>p. \<not> ends_session p) ?ps" "stream ?ps = framed [''wx'', ''ly''] @ ''w''"
    "list_all (\<lambda>m. null \<notin> set m) [''wx'', ''ly'']" "null \<notin> set ''w''"
    by (simp_all add: new_wcp_client_def ends_session_def)
  have "list_all (\<lambda>p. nulls (chunk_bytes p) \<le> 1) ?ps" by simp
  with wcp_messages_in_order [OF *, of sample_json quiet_server 0] show ?thesis
    by (auto simp: handle_wcp_message_def handle_event_def sample_json_def quiet_server_def
        new_wcp_client_def send_message_def send_bytes_def)
qed

lemma run_client_quiet:
  "running c \<Longrightarrow> run_client json srv (replicate n NothingReady) (c, w) = (c, w)"
  by (induction n) (simp_all add: get_message_def)

text \<open>
  A message can be held back. When one read from the socket brings several messages, only the
  first is handled; the others stay in the buffer, complete, however often the client polls, until
  the viewer sends something more.
\<close>

lemma wcp_message_held_back:
  assumes "running c" and "receive_buffer c = []" and "null \<notin> set m"
  shows "run_client json srv (Chunk (framed (m # late # others)) # replicate n NothingReady) (c, w) =
     handle_wcp_message json srv m (c\<lparr>receive_buffer := framed (late # others)\<rparr>, w)"
proof -
  have pos: "find_char null (m @ null # s) = Some (length m)" for s
    using assms(3) by (induction m) auto
  have g: "get_message (Chunk (framed (m # late # others))) c =
     (Some m, c\<lparr>receive_buffer := framed (late # others)\<rparr>)"
    by (simp add: get_message_def Let_def assms(2) pos)
  obtain c2 w2 where h: "handle_wcp_message json srv m (c\<lparr>receive_buffer := framed (late # others)\<rparr>, w) = (c2, w2)"
    by (cases "handle_wcp_message json srv m (c\<lparr>receive_buffer := framed (late # others)\<rparr>, w)")
  have "running c2"
    using handle_wcp_message_keeps [of json srv m "(c\<lparr>receive_buffer := framed (late # others)\<rparr>, w)"] h assms(1)
    by simp
  then show ?thesis using assms(1) g h by (simp add: run_client_quiet del: framed_simps)
qed

section \<open>Sending and stopping\<close>

lemma wcp_send_simps [simp]:
  "running (send_bytes s c) = running c" "closed (send_bytes s c) = closed c"
  "receive_buffer (send_bytes s c) = receive_buffer c"
  "running (send_message s c) = running c" "closed (send_message s c) = closed c"
  "receive_buffer (send_message s c) = receive_buffer c"
  by (simp_all add: send_bytes_def send_message_def split: prod.splits)

lemma send_buffer_prefix: "prefix (fst (send_buffer buff rs)) buff"
proof (induction buff rs rule: send_buffer.induct)
  case (2 buff r rs)
  show ?case
  proof (cases r)
    case (Some n)
    then show ?thesis
      using 2 append_take_drop_id [of n buff]
      by (auto split: prod.splits simp: prefix_def) (metis append.assoc append_take_drop_id)
  qed simp
qed simp

lemma send_buffer_nothing [simp]: "fst (send_buffer [] rs) = []"
  by (cases rs) simp_all

lemma send_buffer_all:
  "list_all (\<lambda>r. r \<noteq> None) rs \<Longrightarrow> length buff \<le> sum_list (List.map the rs) \<Longrightarrow>
     fst (send_buffer buff rs) = buff"
proof (induction buff rs rule: send_buffer.induct)
  case (2 buff r rs)
  then obtain n where "r = Some n" by auto
  with 2 show ?case by (auto split: prod.splits)
qed simp

lemma handle_wcp_message_client:
  "running (fst (handle_wcp_message json srv m cw)) = running (fst cw) \<and>
   closed (fst (handle_wcp_message json srv m cw)) = closed (fst cw)"
  by (cases cw) (auto simp: handle_wcp_message_def handle_event_def
      split: option.splits s2c_message.splits s2c_event.splits sum.splits prod.splits)

lemma get_message_closed:
  "get_message p c = (r, c') \<Longrightarrow> running c \<Longrightarrow>
     closed c' = (if running c' then closed c else Suc (closed c))"
  by (auto simp: get_message_def Let_def split: poll.splits option.splits)

lemma run_client_closed:
  "running c \<Longrightarrow> run_client json srv ps (c, w) = (c', w') \<Longrightarrow>
     closed c' = (if running c' then closed c else closed c + 2)"
proof (induction ps arbitrary: c w)
  case (Cons p ps)
  obtain r c1 where g: "get_message p c = (r, c1)" by (cases "get_message p c")
  note cl = get_message_closed [OF g Cons.prems(1)]
  have stopped: "run_client json srv ps (c1, w) = (stop c1, w)" if "\<not> running c1"
    using that by (cases ps) simp_all
  show ?case
  proof (cases r)
    case None
    show ?thesis
    proof (cases "running c1")
      case True
      then show ?thesis using Cons.IH [OF True, of w] Cons.prems None g cl by simp
    next
      case False
      then show ?thesis using Cons.prems None g cl stopped by auto
    qed
  next
    case (Some m)
    obtain c2 w2 where h: "handle_wcp_message json srv m (c1, w) = (c2, w2)"
      by (cases "handle_wcp_message json srv m (c1, w)")
    have "running c1" using get_message_Some(3) [OF g [unfolded Some]] Cons.prems(1) by simp
    then have "running c2" "closed c2 = closed c"
      using handle_wcp_message_client [of json srv m "(c1, w)"] h cl by simp_all
    then show ?thesis using Cons.IH [of c2 w2] Cons.prems Some g h by simp
  qed
qed simp

text \<open>
  The descriptors of a connection are closed twice. When the connection of a running client
  ends, by an error or because the viewer has gone, they are closed by the read that noticed it
  and once more when the loop is left.
\<close>

lemma wcp_closed_twice:
  assumes "running c" and "run_client json srv ps (c, w) = (c', w')"
  shows "closed c' = (if running c' then closed c else closed c + 2)"
  using assms by (rule run_client_closed)

lemma wcp_closed_twice_witness:
  "closed (fst (run_client sample_json quiet_server
      [Chunk (framed [''wx'']), Chunk (framed [''ly'']), Disconnected, NothingReady]
      (new_wcp_client [Some 1, Some 1], 0))) = 2"
  using wcp_closed_twice [of "new_wcp_client [Some 1, Some 1]" sample_json quiet_server
      "[Chunk (framed [''wx'']), Chunk (framed [''ly'']), Disconnected, NothingReady]" 0, OF _ prod.collapse [symmetric]]
  by (simp add: new_wcp_client_def get_message_def handle_wcp_message_def handle_event_def sample_json_def
      quiet_server_def)

text \<open>A message whose first part cannot be sent is cut short, but ended like a complete one.\<close>

lemma failed_send_is_terminated:
  "sends c = Some n # None # Some 1 # rs \<Longrightarrow> n < length text \<Longrightarrow>
     delivered (send_message text c) = delivered c @ take n text @ [null]"
  using send_buffer_nothing [of rs]
  by (auto simp: send_message_def send_bytes_def split: prod.splits simp del: send_buffer_nothing)

end
