(* ===== verification/ServerRouting.thy ===== *)
theory ServerRouting
  imports DriverEvents ConfigMerge WcpClient
begin

text \<open>
  The routing of \<^verbatim>\<open>SlangServer.cpp\<close>: the state of the server, the mode it is in (exploring,
  a build file, a top file), loading and reloading the configuration, and the handlers that
  open, change, save and close documents. The driver of Lifecycle, the index of SymbolIndex and
  the layering of ConfigMerge are composed here; sending to the editor appends to a log.

  The outside world (texts on the disk, parsed files, directories) is a part of the state that
  other programs may change. \<open>environment\<close> has the functions of the libraries.
\<close>

section \<open>State\<close>

record settings =
  work_dir :: "string option"
  build_setting :: "string option"
  build_relative :: bool
  legacy_globs :: "string list"
  legacy_exclude_dirs :: "string list"
  index_settings :: "index_config list"
  wcp_command :: "string option"
  resolve_include_fragments :: bool

datatype interaction_source =
    FromEditor | CodeLensSelect | CodeLensGotoInstantiation | FromHierarchy | FromModules
  | FromTerminal | FromWaveform | FromWaveformNetlist

text \<open>What the editor is told, in order; what a driver sends is \<open>DriverSent\<close>.\<close>

datatype server_event =
    DriverSent client_event
  | InfoShown string
  | WarningShown string
  | ErrorShown string
  | ConfigSent "settings config"
  | DocumentShown uri bool "lsp_range option"
  | InstanceChanged string interaction_source
  | WatchersRegistered uri "(string \<times> file_change_type list) list"

record capabilities =
  inactive_regions_supported :: bool
  definition_links_supported :: bool
  completion_edit_resolve_supported :: bool

record world =
  texts :: "string \<Rightarrow> string option"
  sources_on_disk :: "string \<Rightarrow> disk_file"
  directories :: "string \<Rightarrow> dir_entry option"
  globbed :: "string \<Rightarrow> string list option"

record ('s, 't, 'a, 'k) slang_server =
  workspace_folder :: "uri option"
  build_file :: "string option"
  top_file :: "string option"
  server_config :: "settings config"
  server_index :: indexer
  server_driver :: "('s, 't, 'a, 'k) driver option"
  wave_client :: "wcp_client option"
  client_capabilities :: capabilities
  resolve_edits :: bool
  event_log :: "server_event list"
  world_state :: world

record ('s, 't, 'a, 'k, 'c) environment =
  front_end_for :: "settings config \<Rightarrow> capabilities \<Rightarrow> ('s, 't, 'a, 'k, 'c) front_end"
  config_library :: "settings library"
  home_dir :: "string option"
  under_tests :: bool
  normal_path :: "string \<Rightarrow> string"
  read_relaxed :: "string \<Rightarrow> json option"
  write_json :: "json \<Rightarrow> string"
  write_text :: "string \<Rightarrow> string \<Rightarrow> world \<Rightarrow> world result"
  empty_library :: "world \<Rightarrow> 's"
  enter_dir :: "string \<Rightarrow> 's \<Rightarrow> string option \<times> 's"
  leave_dir :: "'s \<Rightarrow> 's"
  parse_command_line :: "string \<Rightarrow> string \<Rightarrow> 's \<Rightarrow> bool \<times> 's"
  process_options :: "'s \<Rightarrow> bool \<times> 's"
  process_command_file :: "string \<Rightarrow> bool \<Rightarrow> 's \<Rightarrow> bool \<times> 's"
  parse_all_sources :: "'s \<Rightarrow> 't list \<times> 's"
  is_command_file :: "'s \<Rightarrow> string \<Rightarrow> bool"
  connect_viewer :: "string \<Rightarrow> world \<Rightarrow> wcp_client"
  viewer_json :: wcp_json
  vformat :: "string \<Rightarrow> string \<Rightarrow> string result"

definition quoted :: "string \<Rightarrow> string" where
  "quoted s = CHR 0x27 # s @ [CHR 0x27]"

definition log_event :: "server_event \<Rightarrow> (unit, ('s, 't, 'a, 'k) slang_server) action" where
  "log_event e = change (\<lambda>sv. sv\<lparr>event_log := event_log sv @ [e]\<rparr>)"

definition workspace_path :: "('s, 't, 'a, 'k) slang_server \<Rightarrow> string option" where
  "workspace_path sv = map_option path_of (workspace_folder sv)"

definition current_front_end ::
    "('s, 't, 'a, 'k, 'c) environment \<Rightarrow> ('s, 't, 'a, 'k) slang_server \<Rightarrow>
     ('s, 't, 'a, 'k, 'c) front_end" where
  "current_front_end env sv = front_end_for env (server_config sv) (client_capabilities sv)"

section \<open>Using the driver\<close>

text \<open>What a driver has sent since it was in the state \<open>w\<close>.\<close>

definition sent_since ::
    "('s, 't, 'a, 'k) driver \<Rightarrow> ('s, 't, 'a, 'k) driver \<Rightarrow> server_event list" where
  "sent_since w w' =
     List.map DriverSent
       (drop (length (client_log (client_state w))) (client_log (client_state w')))"

text \<open>
  The driver works on the index of the server. There is none before the configuration is loaded;
  using it then is undefined in the code and an error here.
\<close>

definition on_driver ::
    "('x, ('s, 't, 'a, 'k) driver) action \<Rightarrow> ('x, ('s, 't, 'a, 'k) slang_server) action" where
  "on_driver m sv =
     (case server_driver sv of
        None \<Rightarrow> (Inl (Raised BadAccess), sv)
      | Some w \<Rightarrow>
          let w = w\<lparr>workspace_index := server_index sv\<rparr> in
          case m w of
            (r, w') \<Rightarrow>
              (r, sv\<lparr>server_driver := Some w', server_index := workspace_index w',
                     event_log := event_log sv @ sent_since w w'\<rparr>))"

definition with_front_end ::
    "('s, 't, 'a, 'k, 'c) environment \<Rightarrow>
     (('s, 't, 'a, 'k, 'c) front_end \<Rightarrow> ('x, ('s, 't, 'a, 'k) driver) action) \<Rightarrow>
     ('x, ('s, 't, 'a, 'k) slang_server) action" where
  "with_front_end env m = and_then (look (current_front_end env)) (\<lambda>fe. on_driver (m fe))"

section \<open>Making a driver\<close>

text \<open>
  \<^verbatim>\<open>ServerDriver::parseAndLoadSources\<close> up to the documents: the library after parsing, the trees,
  and the errors shown.
\<close>

fun parse_flag_sources ::
    "('s, 't, 'a, 'k, 'c) environment \<Rightarrow> (string \<times> string) list \<Rightarrow> 's \<Rightarrow> bool \<times> 's" where
  "parse_flag_sources env [] s = (True, s)"
| "parse_flag_sources env ((p, flags) # fs) s =
     (case parse_command_line env p flags s of
        (ok, s) \<Rightarrow> (case parse_flag_sources env fs s of (oks, s) \<Rightarrow> (ok \<and> oks, s)))"

fun process_build_files ::
    "('s, 't, 'a, 'k, 'c) environment \<Rightarrow> bool \<Rightarrow> string list \<Rightarrow> 's \<Rightarrow> client_event list \<times> 's" where
  "process_build_files env relative [] s = ([], s)"
| "process_build_files env relative (b # bs) s =
     (case process_command_file env b relative s of
        (ok, s) \<Rightarrow>
          (case process_build_files env relative bs s of
             (evs, s) \<Rightarrow>
               ((if ok then evs else ShowError (''Failed to process build file: '' @ b) # evs), s)))"

definition load_sources_of ::
    "('s, 't, 'a, 'k, 'c) environment \<Rightarrow> settings config \<Rightarrow> world \<Rightarrow> string list \<Rightarrow>
     client_event list \<times> 't list \<times> 's" where
  "load_sources_of env cfg wo builds =
     (let s = empty_library env wo;
          (chdir, entered, s) =
            (case work_dir (config_rest cfg) of
               None \<Rightarrow> ([], False, s)
             | Some d \<Rightarrow>
                 (case enter_dir env d s of
                    (Some e, s) \<Rightarrow>
                      ([ShowError (''Failed to switch to workDir '' @ quoted d @ '': '' @ e)], False, s)
                  | (None, s) \<Rightarrow> ([], True, s)));
          (flags_ok, s) = parse_flag_sources env (config_flags_by_file cfg) s;
          (options_ok, s) = process_options env s;
          flags = (if flags_ok \<and> options_ok then [] else [ShowError ''Failed to parse config flags'']);
          (files, s) = process_build_files env (build_relative (config_rest cfg)) builds s;
          (ts, s) = parse_all_sources env s
      in (chdir @ flags @ files, ts, if entered then leave_dir env s else s))"

text \<open>
  A driver is made and takes the place of the old one. The index and the editor are shared. When
  making it fails, the old one stays; if that happens after the documents began to be copied, the
  old one has already emptied its diagnostics in the editor.
\<close>

definition before_copy ::
    "('s, 't, 'a, 'k, 'c) front_end \<Rightarrow> bool \<Rightarrow> 't list \<Rightarrow> (unit, ('s, 't, 'a, 'k) driver) action" where
  "before_copy fe compiles trees =
     and_then (each (load_tree fe) trees) (\<lambda>_.
     and_then (look (\<lambda>w. List.map snd (docs w))) (\<lambda>as.
       if compiles \<and> as \<noteq> [] then make_compilation fe as None else give ()))"

definition replace_driver ::
    "('s, 't, 'a, 'k, 'c) environment \<Rightarrow> string list \<Rightarrow> bool \<Rightarrow>
     (('s, 't, 'a, 'k, 'c) front_end \<Rightarrow> 't list \<Rightarrow> ('s, 't, 'a, 'k) driver option \<Rightarrow>
        (unit, ('s, 't, 'a, 'k) driver) action) \<Rightarrow>
     (unit, ('s, 't, 'a, 'k) slang_server) action" where
  "replace_driver env builds compiles create sv =
     (let fe = current_front_end env sv;
          (evs, trees, s) = load_sources_of env (server_config sv) (world_state sv) builds;
          old = server_driver sv;
          seen = (case old of None \<Rightarrow> [] | Some w \<Rightarrow> client_log (client_state w));
          w\<^sub>0 = new_driver s (server_index sv) (seen @ evs)
      in case create fe trees old w\<^sub>0 of
           (Inr _, w) \<Rightarrow>
             (Inr (), sv\<lparr>server_driver := Some w, server_index := workspace_index w,
                event_log := event_log sv @ List.map DriverSent (drop (length seen) (client_log (client_state w)))\<rparr>)
         | (Inl e, w) \<Rightarrow>
             (Inl e, sv\<lparr>server_driver :=
                  (if isl (fst (before_copy fe compiles trees w\<^sub>0)) then old
                   else map_option (\<lambda>d. d\<lparr>client_state := clear_and_push (client_state d)\<rparr>) old),
                server_index := workspace_index w,
                event_log := event_log sv @ List.map DriverSent (drop (length seen) (client_log (client_state w)))\<rparr>))"

section \<open>Modes\<close>

definition set_explore ::
    "('s, 't, 'a, 'k, 'c) environment \<Rightarrow> (unit, ('s, 't, 'a, 'k) slang_server) action" where
  "set_explore env =
     and_then (change (\<lambda>sv. sv\<lparr>build_file := None, top_file := None\<rparr>)) (\<lambda>_.
     and_then (replace_driver env [] False create_for_explore) (\<lambda>_.
       on_driver (on_client push_diags)))"

definition is_relative :: "string \<Rightarrow> bool" where
  "is_relative p \<longleftrightarrow> \<not> starts_with p ''/''"

definition relative_top_error :: "string \<Rightarrow> string" where
  "relative_top_error p =
     ''Cannot set top level to relative path '' @ p @ '': no workspace folder to resolve it ''
     @ ''against. Use an absolute path.''"

definition set_top_level ::
    "('s, 't, 'a, 'k, 'c) environment \<Rightarrow> string \<Rightarrow> (unit, ('s, 't, 'a, 'k) slang_server) action" where
  "set_top_level env p =
     (if p = [] then set_explore env
      else and_then (look workspace_path) (\<lambda>ws.
        if is_relative p \<and> ws = None then log_event (ErrorShown (relative_top_error p))
        else
          let full = (if is_relative p then normal_path env (path_join (the ws) p) else p) in
          and_then (change (\<lambda>sv. sv\<lparr>top_file := Some full\<rparr>)) (\<lambda>_.
            replace_driver env [] False (\<lambda>fe ts old. create_from_top fe ts (from_file full) old))))"

definition set_build_file ::
    "('s, 't, 'a, 'k, 'c) environment \<Rightarrow> string \<Rightarrow> (unit, ('s, 't, 'a, 'k) slang_server) action" where
  "set_build_file env p =
     (if p = [] then set_explore env
      else
        and_then (change (\<lambda>sv. sv\<lparr>build_file := Some p\<rparr>)) (\<lambda>_.
          replace_driver env [p] True create_from_file_lists))"

section \<open>Configuration\<close>

definition resolve_work_dir ::
    "('s, 't, 'a, 'k, 'c) environment \<Rightarrow> string option \<Rightarrow> settings config \<Rightarrow> settings config" where
  "resolve_work_dir env ws cfg =
     (case work_dir (config_rest cfg) of
        None \<Rightarrow> cfg
      | Some d \<Rightarrow>
          let full = (case ws of Some f \<Rightarrow> if is_relative d then path_join f d else d | None \<Rightarrow> d)
          in cfg\<lparr>config_rest := (config_rest cfg)\<lparr>work_dir := Some (normal_path env full)\<rparr>\<rparr>)"

definition run_indexing ::
    "settings config \<Rightarrow> bool \<Rightarrow> (unit, ('s, 't, 'a, 'k) slang_server) action" where
  "run_indexing old force =
     change (\<lambda>sv.
       let cfg = config_rest (server_config sv); wo = world_state sv in
       if legacy_globs cfg \<noteq> [] \<or> legacy_exclude_dirs cfg \<noteq> [] then
         let globs = index_globs (legacy_globs cfg) in
         if force \<or> index_globs (legacy_globs (config_rest old)) \<noteq> globs
            \<or> legacy_exclude_dirs (config_rest old) \<noteq> legacy_exclude_dirs cfg then
           let globs = (if workspace_folder sv = None then filter (\<lambda>g. \<not> is_relative g) globs else globs)
           in sv\<lparr>server_index := start_indexing_globs (sources_on_disk wo) (globbed wo) globs
                     (legacy_exclude_dirs cfg) (server_index sv)\<rparr>
         else sv
       else if force then
         sv\<lparr>server_index := start_indexing (sources_on_disk wo) (directories wo) (index_settings cfg)
               (workspace_path sv) (server_index sv)\<rparr>
       else sv)"

definition load_config_with ::
    "('s, 't, 'a, 'k, 'c) environment \<Rightarrow> settings config \<Rightarrow> bool \<Rightarrow>
     (unit, ('s, 't, 'a, 'k) slang_server) action" where
  "load_config_with env cfg force =
     and_then (look server_config) (\<lambda>old.
     and_then (look workspace_path) (\<lambda>ws.
     and_then (change (\<lambda>sv. sv\<lparr>server_config := resolve_work_dir env ws cfg\<rparr>)) (\<lambda>_.
     and_then
       (case build_setting (config_rest cfg) of
          Some b \<Rightarrow>
            and_then (log_event (InfoShown (''Using build file: '' @ b))) (\<lambda>_. set_build_file env b)
        | None \<Rightarrow> set_explore env) (\<lambda>_.
     and_then (run_indexing old force) (\<lambda>_.
     and_then (look server_config) (\<lambda>cfg. log_event (ConfigSent cfg)))))))"

definition workspace_config :: "string \<Rightarrow> string" where
  "workspace_config ws = path_join (path_join ws ''.slang'') ''server.json''"

definition local_config :: "string \<Rightarrow> string" where
  "local_config ws = path_join (path_join (path_join ws ''.slang'') ''local'') ''server.json''"

definition user_config :: "('s, 't, 'a, 'k, 'c) environment \<Rightarrow> string option" where
  "user_config env = (if under_tests env then None else map_option workspace_config (home_dir env))"

definition load_config ::
    "('s, 't, 'a, 'k, 'c) environment \<Rightarrow> (unit, ('s, 't, 'a, 'k) slang_server) action" where
  "load_config env =
     and_then (look workspace_path) (\<lambda>ws.
     and_then (look (\<lambda>sv. texts (world_state sv))) (\<lambda>disk.
       case from_files (config_library env) disk (map_option workspace_config ws) (user_config env)
              (map_option local_config ws) of
         Inl e \<Rightarrow> raise (Raised e)
       | Inr (cfg, errs) \<Rightarrow>
           and_then (each (\<lambda>e. log_event (ErrorShown e)) errs) (\<lambda>_. load_config_with env cfg True)))"

text \<open>A build file chosen before is put back after the configuration was read again.\<close>

definition reload_config ::
    "('s, 't, 'a, 'k, 'c) environment \<Rightarrow> (unit, ('s, 't, 'a, 'k) slang_server) action" where
  "reload_config env =
     and_then (look build_file) (\<lambda>saved.
     and_then (load_config env) (\<lambda>_.
       case saved of None \<Rightarrow> give () | Some b \<Rightarrow> set_build_file env b))"

definition with_define :: "string \<Rightarrow> json_object \<Rightarrow> json_object" where
  "with_define macro ob =
     (let old = (case to_string_value (lookup_field ob ''flags'') of None \<Rightarrow> [] | Some f \<Rightarrow> f);
          flags = (if old = [] then [] else old @ '' '') @ ''-D'' @ macro
      in AList.update ''flags'' (JsonString flags) ob)"

definition add_define ::
    "('s, 't, 'a, 'k, 'c) environment \<Rightarrow> string \<Rightarrow> (unit, ('s, 't, 'a, 'k) slang_server) action" where
  "add_define env macro =
     and_then (look workspace_path) (\<lambda>ws.
       case ws of
         None \<Rightarrow> log_event (ErrorShown ''Cannot add define: no workspace folder'')
       | Some f \<Rightarrow>
           and_then (look (\<lambda>sv. texts (world_state sv) (local_config f))) (\<lambda>old.
             let ob = (case Option.bind (Option.bind old (read_relaxed env)) to_object of
                         None \<Rightarrow> [] | Some ob \<Rightarrow> ob);
                 text = write_json env (JsonObject (with_define macro ob))
             in
             and_then (look (\<lambda>sv. write_text env (local_config f) text (world_state sv))) (\<lambda>r.
               case r of
                 Inl e \<Rightarrow> raise (Raised e)
               | Inr wo \<Rightarrow>
                   and_then (change (\<lambda>sv. sv\<lparr>world_state := wo\<rparr>)) (\<lambda>_. reload_config env))))"

section \<open>Changed files\<close>

definition needs_reload ::
    "('s, 't, 'a, 'k, 'c) environment \<Rightarrow> 's \<Rightarrow> uri \<times> file_change_type \<Rightarrow> bool" where
  "needs_reload env s c =
     (let p = path_of (fst c)
      in ends_with p ''.json'' \<or> (ends_with p ''.f'' \<and> is_command_file env s p))"

definition watched_files_event ::
    "('s, 't, 'a, 'k, 'c) environment \<Rightarrow> (uri \<times> file_change_type) list \<Rightarrow>
     (unit, ('s, 't, 'a, 'k) slang_server) action" where
  "watched_files_event env changes =
     and_then (on_driver (look library)) (\<lambda>s.
       if list_ex (needs_reload env s) changes then reload_config env
       else
         and_then (with_front_end env (\<lambda>fe. watched_sources_changed fe changes)) (\<lambda>_.
           change (\<lambda>sv. sv\<lparr>server_index :=
             watched_files_changed (sources_on_disk (world_state sv))
               (List.map (\<lambda>(u, k). (k, path_of u)) changes) (server_index sv)\<rparr>)))"

section \<open>Initialization\<close>

record initialize_params =
  workspace_folders :: "uri list option"
  root_uri :: "uri option"
  root_path :: "string option"
  link_support :: "bool option"
  resolve_properties :: "string list option"
  inactive_regions_client :: "bool option"
  slang_client :: "(string option \<times> string option) option"

definition capabilities_of :: "initialize_params \<Rightarrow> capabilities" where
  "capabilities_of ps =
     \<lparr>inactive_regions_supported = (inactive_regions_client ps = Some True),
      definition_links_supported = (link_support ps = Some True),
      completion_edit_resolve_supported =
        (case resolve_properties ps of
           None \<Rightarrow> False
         | Some xs \<Rightarrow> ''insertText'' \<in> set xs \<and> ''insertTextFormat'' \<in> set xs \<and> ''textEdit'' \<in> set xs)\<rparr>"

text \<open>\<^verbatim>\<open>std::from_chars\<close> for \<^verbatim>\<open>int\<close>: the number and what follows it.\<close>

definition from_chars :: "string \<Rightarrow> (int \<times> string) option" where
  "from_chars s =
     (let neg = starts_with s ''-'';
          rest = (if neg then tl s else s);
          digits = takeWhile is_digit rest;
          n = foldl (\<lambda>n d. 10 * n + (int (byte d) - 48)) 0 digits;
          v = (if neg then - n else n)
      in if digits = [] \<or> v < - (2 ^ 31) \<or> 2 ^ 31 \<le> v then None
         else Some (v, drop (length digits) rest))"

definition parse_version :: "string \<Rightarrow> (int \<times> int) option" where
  "parse_version version =
     (let version = (if starts_with version ''v'' then tl version else version)
      in case from_chars version of
           None \<Rightarrow> None
         | Some (major, rest) \<Rightarrow>
             if rest = [] \<or> hd rest \<noteq> CHR ''.'' then None
             else case from_chars (tl rest) of
                    None \<Rightarrow> None
                  | Some (minor, rest) \<Rightarrow>
                      if rest \<noteq> [] \<and> hd rest \<noteq> CHR ''.'' then None else Some (major, minor))"

definition older_version :: "int \<times> int \<Rightarrow> int \<times> int \<Rightarrow> bool" where
  "older_version v w \<longleftrightarrow> fst v < fst w \<or> (fst v = fst w \<and> snd v < snd w)"

definition version_warning ::
    "(int \<Rightarrow> string) \<Rightarrow> int \<times> int \<Rightarrow> string option \<times> string option \<Rightarrow> string option" where
  "version_warning print_int required client =
     (case client of (name, version) \<Rightarrow>
        let name = (case name of None \<Rightarrow> ''slang client'' | Some n \<Rightarrow> n)
        in case Option.bind version parse_version of
             None \<Rightarrow> Some (''Could not determine the '' @ name @ '' version. Please update '' @ name @ ''.'')
           | Some v \<Rightarrow>
               if older_version v required then
                 Some (name @ '' v'' @ the version @ '' is older than the server requirement ''
                   @ print_int (fst required) @ ''.'' @ print_int (snd required) @ ''.x. Please update ''
                   @ name @ ''.'')
               else None)"

definition choose_workspace :: "initialize_params \<Rightarrow> uri option \<times> server_event list" where
  "choose_workspace ps =
     (case workspace_folders ps of
        Some (u # us) \<Rightarrow>
          (Some u, if us = [] then []
             else [WarningShown (''Slang only supports a single workspace folder at the moment; ''
                     @ ''using the first one'')])
      | _ \<Rightarrow>
          (case root_uri ps of
             Some u \<Rightarrow> (Some u, [])
           | None \<Rightarrow> (map_option from_file (root_path ps), [])))"

definition initialize ::
    "('s, 't, 'a, 'k, 'c) environment \<Rightarrow> (int \<Rightarrow> string) \<Rightarrow> int \<times> int \<Rightarrow> initialize_params \<Rightarrow>
     (unit, ('s, 't, 'a, 'k) slang_server) action" where
  "initialize env print_int required ps =
     (case choose_workspace ps of
        (chosen, evs) \<Rightarrow>
          and_then (each log_event evs) (\<lambda>_.
          and_then (change (\<lambda>sv. sv\<lparr>
              workspace_folder := (case chosen of None \<Rightarrow> workspace_folder sv | Some u \<Rightarrow> Some u),
              client_capabilities := capabilities_of ps\<rparr>)) (\<lambda>_.
          and_then (load_config env) (\<lambda>_.
          and_then (change (\<lambda>sv. sv\<lparr>resolve_edits :=
              completion_edit_resolve_supported (client_capabilities sv)\<rparr>)) (\<lambda>_.
            case Option.bind (slang_client ps) (version_warning print_int required) of
              None \<Rightarrow> give ()
            | Some m \<Rightarrow> log_event (WarningShown m))))))"

definition watchers :: "(string \<times> file_change_type list) list" where
  "watchers =
     [(''**/*.{sv,svh,v,vh}'', [FileChanged]), (''.slang/**/*.json'', [FileChanged]),
      (''**/*.f'', [FileChanged])]"

definition initialized :: "(unit, ('s, 't, 'a, 'k) slang_server) action" where
  "initialized =
     and_then (look server_config) (\<lambda>cfg.
     and_then (log_event (ConfigSent cfg)) (\<lambda>_.
     and_then (look workspace_folder) (\<lambda>ws.
       case ws of None \<Rightarrow> give () | Some u \<Rightarrow> log_event (WatchersRegistered u watchers))))"

section \<open>Documents\<close>

definition did_open ::
    "('s, 't, 'a, 'k, 'c) environment \<Rightarrow> uri \<Rightarrow> string \<Rightarrow> (unit, ('s, 't, 'a, 'k) slang_server) action" where
  "did_open env u text = with_front_end env (\<lambda>fe. open_document fe u text)"

definition did_change ::
    "('s, 't, 'a, 'k, 'c) environment \<Rightarrow> bool \<Rightarrow> uri \<Rightarrow> content_change list \<Rightarrow>
     (unit, ('s, 't, 'a, 'k) slang_server) action" where
  "did_change env tracked u changes = with_front_end env (\<lambda>fe. doc_did_change fe tracked u changes)"

definition did_save ::
    "('s, 't, 'a, 'k, 'c) environment \<Rightarrow> uri \<Rightarrow> string option \<Rightarrow>
     (unit, ('s, 't, 'a, 'k) slang_server) action" where
  "did_save env u text = with_front_end env (\<lambda>fe. save_document fe u text)"

definition did_close :: "uri \<Rightarrow> (unit, ('s, 't, 'a, 'k) slang_server) action" where
  "did_close u = on_driver (close_document u)"

section \<open>Symbols of the workspace\<close>

fun fuzzy_match :: "string \<Rightarrow> string \<Rightarrow> bool" where
  "fuzzy_match [] cand = True"
| "fuzzy_match (q # qs) [] = False"
| "fuzzy_match (q # qs) (c # cs) =
     (if to_lower q = to_lower c then fuzzy_match qs cs else fuzzy_match (q # qs) cs)"

definition workspace_symbols ::
    "string \<Rightarrow> (('s, 't, 'a, 'k) slang_server) \<Rightarrow> (string \<times> uri \<times> lsp_symbol_kind) list" where
  "workspace_symbols q sv =
     List.map (\<lambda>(n, l). (n, from_file (loc_uri l), to_symbol_kind (loc_kind l)))
       (filter (\<lambda>(n, l). q = [] \<or> fuzzy_match q n) (each_symbol (server_index sv)))"

definition files_containing_module :: "string \<Rightarrow> ('s, 't, 'a, 'k) slang_server \<Rightarrow> string list" where
  "files_containing_module m sv = files_for_symbol (server_index sv) m"

end
