(* ===== verification/ServerSound.thy ===== *)
theory ServerSound
  imports ServerRouting
begin

text \<open>
  What the routing promises: the state of the server stays sound under every sequence of
  requests, the modes follow the last choice except that a reload puts an old build file back, a
  reload indexes the workspace once more, and an added define reaches the flags.
\<close>

section \<open>A sound server\<close>

definition server_ok :: "('s, 't, 'a, 'k) slang_server \<Rightarrow> bool" where
  "server_ok sv \<longleftrightarrow>
     (\<forall>w. server_driver sv = Some w \<longrightarrow> sound w) \<and>
     build_file sv \<noteq> Some []"

text \<open>A server that has a driver keeps one.\<close>

definition equipped :: "('s, 't, 'a, 'k) slang_server \<Rightarrow> ('s, 't, 'a, 'k) slang_server \<Rightarrow> bool" where
  "equipped sv sv' \<longleftrightarrow> (server_driver sv \<noteq> None \<longrightarrow> server_driver sv' \<noteq> None)"

interpretation equipped: effects server_ok equipped
  by unfold_locales (auto simp: equipped_def)

lemma server_okD: "server_ok sv \<Longrightarrow> server_driver sv = Some w \<Longrightarrow> sound w"
  by (simp add: server_ok_def)

lemma server_change_kept:
  assumes "\<And>sv. server_driver (f sv) = server_driver sv"
    "\<And>sv. build_file sv \<noteq> Some [] \<Longrightarrow> build_file (f sv) \<noteq> Some []"
  shows "kept server_ok equipped (change f)"
  using assms by (auto intro!: keptI equipped.runs_change simp: server_ok_def equipped_def)

lemma log_event_kept [keeps]: "kept server_ok equipped (log_event e)"
  unfolding log_event_def by (rule server_change_kept) simp_all

lemma sound_index: "sound w \<Longrightarrow> sound (w\<lparr>workspace_index := ix\<rparr>)"
  by (simp add: sound_def owner_links_def)

lemma sound_client: "sound w \<Longrightarrow> sound (w\<lparr>client_state := c\<rparr>)"
  by (simp add: sound_def owner_links_def)

lemma on_driver_kept:
  assumes "kept sound widens m"
  shows "kept server_ok equipped (on_driver m)"
proof (rule keptI)
  fix sv :: "('a, 'b, 'c, 'd) slang_server" assume ok: "server_ok sv"
  show "runs server_ok equipped (on_driver m) sv (\<lambda>_ _. True)"
  proof (cases "server_driver sv")
    case None
    then show ?thesis using ok by (simp add: runs_def on_driver_def equipped_def)
  next
    case (Some w)
    let ?w = "w\<lparr>workspace_index := server_index sv\<rparr>"
    obtain r w' where m: "m ?w = (r, w')" by (cases "m ?w")
    have "runs sound widens m ?w (\<lambda>_ _. True)"
      using assms sound_index server_okD [OF ok Some] by (auto intro: keptD)
    then have "sound w'" "\<forall>e. r = Inl e \<longrightarrow> e \<noteq> OutOfFuel" using m by (auto simp: runs_def)
    then show ?thesis using ok Some m
      by (auto simp: runs_def on_driver_def Let_def server_ok_def equipped_def split: sum.split)
  qed
qed

lemma with_front_end_kept:
  "(\<And>fe. kept sound widens (m fe)) \<Longrightarrow> kept server_ok equipped (with_front_end env m)"
  unfolding with_front_end_def by (intro equipped.kept_and_then equipped.kept_look on_driver_kept)

text \<open>
  Making a driver either puts a new one in place or leaves the old one, up to what it remembers
  of its diagnostics.
\<close>

lemma if_either: "(if c then a else b) = a \<or> (if c then a else b) = b"
  by simp

lemma replace_driver_cases:
  fixes env :: "('s, 't, 'a, 'k, 'c) environment" and sv :: "('s, 't, 'a, 'k) slang_server"
  assumes "replace_driver env builds compiles create sv = (r, sv')"
  obtains s evs trees w' d log where
    "create (current_front_end env sv) trees (server_driver sv) (new_driver s (server_index sv) evs) = (r, w')"
    and "sv' = sv\<lparr>server_driver := d, server_index := workspace_index w', event_log := log\<rparr>"
    and "(r = Inr () \<and> d = Some w') \<or> (isl r \<and> (d = server_driver sv \<or>
           d = map_option (\<lambda>w. w\<lparr>client_state := clear_and_push (client_state w)\<rparr>) (server_driver sv)))"
proof -
  obtain evs trees s where load:
    "load_sources_of env (server_config sv) (world_state sv) builds = (evs, trees, s)"
    by (cases "load_sources_of env (server_config sv) (world_state sv) builds")
  let ?fe = "current_front_end env sv"
  let ?seen = "case server_driver sv of None \<Rightarrow> [] | Some w \<Rightarrow> client_log (client_state w)"
  let ?w = "new_driver s (server_index sv) (?seen @ evs)"
  obtain r' w' where m: "create ?fe trees (server_driver sv) ?w = (r', w')"
    by (cases "create ?fe trees (server_driver sv) ?w")
  note step = assms [unfolded replace_driver_def Let_def load prod.case m]
  show thesis
  proof (cases r')
    case (Inl e)
    let ?d = "if isl (fst (before_copy ?fe compiles trees ?w)) then server_driver sv
      else map_option (\<lambda>d. d\<lparr>client_state := clear_and_push (client_state d)\<rparr>) (server_driver sv)"
    have d: "?d = server_driver sv \<or>
        ?d = map_option (\<lambda>w. w\<lparr>client_state := clear_and_push (client_state w)\<rparr>) (server_driver sv)"
      by (rule if_either)
    have r: "r = r'" using step Inl by simp
    show thesis
    proof (rule that)
      show "create ?fe trees (server_driver sv) ?w = (r, w')" using m r by simp
      show "sv' = sv\<lparr>server_driver := ?d, server_index := workspace_index w',
          event_log := event_log sv @ List.map DriverSent (drop (length ?seen) (client_log (client_state w')))\<rparr>"
        using step Inl by simp
      show "(r = Inr () \<and> ?d = Some w') \<or> (isl r \<and> (?d = server_driver sv \<or>
           ?d = map_option (\<lambda>w. w\<lparr>client_state := clear_and_push (client_state w)\<rparr>) (server_driver sv)))"
        using d r Inl by simp
    qed
  next
    case (Inr u)
    have r: "r = r'" using step Inr by simp
    show thesis
    proof (rule that)
      show "create ?fe trees (server_driver sv) ?w = (r, w')" using m r by simp
      show "sv' = sv\<lparr>server_driver := Some w', server_index := workspace_index w',
          event_log := event_log sv @ List.map DriverSent (drop (length ?seen) (client_log (client_state w')))\<rparr>"
        using step Inr by simp
      show "(r = Inr () \<and> Some w' = Some w') \<or> (isl r \<and> (Some w' = server_driver sv \<or>
           Some w' = map_option (\<lambda>w. w\<lparr>client_state := clear_and_push (client_state w)\<rparr>) (server_driver sv)))"
        using r Inr by simp
    qed
  qed
qed

lemma replace_driver_kept:
  assumes "\<And>fe ts old. kept sound grows (create fe ts old)"
  shows "kept server_ok equipped (replace_driver env builds compiles create)"
proof (rule keptI)
  fix sv :: "('a, 'b, 'c, 'd) slang_server" assume ok: "server_ok sv"
  obtain r sv' where step: "replace_driver env builds compiles create sv = (r, sv')"
    by (cases "replace_driver env builds compiles create sv")
  obtain s evs trees w' d log where
    m: "create (current_front_end env sv) trees (server_driver sv) (new_driver s (server_index sv) evs) = (r, w')"
    and sv': "sv' = sv\<lparr>server_driver := d, server_index := workspace_index w', event_log := log\<rparr>"
    and d: "(r = Inr () \<and> d = Some w') \<or> (isl r \<and> (d = server_driver sv \<or>
           d = map_option (\<lambda>w. w\<lparr>client_state := clear_and_push (client_state w)\<rparr>) (server_driver sv)))"
    using step by (rule replace_driver_cases)
  have "runs sound grows (create (current_front_end env sv) trees (server_driver sv))
      (new_driver s (server_index sv) evs) (\<lambda>_ _. True)"
    using assms sound_new_driver by (rule keptD)
  then have w': "sound w'" "\<forall>e. r = Inl e \<longrightarrow> e \<noteq> OutOfFuel" using m by (auto simp: runs_def)
  from d have "(\<forall>w. d = Some w \<longrightarrow> sound w) \<and> (server_driver sv \<noteq> None \<longrightarrow> d \<noteq> None)"
  proof (elim disjE conjE)
    assume "d = Some w'" then show ?thesis using w'(1) by simp
  next
    assume "d = server_driver sv" then show ?thesis using server_okD [OF ok] by simp
  next
    assume d: "d = map_option (\<lambda>w. w\<lparr>client_state := clear_and_push (client_state w)\<rparr>) (server_driver sv)"
    show ?thesis
    proof (cases "server_driver sv")
      case None
      then show ?thesis using d by simp
    next
      case (Some v)
      have "sound (v\<lparr>client_state := clear_and_push (client_state v)\<rparr>)"
        by (rule sound_client) (rule server_okD [OF ok Some])
      then show ?thesis unfolding d Some option.map by blast
    qed
  qed
  then have "server_ok sv'" "equipped sv sv'"
    using ok unfolding sv' by (simp_all add: server_ok_def equipped_def)
  then show "runs server_ok equipped (replace_driver env builds compiles create) sv (\<lambda>_ _. True)"
    using w'(2) step by (auto simp: runs_def split: sum.split)
qed

lemma create_kept:
  "kept sound grows (create_for_explore fe ts old)"
  "kept sound grows (create_from_file_lists fe ts old)"
  "kept sound grows (create_from_top fe ts u old)"
  by (intro keeps)+

lemmas create_drivers_kept [keeps] = create_kept [THEN replace_driver_kept]

lemmas push_client_kept = kept_widens [OF kept_grows_held [OF on_client_held]]

lemma set_explore_kept [keeps]: "kept server_ok equipped (set_explore env)"
  unfolding set_explore_def
  by (intro equipped.kept_and_then create_drivers_kept on_driver_kept push_client_kept
      server_change_kept) simp_all

lemma set_build_file_kept [keeps]: "kept server_ok equipped (set_build_file env p)"
  unfolding set_build_file_def
  by (cases "p = []") (simp_all add: set_explore_kept equipped.kept_and_then create_drivers_kept server_change_kept)

lemma set_top_level_kept [keeps]: "kept server_ok equipped (set_top_level env p)"
  unfolding set_top_level_def Let_def
  by (intro kept_if equipped.kept_and_then equipped.kept_look create_drivers_kept set_explore_kept
      log_event_kept server_change_kept) simp_all

lemma run_indexing_kept [keeps]: "kept server_ok equipped (run_indexing old force)"
  unfolding run_indexing_def by (rule server_change_kept) (simp_all add: Let_def)

lemma load_config_with_kept [keeps]: "kept server_ok equipped (load_config_with env cfg force)"
  unfolding load_config_with_def
  by (intro keeps equipped.kept_and_then equipped.kept_look server_change_kept) simp_all

lemma load_config_kept [keeps]: "kept server_ok equipped (load_config env)"
  unfolding load_config_def
  by (intro equipped.kept_and_then equipped.kept_look, split sum.split,
      intro conjI allI impI kept_prod equipped.kept_and_then equipped.kept_each keeps) simp_all

lemma reload_config_kept [keeps]: "kept server_ok equipped (reload_config env)"
  unfolding reload_config_def
  by (intro keeps equipped.kept_and_then equipped.kept_look equipped.kept_give)

lemma add_define_kept [keeps]: "kept server_ok equipped (add_define env macro)"
proof -
  have "kept server_ok equipped (case r of Inl e \<Rightarrow> raise (Raised e)
      | Inr wo \<Rightarrow> and_then (change (\<lambda>sv. sv\<lparr>world_state := wo\<rparr>)) (\<lambda>_. reload_config env))" for r
    by (cases r) (simp_all add: equipped.kept_raise equipped.kept_and_then server_change_kept reload_config_kept)
  then show ?thesis unfolding add_define_def Let_def
    by (intro equipped.kept_and_then equipped.kept_look kept_option keeps)
qed

lemma watched_files_event_kept [keeps]: "kept server_ok equipped (watched_files_event env changes)"
  unfolding watched_files_event_def
  by (intro equipped.kept_and_then on_driver_kept widens.kept_look kept_if keeps with_front_end_kept
      kept_widens [OF watched_sources_kept] server_change_kept) simp_all

lemma initialize_kept [keeps]: "kept server_ok equipped (initialize env pr required ps)"
  unfolding initialize_def
  by (intro kept_prod equipped.kept_and_then equipped.kept_each equipped.kept_give keeps server_change_kept) simp_all

lemma initialized_kept [keeps]: "kept server_ok equipped initialized"
  unfolding initialized_def
  by (intro equipped.kept_and_then equipped.kept_look equipped.kept_give kept_option keeps)

lemma documents_kept [keeps]:
  "kept server_ok equipped (did_open env u text)"
  "kept server_ok equipped (did_change env tracked u changes)"
  "kept server_ok equipped (did_save env u saved)"
  "kept server_ok equipped (did_close u)"
  unfolding did_open_def did_change_def did_save_def did_close_def
  by (intro with_front_end_kept on_driver_kept kept_widens [OF open_document_kept]
      kept_widens [OF doc_did_change_kept] save_document_kept kept_widens [OF close_document_kept])+

section \<open>Any sequence of requests\<close>

text \<open>
  The requests that change the state, and what happens without the server: other programs change
  files, the library reads them, requests are cancelled.
\<close>

datatype 's server_request =
    Initialize initialize_params
  | Initialized
  | SetTopLevel string
  | SetBuildFile string
  | AddDefine string
  | DidOpen uri string
  | DidChange bool uri "content_change list"
  | DidSave uri "string option"
  | DidClose uri
  | UseDocument uri
  | SetActive string
  | FilesChanged "(uri \<times> file_change_type) list"
  | WorldChanges world
  | LibraryChanges 's "bool list"

fun handle_request ::
    "('s, 't, 'a, 'k, 'c) environment \<Rightarrow> (int \<Rightarrow> string) \<Rightarrow> int \<times> int \<Rightarrow> 's server_request \<Rightarrow>
     (unit, ('s, 't, 'a, 'k) slang_server) action" where
  "handle_request env pr ver (Initialize ps) = initialize env pr ver ps"
| "handle_request env pr ver Initialized = initialized"
| "handle_request env pr ver (SetTopLevel p) = set_top_level env p"
| "handle_request env pr ver (SetBuildFile p) = set_build_file env p"
| "handle_request env pr ver (AddDefine m) = add_define env m"
| "handle_request env pr ver (DidOpen u s) = did_open env u s"
| "handle_request env pr ver (DidChange tracked u cs) = did_change env tracked u cs"
| "handle_request env pr ver (DidSave u s) = did_save env u s"
| "handle_request env pr ver (DidClose u) = did_close u"
| "handle_request env pr ver (UseDocument u) =
     with_front_end env (\<lambda>fe. and_then (get_document fe u) (\<lambda>_. give ()))"
| "handle_request env pr ver (SetActive p) =
     with_front_end env (\<lambda>fe. and_then (set_active_instance fe p) (\<lambda>_. give ()))"
| "handle_request env pr ver (FilesChanged cs) = watched_files_event env cs"
| "handle_request env pr ver (WorldChanges wo) = change (\<lambda>sv. sv\<lparr>world_state := wo\<rparr>)"
| "handle_request env pr ver (LibraryChanges s ps) =
     on_driver (change (\<lambda>w. w\<lparr>library := s, cancel_polls := ps\<rparr>))"

lemma handle_request_kept: "kept server_ok equipped (handle_request env pr ver q)"
proof (cases q)
  case (LibraryChanges s ps)
  have "kept sound widens (change (\<lambda>w. w\<lparr>library := s, cancel_polls := ps\<rparr>))"
    by (rule kept_widens, rule kept_grows_held, rule kept_change) simp_all
  then show ?thesis unfolding LibraryChanges handle_request.simps by (rule on_driver_kept)
next
  case (UseDocument u)
  show ?thesis unfolding UseDocument handle_request.simps
    by (rule with_front_end_kept, rule kept_widens) (intro keeps)
next
  case (SetActive p)
  show ?thesis unfolding SetActive handle_request.simps
    by (rule with_front_end_kept, rule kept_widens) (intro keeps)
next
  case (WorldChanges wo)
  show ?thesis unfolding WorldChanges handle_request.simps by (rule server_change_kept) simp_all
qed (simp_all add: keeps del: split_paired_All)

definition run_requests ::
    "('s, 't, 'a, 'k, 'c) environment \<Rightarrow> (int \<Rightarrow> string) \<Rightarrow> int \<times> int \<Rightarrow> 's server_request list \<Rightarrow>
     ('s, 't, 'a, 'k) slang_server \<Rightarrow> ('s, 't, 'a, 'k) slang_server" where
  "run_requests env pr ver qs sv = fold (\<lambda>q sv. snd (handle_request env pr ver q sv)) qs sv"

lemma run_requests_ok:
  "server_ok sv \<Longrightarrow> server_ok (run_requests env pr ver qs sv) \<and> equipped sv (run_requests env pr ver qs sv)"
proof (induction qs arbitrary: sv)
  case (Cons q qs)
  let ?sv = "snd (handle_request env pr ver q sv)"
  have "server_ok ?sv" "equipped sv ?sv"
    using keptD [OF handle_request_kept [of env pr ver q] Cons.prems] by (simp_all add: runs_def)
  then show ?case using Cons.IH [of ?sv] equipped.trans [of sv ?sv] by (simp add: run_requests_def)
qed (simp add: run_requests_def equipped.refl)

definition new_server :: "settings config \<Rightarrow> world \<Rightarrow> ('s, 't, 'a, 'k) slang_server" where
  "new_server cfg wo =
     \<lparr>workspace_folder = None, build_file = None, top_file = None, server_config = cfg,
      server_index = empty_indexer, server_driver = None, wave_client = None,
      client_capabilities = \<lparr>inactive_regions_supported = False, definition_links_supported = False,
        completion_edit_resolve_supported = False\<rparr>,
      resolve_edits = False, event_log = [], world_state = wo\<rparr>"

lemma server_ok_new: "server_ok (new_server cfg wo)"
  by (simp add: server_ok_def new_server_def)

text \<open>
  C5: The state of the server stays sound. After any sequence of requests, failed ones included,
  and whatever other programs do to the disk in between, the document table of the driver is
  sound; the next request returns; and a server with a driver never loses it, also when making
  another driver fails, so that no handler finds none where it expects one.
\<close>

theorem server_stays_sound:
  "(let sv = run_requests env pr ver qs (new_server cfg wo); (r, sv') = handle_request env pr ver q sv
    in r \<noteq> Inl OutOfFuel \<and>
       (case server_driver sv of
          None \<Rightarrow> True
        | Some w \<Rightarrow> sound w \<and> server_driver sv' \<noteq> None))"
proof -
  let ?sv = "run_requests env pr ver qs (new_server cfg wo)"
  have ok: "server_ok ?sv" using run_requests_ok [OF server_ok_new] by blast
  obtain r sv' where q: "handle_request env pr ver q ?sv = (r, sv')"
    by (cases "handle_request env pr ver q ?sv")
  have "runs server_ok equipped (handle_request env pr ver q) ?sv (\<lambda>_ _. True)"
    by (rule keptD [OF handle_request_kept ok])
  then have "r \<noteq> Inl OutOfFuel" "equipped ?sv sv'" using q by (auto simp: runs_def)
  then show ?thesis using ok q by (auto simp: equipped_def server_ok_def split: option.split)
qed

section \<open>Modes\<close>

text \<open>What a successful step of an action did: the result of its parts.\<close>

lemma and_then_ok:
  "and_then m f w = (Inr y, w'') \<longleftrightarrow> (\<exists>x w'. m w = (Inr x, w') \<and> f x w' = (Inr y, w''))"
  by (auto simp: and_then_def split: prod.splits sum.splits)

lemma change_ok: "change f w = (Inr x, w') \<longleftrightarrow> w' = f w"
  by (auto simp: change_def)

lemma look_ok: "look f w = (Inr x, w') \<longleftrightarrow> x = f w \<and> w' = w"
  by (auto simp: look_def)

lemma give_ok: "give x w = (Inr y, w') \<longleftrightarrow> y = x \<and> w' = w"
  by (auto simp: give_def)

lemma raise_ok: "raise e w = (Inr y, w') \<longleftrightarrow> False"
  by (simp add: raise_def)

lemmas step_ok = and_then_ok change_ok look_ok give_ok raise_ok

text \<open>A driver that was made leaves everything but itself, the index and the log.\<close>

definition settled ::
    "('s, 't, 'a, 'k) slang_server \<Rightarrow> settings config \<times> uri option \<times> world \<times> indexer" where
  "settled sv = (server_config sv, workspace_folder sv, world_state sv, server_index sv)"

definition same_modes :: "('s, 't, 'a, 'k) slang_server \<Rightarrow> ('s, 't, 'a, 'k) slang_server \<Rightarrow> bool" where
  "same_modes sv sv' \<longleftrightarrow>
     build_file sv' = build_file sv \<and> top_file sv' = top_file sv \<and>
     server_config sv' = server_config sv \<and> workspace_folder sv' = workspace_folder sv \<and>
     world_state sv' = world_state sv"

lemma replace_driver_ok:
  fixes env :: "('s, 't, 'a, 'k, 'c) environment" and sv :: "('s, 't, 'a, 'k) slang_server"
  assumes "replace_driver env builds compiles create sv = (Inr x, sv')"
    and "\<And>fe ts old. kept sound grows (create fe ts old)"
  shows "same_modes sv sv'" "server_driver sv' \<noteq> None" "server_index sv' = server_index sv"
proof -
  obtain r where r: "r = Inr x" and step: "replace_driver env builds compiles create sv = (r, sv')"
    using assms(1) by blast
  obtain s evs trees w' d log where
    m: "create (current_front_end env sv) trees (server_driver sv) (new_driver s (server_index sv) evs) = (r, w')"
    and sv': "sv' = sv\<lparr>server_driver := d, server_index := workspace_index w', event_log := log\<rparr>"
    and d: "(r = Inr () \<and> d = Some w') \<or> (isl r \<and> (d = server_driver sv \<or>
           d = map_option (\<lambda>w. w\<lparr>client_state := clear_and_push (client_state w)\<rparr>) (server_driver sv)))"
    using step by (rule replace_driver_cases)
  have "runs sound grows (create (current_front_end env sv) trees (server_driver sv))
      (new_driver s (server_index sv) evs) (\<lambda>_ _. True)"
    using assms(2) sound_new_driver by (rule keptD)
  then have "workspace_index w' = server_index sv"
    using m by (simp add: runs_def grows_def) (simp add: new_driver_def)
  then show "same_modes sv sv'" "server_driver sv' \<noteq> None" "server_index sv' = server_index sv"
    using d r by (simp_all add: sv' same_modes_def)
qed

lemma on_client_ok:
  assumes "on_driver (on_client f) sv = (Inr x, sv')"
  shows "same_modes sv sv'" "server_driver sv' \<noteq> None" "server_index sv' = server_index sv"
  using assms
  by (auto simp: on_driver_def on_client_def change_def Let_def same_modes_def split: option.splits)

lemma same_settled:
  "same_modes sv sv' \<Longrightarrow> server_index sv' = server_index sv \<Longrightarrow>
     settled sv' = settled sv \<and> build_file sv' = build_file sv \<and> top_file sv' = top_file sv"
  by (simp add: settled_def same_modes_def)

lemma settled_simps [simp]:
  "settled (sv\<lparr>build_file := b\<rparr>) = settled sv" "settled (sv\<lparr>top_file := t\<rparr>) = settled sv"
  "settled (sv\<lparr>event_log := l\<rparr>) = settled sv"
  by (simp_all add: settled_def)

lemma create_for_explore_ok:
  assumes "replace_driver env builds compiles create_for_explore sv = (Inr x, sv')"
  shows "settled sv' = settled sv" "build_file sv' = build_file sv" "top_file sv' = top_file sv"
    "server_driver sv' \<noteq> None"
  using same_settled [OF replace_driver_ok(1) [OF assms create_kept(1)] replace_driver_ok(3) [OF assms create_kept(1)]]
    replace_driver_ok(2) [OF assms create_kept(1)] by simp_all

lemma create_from_file_lists_ok:
  assumes "replace_driver env builds compiles create_from_file_lists sv = (Inr x, sv')"
  shows "settled sv' = settled sv" "build_file sv' = build_file sv" "top_file sv' = top_file sv"
    "server_driver sv' \<noteq> None"
  using same_settled [OF replace_driver_ok(1) [OF assms create_kept(2)] replace_driver_ok(3) [OF assms create_kept(2)]]
    replace_driver_ok(2) [OF assms create_kept(2)] by simp_all

lemma create_from_top_ok:
  assumes "replace_driver env builds compiles (\<lambda>fe ts old. create_from_top fe ts u old) sv = (Inr x, sv')"
  shows "settled sv' = settled sv" "build_file sv' = build_file sv" "top_file sv' = top_file sv"
    "server_driver sv' \<noteq> None"
  using same_settled [OF replace_driver_ok(1) [OF assms create_kept(3)] replace_driver_ok(3) [OF assms create_kept(3)]]
    replace_driver_ok(2) [OF assms create_kept(3)] by simp_all

lemma on_client_settled:
  assumes "on_driver (on_client f) sv = (Inr x, sv')"
  shows "settled sv' = settled sv" "build_file sv' = build_file sv" "top_file sv' = top_file sv"
    "server_driver sv' \<noteq> None"
  using same_settled [OF on_client_ok(1) [OF assms] on_client_ok(3) [OF assms]] on_client_ok(2) [OF assms]
  by simp_all

lemma set_explore_ok:
  assumes "set_explore env sv = (Inr x, sv')"
  shows "settled sv' = settled sv" "build_file sv' = None" "top_file sv' = None" "server_driver sv' \<noteq> None"
proof -
  from assms obtain sv1 u where
    a: "replace_driver env [] False create_for_explore (sv\<lparr>build_file := None, top_file := None\<rparr>) = (Inr u, sv1)" and
    b: "on_driver (on_client push_diags) sv1 = (Inr x, sv')"
    by (auto simp: set_explore_def step_ok)
  from create_for_explore_ok [OF a] on_client_settled [OF b]
  show "settled sv' = settled sv" "build_file sv' = None" "top_file sv' = None" "server_driver sv' \<noteq> None"
    by simp_all
qed

lemma set_build_file_ok:
  assumes "set_build_file env p sv = (Inr x, sv')"
  shows "settled sv' = settled sv" "build_file sv' = (if p = [] then None else Some p)"
    "top_file sv' = (if p = [] then None else top_file sv)" "server_driver sv' \<noteq> None"
proof -
  have "settled sv' = settled sv \<and> build_file sv' = (if p = [] then None else Some p) \<and>
    top_file sv' = (if p = [] then None else top_file sv) \<and> server_driver sv' \<noteq> None"
  proof (cases "p = []")
    case True
    then show ?thesis using set_explore_ok [of env sv x sv'] assms by (simp add: set_build_file_def)
  next
    case False
    then have a: "replace_driver env [p] True create_from_file_lists (sv\<lparr>build_file := Some p\<rparr>) = (Inr x, sv')"
      using assms by (auto simp: set_build_file_def step_ok)
    from create_from_file_lists_ok [OF a] False show ?thesis by simp
  qed
  then show "settled sv' = settled sv" "build_file sv' = (if p = [] then None else Some p)"
    "top_file sv' = (if p = [] then None else top_file sv)" "server_driver sv' \<noteq> None" by blast+
qed

text \<open>The build file a configuration asks for.\<close>

definition configured_build :: "settings config \<Rightarrow> string option" where
  "configured_build cfg =
     (case build_setting (config_rest cfg) of None \<Rightarrow> None | Some b \<Rightarrow> if b = [] then None else Some b)"

text \<open>The index after indexing once more.\<close>

definition indexed_again :: "settings config \<Rightarrow> world \<Rightarrow> uri option \<Rightarrow> indexer \<Rightarrow> indexer" where
  "indexed_again cfg wo ws ix =
     (let cfg = config_rest cfg in
      if legacy_globs cfg \<noteq> [] \<or> legacy_exclude_dirs cfg \<noteq> [] then
        start_indexing_globs (sources_on_disk wo) (globbed wo)
          (if ws = None then filter (\<lambda>g. \<not> is_relative g) (index_globs (legacy_globs cfg))
           else index_globs (legacy_globs cfg)) (legacy_exclude_dirs cfg) ix
      else start_indexing (sources_on_disk wo) (directories wo) (index_settings cfg)
             (map_option path_of ws) ix)"

lemma run_indexing_forced:
  "run_indexing old True sv =
     (Inr (), sv\<lparr>server_index :=
        indexed_again (server_config sv) (world_state sv) (workspace_folder sv) (server_index sv)\<rparr>)"
  by (simp add: run_indexing_def change_def indexed_again_def Let_def workspace_path_def)

lemma load_config_with_ok:
  assumes "load_config_with env cfg True sv = (Inr x, sv')"
  shows "server_config sv' = resolve_work_dir env (workspace_path sv) cfg"
    and "workspace_folder sv' = workspace_folder sv" and "world_state sv' = world_state sv"
    and "build_file sv' = configured_build cfg"
    and "top_file sv' = (if configured_build cfg = None then None else top_file sv)"
    and "server_index sv' = indexed_again (server_config sv') (world_state sv) (workspace_folder sv) (server_index sv)"
    and "server_driver sv' \<noteq> None"
proof -
  let ?sv = "sv\<lparr>server_config := resolve_work_dir env (workspace_path sv) cfg\<rparr>"
  let ?choose = "case build_setting (config_rest cfg) of
      Some b \<Rightarrow> and_then (log_event (InfoShown (''Using build file: '' @ b))) (\<lambda>_. set_build_file env b)
    | None \<Rightarrow> set_explore env"
  obtain u sv1 where choose: "?choose ?sv = (Inr u, sv1)"
    and sv': "sv' = sv1\<lparr>server_index := indexed_again (server_config sv1) (world_state sv1)
        (workspace_folder sv1) (server_index sv1), event_log := event_log sv1 @ [ConfigSent (server_config sv1)]\<rparr>"
    using assms unfolding load_config_with_def log_event_def [of "ConfigSent _"]
    by (auto simp: step_ok run_indexing_forced)
  have sv1: "settled sv1 = settled ?sv \<and> build_file sv1 = configured_build cfg \<and>
      top_file sv1 = (if configured_build cfg = None then None else top_file sv) \<and> server_driver sv1 \<noteq> None"
  proof (cases "build_setting (config_rest cfg)")
    case None
    then show ?thesis using set_explore_ok [of env ?sv u sv1] choose by (simp add: configured_build_def)
  next
    case (Some b)
    then obtain l where "set_build_file env b (?sv\<lparr>event_log := l\<rparr>) = (Inr u, sv1)"
      using choose by (auto simp: log_event_def step_ok)
    from set_build_file_ok [OF this] Some show ?thesis by (simp add: configured_build_def)
  qed
  then show "server_config sv' = resolve_work_dir env (workspace_path sv) cfg"
    "workspace_folder sv' = workspace_folder sv" "world_state sv' = world_state sv"
    "build_file sv' = configured_build cfg"
    "top_file sv' = (if configured_build cfg = None then None else top_file sv)"
    "server_index sv' = indexed_again (server_config sv') (world_state sv) (workspace_folder sv) (server_index sv)"
    "server_driver sv' \<noteq> None"
    unfolding sv' by (simp_all add: settled_def)
qed

definition config_read ::
    "('s, 't, 'a, 'k, 'c) environment \<Rightarrow> ('s, 't, 'a, 'k) slang_server \<Rightarrow>
     (settings config \<times> string list) result" where
  "config_read env sv =
     from_files (config_library env) (texts (world_state sv))
       (map_option workspace_config (workspace_path sv)) (user_config env)
       (map_option local_config (workspace_path sv))"

lemma each_log_ok:
  "each (\<lambda>e. log_event (ErrorShown e)) errs sv =
     (Inr (), sv\<lparr>event_log := event_log sv @ List.map ErrorShown errs\<rparr>)"
  by (induction errs arbitrary: sv) (simp_all add: give_def and_then_def log_event_def change_def)

lemma workspace_path_log [simp]: "workspace_path (sv\<lparr>event_log := l\<rparr>) = workspace_path sv"
  by (simp add: workspace_path_def)

lemma load_config_ok:
  assumes "load_config env sv = (Inr x, sv')"
  obtains cfg errs where "config_read env sv = Inr (cfg, errs)"
    and "server_config sv' = resolve_work_dir env (workspace_path sv) cfg"
    and "workspace_folder sv' = workspace_folder sv" and "world_state sv' = world_state sv"
    and "build_file sv' = configured_build cfg"
    and "top_file sv' = (if configured_build cfg = None then None else top_file sv)"
    and "server_index sv' = indexed_again (server_config sv') (world_state sv) (workspace_folder sv) (server_index sv)"
    and "server_driver sv' \<noteq> None"
proof -
  from assms obtain cfg errs where
    read: "config_read env sv = Inr (cfg, errs)" and
    step: "load_config_with env cfg True (sv\<lparr>event_log := event_log sv @ List.map ErrorShown errs\<rparr>) = (Inr x, sv')"
    by (auto simp: load_config_def step_ok each_log_ok config_read_def split: sum.splits prod.splits)
  show thesis
    by (rule that [OF read]) (use load_config_with_ok [OF step] in simp_all)
qed

lemma reload_config_ok:
  assumes "reload_config env sv = (Inr x, sv')" and "build_file sv \<noteq> Some []"
  obtains cfg errs where "config_read env sv = Inr (cfg, errs)"
    and "server_config sv' = resolve_work_dir env (workspace_path sv) cfg"
    and "workspace_folder sv' = workspace_folder sv" and "world_state sv' = world_state sv"
    and "build_file sv' = (case build_file sv of Some b \<Rightarrow> Some b | None \<Rightarrow> configured_build cfg)"
    and "top_file sv' = (if configured_build cfg = None then None else top_file sv)"
    and "server_index sv' = indexed_again (server_config sv') (world_state sv) (workspace_folder sv) (server_index sv)"
    and "server_driver sv' \<noteq> None"
proof -
  from assms(1) obtain u sv1 where load: "load_config env sv = (Inr u, sv1)" and
    put: "(case build_file sv of None \<Rightarrow> give () | Some b \<Rightarrow> set_build_file env b) sv1 = (Inr x, sv')"
    by (auto simp: reload_config_def step_ok)
  obtain cfg errs where c: "config_read env sv = Inr (cfg, errs)"
    "server_config sv1 = resolve_work_dir env (workspace_path sv) cfg"
    "workspace_folder sv1 = workspace_folder sv" "world_state sv1 = world_state sv"
    "build_file sv1 = configured_build cfg"
    "top_file sv1 = (if configured_build cfg = None then None else top_file sv)"
    "server_index sv1 = indexed_again (server_config sv1) (world_state sv) (workspace_folder sv) (server_index sv)"
    "server_driver sv1 \<noteq> None"
    using load by (rule load_config_ok)
  show thesis
  proof (cases "build_file sv")
    case None
    then have "sv' = sv1" using put by (simp add: give_ok)
    then show thesis by (intro that [OF c(1)]) (simp_all only: c None option.case not_False_eq_True)
  next
    case (Some b)
    then have step: "set_build_file env b sv1 = (Inr x, sv')" and "b \<noteq> []"
      using put assms(2) by simp_all
    note b = set_build_file_ok [OF step]
    from b(1) have same: "server_config sv' = server_config sv1" "workspace_folder sv' = workspace_folder sv1"
      "world_state sv' = world_state sv1" "server_index sv' = server_index sv1"
      by (simp_all add: settled_def)
    show thesis
      by (intro that [OF c(1)])
        (simp_all only: same b(2,3) b(4) c Some option.case \<open>b \<noteq> []\<close> if_False not_False_eq_True)
  qed
qed

text \<open>
  C21: What a reload does. It reads the configuration files again and indexes the workspace again;
  but a build file that was chosen before, by the old configuration too, is put back, so that
  another one in the new configuration is not used; without one the configuration decides, and
  a top file is forgotten unless the configuration has a build file.
\<close>

theorem reload_puts_build_back:
  assumes "reload_config env sv = (Inr x, sv')" and "build_file sv \<noteq> Some []"
  shows "\<exists>cfg errs. config_read env sv = Inr (cfg, errs)
    \<and> server_config sv' = resolve_work_dir env (workspace_path sv) cfg
    \<and> build_file sv' = (case build_file sv of Some b \<Rightarrow> Some b | None \<Rightarrow> configured_build cfg)
    \<and> top_file sv' = (if configured_build cfg = None then None else top_file sv)
    \<and> server_index sv' =
        indexed_again (server_config sv') (world_state sv) (workspace_folder sv) (server_index sv)
    \<and> server_driver sv' \<noteq> None"
  using assms by (rule reload_config_ok) blast

text \<open>
  C34: A server that was initialized can serve. After an initialization that succeeded there is a
  driver, whatever requests came before, and there is one after any requests that follow.
\<close>

theorem initialized_server_has_driver:
  assumes "handle_request env pr ver (Initialize ps) (run_requests env pr ver qs (new_server cfg wo)) = (Inr (), sv)"
  shows "server_driver (run_requests env pr ver qs' sv) \<noteq> None"
proof -
  let ?sv = "run_requests env pr ver qs (new_server cfg wo)"
  obtain sv1 sv2 where load: "load_config env sv1 = (Inr (), sv2)" and same: "server_driver sv = server_driver sv2"
    using assms by (auto simp: initialize_def step_ok log_event_def split: prod.splits option.splits)
  have "server_driver sv \<noteq> None" unfolding same using load by (rule load_config_ok)
  moreover have "server_ok sv"
    using keptD [OF handle_request_kept [of env pr ver "Initialize ps"]
        run_requests_ok [OF server_ok_new, THEN conjunct1, of env pr ver qs cfg wo]] assms
    by (simp add: runs_def)
  ultimately show ?thesis using run_requests_ok [of sv env pr ver qs'] by (simp add: equipped_def)
qed

section \<open>Indexing again\<close>

lemma entries_index_path:
  "entries (symbol_files (index_path p new ix)) n =
     entries (symbol_files ix) n @
     List.map (symbol_at p) (filter (\<lambda>s. symbol_name s = n) (path_symbols new))"
  by (simp add: index_path_def add_entries_lookup)

lemma files_add_documents:
  "files_for_symbol (add_documents disk ps ix) n =
     files_for_symbol ix n @ files_for_symbol (add_documents disk ps empty_indexer) n"
proof -
  have "\<exists>found. \<forall>ix. entries (symbol_files (fold (\<lambda>(p, f) ix. index_path p f ix) pfs ix)) n =
      entries (symbol_files ix) n @ found" for pfs
  proof (induction pfs)
    case (Cons pf pfs)
    then obtain found where "\<forall>ix. entries (symbol_files (fold (\<lambda>(p, f) ix. index_path p f ix) pfs ix)) n =
      entries (symbol_files ix) n @ found" by blast
    then show ?case by (cases pf) (auto simp: entries_index_path)
  qed simp
  then obtain found where "\<And>ix. entries (symbol_files (add_documents disk ps ix)) n =
      entries (symbol_files ix) n @ found"
    unfolding add_documents_def by blast
  then show ?thesis by (simp add: files_for_symbol_def empty_indexer_def)
qed

lemma files_indexed_again:
  "files_for_symbol (indexed_again cfg wo ws ix) n =
     files_for_symbol ix n @ files_for_symbol (indexed_again cfg wo ws empty_indexer) n"
  unfolding indexed_again_def start_indexing_def start_indexing_globs_def Let_def
  by (simp add: files_add_documents [symmetric])

text \<open>
  C35: Every reload indexes the workspace once more on top of the index it has. After the
  configuration was loaded and loaded again, with nothing changed in between, each file is listed
  twice for every symbol it declares.
\<close>

theorem reload_lists_files_twice:
  assumes "load_config env sv = (Inr x, sv1)" and "reload_config env sv1 = (Inr y, sv2)"
    and "build_file sv1 \<noteq> Some []"
  shows "\<exists>found. found = files_for_symbol
        (indexed_again (server_config sv2) (world_state sv) (workspace_folder sv) empty_indexer) n
    \<and> files_containing_module n sv2 = files_containing_module n sv @ found @ found"
proof -
  obtain c1 e1 where c1: "config_read env sv = Inr (c1, e1)"
    "server_config sv1 = resolve_work_dir env (workspace_path sv) c1"
    "workspace_folder sv1 = workspace_folder sv" "world_state sv1 = world_state sv"
    "server_index sv1 = indexed_again (server_config sv1) (world_state sv) (workspace_folder sv) (server_index sv)"
    using assms(1) by (rule load_config_ok)
  obtain c2 e2 where c2: "config_read env sv1 = Inr (c2, e2)"
    "server_config sv2 = resolve_work_dir env (workspace_path sv1) c2"
    "server_index sv2 = indexed_again (server_config sv2) (world_state sv1) (workspace_folder sv1) (server_index sv1)"
    using assms(2,3) by (rule reload_config_ok)
  have ws: "workspace_path sv1 = workspace_path sv" by (simp add: workspace_path_def c1(3))
  have "config_read env sv1 = config_read env sv" by (simp add: config_read_def ws c1(4))
  then have "server_config sv2 = server_config sv1" using c1(1,2) c2(1,2) ws by simp
  then have "server_index sv2 = indexed_again (server_config sv2) (world_state sv) (workspace_folder sv)
      (indexed_again (server_config sv2) (world_state sv) (workspace_folder sv) (server_index sv))"
    using c1(3-5) c2(3) by (simp only:)
  then have "files_containing_module n sv2 = (files_containing_module n sv
      @ files_for_symbol (indexed_again (server_config sv2) (world_state sv) (workspace_folder sv) empty_indexer) n)
      @ files_for_symbol (indexed_again (server_config sv2) (world_state sv) (workspace_folder sv) empty_indexer) n"
    by (simp only: files_containing_module_def files_indexed_again [of _ _ _ "server_index sv"]
        files_indexed_again [of _ _ _ "indexed_again _ _ _ (server_index sv)"])
  then show ?thesis by simp
qed

section \<open>Watched files\<close>

text \<open>
  A notification in which one of the files is a configuration file, of whatever program, or an
  active build file reloads the configuration and does nothing else: the source files that changed
  with it reach neither the open documents nor the index.
\<close>

lemma reload_drops_other_changes:
  assumes "server_driver sv = Some w" and "needs_reload env (library w) c" and "c \<in> set changes"
  shows "watched_files_event env changes sv =
     reload_config env (sv\<lparr>server_driver := Some (w\<lparr>workspace_index := server_index sv\<rparr>)\<rparr>)"
proof -
  have "list_ex (needs_reload env (library w)) changes"
    using assms(2,3) by (auto simp: list_ex_iff)
  moreover have "on_driver (look library) sv =
      (Inr (library w), sv\<lparr>server_driver := Some (w\<lparr>workspace_index := server_index sv\<rparr>)\<rparr>)"
    using assms(1) by (simp add: on_driver_def look_def Let_def sent_since_def)
  ultimately show ?thesis
    by (simp add: watched_files_event_def and_then_def)
qed

section \<open>Symbols\<close>

lemma fuzzy_subseq: "fuzzy_match q cand = subseq (List.map to_lower q) (List.map to_lower cand)"
  by (induction q cand rule: fuzzy_match.induct) auto

text \<open>
  C36: A symbol of the workspace is offered exactly when the query, case ignored, is a subsequence
  of its name; the symbols keep the order of the index and lead to the file that declares them.
\<close>

theorem workspace_symbols_exact:
  "workspace_symbols q sv =
     List.map (\<lambda>(n, l). (n, from_file (loc_uri l), to_symbol_kind (loc_kind l)))
       (filter (\<lambda>(n, l). subseq (List.map to_lower q) (List.map to_lower n))
         (each_symbol (server_index sv)))"
proof -
  have "(q = [] \<or> fuzzy_match q n) = subseq (List.map to_lower q) (List.map to_lower n)" for n
    by (cases q) (simp_all add: fuzzy_subseq)
  then show ?thesis unfolding workspace_symbols_def by simp
qed

section \<open>Adding a define\<close>

text \<open>The object of the local configuration file, empty if there is none that reads.\<close>

definition local_object ::
    "('s, 't, 'a, 'k, 'c) environment \<Rightarrow> string \<Rightarrow> ('s, 't, 'a, 'k) slang_server \<Rightarrow> json_object" where
  "local_object env f sv =
     (case Option.bind (Option.bind (texts (world_state sv) (local_config f)) (read_relaxed env)) to_object of
        None \<Rightarrow> [] | Some ob \<Rightarrow> ob)"

text \<open>The flags that are to be in the file: those that were, a blank, and the define.\<close>

fun flags_and_define :: "json option \<Rightarrow> string \<Rightarrow> string" where
  "flags_and_define (Some (JsonString [])) m = ''-D'' @ m"
| "flags_and_define (Some (JsonString old)) m = old @ '' -D'' @ m"
| "flags_and_define _ m = ''-D'' @ m"

lemma with_define_fields:
  "map_of (with_define m ob) = (map_of ob)(''flags'' \<mapsto> JsonString (flags_and_define (map_of ob ''flags'') m))"
proof -
  have "(case to_string_value (lookup_field ob ''flags'') of None \<Rightarrow> [] | Some f \<Rightarrow> f) = [] \<and>
      flags_and_define (map_of ob ''flags'') m = ''-D'' @ m
    \<or> (\<exists>c old. map_of ob ''flags'' = Some (JsonString (c # old)))"
    by (cases "map_of ob ''flags''" rule: flags_and_define.cases [of "(_, m)", unfolded prod.inject, simplified])
      (auto simp: lookup_field_def)
  then show ?thesis
    by (auto simp: with_define_def Let_def AList.update_conv' lookup_field_def)
qed

lemma fields_flags:
  "map_of ob ''flags'' = Some (JsonString t) \<Longrightarrow> extract_flags (Some ob) = t"
  by (simp add: extract_flags_def lookup_field_def)

lemma flags_and_define_not_empty: "flags_and_define old m \<noteq> []"
  by (cases "(old, m)" rule: flags_and_define.cases) simp_all

lemma merged_flags_suffix: "local \<noteq> [] \<Longrightarrow> suffix local (merged_flags ws user local)"
  by (auto simp: merged_flags_def Let_def suffix_def)

lemma resolve_work_dir_flags [simp]: "config_flags (resolve_work_dir env ws cfg) = config_flags cfg"
  by (simp add: resolve_work_dir_def Let_def split: option.split)

text \<open>
  C22: A define that was added takes effect. When \<^verbatim>\<open>addDefine\<close> succeeds, the local configuration
  file holds an object with all the fields that were there, except that its flags are those that
  were there, a blank and the define, or the define alone if there were none, and no other file
  changed; the flags the server now uses end with the flags of that file. Provided that writing
  writes, that the JSON library reads the object it wrote there and finds nothing wrong with it, and
  that the merged configuration is a valid one.
\<close>

theorem added_define_reaches_flags:
  assumes "add_define env m sv = (Inr x, sv')" and "workspace_path sv = Some f"
    and "build_file sv \<noteq> Some []"
    and "\<And>p t wo wo'. write_text env p t wo = Inr wo' \<Longrightarrow> texts wo' = (texts wo)(p \<mapsto> t)"
    and "\<And>ob. texts (world_state sv') (local_config f) = Some (write_json env (JsonObject ob)) \<Longrightarrow>
      schema_error (config_library env) (write_json env (JsonObject ob)) = None
      \<and> parse_json (config_library env) (write_json env (JsonObject ob)) = Inr (JsonObject ob)"
    and "server_config sv' \<noteq> resolve_work_dir env (Some f) (default_config (config_library env))"
  shows "\<exists>ob flags. flags = flags_and_define (map_of (local_object env f sv) ''flags'') m
    \<and> texts (world_state sv') = (texts (world_state sv))(local_config f \<mapsto> write_json env (JsonObject ob))
    \<and> map_of ob = (map_of (local_object env f sv))(''flags'' \<mapsto> JsonString flags)
    \<and> suffix flags (config_flags (server_config sv'))"
proof -
  let ?ob = "with_define m (local_object env f sv)"
  let ?flags = "flags_and_define (map_of (local_object env f sv) ''flags'') m"
  obtain wo where wo: "write_text env (local_config f) (write_json env (JsonObject ?ob)) (world_state sv) = Inr wo"
    and reload: "reload_config env (sv\<lparr>world_state := wo\<rparr>) = (Inr x, sv')"
    using assms(1,2) unfolding local_object_def
    by (auto simp: add_define_def step_ok Let_def split: sum.splits)
  have b: "build_file (sv\<lparr>world_state := wo\<rparr>) \<noteq> Some []" using assms(3) by simp
  obtain cfg errs where c: "config_read env (sv\<lparr>world_state := wo\<rparr>) = Inr (cfg, errs)"
    "server_config sv' = resolve_work_dir env (workspace_path (sv\<lparr>world_state := wo\<rparr>)) cfg"
    "world_state sv' = world_state (sv\<lparr>world_state := wo\<rparr>)"
    using reload b by (rule reload_config_ok)
  have ws: "workspace_path (sv\<lparr>world_state := wo\<rparr>) = Some f" using assms(2) by (simp add: workspace_path_def)
  have t: "texts wo = (texts (world_state sv))(local_config f \<mapsto> write_json env (JsonObject ?ob))"
    by (rule assms(4) [OF wo])
  have "texts (world_state sv') (local_config f) = Some (write_json env (JsonObject ?ob))" using c(3) t by simp
  then have ob: "file_object (config_library env) (texts wo) (Some (local_config f)) = Some ?ob"
    using assms(5) by (simp add: file_object_def t)
  have valid: "cfg \<noteq> default_config (config_library env)" using c(2) ws assms(6) by auto
  have read: "from_files (config_library env) (texts wo) (Some (workspace_config f)) (user_config env)
      (Some (local_config f)) = Inr (cfg, errs)"
    using c(1) by (simp add: config_read_def ws)
  have local: "extract_flags (Some ?ob) = ?flags" by (rule fields_flags) (simp add: with_define_fields)
  from from_files_flags [OF read] valid have flags: "config_flags cfg = merged_flags
      (extract_flags (file_object (config_library env) (texts wo) (Some (workspace_config f))))
      (extract_flags (file_object (config_library env) (texts wo) (user_config env))) ?flags"
    by (simp only: ob local simp_thms)
  have "suffix ?flags (config_flags cfg)"
    unfolding flags by (rule merged_flags_suffix) (rule flags_and_define_not_empty)
  then show ?thesis using c(2,3) t by (auto intro!: exI [of _ ?ob] simp: with_define_fields)
qed

section \<open>Examples\<close>

text \<open>
  A configuration file holds flags when it starts with a dash, and the name of a build file
  otherwise; there is one module, in \<^verbatim>\<open>/w/m.sv\<close>.
\<close>

definition tiny_config :: "json_object \<Rightarrow> settings config" where
  "tiny_config ob =
     \<lparr>config_builds = [], config_build_pattern = None, config_flags = [], config_flags_by_file = [],
      config_rest = \<lparr>work_dir = None, build_setting = to_string_value (lookup_field ob ''build''),
        build_relative = False, legacy_globs = [], legacy_exclude_dirs = [], index_settings = [],
        wcp_command = None, resolve_include_fragments = True\<rparr>\<rparr>"

definition tiny_json :: "string \<Rightarrow> json" where
  "tiny_json t = JsonObject [(if starts_with t ''-'' then ''flags'' else ''build'', JsonString t)]"

definition tiny_environment :: "(unit, nat list, unit, unit, nat) environment" where
  "tiny_environment =
     \<lparr>front_end_for = (\<lambda>cfg caps. headers),
      config_library = \<lparr>schema_error = (\<lambda>t. None), parse_json = (\<lambda>t. Inr (tiny_json t)),
        from_generic = (\<lambda>ob. Inr (tiny_config ob)), default_object = [], default_config = tiny_config []\<rparr>,
      home_dir = None, under_tests = False, normal_path = id,
      read_relaxed = (\<lambda>t. Some (tiny_json t)),
      write_json = (\<lambda>j. case j of JsonObject [(k, JsonString t)] \<Rightarrow> if tiny_json t = j then t else [] | _ \<Rightarrow> []),
      write_text = (\<lambda>p t wo. Inr (wo\<lparr>texts := (texts wo)(p \<mapsto> t)\<rparr>)),
      empty_library = (\<lambda>wo. ()), enter_dir = (\<lambda>d s. (None, s)), leave_dir = id,
      parse_command_line = (\<lambda>p t s. (True, s)), process_options = (\<lambda>s. (True, s)),
      process_command_file = (\<lambda>f r s. (True, s)), parse_all_sources = (\<lambda>s. ([], s)),
      is_command_file = (\<lambda>s p. False),
      connect_viewer = (\<lambda>c wo. new_wcp_client []), viewer_json = sample_json,
      vformat = (\<lambda>p a. Inr p)\<rparr>"

definition tiny_world :: "(string \<Rightarrow> string option) \<Rightarrow> world" where
  "tiny_world t =
     \<lparr>texts = t, sources_on_disk = (\<lambda>p. if p = ''/w/m.sv'' then Readable (module_file ''m'' []) else Absent),
      directories = (\<lambda>d. if d = ''/w'' then Some (Directory ''/w'' [RegularFile ''/w/m.sv'']) else None),
      globbed = (\<lambda>g. None)\<rparr>"

definition tiny_server :: "(string \<Rightarrow> string option) \<Rightarrow> (unit, nat list, unit, unit) slang_server" where
  "tiny_server t = (new_server (tiny_config []) (tiny_world t))\<lparr>workspace_folder := Some (from_file ''/w'')\<rparr>"

text \<open>The build file \<^verbatim>\<open>a.f\<close> of the configuration outlives its replacement by \<^verbatim>\<open>b.f\<close>.\<close>

definition build_edited :: "(unit, nat list, unit, unit) slang_server" where
  "build_edited =
     (snd (load_config tiny_environment (tiny_server [''/w/.slang/server.json'' \<mapsto> ''a.f''])))
       \<lparr>world_state := tiny_world [''/w/.slang/server.json'' \<mapsto> ''b.f'']\<rparr>"

lemma build_edited_reloads:
  "fst (reload_config tiny_environment build_edited) = Inr ()"
  by code_simp

theorem reload_puts_build_back_witness:
  "build_file build_edited = Some ''a.f'' \<and>
   build_file (snd (reload_config tiny_environment build_edited)) = Some ''a.f'' \<and>
   build_setting (config_rest (server_config (snd (reload_config tiny_environment build_edited)))) = Some ''b.f''"
proof -
  have step: "reload_config tiny_environment build_edited =
      (Inr (), snd (reload_config tiny_environment build_edited))"
    by (simp add: build_edited_reloads prod_eq_iff)
  have b: "build_file build_edited = Some ''a.f''" by code_simp
  have r: "config_read tiny_environment build_edited = Inr (tiny_config [(''build'', JsonString ''b.f'')]
      \<lparr>config_build_pattern := Some ''**/*.f''\<rparr>, [])"
    by code_simp
  from reload_puts_build_back [OF step] b r show ?thesis
    by (simp add: resolve_work_dir_def tiny_config_def lookup_field_def)
qed

definition defining :: "(unit, nat list, unit, unit) slang_server" where
  "defining = tiny_server [local_config ''/w'' \<mapsto> ''-DA'']"

theorem added_define_reaches_flags_witness:
  "(let sv = snd (add_define tiny_environment ''B'' defining)
    in texts (world_state sv) (local_config ''/w'') = Some ''-DA -DB'' \<and>
       suffix ''-DA -DB'' (config_flags (server_config sv)))"
proof -
  let ?sv = "snd (add_define tiny_environment ''B'' defining)"
  have "fst (add_define tiny_environment ''B'' defining) = Inr ()" by code_simp
  then have step: "add_define tiny_environment ''B'' defining = (Inr (), ?sv)" by (simp add: prod_eq_iff)
  have ws: "workspace_path defining = Some ''/w''" by code_simp
  have ob: "local_object tiny_environment ''/w'' defining = [(''flags'', JsonString ''-DA'')]" by code_simp
  have flags: "config_flags (server_config ?sv) = ''-DA -DB''" by code_simp
  have written: "texts (world_state ?sv) (local_config ''/w'') = Some ''-DA -DB''" by code_simp
  have "\<exists>ob flags. flags = flags_and_define (map_of (local_object tiny_environment ''/w'' defining) ''flags'') ''B''
    \<and> texts (world_state ?sv) = (texts (world_state defining))(local_config ''/w'' \<mapsto>
        write_json tiny_environment (JsonObject ob))
    \<and> map_of ob = (map_of (local_object tiny_environment ''/w'' defining))(''flags'' \<mapsto> JsonString flags)
    \<and> suffix flags (config_flags (server_config ?sv))"
  proof (rule added_define_reaches_flags [OF step ws])
    show "build_file defining \<noteq> Some []" by (simp add: defining_def tiny_server_def new_server_def)
    show "server_config ?sv \<noteq> resolve_work_dir tiny_environment (Some ''/w'')
        (default_config (config_library tiny_environment))"
      using arg_cong [of "server_config ?sv" _ config_flags] flags
      by (auto simp: tiny_environment_def tiny_config_def)
    show "texts wo' = (texts wo)(p \<mapsto> t)" if "write_text tiny_environment p t wo = Inr wo'" for p t wo wo'
      using that by (auto simp: tiny_environment_def)
    show "schema_error (config_library tiny_environment) (write_json tiny_environment (JsonObject ob)) = None
      \<and> parse_json (config_library tiny_environment) (write_json tiny_environment (JsonObject ob)) = Inr (JsonObject ob)"
      if "texts (world_state ?sv) (local_config ''/w'') = Some (write_json tiny_environment (JsonObject ob))" for ob
      using that unfolding written
      by (auto simp: tiny_environment_def split: if_splits list.splits prod.splits json.splits)
  qed
  then show ?thesis using ob written by (auto simp: Let_def)
qed

definition first_load :: "(unit, nat list, unit, unit) slang_server" where
  "first_load = tiny_server [''/w/.slang/server.json'' \<mapsto> ''a.f'']"

theorem reload_lists_files_twice_witness:
  "(let sv = snd (reload_config tiny_environment (snd (load_config tiny_environment first_load)))
    in files_containing_module ''m'' sv = [''/w/m.sv'', ''/w/m.sv''])"
proof -
  let ?sv1 = "snd (load_config tiny_environment first_load)"
  let ?sv2 = "snd (reload_config tiny_environment ?sv1)"
  have one: "load_config tiny_environment first_load = (Inr (), ?sv1)"
    and two: "reload_config tiny_environment ?sv1 = (Inr (), ?sv2)"
    and b: "build_file ?sv1 = Some ''a.f''"
    by (simp_all add: prod_eq_iff) (code_simp+)
  have c: "config_rest (server_config ?sv2) = config_rest (tiny_config [(''build'', JsonString ''a.f'')])"
    by code_simp
  have found: "files_for_symbol (indexed_again (server_config ?sv2) (world_state first_load)
      (workspace_folder first_load) empty_indexer) ''m'' = [''/w/m.sv'']"
    unfolding indexed_again_def c by code_simp
  have none: "files_containing_module ''m'' first_load = []" by code_simp
  show ?thesis
    using reload_lists_files_twice [OF one two, of "''m''"] b by (simp add: found none Let_def)
qed

definition idle_server :: "(unit, nat list, unit, unit) slang_server" where
  "idle_server = first_load\<lparr>server_driver := Some (new_driver () empty_indexer [])\<rparr>"

lemma reload_drops_other_changes_witness:
  "watched_files_event tiny_environment
     [(from_file ''/w/m.sv'', FileChanged), (from_file ''/w/package.json'', FileChanged)] idle_server =
   reload_config tiny_environment
     (idle_server\<lparr>server_driver := Some ((new_driver () empty_indexer [])
        \<lparr>workspace_index := server_index idle_server\<rparr>)\<rparr>)"
proof (rule reload_drops_other_changes)
  show "server_driver idle_server = Some (new_driver () empty_indexer [])" by (simp add: idle_server_def)
  show "needs_reload tiny_environment (library (new_driver () empty_indexer []))
      (from_file ''/w/package.json'', FileChanged)"
    by code_simp
qed simp

definition rooted :: initialize_params where
  "rooted = \<lparr>workspace_folders = None, root_uri = None, root_path = Some ''/w'', link_support = None,
     resolve_properties = None, inactive_regions_client = None,
     slang_client = Some (Some ''x'', Some ''v0.2.9'')\<rparr>"

theorem initialized_server_has_driver_witness:
  "server_driver (run_requests tiny_environment (\<lambda>i. ''?'') (0, 3) [AddDefine ''A'']
     (snd (handle_request tiny_environment (\<lambda>i. ''?'') (0, 3) (Initialize rooted)
        (run_requests tiny_environment (\<lambda>i. ''?'') (0, 3) []
           (new_server (tiny_config []) (tiny_world Map.empty)))))) \<noteq> None"
proof (rule initialized_server_has_driver [where qs = "[]" and ps = rooted and env = tiny_environment])
  have "fst (handle_request tiny_environment (\<lambda>i. ''?'') (0, 3) (Initialize rooted)
        (run_requests tiny_environment (\<lambda>i. ''?'') (0, 3) []
           (new_server (tiny_config []) (tiny_world Map.empty)))) = Inr ()"
    by code_simp
  then show "handle_request tiny_environment (\<lambda>i. ''?'') (0, 3) (Initialize rooted)
        (run_requests tiny_environment (\<lambda>i. ''?'') (0, 3) []
           (new_server (tiny_config []) (tiny_world Map.empty))) =
     (Inr (), snd (handle_request tiny_environment (\<lambda>i. ''?'') (0, 3) (Initialize rooted)
        (run_requests tiny_environment (\<lambda>i. ''?'') (0, 3) []
           (new_server (tiny_config []) (tiny_world Map.empty)))))"
    by (simp only: prod_eq_iff fst_conv snd_conv simp_thms)
qed

text \<open>An old client is told so.\<close>

lemma old_client_warned:
  "event_log (snd (initialize tiny_environment (\<lambda>i. if i = 0 then ''0'' else ''3'') (0, 3) rooted
      (new_server (tiny_config []) (tiny_world Map.empty)))) =
   [ConfigSent (resolve_work_dir tiny_environment (Some ''/w'')
      (tiny_config []\<lparr>config_build_pattern := Some ''**/*.f''\<rparr>)),
    WarningShown ''x vv0.2.9 is older than the server requirement 0.3.x. Please update x.'']"
  by code_simp

end
