(* ===== verification/HierView.thy ===== *)
theory HierView
  imports Converters
begin

text \<open>
  The items of the hierarchy view, \<^verbatim>\<open>ast/HierarchicalView.h\<close>: what a scope of the elaborated
  design shows. The design of the slang library is given by what the code reads of it, as a tree:
  the members of a scope, and for an interface port the interfaces it is connected to. Instances are
  not followed: their children are asked for later, and a cheap probe says whether there are any.
\<close>

section \<open>The design\<close>

datatype definition_kind = ModuleDef | InterfaceDef | ProgramDef

record definition_info =
  definition_name :: string
  definition_kind_of :: definition_kind
  definition_range :: source_range

record dims =
  dims_left :: int
  dims_descending :: bool
  dims_width :: nat
  dims_text :: string

record port_info =
  iface_port_name :: string
  iface_port_range :: source_range
  interface_name :: "string option"
  port_modport :: string
  connected_modport :: "string option"
  declared_dims :: "dims option"

text \<open>
  An interface port has the interface instance it is connected to, those of an array it is
  connected to, and the default instance of its interface. An interface has its members and the
  members of its modports. An entry of a generate array has its index. Only type parameters may
  lack syntax.
\<close>

datatype design_symbol =
    InstanceSymbol string "source_range option" definition_info "design_symbol list"
  | InstanceArraySymbol string source_range dims "design_symbol list"
  | ParameterSymbol string source_range string string
  | TypeParameterSymbol string "source_range option" source_loc "string option"
  | ValueSymbol string source_range bool string
  | InterfacePortSymbol port_info "interface option" "interface option list" "interface option"
  | GenerateBlockSymbol bool string source_range "design_symbol list"
  | GenerateArraySymbol string source_range "(nat \<times> source_range \<times> design_symbol list) list"
  | OtherSymbol
and interface = Interface "design_symbol list" "(string \<times> design_symbol list) list"

section \<open>Items\<close>

datatype decl_kind = ModuleDecl | InterfaceDecl | ProgramDecl | PackageDecl

datatype slang_kind =
    InstanceKind | ScopeKind | ScopeArrayKind | InterfacePortKind | InterfacePortArrayKind
  | PortKind | ParamKind | LogicKind | InstanceArrayKind | PackageKind

datatype hier_item =
    VarItem (item_kind: slang_kind) (item_name: string) (item_location: lsp_location)
      (item_expansion: "bool option") (var_type: string) (var_value: "string option")
  | ScopeItem (item_kind: slang_kind) (item_name: string) (item_location: lsp_location)
      (item_expansion: "bool option") (scope_type: "string option") (item_children: "hier_item list")
  | InstanceItem (item_kind: slang_kind) (item_name: string) (item_location: lsp_location)
      (item_expansion: "bool option") (decl_name: string) (decl_location: lsp_location)
      (decl_kind_of: decl_kind) (has_children: bool) (item_children: "hier_item list")

definition range_expansion :: "source_manager \<Rightarrow> source_range \<Rightarrow> bool option" where
  "range_expansion sm r =
     (if buffer_valid sm (loc_buffer (fst r)) \<and> full_path sm (loc_buffer (fst r)) = []
      then Some True else None)"

definition symbol_expansion :: "source_manager \<Rightarrow> source_range option \<Rightarrow> source_loc \<Rightarrow> bool option" where
  "symbol_expansion sm syn loc =
     (case syn of
        Some r \<Rightarrow> range_expansion sm r
      | None \<Rightarrow> if buffer_valid sm (loc_buffer loc) \<and> full_path sm (loc_buffer loc) = []
                then Some True else None)"

definition int_string :: "int \<Rightarrow> string" where
  "int_string i = (if i < 0 then CHR ''-'' # nat_to_string (nat (- i)) else nat_to_string (nat i))"

definition bracketed :: "string \<Rightarrow> string" where
  "bracketed s = CHR ''['' # s @ '']''"

text \<open>The probe: is there a member the view would show? It stops at the first one.\<close>

fun visible_member :: "design_symbol \<Rightarrow> bool" where
  "visible_member (InstanceSymbol n r d ms) = True"
| "visible_member (InstanceArraySymbol n r d es) = True"
| "visible_member (ParameterSymbol n r t v) = True"
| "visible_member (TypeParameterSymbol n r l v) = False"
| "visible_member (ValueSymbol n r p t) = True"
| "visible_member (InterfacePortSymbol p c es f) = True"
| "visible_member (GenerateBlockSymbol u n r ms) = True"
| "visible_member (GenerateArraySymbol n r es) = True"
| "visible_member OtherSymbol = False"

definition has_visible_children :: "design_symbol list \<Rightarrow> bool" where
  "has_visible_children ms = list_ex visible_member ms"

fun to_decl_kind :: "definition_kind \<Rightarrow> decl_kind" where
  "to_decl_kind InterfaceDef = InterfaceDecl"
| "to_decl_kind ProgramDef = ProgramDecl"
| "to_decl_kind ModuleDef = ModuleDecl"

definition instance_range :: "source_range option \<Rightarrow> definition_info \<Rightarrow> source_range" where
  "instance_range r d = (case r of Some r \<Rightarrow> r | None \<Rightarrow> definition_range d)"

text \<open>\<open>filled\<close> are the children, if they are wanted.\<close>

definition to_instance ::
    "source_manager \<Rightarrow> string \<Rightarrow> source_range option \<Rightarrow> definition_info \<Rightarrow> design_symbol list \<Rightarrow>
     hier_item list option \<Rightarrow> hier_item" where
  "to_instance sm name r d ms filled =
     InstanceItem InstanceKind name (range_to_location sm (instance_range r d))
       (range_expansion sm (instance_range r d)) (definition_name d)
       (range_to_location sm (definition_range d)) (to_decl_kind (definition_kind_of d))
       (case filled of Some cs \<Rightarrow> cs \<noteq> [] | None \<Rightarrow> has_visible_children ms)
       (case filled of Some cs \<Rightarrow> cs | None \<Rightarrow> [])"

section \<open>Instance arrays\<close>

fun array_elements :: "source_manager \<Rightarrow> int \<Rightarrow> int \<Rightarrow> design_symbol list \<Rightarrow> hier_item list" where
  "array_elements sm idx step [] = []"
| "array_elements sm idx step (InstanceSymbol n r d ms # es) =
     to_instance sm (bracketed (int_string idx)) r d ms None # array_elements sm (idx + step) step es"
| "array_elements sm idx step (e # es) = array_elements sm idx step es"

definition dims_step :: "dims \<Rightarrow> int" where
  "dims_step d = (if dims_descending d then - 1 else 1)"

definition instance_array_children :: "source_manager \<Rightarrow> dims \<Rightarrow> design_symbol list \<Rightarrow> hier_item list" where
  "instance_array_children sm d es = array_elements sm (dims_left d) (dims_step d) es"

definition instance_array_items ::
    "source_manager \<Rightarrow> string \<Rightarrow> source_range \<Rightarrow> dims \<Rightarrow> design_symbol list \<Rightarrow> hier_item list" where
  "instance_array_items sm name r d es =
     (case instance_array_children sm d es of
        [] \<Rightarrow> []
      | first # rest \<Rightarrow>
          [InstanceItem InstanceArrayKind name (range_to_location sm r) (range_expansion sm r)
             (decl_name first @ dims_text d) (decl_location first) (decl_kind_of first) True
             (first # rest)])"

section \<open>Interface ports\<close>

text \<open>
  The items of an interface, and those of each modport. The scope of a port is the modport it is
  connected through, else the one it names, else the interface.
\<close>

type_synonym interface_view = "hier_item list \<times> (string \<times> hier_item list) list"

definition port_scope :: "port_info \<Rightarrow> interface_view option \<Rightarrow> interface_view option \<Rightarrow> hier_item list option" where
  "port_scope p connected fallback =
     (case (case connected of Some v \<Rightarrow> Some v | None \<Rightarrow> if interface_name p = None then None else fallback) of
        None \<Rightarrow> None
      | Some (items, modports) \<Rightarrow>
          Some (case connected_modport p of
                  Some m \<Rightarrow> (case map_of modports m of Some ms \<Rightarrow> ms | None \<Rightarrow> items)
                | None \<Rightarrow>
                    if port_modport p \<noteq> [] then
                      (case map_of modports (port_modport p) of Some ms \<Rightarrow> ms | None \<Rightarrow> items)
                    else items))"

definition port_element_children ::
    "port_info \<Rightarrow> interface_view option \<Rightarrow> interface_view option \<Rightarrow> hier_item list" where
  "port_element_children p connected fallback =
     (case port_scope p connected fallback of None \<Rightarrow> [] | Some items \<Rightarrow> items)"

definition interface_port_type :: "port_info \<Rightarrow> string" where
  "interface_port_type p =
     (let base = (case interface_name p of None \<Rightarrow> [] | Some n \<Rightarrow> n)
      in if port_modport p = [] then base
         else (if base = [] then [] else base @ ''.'') @ port_modport p)"

definition interface_port_children ::
    "source_manager \<Rightarrow> port_info \<Rightarrow> interface_view option \<Rightarrow> interface_view option list \<Rightarrow>
     interface_view option \<Rightarrow> hier_item list" where
  "interface_port_children sm p direct elements fallback =
     (case declared_dims p of
        Some d \<Rightarrow>
          List.map (\<lambda>i. ScopeItem InterfacePortKind
              (bracketed (int_string (dims_left d + int i * dims_step d)))
              (range_to_location sm (iface_port_range p)) (range_expansion sm (iface_port_range p))
              (Some (interface_port_type p))
              (port_element_children p (if i < length elements then elements ! i else None) fallback))
            [0..<dims_width d]
      | None \<Rightarrow> port_element_children p direct fallback)"

definition interface_port_item ::
    "source_manager \<Rightarrow> port_info \<Rightarrow> interface_view option \<Rightarrow> interface_view option list \<Rightarrow>
     interface_view option \<Rightarrow> hier_item" where
  "interface_port_item sm p direct elements fallback =
     ScopeItem (case declared_dims p of None \<Rightarrow> InterfacePortKind | Some d \<Rightarrow> InterfacePortArrayKind)
       (iface_port_name p) (range_to_location sm (iface_port_range p))
       (range_expansion sm (iface_port_range p)) (Some (interface_port_type p))
       (interface_port_children sm p direct elements fallback)"

section \<open>Scopes\<close>

definition block_scope_items ::
    "source_manager \<Rightarrow> string \<Rightarrow> source_range \<Rightarrow> hier_item list \<Rightarrow> hier_item list" where
  "block_scope_items sm name r children =
     (if children = [] then []
      else [ScopeItem ScopeKind name (range_to_location sm r) (range_expansion sm r) None children])"

text \<open>What a member of a scope adds to the list, and the views of an interface.\<close>

fun symbol_items :: "source_manager \<Rightarrow> design_symbol \<Rightarrow> hier_item list"
and interface_view :: "source_manager \<Rightarrow> interface \<Rightarrow> interface_view" where
  "symbol_items sm (InstanceSymbol n r d ms) = [to_instance sm n r d ms None]"
| "symbol_items sm (ParameterSymbol n r t v) =
     [VarItem ParamKind n (range_to_location sm r) (range_expansion sm r) t (Some v)]"
| "symbol_items sm (TypeParameterSymbol n r l v) =
     [VarItem ParamKind n (case r of Some r \<Rightarrow> range_to_location sm r | None \<Rightarrow> loc_to_location sm l)
        (symbol_expansion sm r l) ''type'' v]"
| "symbol_items sm (ValueSymbol n r p t) =
     [VarItem (if p then PortKind else LogicKind) n (range_to_location sm r) (range_expansion sm r) t None]"
| "symbol_items sm (InterfacePortSymbol p c es f) =
     [interface_port_item sm p (map_option (interface_view sm) c)
        (List.map (map_option (interface_view sm)) es) (map_option (interface_view sm) f)]"
| "symbol_items sm (GenerateBlockSymbol u n r ms) =
     (if u then [] else block_scope_items sm n r (concat (List.map (symbol_items sm) ms)))"
| "symbol_items sm (GenerateArraySymbol n r es) =
     (let entries = concat (List.map (\<lambda>(i, r, ms).
            block_scope_items sm (bracketed (nat_to_string i)) r (concat (List.map (symbol_items sm) ms))) es)
      in if entries = [] then []
         else [ScopeItem ScopeArrayKind n (range_to_location sm r) (range_expansion sm r) None entries])"
| "symbol_items sm (InstanceArraySymbol n r d es) = instance_array_items sm n r d es"
| "symbol_items sm OtherSymbol = []"
| "interface_view sm (Interface ms mps) =
     (concat (List.map (symbol_items sm) ms),
      List.map (\<lambda>(n, ms). (n, concat (List.map (symbol_items sm) ms))) mps)"

definition scope_children :: "source_manager \<Rightarrow> design_symbol list \<Rightarrow> hier_item list" where
  "scope_children sm ms = concat (List.map (symbol_items sm) ms)"

end
