(* ===== verification/Hierarchy.thy ===== *)
theory Hierarchy
  imports HierView "HOL-Library.List_Lexorder" "HOL-Library.Product_Lexorder"
begin

text \<open>
  The hierarchy queries of \<^verbatim>\<open>ast/ServerCompilation.cpp\<close>: the children of a scope found by its
  path, the scopes along a path, and the search over all items. The lookup of a path in the design
  is the library's, and a part of the record \<open>elaborated\<close>.
\<close>

section \<open>Scopes by path\<close>

record package_info =
  package_name :: string
  package_range :: "source_range option"
  package_members :: "design_symbol list"

datatype found_symbol = MemberFound design_symbol | PackageFound package_info

text \<open>
  \<open>lookup_path\<close> is what a hierarchical path leads to; the library's parser may throw on a text that
  is no path, and what a request does then is left out. \<open>lookup_steps\<close> the symbols on the way with
  their address and path; \<open>top_members\<close> are instances.
\<close>

record elaborated =
  top_members :: "design_symbol list"
  packages :: "package_info list"
  lookup_path :: "string \<Rightarrow> found_symbol option"
  lookup_steps :: "string \<Rightarrow> (nat \<times> string \<times> found_symbol) list"
  package_named :: "string \<Rightarrow> package_info option"

definition lookup_symbol :: "elaborated \<Rightarrow> string \<Rightarrow> found_symbol option" where
  "lookup_symbol d p = (if p = [] then None else lookup_path d p)"

definition package_items :: "source_manager \<Rightarrow> package_info \<Rightarrow> hier_item list" where
  "package_items sm p =
     (case package_range p of
        None \<Rightarrow> []
      | Some r \<Rightarrow>
          let loc = range_to_location sm r in
          [InstanceItem PackageKind (package_name p) loc None (package_name p) loc PackageDecl False []])"

fun is_hierarchical_scope :: "found_symbol \<Rightarrow> bool" where
  "is_hierarchical_scope (PackageFound p) = True"
| "is_hierarchical_scope (MemberFound (InstanceSymbol n r d ms)) = True"
| "is_hierarchical_scope (MemberFound (InstanceArraySymbol n r d es)) = True"
| "is_hierarchical_scope (MemberFound (InterfacePortSymbol p c es f)) = True"
| "is_hierarchical_scope (MemberFound (GenerateBlockSymbol u n r ms)) = True"
| "is_hierarchical_scope (MemberFound (GenerateArraySymbol n r es)) = True"
| "is_hierarchical_scope _ = False"

definition generate_array_children ::
    "source_manager \<Rightarrow> (nat \<times> source_range \<times> design_symbol list) list \<Rightarrow> hier_item list" where
  "generate_array_children sm es =
     concat (List.map (\<lambda>(i, r, ms).
       block_scope_items sm (bracketed (nat_to_string i)) r (scope_children sm ms)) es)"

fun scope_symbol_children :: "source_manager \<Rightarrow> found_symbol \<Rightarrow> hier_item list" where
  "scope_symbol_children sm (PackageFound p) = scope_children sm (package_members p)"
| "scope_symbol_children sm (MemberFound (InstanceSymbol n r d ms)) = scope_children sm ms"
| "scope_symbol_children sm (MemberFound (InstanceArraySymbol n r d es)) = instance_array_children sm d es"
| "scope_symbol_children sm (MemberFound (InterfacePortSymbol p c es f)) =
     interface_port_children sm p (map_option (interface_view sm) c)
       (List.map (map_option (interface_view sm)) es) (map_option (interface_view sm) f)"
| "scope_symbol_children sm (MemberFound (GenerateBlockSymbol u n r ms)) = scope_children sm ms"
| "scope_symbol_children sm (MemberFound (GenerateArraySymbol n r es)) = generate_array_children sm es"
| "scope_symbol_children sm _ = []"

text \<open>Top instances come with their children.\<close>

fun top_item :: "source_manager \<Rightarrow> design_symbol \<Rightarrow> hier_item list" where
  "top_item sm (InstanceSymbol n r d ms) = [to_instance sm n r d ms (Some (scope_children sm ms))]"
| "top_item sm _ = []"

definition root_items :: "source_manager \<Rightarrow> elaborated \<Rightarrow> hier_item list" where
  "root_items sm d =
     concat (List.map (top_item sm) (top_members d)) @ concat (List.map (package_items sm) (packages d))"

definition try_scope_children :: "source_manager \<Rightarrow> elaborated \<Rightarrow> string \<Rightarrow> hier_item list option" where
  "try_scope_children sm d p =
     (if p = [] then Some (root_items sm d)
      else case lookup_symbol d p of
             Some s \<Rightarrow> if is_hierarchical_scope s then Some (scope_symbol_children sm s) else None
           | None \<Rightarrow> map_option (\<lambda>pkg. scope_children sm (package_members pkg)) (package_named d p))"

definition get_scope :: "source_manager \<Rightarrow> elaborated \<Rightarrow> string \<Rightarrow> hier_item list" where
  "get_scope sm d p = (case try_scope_children sm d p of None \<Rightarrow> [] | Some cs \<Rightarrow> cs)"

fun push_scope ::
    "(nat \<times> string \<times> found_symbol) list \<Rightarrow> (nat \<times> string \<times> found_symbol) list \<Rightarrow>
     (nat \<times> string \<times> found_symbol) list" where
  "push_scope chain [] = chain"
| "push_scope chain ((a, p, s) # ss) =
     (if \<not> is_hierarchical_scope s \<or> (chain \<noteq> [] \<and> fst (last chain) = a) then push_scope chain ss
      else push_scope (chain @ [(a, p, s)]) ss)"

definition scope_chain :: "elaborated \<Rightarrow> string \<Rightarrow> (nat \<times> string \<times> found_symbol) list" where
  "scope_chain d p = push_scope [] (lookup_steps d p)"

text \<open>
  \<open>cancelled\<close> is what the checks of the request will see; \<open>Inl\<close> is the stage at which it was
  cancelled.
\<close>

fun scope_steps ::
    "source_manager \<Rightarrow> bool list \<Rightarrow> (nat \<times> string \<times> found_symbol) list \<Rightarrow>
     string + (string \<times> hier_item list) list" where
  "scope_steps sm cs [] = Inr []"
| "scope_steps sm cs ((a, p, s) # ss) =
     (if cs \<noteq> [] \<and> hd cs then Inl ''while resolving hierarchy scopes''
      else case scope_steps sm (tl cs) ss of
             Inl e \<Rightarrow> Inl e
           | Inr rs \<Rightarrow> Inr ((p, scope_symbol_children sm s) # rs))"

definition get_scopes ::
    "source_manager \<Rightarrow> elaborated \<Rightarrow> bool list \<Rightarrow> string \<Rightarrow> string + (string \<times> hier_item list) list" where
  "get_scopes sm d cancelled p =
     (if cancelled \<noteq> [] \<and> hd cancelled then Inl ''before resolving root hierarchy scope''
      else if p = [] then Inr [([], root_items sm d)]
      else case scope_steps sm (tl cancelled) (scope_chain d p) of
             Inl e \<Rightarrow> Inl e
           | Inr rs \<Rightarrow> Inr (([], root_items sm d) # rs))"

section \<open>The items of the whole hierarchy\<close>

record search_item =
  found_name :: string
  found_path :: string
  found_kind :: slang_kind
  found_description :: "string option"
  found_container :: "string option"

definition last_segment :: "string \<Rightarrow> string" where
  "last_segment p = rev (takeWhile (\<lambda>c. c \<noteq> CHR ''.'') (rev p))"

definition child_path :: "string \<Rightarrow> bool \<Rightarrow> string \<Rightarrow> string" where
  "child_path parent joined name =
     (if parent = [] then name else parent @ (if joined then [] else ''.'') @ name)"

definition item_description :: "hier_item \<Rightarrow> string" where
  "item_description item =
     (case item of
        VarItem k n l x t v \<Rightarrow> t @ (case v of None \<Rightarrow> [] | Some v \<Rightarrow> '' = '' @ v)
      | ScopeItem k n l x t cs \<Rightarrow> (case t of None \<Rightarrow> ''scope'' | Some t \<Rightarrow> t)
      | InstanceItem k n l x dn dl dk h cs \<Rightarrow> dn)"

definition search_entry :: "hier_item \<Rightarrow> string \<Rightarrow> string \<Rightarrow> search_item" where
  "search_entry item path container =
     \<lparr>found_name = last_segment path, found_path = path, found_kind = item_kind item,
      found_description = Some (item_description item),
      found_container = (if container = [] then None else Some container)\<rparr>"

definition scope_container :: "slang_kind \<Rightarrow> string \<Rightarrow> string option \<Rightarrow> string \<Rightarrow> string" where
  "scope_container kind name ty container =
     (if kind = InterfacePortKind \<or> kind = InterfacePortArrayKind then
        (case ty of Some t \<Rightarrow> t | None \<Rightarrow> container)
      else (if container \<noteq> [] \<and> \<not> starts_with name ''['' then container @ ''.'' else container) @ name)"

fun append_option :: "'a list option \<Rightarrow> 'a list option \<Rightarrow> 'a list option" where
  "append_option (Some xs) (Some ys) = Some (xs @ ys)"
| "append_option _ _ = None"

definition concat_options :: "'a list option list \<Rightarrow> 'a list option" where
  "concat_options rs = foldr append_option rs (Some [])"

text \<open>
  An instance without children of its own is looked up by its path; \<open>deeper\<close> collects what is
  found there.
\<close>

fun collect_item ::
    "(string \<Rightarrow> string \<Rightarrow> search_item list option) \<Rightarrow> string \<Rightarrow> bool \<Rightarrow> string \<Rightarrow> hier_item \<Rightarrow>
     search_item list option" where
  "collect_item deeper parent joined container (VarItem k n l x t v) =
     Some [search_entry (VarItem k n l x t v) (child_path parent joined n) container]"
| "collect_item deeper parent joined container (ScopeItem k n l x t cs) =
     (let path = child_path parent joined n in
      append_option (Some [search_entry (ScopeItem k n l x t cs) path container])
        (concat_options (List.map
          (collect_item deeper path (k = ScopeArrayKind \<or> k = InterfacePortArrayKind)
            (scope_container k n t container)) cs)))"
| "collect_item deeper parent joined container (InstanceItem k n l x dn dl dk h cs) =
     (let path = child_path parent joined n in
      append_option (Some [search_entry (InstanceItem k n l x dn dl dk h cs) path container])
        (if cs \<noteq> [] then
           concat_options (List.map (collect_item deeper path (k = InstanceArrayKind) dn) cs)
         else if h then deeper path dn else Some []))"

text \<open>The fuel bounds the lookups on the way down; \<open>None\<close> is running out of it.\<close>

primrec collect_deeper ::
    "source_manager \<Rightarrow> elaborated \<Rightarrow> nat \<Rightarrow> string \<Rightarrow> string \<Rightarrow> search_item list option" where
  "collect_deeper sm d 0 path container = None"
| "collect_deeper sm d (Suc n) path container =
     (case lookup_symbol d path of
        None \<Rightarrow> Some []
      | Some s \<Rightarrow>
          concat_options (List.map (collect_item (collect_deeper sm d n) path False container)
            (scope_symbol_children sm s)))"

definition collect_hierarchy :: "source_manager \<Rightarrow> elaborated \<Rightarrow> nat \<Rightarrow> search_item list option" where
  "collect_hierarchy sm d n =
     concat_options (List.map (collect_item (collect_deeper sm d n) [] False []) (root_items sm d))"

section \<open>Searching\<close>

definition lowercase :: "string \<Rightarrow> string" where
  "lowercase s = List.map to_lower s"

fun fuzzy_matches :: "string \<Rightarrow> string \<Rightarrow> bool" where
  "fuzzy_matches needle [] = (needle = [])"
| "fuzzy_matches needle (c # hay) =
     (case needle of
        [] \<Rightarrow> fuzzy_matches [] hay
      | n # ns \<Rightarrow> if n = c then fuzzy_matches ns hay else fuzzy_matches needle hay)"

definition search_rank :: "string \<Rightarrow> search_item \<Rightarrow> nat option" where
  "search_rank q item =
     (let label = lowercase (found_name item); path = lowercase (found_path item) in
      if q = [] then Some 0
      else if label = q then Some 0
      else if starts_with label q then Some 1
      else if contains_str label q then Some 2
      else if contains_str path q then Some 3
      else if fuzzy_matches q path then Some 4
      else None)"

definition search_key :: "nat \<times> search_item \<Rightarrow> nat \<times> nat \<times> string" where
  "search_key m = (fst m, length (found_path (snd m)), found_path (snd m))"

definition search_matches :: "string \<Rightarrow> search_item list \<Rightarrow> (nat \<times> search_item) list" where
  "search_matches q items =
     List.map_filter (\<lambda>item. map_option (\<lambda>r. (r, item)) (search_rank (lowercase q) item)) items"

definition max_results :: nat where
  "max_results = 100"

text \<open>Equal keys are equal paths; the order among them is left open by the library's sort.\<close>

definition search_results :: "string \<Rightarrow> search_item list \<Rightarrow> nat \<times> search_item list" where
  "search_results q items =
     (let ms = search_matches q items
      in (length ms, List.map snd (take (min (length ms) max_results) (sort_key search_key ms))))"

text \<open>The items are collected by the first search after a refresh.\<close>

record search_state =
  search_items :: "search_item list"
  search_indexed :: bool

definition refresh_search :: "search_state \<Rightarrow> search_state" where
  "refresh_search st = st\<lparr>search_items := [], search_indexed := False\<rparr>"

definition search_hierarchy ::
    "source_manager \<Rightarrow> elaborated \<Rightarrow> nat \<Rightarrow> string \<Rightarrow> search_state \<Rightarrow>
     ((nat \<times> search_item list) \<times> search_state) option" where
  "search_hierarchy sm d n q st =
     map_option (\<lambda>st. (search_results q (search_items st), st))
       (if search_indexed st then Some st
        else map_option (\<lambda>items. st\<lparr>search_items := search_items st @ items, search_indexed := True\<rparr>)
               (collect_hierarchy sm d n))"

end
