(* ===== verification/HierarchySound.thy ===== *)
theory HierarchySound
  imports Hierarchy "HOL-Library.Multiset"
begin

text \<open>
  What the hierarchy view and its search promise: items of the right kinds and no empty scopes, the
  numbering of arrays, when the probe for children is right, that collecting all items ends, and
  that a search finds what matches, the best first.
\<close>

section \<open>Items of the right kinds\<close>

definition in_brackets :: "hier_item \<Rightarrow> bool" where
  "in_brackets item \<longleftrightarrow> (starts_with (item_name item) ''['' \<and> last (item_name item) = CHR '']'')"

text \<open>
  Variables have kinds of variables; a generate scope is not empty and has no type, a port has one;
  the members of an array have numbers for names and the kind that belongs in it; a package is
  closed.
\<close>

fun well_typed :: "hier_item \<Rightarrow> bool" where
  "well_typed (VarItem k n l x t v) = (k = PortKind \<or> k = ParamKind \<or> k = LogicKind)"
| "well_typed (ScopeItem k n l x t cs) =
     (list_all well_typed cs \<and>
      (if k = ScopeKind then cs \<noteq> [] \<and> t = None
       else if k = ScopeArrayKind then
         cs \<noteq> [] \<and> t = None \<and> list_all (\<lambda>c. item_kind c = ScopeKind \<and> in_brackets c) cs
       else if k = InterfacePortArrayKind then
         t \<noteq> None \<and> list_all (\<lambda>c. item_kind c = InterfacePortKind \<and> in_brackets c) cs
       else k = InterfacePortKind \<and> t \<noteq> None))"
| "well_typed (InstanceItem k n l x dn dl dk h cs) =
     (list_all well_typed cs \<and>
      (if k = InstanceArrayKind then
         cs \<noteq> [] \<and> h \<and> list_all (\<lambda>c. item_kind c = InstanceKind \<and> in_brackets c) cs
       else if k = InstanceKind then cs \<noteq> [] \<longrightarrow> h
       else k = PackageKind \<and> cs = [] \<and> \<not> h))"

lemma in_brackets_simps [simp]:
  "in_brackets (ScopeItem k (bracketed s) l x t cs)"
  "in_brackets (to_instance sm (bracketed s) r d ms f)"
  by (simp_all add: in_brackets_def to_instance_def bracketed_def)

lemma to_instance_simps [simp]:
  "well_typed (to_instance sm n r d ms None)" "item_kind (to_instance sm n r d ms f) = InstanceKind"
  "item_name (to_instance sm n r d ms f) = n"
  by (simp_all add: to_instance_def)

lemma array_elements_typed:
  "list_all (\<lambda>c. well_typed c \<and> item_kind c = InstanceKind \<and> in_brackets c) (array_elements sm i st es)"
  by (induction sm i st es rule: array_elements.induct) auto

lemma instance_array_typed: "list_all well_typed (instance_array_items sm n r d es)"
  using array_elements_typed [of sm "dims_left d" "dims_step d" es]
  by (auto simp: instance_array_items_def instance_array_children_def list_all_iff split: list.split)

definition view_typed :: "interface_view \<Rightarrow> bool" where
  "view_typed v \<longleftrightarrow> list_all well_typed (fst v) \<and> list_all (\<lambda>(n, items). list_all well_typed items) (snd v)"

lemma view_typed_modport: "view_typed (items, mps) \<Longrightarrow> map_of mps m = Some ms \<Longrightarrow> list_all well_typed ms"
  by (auto simp: view_typed_def list_all_iff dest!: map_of_SomeD)

lemma modport_items_typed:
  "view_typed (items, mps) \<Longrightarrow>
   list_all well_typed (case map_of mps m of Some ms \<Rightarrow> ms | None \<Rightarrow> items)"
  by (cases "map_of mps m") (auto simp: view_typed_modport, simp add: view_typed_def)

lemma port_scope_typed:
  assumes "pred_option view_typed c" and "pred_option view_typed f" and "port_scope p c f = Some ms"
  shows "list_all well_typed ms"
proof -
  obtain items mps where v: "view_typed (items, mps)"
    and ms: "ms = (case connected_modport p of
      Some m \<Rightarrow> (case map_of mps m of Some ms \<Rightarrow> ms | None \<Rightarrow> items)
    | None \<Rightarrow> if port_modport p \<noteq> [] then (case map_of mps (port_modport p) of Some ms \<Rightarrow> ms | None \<Rightarrow> items)
              else items)"
    using assms by (cases c; cases f) (auto simp: port_scope_def split: if_splits)
  show ?thesis
    using v modport_items_typed [OF v] unfolding ms
    by (cases "connected_modport p") (auto simp: view_typed_def)
qed

lemma port_element_children_typed:
  assumes "pred_option view_typed c" and "pred_option view_typed f"
  shows "list_all well_typed (port_element_children p c f)"
  using port_scope_typed [OF assms, of p]
  by (cases "port_scope p c f") (simp_all add: port_element_children_def)

lemma interface_port_children_typed:
  assumes c: "pred_option view_typed c" and es: "list_all (pred_option view_typed) es"
    and f: "pred_option view_typed f"
  shows "list_all well_typed (interface_port_children sm p c es f)"
proof -
  have "pred_option view_typed (if i < length es then es ! i else None)" for i
    using es by (simp add: list_all_length)
  then have "list_all well_typed (port_element_children p (if i < length es then es ! i else None) f)" for i
    using f by (rule port_element_children_typed)
  then show ?thesis
    using port_element_children_typed [OF c f]
    by (cases "declared_dims p") (simp_all add: interface_port_children_def list.pred_map comp_def list_all_iff [of _ "upt _ _"])
qed

lemma interface_port_array_names:
  "declared_dims p = Some d \<Longrightarrow>
   list_all (\<lambda>c. item_kind c = InterfacePortKind \<and> in_brackets c) (interface_port_children sm p c es f)"
  by (simp add: interface_port_children_def list_all_length)

lemma interface_port_typed:
  assumes "pred_option view_typed c" and "list_all (pred_option view_typed) es" and "pred_option view_typed f"
  shows "well_typed (interface_port_item sm p c es f)"
  using interface_port_children_typed [OF assms] interface_port_array_names [of p _ sm c es f]
  by (cases "declared_dims p") (simp_all add: interface_port_item_def)

lemma block_scope_typed:
  "list_all well_typed cs \<Longrightarrow> list_all well_typed (block_scope_items sm n r cs)"
  by (simp add: block_scope_items_def)

lemma block_scope_member:
  "x \<in> set (block_scope_items sm n r cs) \<Longrightarrow> (\<And>c. c \<in> set cs \<Longrightarrow> well_typed c) \<Longrightarrow> well_typed x"
  using block_scope_typed [of cs sm n r] by (simp add: list_all_iff)

lemma block_scope_in_array:
  "list_all (\<lambda>c. item_kind c = ScopeKind \<and> in_brackets c) (block_scope_items sm (bracketed s) r cs)"
  by (simp add: block_scope_items_def)

lemma list_all_concat: "list_all P (concat xss) \<longleftrightarrow> list_all (list_all P) xss"
  by (induction xss) auto

lemma symbol_items_typed:
  "list_all well_typed (symbol_items sm s)" "view_typed (interface_view sm i)"
proof (induction sm s and sm i rule: symbol_items_interface_view.induct)
  case (5 sm p c es f)
  have "pred_option view_typed (map_option (interface_view sm) e)" if "e \<in> set es" for e
    using 5(2) [of e] that by (cases e) simp_all
  moreover have "pred_option view_typed (map_option (interface_view sm) c)"
    and "pred_option view_typed (map_option (interface_view sm) f)"
    using 5(1,3) by (cases c, simp_all, cases f, simp_all)
  ultimately show ?case
    by (simp add: interface_port_typed list_all_iff)
next
  case (7 sm n r es)
  have "list_all well_typed (concat (List.map (\<lambda>(i, r, ms). block_scope_items sm (bracketed (nat_to_string i)) r
      (concat (List.map (symbol_items sm) ms))) es))"
    using 7 by (force simp: list_all_iff elim!: block_scope_member)
  moreover have "list_all (\<lambda>c. item_kind c = ScopeKind \<and> in_brackets c)
      (concat (List.map (\<lambda>(i, r, ms). block_scope_items sm (bracketed (nat_to_string i)) r
      (concat (List.map (symbol_items sm) ms))) es))"
    using block_scope_in_array by (auto simp: list_all_concat list_all_iff)
  ultimately show ?case by (simp add: Let_def)
qed (auto simp: instance_array_typed [unfolded list_all_iff, rule_format] list_all_iff view_typed_def
      elim!: block_scope_member)

lemma scope_children_typed: "list_all well_typed (scope_children sm ms)"
  by (simp add: scope_children_def list_all_concat list.pred_map comp_def symbol_items_typed list.pred_True)

lemma scope_symbol_typed: "list_all well_typed (scope_symbol_children sm s)"
proof (cases "(sm, s)" rule: scope_symbol_children.cases)
  case (3 sm n r d es)
  then show ?thesis
    using array_elements_typed [of sm "dims_left d" "dims_step d" es]
    by (simp add: instance_array_children_def list_all_iff)
next
  case (4 sm p c es f)
  have view: "pred_option view_typed (map_option (interface_view sm) i)" for i
    by (cases i) (simp_all add: symbol_items_typed)
  show ?thesis
    using 4 by (simp add: interface_port_children_typed view list.pred_map comp_def list.pred_True)
next
  case (6 sm n r es)
  then show ?thesis
    using scope_children_typed
    by (force simp: generate_array_children_def list_all_iff elim!: block_scope_member)
qed (simp_all add: scope_children_typed)

lemma root_items_typed: "list_all well_typed (root_items sm d)"
proof -
  have "list_all well_typed (top_item sm s)" for s
    by (cases s) (simp_all add: to_instance_def scope_children_typed)
  moreover have "list_all well_typed (package_items sm p)" for p
    by (cases "package_range p") (simp_all add: package_items_def Let_def)
  ultimately show ?thesis
    by (simp add: root_items_def list_all_concat list.pred_map comp_def list.pred_True)
qed

lemma get_scope_typed: "list_all well_typed (get_scope sm d p)"
  by (auto simp: get_scope_def try_scope_children_def root_items_typed scope_symbol_typed scope_children_typed
      split: option.split)

text \<open>
  C6: The hierarchy view never shows an ill-formed item, at no depth: generate scopes are not empty
  and have no type, interface ports have one, the members of an array are numbered and of the kind
  that belongs in it, packages come without children, and what a variable shows is a port, a
  parameter or a signal.\<close>

theorem view_items_typed: "list_all well_typed (get_scope sm d p)"
  by (rule get_scope_typed)

section \<open>The probe for children\<close>

text \<open>
  A type parameter is shown and not seen by the probe; a block that was not instantiated, or is
  empty, is seen and not shown.
\<close>

fun is_type_parameter :: "design_symbol \<Rightarrow> bool" where
  "is_type_parameter (TypeParameterSymbol n r l v) = True"
| "is_type_parameter _ = False"

lemma shown_members: "symbol_items sm s \<noteq> [] \<Longrightarrow> visible_member s \<or> is_type_parameter s"
  by (cases s) auto

lemma shown_or_probed:
  assumes "scope_children sm ms \<noteq> []"
  shows "has_visible_children ms \<or> list_ex is_type_parameter ms"
proof -
  obtain s where "s \<in> set ms" and "symbol_items sm s \<noteq> []"
    using assms by (auto simp: scope_children_def)
  then show ?thesis
    using shown_members by (auto simp: has_visible_children_def list_ex_iff)
qed

text \<open>
  The children of a scope and the probe the view uses in their place agree in one direction: a
  scope with something to show is reported to have children, unless all it has to show are type
  parameters.\<close>

lemma probe_sees_children:
  "scope_children sm ms \<noteq> [] \<Longrightarrow> \<not> list_ex is_type_parameter ms \<Longrightarrow> has_visible_children ms"
  using shown_or_probed by blast

lemma type_parameter_unseen:
  "scope_children sm [TypeParameterSymbol n r l v] \<noteq> []" "\<not> has_visible_children [TypeParameterSymbol n r l v]"
  by (simp_all add: scope_children_def has_visible_children_def)

lemma empty_block_unshown:
  "scope_children sm [GenerateBlockSymbol u n r []] = []" "has_visible_children [GenerateBlockSymbol u n r []]"
  by (simp_all add: scope_children_def has_visible_children_def block_scope_items_def)

section \<open>Collecting all items ends\<close>

lemma append_option_None [simp]: "append_option a b = None \<longleftrightarrow> a = None \<or> b = None"
  by (cases "(a, b)" rule: append_option.cases) auto

lemma concat_options_ends:
  "(\<And>x. x \<in> set xs \<Longrightarrow> f x \<noteq> None) \<Longrightarrow> concat_options (List.map f xs) \<noteq> None"
  by (induction xs) (auto simp: concat_options_def simp del: not_None_eq)

text \<open>The paths that are looked up for an item: of the instances below it that came without children.\<close>

fun asked_paths :: "string \<Rightarrow> bool \<Rightarrow> hier_item \<Rightarrow> string list" where
  "asked_paths parent joined (VarItem k n l x t v) = []"
| "asked_paths parent joined (ScopeItem k n l x t cs) =
     concat (List.map (asked_paths (child_path parent joined n)
       (k = ScopeArrayKind \<or> k = InterfacePortArrayKind)) cs)"
| "asked_paths parent joined (InstanceItem k n l x dn dl dk h cs) =
     (if cs \<noteq> [] then concat (List.map (asked_paths (child_path parent joined n) (k = InstanceArrayKind)) cs)
      else if h then [child_path parent joined n] else [])"

lemma collect_item_ends:
  "(\<And>p c. p \<in> set (asked_paths parent joined item) \<Longrightarrow> deeper p c \<noteq> None) \<Longrightarrow>
   collect_item deeper parent joined container item \<noteq> None"
proof (induction deeper parent joined container item rule: collect_item.induct)
  case (2 deeper parent joined container k n l x t cs)
  have "concat_options (List.map (collect_item deeper (child_path parent joined n)
      (k = ScopeArrayKind \<or> k = InterfacePortArrayKind) (scope_container k n t container)) cs) \<noteq> None"
    by (rule concat_options_ends, rule 2(1) [OF refl], assumption, rule 2(2)) auto
  then show ?case by (simp add: Let_def)
next
  case (3 deeper parent joined container k n l x dn dl dk h cs)
  have "concat_options (List.map
      (collect_item deeper (child_path parent joined n) (k = InstanceArrayKind) dn) cs) \<noteq> None"
    by (rule concat_options_ends, rule 3(1) [OF refl], force, assumption, rule 3(2)) auto
  moreover have "deeper (child_path parent joined n) dn \<noteq> None" if "cs = []" "h"
    using 3(2) that by simp
  ultimately show ?case by (simp add: Let_def)
qed simp

text \<open>How many instances are nested in a symbol, one inside the other.\<close>

abbreviation or_zero :: "nat option \<Rightarrow> nat" where
  "or_zero n \<equiv> (case n of None \<Rightarrow> 0 | Some n \<Rightarrow> n)"

fun levels :: "design_symbol \<Rightarrow> nat" and interface_levels :: "interface \<Rightarrow> nat" where
  "levels (InstanceSymbol n r d ms) = Suc (Max (set (0 # List.map levels ms)))"
| "levels (InstanceArraySymbol n r d es) = Max (set (0 # List.map levels es))"
| "levels (InterfacePortSymbol p c es f) =
     Max (set (or_zero (map_option interface_levels c) # or_zero (map_option interface_levels f)
       # List.map (\<lambda>e. or_zero (map_option interface_levels e)) es))"
| "levels (GenerateBlockSymbol u n r ms) = Max (set (0 # List.map levels ms))"
| "levels (GenerateArraySymbol n r es) = Max (set (0 # concat (List.map (\<lambda>(i, r, ms). List.map levels ms) es)))"
| "levels _ = 0"
| "interface_levels (Interface ms mps) =
     Max (set (0 # List.map levels ms @ concat (List.map (\<lambda>(n, ms). List.map levels ms) mps)))"

fun found_levels :: "found_symbol \<Rightarrow> nat" where
  "found_levels (MemberFound s) = levels s"
| "found_levels (PackageFound p) = Max (set (0 # List.map levels (package_members p)))"

text \<open>
  What is asked of the lookup: an instance that was listed in a scope is found, if at all, as
  something with fewer levels than the scope.
\<close>

definition leads_down :: "source_manager \<Rightarrow> elaborated \<Rightarrow> bool" where
  "leads_down sm d \<longleftrightarrow>
     (\<forall>p s item q s'. lookup_symbol d p = Some s \<longrightarrow> item \<in> set (scope_symbol_children sm s) \<longrightarrow>
        q \<in> set (asked_paths p False item) \<longrightarrow> lookup_symbol d q = Some s' \<longrightarrow>
        found_levels s' < found_levels s)"

lemma collect_deeper_ends:
  assumes "leads_down sm d"
  shows "0 < n \<Longrightarrow> (\<And>s. lookup_symbol d p = Some s \<Longrightarrow> Suc (found_levels s) < n) \<Longrightarrow>
    collect_deeper sm d n p c \<noteq> None"
proof (induction n arbitrary: p c)
  case (Suc n)
  show ?case
  proof (cases "lookup_symbol d p")
    case (Some s)
    have "collect_item (collect_deeper sm d n) p False c item \<noteq> None"
      if item: "item \<in> set (scope_symbol_children sm s)" for item
    proof (rule collect_item_ends)
      fix q c' assume q: "q \<in> set (asked_paths p False item)"
      have "found_levels s' < found_levels s" if "lookup_symbol d q = Some s'" for s'
        using assms Some item q that unfolding leads_down_def by blast
      then show "collect_deeper sm d n q c' \<noteq> None"
        using Suc.prems(2) [OF Some] by (intro Suc.IH) (fastforce+)
    qed
    then show ?thesis
      unfolding collect_deeper.simps Some option.case by (rule concat_options_ends)
  qed simp
qed simp

lemma collect_hierarchy_ends:
  assumes "\<And>p s. lookup_symbol d p = Some s \<Longrightarrow> found_levels s \<le> h" and "leads_down sm d"
  shows "collect_hierarchy sm d (h + 2) \<noteq> None"
proof -
  have "collect_deeper sm d (h + 2) p c \<noteq> None" for p c
    using assms(1) by (intro collect_deeper_ends [OF assms(2)]) (fastforce simp: less_Suc_eq_le)+
  then show ?thesis
    unfolding collect_hierarchy_def by (intro concat_options_ends collect_item_ends)
qed


section \<open>What a search finds\<close>

lemma fuzzy_matches_subseq: "fuzzy_matches q s \<longleftrightarrow> subseq q s"
  by (induction q s rule: fuzzy_matches.induct) (auto split: list.split)

lemma sublist_subseq: "sublist q s \<Longrightarrow> subseq q s"
  by (auto simp: sublist_def intro: list_emb_append2)

lemma label_in_path: "suffix (lowercase (last_segment p)) (lowercase p)"
proof -
  have "p = rev (dropWhile (\<lambda>c. c \<noteq> CHR ''.'') (rev p)) @ last_segment p"
    unfolding last_segment_def by (metis rev_append rev_rev_ident takeWhile_dropWhile_id)
  then show ?thesis unfolding lowercase_def by (metis map_append suffixI)
qed

lemma in_label_in_path: "sublist q (lowercase (last_segment p)) \<Longrightarrow> subseq q (lowercase p)"
  by (meson label_in_path sublist_order.order_trans sublist_subseq suffix_imp_sublist)

lemma search_rank_found:
  assumes "found_name item = last_segment (found_path item)"
  shows "search_rank q item = None \<longleftrightarrow> \<not> subseq q (lowercase (found_path item))"
  using in_label_in_path [of q "found_path item"] sublist_subseq [of q "lowercase (found_path item)"]
  by (auto simp: search_rank_def Let_def assms fuzzy_matches_subseq prefix_imp_sublist)

definition is_found :: "string \<Rightarrow> search_item \<Rightarrow> bool" where
  "is_found q item \<longleftrightarrow> subseq (lowercase q) (lowercase (found_path item))"

definition result_key :: "string \<Rightarrow> search_item \<Rightarrow> nat \<times> nat \<times> string" where
  "result_key q item = search_key (the (search_rank (lowercase q) item), item)"

lemma search_matches_found:
  assumes "list_all (\<lambda>i. found_name i = last_segment (found_path i)) items"
  shows "search_matches q items =
    List.map (\<lambda>i. (the (search_rank (lowercase q) i), i)) (filter (is_found q) items)"
  using assms search_rank_found
proof -
  have found: "search_rank (lowercase q) i = None \<longleftrightarrow> \<not> is_found q i"
    if "found_name i = last_segment (found_path i)" for i
    using search_rank_found [OF that] by (simp add: is_found_def)
  show ?thesis using assms unfolding search_matches_def
  proof (induction items)
    case (Cons i items)
    then show ?case
      using found [of i] by (cases "search_rank (lowercase q) i") (simp_all add: List.map_filter_simps)
  qed (simp add: List.map_filter_simps)
qed

lemma insort_key_map: "insort_key k (g x) (List.map g xs) = List.map g (insort_key (\<lambda>x. k (g x)) x xs)"
  by (induction xs) auto

lemma sort_key_map: "sort_key k (List.map g xs) = List.map g (sort_key (\<lambda>x. k (g x)) xs)"
  by (induction xs) (simp_all add: insort_key_map)

lemma search_results_found:
  "list_all (\<lambda>i. found_name i = last_segment (found_path i)) items \<Longrightarrow>
   search_results q items =
     (length (filter (is_found q) items),
      take (min (length (filter (is_found q) items)) max_results)
        (sort_key (result_key q) (filter (is_found q) items)))"
  by (simp add: search_results_def search_matches_found Let_def sort_key_map take_map comp_def
      result_key_def [abs_def])

text \<open>Every item collected is named by the last segment of its path.\<close>

definition well_named :: "search_item list option \<Rightarrow> bool" where
  "well_named r = pred_option (list_all (\<lambda>i. found_name i = last_segment (found_path i))) r"

lemma well_named_append: "well_named a \<Longrightarrow> well_named b \<Longrightarrow> well_named (append_option a b)"
  by (cases "(a, b)" rule: append_option.cases) (auto simp: well_named_def)

lemma well_named_concat:
  "(\<And>x. x \<in> set xs \<Longrightarrow> well_named (f x)) \<Longrightarrow> well_named (concat_options (List.map f xs))"
  by (induction xs) (auto simp: concat_options_def intro: well_named_append simp: well_named_def [of "Some []"])

lemma well_named_entry [simp]: "well_named (Some [search_entry item p c])"
  by (simp add: well_named_def search_entry_def)

lemma collect_item_named:
  "(\<And>p c. well_named (deeper p c)) \<Longrightarrow> well_named (collect_item deeper parent joined container item)"
proof (induction deeper parent joined container item rule: collect_item.induct)
  case (3 deeper parent joined container k n l x dn dl dk h cs)
  then show ?case
    by (cases "cs = []") (auto simp: Let_def well_named_def [of "Some []"] intro!: well_named_append well_named_concat)
qed (auto simp: Let_def intro!: well_named_append well_named_concat)

lemma collect_deeper_named: "well_named (collect_deeper sm d n p c)"
  by (induction n arbitrary: p c)
    (auto simp: well_named_def [of None] well_named_def [of "Some []"]
      intro!: well_named_concat collect_item_named split: option.split)

lemma collect_hierarchy_named: "well_named (collect_hierarchy sm d n)"
  by (simp add: collect_hierarchy_def well_named_concat collect_item_named collect_deeper_named)

lemma search_results_best:
  assumes "collect_hierarchy sm d n = Some items"
  shows "fst (search_results q items) = length (filter (is_found q) items) \<and>
    (\<exists>rest. mset (snd (search_results q items) @ rest) = mset (filter (is_found q) items) \<and>
       sorted (List.map (result_key q) (snd (search_results q items) @ rest)) \<and>
       length (snd (search_results q items)) = min (length (filter (is_found q) items)) 100)"
proof -
  have named: "list_all (\<lambda>i. found_name i = last_segment (found_path i)) items"
    using collect_hierarchy_named [of sm d n] assms by (simp add: well_named_def)
  let ?found = "filter (is_found q) items"
  let ?sorted = "sort_key (result_key q) ?found"
  let ?k = "min (length ?found) max_results"
  have "mset (take ?k ?sorted @ drop ?k ?sorted) = mset ?found"
    and "sorted (List.map (result_key q) (take ?k ?sorted @ drop ?k ?sorted))"
    and "length (take ?k ?sorted) = min (length ?found) 100"
    unfolding append_take_drop_id by (simp_all add: max_results_def)
  then show ?thesis
    unfolding search_results_found [OF named] fst_conv snd_conv by blast
qed

text \<open>
  What the best match is. From the strictest to the loosest: the name is the query, starts with it,
  has it as a part; the path has it as a part, as a subsequence; case is ignored, and the empty
  query is met in the strictest way. A match is better for meeting a stricter test, then for a
  shorter path, then for a path that comes first in the alphabet.
\<close>

definition match_tests :: "string \<Rightarrow> search_item \<Rightarrow> bool list" where
  "match_tests q item =
     (let name = lowercase (found_name item); path = lowercase (found_path item) in
      [q = [] \<or> name = q, \<exists>t. name = q @ t, \<exists>s t. name = s @ q @ t, \<exists>s t. path = s @ q @ t, subseq q path])"

definition better_kind :: "string \<Rightarrow> search_item \<Rightarrow> search_item \<Rightarrow> bool" where
  "better_kind q a b \<longleftrightarrow> (\<exists>k < 5. match_tests q a ! k \<and> \<not> match_tests q b ! k)"

definition at_least_as_good :: "string \<Rightarrow> search_item \<Rightarrow> search_item \<Rightarrow> bool" where
  "at_least_as_good q a b \<longleftrightarrow>
     better_kind q a b \<or>
     \<not> better_kind q b a \<and>
       (length (found_path a) < length (found_path b) \<or>
        length (found_path a) = length (found_path b) \<and> found_path a \<le> found_path b)"

lemma rank_test:
  assumes "found_name item = last_segment (found_path item)" and "search_rank q item = Some r" and "k < 5"
  shows "match_tests q item ! k \<longleftrightarrow> r \<le> k"
proof -
  let ?n = "lowercase (found_name item)" and ?p = "lowercase (found_path item)"
  have kinds: "?n = q \<Longrightarrow> prefix q ?n" "prefix q ?n \<Longrightarrow> sublist q ?n" "sublist q ?n \<Longrightarrow> sublist q ?p"
    "sublist q ?p \<Longrightarrow> subseq q ?p"
    using label_in_path [of "found_path item"] sublist_subseq assms(1)
    by (auto simp: prefix_imp_sublist intro: sublist_order.order_trans suffix_imp_sublist)
  have tests: "match_tests q item = [q = [] \<or> ?n = q, prefix q ?n, sublist q ?n, sublist q ?p, subseq q ?p]"
    by (simp add: match_tests_def Let_def prefix_def sublist_def)
  have "k = 0 \<or> k = 1 \<or> k = 2 \<or> k = 3 \<or> k = 4" using assms(3) by auto
  with kinds assms(2) show ?thesis
    unfolding tests search_rank_def Let_def fuzzy_matches_subseq
    by (elim disjE) (auto split: if_splits)
qed

lemma rank_bound: "search_rank q item = Some r \<Longrightarrow> r < 5"
  by (auto simp: search_rank_def Let_def split: if_splits)

lemma better_kind_rank:
  assumes "found_name a = last_segment (found_path a)" "search_rank q a = Some r"
    and "found_name b = last_segment (found_path b)" "search_rank q b = Some r'"
  shows "better_kind q a b \<longleftrightarrow> r < r'"
proof -
  have "better_kind q a b \<longleftrightarrow> (\<exists>k < 5. r \<le> k \<and> k < r')"
    using rank_test [OF assms(1,2)] rank_test [OF assms(3,4)] unfolding better_kind_def by force
  then show ?thesis using rank_bound [OF assms(2)] by (meson order.strict_trans1 order_refl)
qed

lemma key_good:
  assumes "found_name a = last_segment (found_path a)" "is_found q a"
    and "found_name b = last_segment (found_path b)" "is_found q b" and "result_key q a \<le> result_key q b"
  shows "at_least_as_good (lowercase q) a b"
proof -
  obtain r r' where r: "search_rank (lowercase q) a = Some r" "search_rank (lowercase q) b = Some r'"
    using search_rank_found [OF assms(1), of "lowercase q"] search_rank_found [OF assms(3), of "lowercase q"] assms(2,4)
    by (auto simp: is_found_def)
  from assms(5) have "r < r' \<or> r = r' \<and> (length (found_path a) < length (found_path b) \<or>
      length (found_path a) = length (found_path b) \<and> found_path a \<le> found_path b)"
    by (auto simp: result_key_def search_key_def r less_eq_prod_def split: prod.splits)
  then show ?thesis
    using better_kind_rank [OF assms(1) r(1) assms(3) r(2)] better_kind_rank [OF assms(3) r(2) assms(1) r(1)]
    by (auto simp: at_least_as_good_def)
qed

lemma sorted_good:
  assumes "list_all (\<lambda>i. found_name i = last_segment (found_path i) \<and> is_found q i) xs"
    and "sorted (List.map (result_key q) xs)"
  shows "sorted_wrt (at_least_as_good (lowercase q)) xs"
proof -
  have "sorted_wrt (\<lambda>a b. result_key q a \<le> result_key q b) xs"
    using assms(2) by (simp add: sorted_map)
  then show ?thesis
    by (rule sorted_wrt_mono_rel [rotated]) (use assms(1) key_good in \<open>auto simp: list_all_iff\<close>)
qed

lemma search_results_good:
  assumes "collect_hierarchy sm d n = Some items"
  shows "fst (search_results q items) = length (filter (is_found q) items) \<and>
    (\<exists>rest. mset (snd (search_results q items) @ rest) = mset (filter (is_found q) items) \<and>
       sorted_wrt (at_least_as_good (lowercase q)) (snd (search_results q items) @ rest) \<and>
       length (snd (search_results q items)) = min (length (filter (is_found q) items)) 100)"
proof -
  have named: "\<forall>i \<in> set items. found_name i = last_segment (found_path i)"
    using collect_hierarchy_named [of sm d n] assms by (simp add: well_named_def list_all_iff)
  from search_results_best [OF assms, of q] obtain rest where
    rest: "mset (snd (search_results q items) @ rest) = mset (filter (is_found q) items)"
      "sorted (List.map (result_key q) (snd (search_results q items) @ rest))" by blast
  have "set (snd (search_results q items) @ rest) = set (filter (is_found q) items)"
    using rest(1) by (metis set_mset_mset)
  then have "list_all (\<lambda>i. found_name i = last_segment (found_path i) \<and> is_found q i)
      (snd (search_results q items) @ rest)"
    using named by (auto simp: list_all_iff)
  from sorted_good [OF this rest(2)] rest(1) search_results_best [OF assms, of q] show ?thesis by blast
qed

text \<open>
  C20: A search over the hierarchy finds exactly the items whose path has the query, case ignored, as
  a subsequence; it counts them all and returns the best hundred, each at least as good as the
  next and as all that are left out: better for an equal name, a name that starts with the query, a
  name that has it, a path that has it, in this order, then for a shorter path, then for the first
  in the alphabet.
\<close>

theorem search_finds_best:
  "collect_hierarchy sm d n = Some items \<Longrightarrow>
   fst (search_results q items) = length (filter (is_found q) items) \<and>
   (\<exists>rest. mset (snd (search_results q items) @ rest) = mset (filter (is_found q) items) \<and>
      sorted_wrt (at_least_as_good (lowercase q)) (snd (search_results q items) @ rest) \<and>
      length (snd (search_results q items)) = min (length (filter (is_found q) items)) 100)"
  by (rule search_results_good)

section \<open>An example\<close>

text \<open>A design with an array of two instances of a module with a signal.\<close>

definition leaf :: definition_info where
  "leaf = \<lparr>definition_name = ''leaf'', definition_kind_of = ModuleDef,
     definition_range = (\<lparr>loc_buffer = 1, loc_offset = 0\<rparr>, \<lparr>loc_buffer = 1, loc_offset = 4\<rparr>)\<rparr>"

definition leaf_members :: "design_symbol list" where
  "leaf_members = [ValueSymbol ''sig'' (definition_range leaf) False ''logic'']"

definition two_leaves :: "design_symbol" where
  "two_leaves =
     InstanceArraySymbol ''us'' (definition_range leaf)
       \<lparr>dims_left = 1, dims_descending = True, dims_width = 2, dims_text = ''[1:0]''\<rparr>
       [InstanceSymbol [] None leaf leaf_members, InstanceSymbol [] None leaf leaf_members]"

definition tiny_design :: elaborated where
  "tiny_design =
     \<lparr>top_members = [InstanceSymbol ''t'' None leaf [two_leaves]], packages = [],
      lookup_path = (\<lambda>p. if p = ''t.us[1]'' \<or> p = ''t.us[0]''
        then Some (MemberFound (InstanceSymbol [] None leaf leaf_members)) else None),
      lookup_steps = (\<lambda>p. []), package_named = Map.empty\<rparr>"

text \<open>A top with an instance that has one in turn.\<close>

definition deep_inner :: design_symbol where
  "deep_inner = InstanceSymbol ''b'' None leaf leaf_members"

definition deep_outer :: design_symbol where
  "deep_outer = InstanceSymbol ''a'' None leaf [deep_inner]"

definition deep_design :: "elaborated" where
  "deep_design =
     \<lparr>top_members = [InstanceSymbol ''t'' None leaf [deep_outer]], packages = [],
      lookup_path = (\<lambda>p. if p = ''t.a'' then Some (MemberFound deep_outer)
        else if p = ''t.a.b'' then Some (MemberFound deep_inner) else None),
      lookup_steps = (\<lambda>p. []), package_named = Map.empty\<rparr>"


lemma tiny_items:
  "map_option (List.map found_path) (collect_hierarchy flat_manager tiny_design 9) =
     Some [''t'', ''t.us'', ''t.us[1]'', ''t.us[1].sig'', ''t.us[0]'', ''t.us[0].sig'']"
  by code_simp

theorem search_finds_best_witness:
  "\<exists>items. collect_hierarchy flat_manager tiny_design 9 = Some items \<and>
     fst (search_results ''us'' items) = length (filter (is_found ''us'') items)"
proof -
  obtain items where c: "collect_hierarchy flat_manager tiny_design 9 = Some items"
    using tiny_items by (cases "collect_hierarchy flat_manager tiny_design 9") auto
  then show ?thesis using search_finds_best [OF c, of "''us''"] by blast
qed

lemma probe_sees_children_witness: "has_visible_children leaf_members"
  by (rule probe_sees_children [of flat_manager])
    (simp_all add: scope_children_def leaf_members_def)

end
