(* ===== verification/ConeTracer.thy ===== *)
theory ConeTracer
  imports Converters
begin

text \<open>
  Cone tracing, \<^verbatim>\<open>ast/ConeTracer.h\<close> with the index of uses in \<^verbatim>\<open>ReferenceIndexer.h\<close>: which
  signals drive a signal, and which it drives. Both tracers walk the processes and the port
  connections that mention the signal. A symbol is the address of its object, by which the sets of
  the code are ordered. An assertion of the code that fails is \<open>None\<close>.
\<close>

section \<open>What is walked\<close>

text \<open>
  \<open>Other\<close> is a node that the tracers pass through to its children. A conditional has its
  conditions, a case statement its selector and items; parts that no tracer visits are left out.
\<close>

datatype ast =
    ValueRef nat
  | Assign ast ast
  | Conditional "ast list" ast "ast option"
  | CaseOf ast "(ast list \<times> ast) list" "ast option"
  | Other "ast list"

datatype direction = DirIn | DirOut | DirInOut | DirRef

text \<open>A connection of a port has the symbol inside the instance; interfaces are not followed.\<close>

datatype connection = PortConnection direction nat "ast option" | InterfaceConnection

datatype use_site = Process (use_address: nat) ast | InstanceUse (use_address: nat) "connection list"

text \<open>A modport port stands for the signal of the interface it leads to.\<close>

record symbols =
  modport_internal :: "nat \<Rightarrow> nat option"
  is_parameter :: "nat \<Rightarrow> bool"

definition concrete_symbol :: "symbols \<Rightarrow> nat \<Rightarrow> nat" where
  "concrete_symbol sy v = (case modport_internal sy v of Some i \<Rightarrow> i | None \<Rightarrow> v)"

definition add_leaf :: "symbols \<Rightarrow> nat \<Rightarrow> nat set \<Rightarrow> nat set" where
  "add_leaf sy v ls = (if is_parameter sy v then ls else insert v ls)"

fun trace :: "('u \<Rightarrow> 's \<Rightarrow> 's option) \<Rightarrow> 'u list \<Rightarrow> 's \<Rightarrow> 's option" where
  "trace f [] s = Some s"
| "trace f (u # us) s = (case f u s of None \<Rightarrow> None | Some s \<Rightarrow> trace f us s)"

section \<open>Drivers\<close>

record drivers_state =
  condition_drivers :: "nat set"
  is_lhs :: bool
  is_driven :: bool
  in_condition :: bool
  port_symbol :: "nat option"
  leaves :: "nat set"

definition drive_value :: "symbols \<Rightarrow> nat \<Rightarrow> nat \<Rightarrow> drivers_state \<Rightarrow> drivers_state" where
  "drive_value sy root v s =
     (let c = concrete_symbol sy v;
          s = (if is_lhs s \<and> c = root then s\<lparr>is_driven := True\<rparr>
               else if \<not> is_lhs s \<and> is_driven s then s\<lparr>leaves := add_leaf sy c (leaves s)\<rparr>
               else s)
      in if in_condition s then s\<lparr>condition_drivers := insert c (condition_drivers s)\<rparr> else s)"

definition drive_end :: "symbols \<Rightarrow> drivers_state \<Rightarrow> drivers_state" where
  "drive_end sy s =
     (let ls = (case port_symbol s of None \<Rightarrow> leaves s | Some p \<Rightarrow> add_leaf sy p (leaves s))
      in s\<lparr>leaves := ls \<union> Set.filter (\<lambda>v. \<not> is_parameter sy v) (condition_drivers s)\<rparr>)"

text \<open>
  The guards \<^verbatim>\<open>ScopedReset\<close> fail when the flag is set already, and clear it at the end of the scope;
  \<^verbatim>\<open>ScopedRestore\<close> puts the old value back.
\<close>

function (sequential) drive :: "symbols \<Rightarrow> nat \<Rightarrow> ast \<Rightarrow> drivers_state \<Rightarrow> drivers_state option"
and drive_all :: "symbols \<Rightarrow> nat \<Rightarrow> ast list \<Rightarrow> drivers_state \<Rightarrow> drivers_state option"
and drive_items :: "symbols \<Rightarrow> nat \<Rightarrow> (ast list \<times> ast) list \<Rightarrow> drivers_state \<Rightarrow> drivers_state option" where
  "drive sy root (ValueRef v) s = Some (drive_value sy root v s)"
| "drive sy root (Assign l r) s =
     (if is_driven s \<or> is_lhs s then None
      else case drive sy root l (s\<lparr>is_lhs := True\<rparr>) of
             None \<Rightarrow> None
           | Some s \<Rightarrow>
               let s = s\<lparr>is_lhs := False\<rparr> in
               if \<not> is_driven s then Some s
               else map_option (\<lambda>s. (drive_end sy s)\<lparr>is_driven := False\<rparr>) (drive sy root r s))"
| "drive sy root (Conditional cs t f) s =
     (if in_condition s then None
      else case drive_all sy root cs (s\<lparr>in_condition := True\<rparr>) of
             None \<Rightarrow> None
           | Some s1 \<Rightarrow>
               (case drive sy root t (s1\<lparr>in_condition := False\<rparr>) of
                  None \<Rightarrow> None
                | Some s2 \<Rightarrow>
                    map_option (\<lambda>s3. s3\<lparr>condition_drivers := condition_drivers s\<rparr>)
                      (case f of None \<Rightarrow> Some s2 | Some f \<Rightarrow> drive sy root f s2)))"
| "drive sy root (CaseOf e items d) s =
     (if in_condition s then None
      else case drive sy root e (s\<lparr>in_condition := True\<rparr>) of
             None \<Rightarrow> None
           | Some s1 \<Rightarrow>
               (case drive_items sy root items (s1\<lparr>in_condition := False\<rparr>) of
                  None \<Rightarrow> None
                | Some s2 \<Rightarrow>
                    map_option (\<lambda>s3. s3\<lparr>condition_drivers := condition_drivers s\<rparr>)
                      (case d of None \<Rightarrow> Some s2 | Some d \<Rightarrow> drive sy root d s2)))"
| "drive sy root (Other es) s = drive_all sy root es s"
| "drive_all sy root [] s = Some s"
| "drive_all sy root (e # es) s =
     (case drive sy root e s of None \<Rightarrow> None | Some s \<Rightarrow> drive_all sy root es s)"
| "drive_items sy root [] s = Some s"
| "drive_items sy root ((es, b) # items) s =
     (if in_condition s then None
      else case drive_all sy root es (s\<lparr>in_condition := True\<rparr>) of
             None \<Rightarrow> None
           | Some s \<Rightarrow>
               (case drive sy root b (s\<lparr>in_condition := False\<rparr>) of
                  None \<Rightarrow> None
                | Some s \<Rightarrow> drive_items sy root items s))"
  by pat_completeness auto
termination
  by (relation "measure (case_sum (\<lambda>(sy, root, a, s). size a)
      (case_sum (\<lambda>(sy, root, es, s). size_list size es)
        (\<lambda>(sy, root, items, s). size_list (size_prod (size_list size) size) items)))") auto

fun drive_connection :: "symbols \<Rightarrow> nat \<Rightarrow> connection \<Rightarrow> drivers_state \<Rightarrow> drivers_state option" where
  "drive_connection sy root (PortConnection dir p (Some e)) s =
     (if dir = DirIn \<and> p = root then
        if is_driven s then None
        else map_option (\<lambda>s. s\<lparr>is_driven := False\<rparr>) (drive sy root e (s\<lparr>is_driven := True\<rparr>))
      else if dir = DirOut then
        if port_symbol s \<noteq> None then None
        else map_option (\<lambda>s. s\<lparr>port_symbol := None\<rparr>) (drive sy root e (s\<lparr>port_symbol := Some p\<rparr>))
      else Some s)"
| "drive_connection sy root _ s = Some s"

fun drive_use :: "symbols \<Rightarrow> nat \<Rightarrow> use_site \<Rightarrow> drivers_state \<Rightarrow> drivers_state option" where
  "drive_use sy root (Process i a) s = drive sy root a s"
| "drive_use sy root (InstanceUse i cs) s = trace (drive_connection sy root) cs s"

definition new_drivers :: drivers_state where
  "new_drivers = \<lparr>condition_drivers = {}, is_lhs = False, is_driven = False, in_condition = False,
     port_symbol = None, leaves = {}\<rparr>"

section \<open>Loads\<close>

record loads_state =
  on_lhs :: bool
  found_root :: bool
  loads :: "nat set"

definition load_value :: "symbols \<Rightarrow> nat \<Rightarrow> nat \<Rightarrow> loads_state \<Rightarrow> loads_state" where
  "load_value sy root v s =
     (let c = concrete_symbol sy v in
      if on_lhs s then s\<lparr>loads := add_leaf sy c (loads s)\<rparr>
      else if c = root then s\<lparr>found_root := True\<rparr>
      else s)"

function (sequential) load :: "symbols \<Rightarrow> nat \<Rightarrow> ast \<Rightarrow> loads_state \<Rightarrow> loads_state option"
and load_all :: "symbols \<Rightarrow> nat \<Rightarrow> ast list \<Rightarrow> loads_state \<Rightarrow> loads_state option"
and load_items :: "symbols \<Rightarrow> nat \<Rightarrow> bool \<Rightarrow> (ast list \<times> ast) list \<Rightarrow> loads_state \<Rightarrow> loads_state option" where
  "load sy root (ValueRef v) s = Some (load_value sy root v s)"
| "load sy root (Assign l r) s =
     (case (if found_root s then Some s else load sy root r s) of
        None \<Rightarrow> None
      | Some s1 \<Rightarrow>
          if \<not> found_root s1 then Some s1
          else if on_lhs s1 then None
          else map_option (\<lambda>s2. s2\<lparr>on_lhs := False, found_root := found_root s\<rparr>)
                 (load sy root l (s1\<lparr>on_lhs := True\<rparr>)))"
| "load sy root (Conditional cs t f) s =
     (case load_all sy root cs s of
        None \<Rightarrow> None
      | Some s1 \<Rightarrow>
          (case load sy root t s1 of
             None \<Rightarrow> None
           | Some s2 \<Rightarrow>
               map_option (\<lambda>s3. s3\<lparr>found_root := found_root s\<rparr>)
                 (case f of None \<Rightarrow> Some s2 | Some f \<Rightarrow> load sy root f s2)))"
| "load sy root (CaseOf e items d) s =
     (case load sy root e s of
        None \<Rightarrow> None
      | Some s1 \<Rightarrow>
          (case load_items sy root (found_root s1) items s1 of
             None \<Rightarrow> None
           | Some s2 \<Rightarrow>
               map_option (\<lambda>s3. s3\<lparr>found_root := found_root s\<rparr>)
                 (case d of
                    None \<Rightarrow> Some s2
                  | Some d \<Rightarrow> load sy root d (s2\<lparr>found_root := found_root s1\<rparr>))))"
| "load sy root (Other es) s = load_all sy root es s"
| "load_all sy root [] s = Some s"
| "load_all sy root (e # es) s =
     (case load sy root e s of None \<Rightarrow> None | Some s \<Rightarrow> load_all sy root es s)"
| "load_items sy root sel [] s = Some s"
| "load_items sy root sel ((es, b) # items) s =
     (case load_all sy root es (s\<lparr>found_root := sel\<rparr>) of
        None \<Rightarrow> None
      | Some s \<Rightarrow>
          (case load sy root b s of None \<Rightarrow> None | Some s \<Rightarrow> load_items sy root sel items s))"
  by pat_completeness auto
termination
  by (relation "measure (case_sum (\<lambda>(sy, root, a, s). size a)
      (case_sum (\<lambda>(sy, root, es, s). size_list size es)
        (\<lambda>(sy, root, sel, items, s). size_list (size_prod (size_list size) size) items)))") auto

text \<open>
  An expression that is not there is not asked for: following the null pointer is undefined in the
  code and \<open>None\<close> here.
\<close>

fun load_connection :: "symbols \<Rightarrow> nat \<Rightarrow> connection \<Rightarrow> loads_state \<Rightarrow> loads_state option" where
  "load_connection sy root (PortConnection dir p e) s =
     (if dir = DirOut \<and> p = root then
        if found_root s then None
        else case e of
               None \<Rightarrow> None
             | Some e \<Rightarrow> map_option (\<lambda>s. s\<lparr>found_root := False\<rparr>) (load sy root e (s\<lparr>found_root := True\<rparr>))
      else if dir = DirIn then
        if found_root s then None
        else case e of
               None \<Rightarrow> None
             | Some e \<Rightarrow>
                 map_option (\<lambda>s. (if found_root s then s\<lparr>loads := add_leaf sy p (loads s)\<rparr> else s)\<lparr>found_root := False\<rparr>)
                   (load sy root e s)
      else Some s)"
| "load_connection sy root InterfaceConnection s = Some s"

fun load_use :: "symbols \<Rightarrow> nat \<Rightarrow> use_site \<Rightarrow> loads_state \<Rightarrow> loads_state option" where
  "load_use sy root (Process i a) s = load sy root a s"
| "load_use sy root (InstanceUse i cs) s = trace (load_connection sy root) cs s"

definition new_loads :: loads_state where
  "new_loads = \<lparr>on_lhs = False, found_root = False, loads = {}\<rparr>"

section \<open>The index of uses\<close>

text \<open>
  The processes and instances of the design, and the symbols each mentions. The uses of a symbol
  are walked in the order of their addresses.
\<close>

datatype design_node =
    ProcessNode nat ast
  | InstanceNode nat "connection list" "design_node list"
  | ScopeNode "design_node list"

fun all_uses :: "design_node \<Rightarrow> use_site list" where
  "all_uses (ProcessNode i a) = [Process i a]"
| "all_uses (InstanceNode i cs ns) = InstanceUse i cs # concat (List.map all_uses ns)"
| "all_uses (ScopeNode ns) = concat (List.map all_uses ns)"

function (sequential) refs :: "symbols \<Rightarrow> ast \<Rightarrow> nat set"
and refs_all :: "symbols \<Rightarrow> ast list \<Rightarrow> nat set"
and refs_items :: "symbols \<Rightarrow> (ast list \<times> ast) list \<Rightarrow> nat set" where
  "refs sy (ValueRef v) = {concrete_symbol sy v}"
| "refs sy (Assign l r) = refs sy l \<union> refs sy r"
| "refs sy (Conditional cs t f) =
     refs_all sy cs \<union> refs sy t \<union> (case f of None \<Rightarrow> {} | Some f \<Rightarrow> refs sy f)"
| "refs sy (CaseOf e items d) =
     refs sy e \<union> refs_items sy items \<union> (case d of None \<Rightarrow> {} | Some d \<Rightarrow> refs sy d)"
| "refs sy (Other es) = refs_all sy es"
| "refs_all sy [] = {}"
| "refs_all sy (e # es) = refs sy e \<union> refs_all sy es"
| "refs_items sy [] = {}"
| "refs_items sy ((es, b) # items) = refs_all sy es \<union> refs sy b \<union> refs_items sy items"
  by pat_completeness auto
termination
  by (relation "measure (case_sum (\<lambda>(sy, a). size a)
      (case_sum (\<lambda>(sy, es). size_list size es)
        (\<lambda>(sy, items). size_list (size_prod (size_list size) size) items)))") auto

fun connection_refs :: "symbols \<Rightarrow> connection \<Rightarrow> nat set" where
  "connection_refs sy (PortConnection dir p e) =
     insert p (case e of None \<Rightarrow> {} | Some e \<Rightarrow> refs sy e)"
| "connection_refs sy InterfaceConnection = {}"

fun use_refs :: "symbols \<Rightarrow> use_site \<Rightarrow> nat set" where
  "use_refs sy (Process i a) = refs sy a"
| "use_refs sy (InstanceUse i cs) = \<Union> (set (List.map (connection_refs sy) cs))"

definition symbol_uses :: "symbols \<Rightarrow> design_node \<Rightarrow> nat \<Rightarrow> use_site list" where
  "symbol_uses sy d v = sort_key use_address (filter (\<lambda>u. v \<in> use_refs sy u) (all_uses d))"

section \<open>Cones\<close>

datatype cone_error = NoPath string | NoReference string | Undefined

definition trace_drivers :: "symbols \<Rightarrow> nat \<Rightarrow> use_site list \<Rightarrow> nat set option" where
  "trace_drivers sy root us = map_option leaves (trace (drive_use sy root) us new_drivers)"

definition trace_loads :: "symbols \<Rightarrow> nat \<Rightarrow> use_site list \<Rightarrow> nat set option" where
  "trace_loads sy root us = map_option loads (trace (load_use sy root) us new_loads)"

text \<open>\<open>resolve\<close> is the lookup of a path in the library.\<close>

definition get_cone ::
    "symbols \<Rightarrow> (string \<Rightarrow> nat option) \<Rightarrow> design_node \<Rightarrow> bool \<Rightarrow> string \<Rightarrow> cone_error + nat set" where
  "get_cone sy resolve d drivers path =
     (case resolve path of
        None \<Rightarrow> Inl (NoPath path)
      | Some v \<Rightarrow>
          let root = concrete_symbol sy v; us = symbol_uses sy d root in
          if us = [] then Inl (NoReference path)
          else case (if drivers then trace_drivers sy root us else trace_loads sy root us) of
                 None \<Rightarrow> Inl Undefined
               | Some ls \<Rightarrow> Inr ls)"

text \<open>The paths of a cone in the order of the addresses, each once.\<close>

definition cone_paths :: "(nat \<Rightarrow> string) \<Rightarrow> nat set \<Rightarrow> string list" where
  "cone_paths path_of_symbol ls =
     fold list_emplace (List.map path_of_symbol (sorted_list_of_set ls)) []"

record cone_entry =
  cone_path :: string
  cone_location :: lsp_location

text \<open>\<open>decl\<close> is the declaration of a symbol with its name, \<open>file_of\<close> the absolute file name of a location.\<close>

definition cone_locations ::
    "source_manager \<Rightarrow> (source_loc \<Rightarrow> string) \<Rightarrow> (nat \<Rightarrow> string) \<Rightarrow> (nat \<Rightarrow> source_loc \<times> string) \<Rightarrow>
     nat set \<Rightarrow> cone_entry list" where
  "cone_locations sm file_of path_of_symbol decl ls =
     List.map_filter (\<lambda>v. case decl v of
         (loc, name) \<Rightarrow>
           if buffer_valid sm (loc_buffer loc) then
             Some \<lparr>cone_path = path_of_symbol v,
               cone_location = \<lparr>location_uri = uri_str (from_file (file_of loc)),
                 location_range = to_range sm (loc, loc\<lparr>loc_offset := loc_offset loc + length name\<rparr>)\<rparr>\<rparr>
           else None)
       (sorted_list_of_set ls)"

end
