(* ===== verification/ConeSound.thy ===== *)
theory ConeSound
  imports ConeTracer
begin

text \<open>
  What the cones of ConeTracer contain: on code whose expressions hold no assignments, the walk of
  the tracers computes what can be read off the list of all assignments with their guards.
\<close>

section \<open>Assignments and their guards\<close>

text \<open>Expressions without assignments, and code whose expressions are such.\<close>

fun plain :: "ast \<Rightarrow> bool" where
  "plain (ValueRef v) = True"
| "plain (Other es) = list_all plain es"
| "plain _ = False"

fun tidy :: "ast \<Rightarrow> bool" where
  "tidy (ValueRef v) = True"
| "tidy (Assign l r) = (plain l \<and> plain r)"
| "tidy (Conditional cs t f) = (list_all plain cs \<and> tidy t \<and> pred_option tidy f)"
| "tidy (CaseOf e items d) =
     (plain e \<and> list_all (\<lambda>(es, b). list_all plain es \<and> tidy b) items \<and> pred_option tidy d)"
| "tidy (Other es) = list_all tidy es"

text \<open>
  Each assignment of the code as the signals of its guards, its target and its source. An item of
  a case statement is guarded by the expressions of the items before it too, if \<open>acc\<close>.
\<close>

type_synonym flow = "nat set \<times> nat set \<times> nat set"

function (sequential) flows :: "bool \<Rightarrow> symbols \<Rightarrow> nat set \<Rightarrow> ast \<Rightarrow> flow list"
and flows_all :: "bool \<Rightarrow> symbols \<Rightarrow> nat set \<Rightarrow> ast list \<Rightarrow> flow list"
and flows_items :: "bool \<Rightarrow> symbols \<Rightarrow> nat set \<Rightarrow> (ast list \<times> ast) list \<Rightarrow> flow list" where
  "flows acc sy G (ValueRef v) = []"
| "flows acc sy G (Assign l r) = [(G, refs sy l, refs sy r)]"
| "flows acc sy G (Conditional cs t f) =
     flows acc sy (G \<union> refs_all sy cs) t @
     (case f of None \<Rightarrow> [] | Some f \<Rightarrow> flows acc sy (G \<union> refs_all sy cs) f)"
| "flows acc sy G (CaseOf e items d) =
     flows_items acc sy (G \<union> refs sy e) items @
     (case d of
        None \<Rightarrow> []
      | Some d \<Rightarrow>
          flows acc sy (G \<union> refs sy e \<union> (if acc then \<Union> (set (List.map (\<lambda>(es, b). refs_all sy es) items)) else {})) d)"
| "flows acc sy G (Other es) = flows_all acc sy G es"
| "flows_all acc sy G [] = []"
| "flows_all acc sy G (e # es) = flows acc sy G e @ flows_all acc sy G es"
| "flows_items acc sy G [] = []"
| "flows_items acc sy G ((es, b) # items) =
     flows acc sy (G \<union> refs_all sy es) b @
     flows_items acc sy (if acc then G \<union> refs_all sy es else G) items"
  by pat_completeness auto
termination
  by (relation "measure (case_sum (\<lambda>(acc, sy, G, a). size a)
      (case_sum (\<lambda>(acc, sy, G, es). size_list size es)
        (\<lambda>(acc, sy, G, items). size_list (size_prod (size_list size) size) items)))") auto

definition signals :: "symbols \<Rightarrow> nat set \<Rightarrow> nat set" where
  "signals sy A = {v \<in> A. \<not> is_parameter sy v}"

definition driven_by :: "symbols \<Rightarrow> nat set \<Rightarrow> nat \<Rightarrow> flow list \<Rightarrow> nat set" where
  "driven_by sy ports root fs = signals sy (\<Union> (set (List.map (\<lambda>(G, L, R). if root \<in> L then G \<union> R \<union> ports else {}) fs)))"

definition loaded_by :: "symbols \<Rightarrow> nat \<Rightarrow> flow list \<Rightarrow> nat set" where
  "loaded_by sy root fs = signals sy (\<Union> (set (List.map (\<lambda>(G, L, R). if root \<in> G \<union> R then L else {}) fs)))"

lemma signals_simps [simp]:
  "signals sy {} = {}" "signals sy (A \<union> B) = signals sy A \<union> signals sy B"
  "signals sy (insert v A) = (if is_parameter sy v then signals sy A else insert v (signals sy A))"
  by (auto simp: signals_def)

lemma driven_by_simps [simp]:
  "driven_by sy P root [] = {}"
  "driven_by sy P root ((G, L, R) # fs) =
     (if root \<in> L then signals sy (G \<union> R \<union> P) \<union> driven_by sy P root fs else driven_by sy P root fs)"
  "driven_by sy P root (fs @ gs) = driven_by sy P root fs \<union> driven_by sy P root gs"
  by (auto simp: driven_by_def signals_def)

lemma loaded_by_simps [simp]:
  "loaded_by sy root [] = {}"
  "loaded_by sy root ((G, L, R) # fs) =
     (if root \<in> G \<union> R then signals sy L \<union> loaded_by sy root fs else loaded_by sy root fs)"
  "loaded_by sy root (fs @ gs) = loaded_by sy root fs \<union> loaded_by sy root gs"
  by (auto simp: loaded_by_def signals_def)

lemma add_leaf_signals: "add_leaf sy v ls = ls \<union> signals sy {v}"
  by (simp add: add_leaf_def)

section \<open>The tracer of drivers\<close>

definition read_by :: "symbols \<Rightarrow> nat \<Rightarrow> nat set \<Rightarrow> drivers_state \<Rightarrow> drivers_state" where
  "read_by sy root A s =
     s\<lparr>is_driven := is_driven s \<or> (is_lhs s \<and> root \<in> A),
       leaves := leaves s \<union> (if \<not> is_lhs s \<and> is_driven s then signals sy A else {}),
       condition_drivers := condition_drivers s \<union> (if in_condition s then A else {})\<rparr>"

lemma read_by_empty [simp]: "read_by sy root {} s = s"
  by (simp add: read_by_def)

lemma read_by_twice [simp]: "read_by sy root B (read_by sy root A s) = read_by sy root (A \<union> B) s"
  by (cases s) (auto simp: read_by_def)

lemma drive_all_read:
  "(\<And>e s. e \<in> set es \<Longrightarrow> drive sy root e s = Some (read_by sy root (refs sy e) s)) \<Longrightarrow>
   drive_all sy root es s = Some (read_by sy root (refs_all sy es) s)"
  by (induction es arbitrary: s) auto

lemma drive_plain: "plain e \<Longrightarrow> drive sy root e s = Some (read_by sy root (refs sy e) s)"
proof (induction e arbitrary: s rule: plain.induct)
  case (1 v)
  then show ?case
    by (cases s) (auto simp: drive_value_def read_by_def Let_def add_leaf_signals)
next
  case (2 es)
  then show ?case by (simp add: list_all_iff drive_all_read)
qed simp_all

lemma drive_all_plain: "list_all plain es \<Longrightarrow> drive_all sy root es s = Some (read_by sy root (refs_all sy es) s)"
  by (simp add: drive_all_read drive_plain list_all_iff)

definition driven :: "symbols \<Rightarrow> nat \<Rightarrow> flow list \<Rightarrow> drivers_state \<Rightarrow> drivers_state" where
  "driven sy root fs s = s\<lparr>leaves := leaves s \<union> driven_by sy (set_option (port_symbol s)) root fs\<rparr>"

lemma driven_simps [simp]:
  "driven sy root [] s = s" "driven sy root gs (driven sy root fs s) = driven sy root (fs @ gs) s"
  "is_lhs (driven sy root fs s) = is_lhs s" "is_driven (driven sy root fs s) = is_driven s"
  "in_condition (driven sy root fs s) = in_condition s" "port_symbol (driven sy root fs s) = port_symbol s"
  "condition_drivers (driven sy root fs s) = condition_drivers s"
  by (simp_all add: driven_def Un_assoc)

definition clear :: "drivers_state \<Rightarrow> bool" where
  "clear s \<longleftrightarrow> \<not> is_lhs s \<and> \<not> is_driven s \<and> \<not> in_condition s"

lemma clear_driven [simp]: "clear (driven sy root fs s) = clear s"
  by (simp add: clear_def)

lemma clear_guard [simp]: "clear (s\<lparr>condition_drivers := G\<rparr>) = clear s"
  by (simp add: clear_def)

lemma driven_guard:
  "(driven sy root fs (s\<lparr>condition_drivers := G\<rparr>))\<lparr>condition_drivers := condition_drivers s\<rparr> = driven sy root fs s"
  by (simp add: driven_def)

lemma read_condition:
  "clear s \<Longrightarrow> (read_by sy root A (s\<lparr>in_condition := True\<rparr>))\<lparr>in_condition := False\<rparr> =
     s\<lparr>condition_drivers := condition_drivers s \<union> A\<rparr>"
  by (cases s) (simp add: clear_def read_by_def)

lemma drive_assign:
  assumes "clear s" and "plain l" and "plain r"
  shows "drive sy root (Assign l r) s = Some (driven sy root [(condition_drivers s, refs sy l, refs sy r)] s)"
proof -
  have "Set.filter (\<lambda>v. \<not> is_parameter sy v) A = signals sy A" for A
    by (auto simp: signals_def)
  with assms show ?thesis
    by (cases s; cases "port_symbol s")
      (auto simp: drive_plain clear_def read_by_def driven_def drive_end_def add_leaf_signals Let_def)
qed

lemma drive_all_driven:
  assumes "\<And>e s. e \<in> set es \<Longrightarrow> clear s \<Longrightarrow>
      drive sy root e s = Some (driven sy root (flows True sy (condition_drivers s) e) s)"
    and "clear s"
  shows "drive_all sy root es s = Some (driven sy root (flows_all True sy (condition_drivers s) es) s)"
  using assms by (induction es arbitrary: s) simp_all

lemma drive_items_driven:
  assumes "\<And>es b s. (es, b) \<in> set items \<Longrightarrow> clear s \<Longrightarrow>
      drive sy root b s = Some (driven sy root (flows True sy (condition_drivers s) b) s)"
    and "list_all (\<lambda>(es, b). list_all plain es) items" and "clear s"
  shows "drive_items sy root items s =
    Some (driven sy root (flows_items True sy (condition_drivers s) items)
      (s\<lparr>condition_drivers := condition_drivers s \<union> \<Union> (set (List.map (\<lambda>(es, b). refs_all sy es) items))\<rparr>))"
  using assms
proof (induction items arbitrary: s)
  case Nil
  then show ?case by simp
next
  case (Cons item items)
  obtain es b where item: "item = (es, b)" by (cases item)
  let ?s = "s\<lparr>condition_drivers := condition_drivers s \<union> refs_all sy es\<rparr>"
  let ?d = "driven sy root (flows True sy (condition_drivers ?s) b) ?s"
  have c: "clear ?s" "clear ?d" using Cons.prems(3) by simp_all
  have "drive_all sy root es (s\<lparr>in_condition := True\<rparr>) =
      Some (read_by sy root (refs_all sy es) (s\<lparr>in_condition := True\<rparr>))"
    using Cons.prems(2) item by (simp add: drive_all_plain)
  moreover have "drive sy root b ?s = Some ?d"
    using Cons.prems(1) [of es b ?s] c item by simp
  moreover have "drive_items sy root items ?d =
      Some (driven sy root (flows_items True sy (condition_drivers ?d) items)
        (?d\<lparr>condition_drivers := condition_drivers ?d \<union> \<Union> (set (List.map (\<lambda>(es, b). refs_all sy es) items))\<rparr>))"
    using Cons.prems(1,2) c item by (intro Cons.IH) auto
  ultimately show ?case
    using Cons.prems(3) item
    by (simp add: read_condition clear_def [of s]) (simp add: driven_def Un_assoc)
qed

lemma drive_tidy:
  "tidy a \<Longrightarrow> clear s \<Longrightarrow> drive sy root a s = Some (driven sy root (flows True sy (condition_drivers s) a) s)"
proof (induction a arbitrary: s rule: tidy.induct)
  case (1 v)
  then show ?case by (cases s) (simp add: drive_value_def clear_def Let_def)
next
  case (2 l r)
  then show ?case using drive_assign [of s l r sy root] by simp
next
  case (3 cs t f)
  let ?s = "s\<lparr>condition_drivers := condition_drivers s \<union> refs_all sy cs\<rparr>"
  have c: "clear ?s" "\<not> in_condition s" using 3(4) by (simp_all add: clear_def)
  have cs: "drive_all sy root cs (s\<lparr>in_condition := True\<rparr>) =
      Some (read_by sy root (refs_all sy cs) (s\<lparr>in_condition := True\<rparr>))"
    using 3(3) by (simp add: drive_all_plain)
  have t: "drive sy root t ?s = Some (driven sy root (flows True sy (condition_drivers ?s) t) ?s)"
    using 3(1) [of ?s] 3(3) c by simp
  show ?case
  proof (cases f)
    case None
    then show ?thesis using c(2) cs t 3(4) by (simp add: read_condition driven_guard)
  next
    case (Some g)
    then have "drive sy root g (driven sy root (flows True sy (condition_drivers ?s) t) ?s) =
        Some (driven sy root (flows True sy (condition_drivers ?s) g)
          (driven sy root (flows True sy (condition_drivers ?s) t) ?s))"
      using 3(2) [of g "driven sy root (flows True sy (condition_drivers ?s) t) ?s"] 3(3) c by simp
    then show ?thesis using c(2) cs t 3(4) Some by (simp add: read_condition driven_guard)
  qed
next
  case (4 e items d)
  let ?G = "condition_drivers s \<union> refs sy e"
  let ?s = "s\<lparr>condition_drivers := ?G\<rparr>"
  let ?H = "?G \<union> \<Union> (set (List.map (\<lambda>(es, b). refs_all sy es) items))"
  have c: "clear ?s" "\<not> in_condition s" using 4(4) by (simp_all add: clear_def)
  have e: "drive sy root e (s\<lparr>in_condition := True\<rparr>) =
      Some (read_by sy root (refs sy e) (s\<lparr>in_condition := True\<rparr>))"
    using 4(3) by (simp add: drive_plain)
  have b: "drive sy root b s' = Some (driven sy root (flows True sy (condition_drivers s') b) s')"
    if "(es, b) \<in> set items" "clear s'" for es b s'
    using 4(1) [OF that(1) refl _ that(2)] 4(3) that(1) by (auto simp: list_all_iff)
  have plain: "list_all (\<lambda>(es, b). list_all plain es) items"
    using 4(3) by (auto simp: list_all_iff)
  have i: "drive_items sy root items ?s =
      Some (driven sy root (flows_items True sy ?G items) (s\<lparr>condition_drivers := ?H\<rparr>))"
    using drive_items_driven [OF b plain c(1)] by simp
  show ?case
  proof (cases d)
    case None
    then show ?thesis using c(2) e i 4(4) by (simp add: read_condition driven_guard)
  next
    case (Some g)
    then have "drive sy root g (driven sy root (flows_items True sy ?G items) (s\<lparr>condition_drivers := ?H\<rparr>)) =
        Some (driven sy root (flows True sy ?H g)
          (driven sy root (flows_items True sy ?G items) (s\<lparr>condition_drivers := ?H\<rparr>)))"
      using 4(2) [of g "driven sy root (flows_items True sy ?G items) (s\<lparr>condition_drivers := ?H\<rparr>)"] 4(3,4)
      by simp
    then show ?thesis using c(2) e i 4(4) Some by (simp add: read_condition driven_guard)
  qed
next
  case (5 es)
  then show ?case by (simp add: list_all_iff drive_all_driven)
qed

section \<open>Uses\<close>

text \<open>
  The connections of an instance: an input is a plain expression, an output an assignment to the
  signal outside.
\<close>

fun tidy_connection :: "connection \<Rightarrow> bool" where
  "tidy_connection (PortConnection dir p (Some e)) = ((dir = DirIn \<longrightarrow> plain e) \<and> (dir = DirOut \<longrightarrow> tidy e))"
| "tidy_connection _ = True"

fun tidy_use :: "use_site \<Rightarrow> bool" where
  "tidy_use (Process i a) = tidy a"
| "tidy_use (InstanceUse i cs) = list_all tidy_connection cs"

fun connection_drivers :: "symbols \<Rightarrow> nat \<Rightarrow> connection \<Rightarrow> nat set" where
  "connection_drivers sy root (PortConnection dir p (Some e)) =
     (if dir = DirIn \<and> p = root then signals sy (refs sy e)
      else if dir = DirOut then driven_by sy {p} root (flows True sy {} e)
      else {})"
| "connection_drivers sy root _ = {}"

fun use_drivers :: "symbols \<Rightarrow> nat \<Rightarrow> use_site \<Rightarrow> nat set" where
  "use_drivers sy root (Process i a) = driven_by sy {} root (flows True sy {} a)"
| "use_drivers sy root (InstanceUse i cs) = \<Union> (set (List.map (connection_drivers sy root) cs))"

definition fresh :: "drivers_state \<Rightarrow> bool" where
  "fresh s \<longleftrightarrow> clear s \<and> condition_drivers s = {} \<and> port_symbol s = None"

lemma trace_collects:
  assumes "\<And>u s. u \<in> set us \<Longrightarrow> P s \<Longrightarrow> f u s = Some (add (D u) s)"
    and "\<And>A s. P s \<Longrightarrow> P (add A s)" and "\<And>A B s. add B (add A s) = add (A \<union> B) s" and "\<And>s. add {} s = s"
    and "P s"
  shows "trace f us s = Some (add (\<Union> (set (List.map D us))) s)"
  using assms(1,5)
proof (induction us arbitrary: s)
  case (Cons u us)
  then show ?case using assms(2,3) by simp
qed (simp add: assms(4))

lemma drive_connection_tidy:
  assumes "tidy_connection c" and "fresh s"
  shows "drive_connection sy root c s = Some (s\<lparr>leaves := leaves s \<union> connection_drivers sy root c\<rparr>)"
proof (cases c)
  case (PortConnection dir p e)
  show ?thesis
  proof (cases e)
    case (Some x)
    have s: "clear s" "condition_drivers s = {}" "port_symbol s = None" using assms(2) by (simp_all add: fresh_def)
    consider "dir = DirIn" "p = root" | "dir = DirIn" "p \<noteq> root" | "dir = DirOut" | "dir = DirInOut \<or> dir = DirRef"
      by (cases dir) auto
    then show ?thesis
    proof cases
      case 1
      then show ?thesis
        using assms(1) s PortConnection Some by (cases s) (simp add: drive_plain read_by_def clear_def)
    next
      case 3
      have "clear (s\<lparr>port_symbol := Some p\<rparr>)" using s by (simp add: clear_def)
      then show ?thesis
        using assms(1) s PortConnection Some 3 drive_tidy [of x "s\<lparr>port_symbol := Some p\<rparr>" sy root]
        by (cases s) (simp add: driven_def)
    qed (use PortConnection Some in auto)
  qed (simp add: PortConnection)
qed simp

lemma drive_use_tidy:
  assumes "tidy_use u" and "fresh s"
  shows "drive_use sy root u s = Some (s\<lparr>leaves := leaves s \<union> use_drivers sy root u\<rparr>)"
proof (cases u)
  case (Process i a)
  then show ?thesis
    using assms drive_tidy [of a s sy root] by (simp add: fresh_def driven_def)
next
  case (InstanceUse i cs)
  have "trace (drive_connection sy root) cs s =
      Some ((\<lambda>A s. s\<lparr>leaves := leaves s \<union> A\<rparr>) (\<Union> (set (List.map (connection_drivers sy root) cs))) s)"
    using assms InstanceUse
    by (intro trace_collects [where P = fresh])
      (auto simp: drive_connection_tidy list_all_iff fresh_def clear_def Un_assoc)
  then show ?thesis using InstanceUse by simp
qed

lemma trace_drivers_tidy:
  assumes "list_all tidy_use us"
  shows "trace_drivers sy root us = Some (\<Union> (set (List.map (use_drivers sy root) us)))"
proof -
  have "trace (drive_use sy root) us new_drivers =
      Some ((\<lambda>A s. s\<lparr>leaves := leaves s \<union> A\<rparr>) (\<Union> (set (List.map (use_drivers sy root) us))) new_drivers)"
    using assms
    by (intro trace_collects [where P = fresh])
      (auto simp: drive_use_tidy list_all_iff fresh_def clear_def Un_assoc new_drivers_def)
  then show ?thesis by (simp add: trace_drivers_def new_drivers_def)
qed

section \<open>The tracer of loads\<close>

text \<open>The root is read in assignments and conditions only.\<close>

fun quiet_root :: "symbols \<Rightarrow> nat \<Rightarrow> ast \<Rightarrow> bool" where
  "quiet_root sy root (ValueRef v) = (concrete_symbol sy v \<noteq> root)"
| "quiet_root sy root (Assign l r) = True"
| "quiet_root sy root (Conditional cs t f) = (quiet_root sy root t \<and> pred_option (quiet_root sy root) f)"
| "quiet_root sy root (CaseOf e items d) =
     (list_all (\<lambda>(es, b). quiet_root sy root b) items \<and> pred_option (quiet_root sy root) d)"
| "quiet_root sy root (Other es) = list_all (quiet_root sy root) es"

definition seen_by :: "symbols \<Rightarrow> nat \<Rightarrow> nat set \<Rightarrow> loads_state \<Rightarrow> loads_state" where
  "seen_by sy root A s =
     (if on_lhs s then s\<lparr>loads := loads s \<union> signals sy A\<rparr>
      else s\<lparr>found_root := found_root s \<or> root \<in> A\<rparr>)"

lemma seen_by_empty [simp]: "seen_by sy root {} s = s"
  by (simp add: seen_by_def)

lemma seen_by_twice [simp]: "seen_by sy root B (seen_by sy root A s) = seen_by sy root (A \<union> B) s"
  by (cases s) (auto simp: seen_by_def)

lemma load_all_seen:
  "(\<And>e s. e \<in> set es \<Longrightarrow> load sy root e s = Some (seen_by sy root (refs sy e) s)) \<Longrightarrow>
   load_all sy root es s = Some (seen_by sy root (refs_all sy es) s)"
  by (induction es arbitrary: s) auto

lemma load_plain: "plain e \<Longrightarrow> load sy root e s = Some (seen_by sy root (refs sy e) s)"
proof (induction e arbitrary: s rule: plain.induct)
  case (1 v)
  then show ?case
    by (cases s) (auto simp: load_value_def seen_by_def Let_def add_leaf_signals)
next
  case (2 es)
  then show ?case by (simp add: list_all_iff load_all_seen)
qed simp_all

lemma load_all_plain: "list_all plain es \<Longrightarrow> load_all sy root es s = Some (seen_by sy root (refs_all sy es) s)"
  by (simp add: load_all_seen load_plain list_all_iff)

definition loaded :: "symbols \<Rightarrow> nat \<Rightarrow> flow list \<Rightarrow> loads_state \<Rightarrow> loads_state" where
  "loaded sy root fs s = s\<lparr>loads := loads s \<union> loaded_by sy root fs\<rparr>"

lemma loaded_simps [simp]:
  "loaded sy root [] s = s" "loaded sy root gs (loaded sy root fs s) = loaded sy root (fs @ gs) s"
  "on_lhs (loaded sy root fs s) = on_lhs s" "found_root (loaded sy root fs s) = found_root s"
  by (simp_all add: loaded_def Un_assoc)

text \<open>\<open>G\<close> stands for the guards so far: the root is among them when it was found.\<close>

definition guarded :: "nat \<Rightarrow> nat set \<Rightarrow> loads_state \<Rightarrow> bool" where
  "guarded root G s \<longleftrightarrow> \<not> on_lhs s \<and> found_root s = (root \<in> G)"

lemma guarded_loaded [simp]: "guarded root G (loaded sy root fs s) = guarded root G s"
  by (simp add: guarded_def)

lemma seen_guard:
  "guarded root G s \<Longrightarrow> seen_by sy root A s = s\<lparr>found_root := root \<in> G \<union> A\<rparr>"
  by (cases s) (auto simp: guarded_def seen_by_def)

lemma guarded_update [simp]: "guarded root G s \<Longrightarrow> guarded root H (s\<lparr>found_root := root \<in> H\<rparr>)"
  by (simp add: guarded_def)

lemma loaded_restore:
  "guarded root G s \<Longrightarrow> (loaded sy root fs (s\<lparr>found_root := b\<rparr>))\<lparr>found_root := found_root s\<rparr> = loaded sy root fs s"
  by (simp add: loaded_def)

lemma load_assign:
  assumes "guarded root G s" and "plain l" and "plain r"
  shows "load sy root (Assign l r) s = Some (loaded sy root [(G, refs sy l, refs sy r)] s)"
  using assms by (cases s) (auto simp: load_plain seen_by_def loaded_def guarded_def)

lemma load_all_loaded:
  assumes "\<And>e s. e \<in> set es \<Longrightarrow> guarded root G s \<Longrightarrow>
      load sy root e s = Some (loaded sy root (flows False sy G e) s)"
    and "guarded root G s"
  shows "load_all sy root es s = Some (loaded sy root (flows_all False sy G es) s)"
  using assms by (induction es arbitrary: s) simp_all

lemma load_items_loaded:
  assumes "\<And>es b s G. (es, b) \<in> set items \<Longrightarrow> guarded root G s \<Longrightarrow>
      load sy root b s = Some (loaded sy root (flows False sy G b) s)"
    and "list_all (\<lambda>(es, b). list_all plain es) items" and "guarded root G s"
  shows "\<exists>b. load_items sy root (found_root s) items (s\<lparr>found_root := f\<rparr>) =
    Some (loaded sy root (flows_items False sy G items) (s\<lparr>found_root := b\<rparr>))"
  using assms
proof (induction items arbitrary: s f)
  case Nil
  then show ?case by auto
next
  case (Cons item items)
  obtain es b where item: "item = (es, b)" by (cases item)
  let ?H = "G \<union> refs_all sy es"
  let ?s = "s\<lparr>found_root := root \<in> ?H\<rparr>"
  let ?l = "loaded sy root (flows False sy ?H b)"
  have "load_all sy root es (s\<lparr>found_root := found_root s\<rparr>) = Some ?s"
    using Cons.prems(2,3) item by (simp add: load_all_plain seen_guard)
  moreover have "load sy root b ?s = Some (?l ?s)"
    by (rule Cons.prems(1) [of es, OF _ guarded_update [OF Cons.prems(3)]]) (simp add: item)
  moreover have "\<exists>c. load_items sy root (found_root (?l s)) items ((?l s)\<lparr>found_root := root \<in> ?H\<rparr>) =
      Some (loaded sy root (flows_items False sy G items) ((?l s)\<lparr>found_root := c\<rparr>))"
  proof (rule Cons.IH)
    show "load sy root b' s' = Some (loaded sy root (flows False sy G' b') s')"
      if "(es', b') \<in> set items" "guarded root G' s'" for es' b' s' G'
      by (rule Cons.prems(1) [of es', OF _ that(2)]) (simp add: that(1))
  qed (use Cons.prems(2,3) in simp_all)
  then obtain c where "load_items sy root (found_root (?l s)) items ((?l s)\<lparr>found_root := root \<in> ?H\<rparr>) =
      Some (loaded sy root (flows_items False sy G items) ((?l s)\<lparr>found_root := c\<rparr>))" ..
  ultimately have "load_items sy root (found_root s) (item # items) (s\<lparr>found_root := f\<rparr>) =
      Some (loaded sy root (flows_items False sy G (item # items)) (s\<lparr>found_root := c\<rparr>))"
    using item by (cases s) (simp add: loaded_def Un_assoc)
  then show ?case by blast
qed

lemma load_tidy:
  "tidy a \<Longrightarrow> quiet_root sy root a \<Longrightarrow> guarded root G s \<Longrightarrow>
   load sy root a s = Some (loaded sy root (flows False sy G a) s)"
proof (induction a arbitrary: s G rule: tidy.induct)
  case (1 v)
  then show ?case by (cases s) (simp add: load_value_def guarded_def Let_def)
next
  case (2 l r)
  then show ?case using load_assign [of root G s l r sy] by simp
next
  case (3 cs t f)
  let ?H = "G \<union> refs_all sy cs"
  let ?s = "s\<lparr>found_root := root \<in> ?H\<rparr>"
  have g: "guarded root ?H ?s" by (rule guarded_update [OF 3(5)])
  have cs: "load_all sy root cs s = Some ?s"
    using 3(3,5) by (simp add: load_all_plain seen_guard)
  have t: "load sy root t ?s = Some (loaded sy root (flows False sy ?H t) ?s)"
    using 3(1) [OF _ _ g] 3(3,4) by simp
  show ?case
  proof (cases f)
    case None
    then show ?thesis using cs t 3(5) by (simp add: loaded_restore)
  next
    case (Some h)
    have "load sy root h (loaded sy root (flows False sy ?H t) ?s) =
        Some (loaded sy root (flows False sy ?H h) (loaded sy root (flows False sy ?H t) ?s))"
      using 3(2) [of h ?H "loaded sy root (flows False sy ?H t) ?s"] 3(3,4) g Some by simp
    then show ?thesis using cs t 3(5) Some by (simp add: loaded_restore)
  qed
next
  case (4 e items d)
  let ?H = "G \<union> refs sy e"
  let ?s = "s\<lparr>found_root := root \<in> ?H\<rparr>"
  have g: "guarded root ?H ?s" by (rule guarded_update [OF 4(5)])
  have e: "load sy root e s = Some ?s"
    using 4(3,5) by (simp add: load_plain seen_guard)
  have b: "load sy root b s' = Some (loaded sy root (flows False sy G' b) s')"
    if "(es, b) \<in> set items" "guarded root G' s'" for es b s' G'
    using 4(1) [OF that(1) refl _ _ that(2)] 4(3,4) that(1) by (auto simp: list_all_iff)
  have plain: "list_all (\<lambda>(es, b). list_all plain es) items"
    using 4(3) by (auto simp: list_all_iff)
  have "\<exists>c. load_items sy root (found_root ?s) items (?s\<lparr>found_root := found_root ?s\<rparr>) =
      Some (loaded sy root (flows_items False sy ?H items) (?s\<lparr>found_root := c\<rparr>))"
    by (rule load_items_loaded [OF _ plain g]) (rule b)
  then obtain c where i: "load_items sy root (found_root ?s) items (?s\<lparr>found_root := found_root ?s\<rparr>) =
      Some (loaded sy root (flows_items False sy ?H items) (?s\<lparr>found_root := c\<rparr>))" ..
  show ?case
  proof (cases d)
    case None
    then show ?thesis using e i 4(5) by (simp add: loaded_restore)
  next
    case (Some h)
    let ?l = "(loaded sy root (flows_items False sy ?H items) (?s\<lparr>found_root := c\<rparr>))\<lparr>found_root := found_root ?s\<rparr>"
    have "?l = loaded sy root (flows_items False sy ?H items) ?s" by (simp add: loaded_def)
    moreover have "load sy root h (loaded sy root (flows_items False sy ?H items) ?s) =
        Some (loaded sy root (flows False sy ?H h) (loaded sy root (flows_items False sy ?H items) ?s))"
      using 4(2) [of h ?H "loaded sy root (flows_items False sy ?H items) ?s"] 4(3,4) g Some by simp
    ultimately show ?thesis using e i 4(5) Some by (simp add: loaded_restore)
  qed
next
  case (5 es)
  have "load_all sy root es s = Some (loaded sy root (flows_all False sy G es) s)"
    using 5 by (intro load_all_loaded) (auto simp: list_all_iff)
  then show ?case by simp
qed

text \<open>Every input that is followed has an expression, and the root is not read past an output.\<close>

fun loads_connection :: "symbols \<Rightarrow> nat \<Rightarrow> connection \<Rightarrow> bool" where
  "loads_connection sy root (PortConnection dir p e) =
     (case e of None \<Rightarrow> dir \<noteq> DirIn \<and> (dir = DirOut \<longrightarrow> p \<noteq> root)
              | Some e \<Rightarrow> dir = DirOut \<longrightarrow> quiet_root sy root e)"
| "loads_connection sy root InterfaceConnection = True"

fun quiet_use :: "symbols \<Rightarrow> nat \<Rightarrow> use_site \<Rightarrow> bool" where
  "quiet_use sy root (Process i a) = quiet_root sy root a"
| "quiet_use sy root (InstanceUse i cs) = list_all (loads_connection sy root) cs"

fun connection_loads :: "symbols \<Rightarrow> nat \<Rightarrow> connection \<Rightarrow> nat set" where
  "connection_loads sy root (PortConnection dir p (Some e)) =
     (if dir = DirOut \<and> p = root then loaded_by sy root (flows False sy {root} e)
      else if dir = DirIn \<and> root \<in> refs sy e then signals sy {p}
      else {})"
| "connection_loads sy root _ = {}"

fun use_loads :: "symbols \<Rightarrow> nat \<Rightarrow> use_site \<Rightarrow> nat set" where
  "use_loads sy root (Process i a) = loaded_by sy root (flows False sy {} a)"
| "use_loads sy root (InstanceUse i cs) = \<Union> (set (List.map (connection_loads sy root) cs))"

definition idle :: "loads_state \<Rightarrow> bool" where
  "idle s \<longleftrightarrow> \<not> on_lhs s \<and> \<not> found_root s"

lemma load_connection_tidy:
  assumes "tidy_connection c" and "loads_connection sy root c" and "idle s"
  shows "load_connection sy root c s = Some (s\<lparr>loads := loads s \<union> connection_loads sy root c\<rparr>)"
proof (cases c)
  case (PortConnection dir p e)
  show ?thesis
  proof (cases e)
    case (Some x)
    have s: "\<not> on_lhs s" "\<not> found_root s" using assms(3) by (simp_all add: idle_def)
    consider "dir = DirOut" "p = root" | "dir = DirOut" "p \<noteq> root" | "dir = DirIn" | "dir = DirInOut \<or> dir = DirRef"
      by (cases dir) auto
    then show ?thesis
    proof cases
      case 1
      have "guarded root {root} (s\<lparr>found_root := True\<rparr>)" using s by (simp add: guarded_def)
      from load_tidy [OF _ _ this, of x] show ?thesis
        using assms(1,2) s PortConnection Some 1 by (cases s) (simp add: loaded_def)
    next
      case 3
      then show ?thesis
        using assms(1) s PortConnection Some
        by (cases s) (auto simp: load_plain seen_by_def add_leaf_signals)
    qed (use PortConnection Some in auto)
  qed (use assms(2) PortConnection in \<open>cases dir; simp\<close>)
qed simp

lemma load_use_tidy:
  assumes "tidy_use u" and "quiet_use sy root u" and "idle s"
  shows "load_use sy root u s = Some (s\<lparr>loads := loads s \<union> use_loads sy root u\<rparr>)"
proof (cases u)
  case (Process i a)
  have "guarded root {} s" using assms(3) by (simp add: idle_def guarded_def)
  from load_tidy [OF _ _ this, of a] show ?thesis
    using assms(1,2) Process by (simp add: loaded_def)
next
  case (InstanceUse i cs)
  have "trace (load_connection sy root) cs s =
      Some ((\<lambda>A s. s\<lparr>loads := loads s \<union> A\<rparr>) (\<Union> (set (List.map (connection_loads sy root) cs))) s)"
    using assms InstanceUse
    by (intro trace_collects [where P = idle])
      (auto simp: load_connection_tidy list_all_iff idle_def Un_assoc)
  then show ?thesis using InstanceUse by simp
qed

lemma trace_loads_tidy:
  assumes "list_all tidy_use us" and "list_all (quiet_use sy root) us"
  shows "trace_loads sy root us = Some (\<Union> (set (List.map (use_loads sy root) us)))"
proof -
  have "trace (load_use sy root) us new_loads =
      Some ((\<lambda>A s. s\<lparr>loads := loads s \<union> A\<rparr>) (\<Union> (set (List.map (use_loads sy root) us))) new_loads)"
    using assms
    by (intro trace_collects [where P = idle])
      (auto simp: load_use_tidy list_all_iff idle_def Un_assoc new_loads_def)
  then show ?thesis by (simp add: trace_loads_def new_loads_def)
qed

section \<open>Cones of the whole design\<close>

definition tidy_design :: "design_node \<Rightarrow> bool" where
  "tidy_design d = list_all tidy_use (all_uses d)"

definition all_drivers :: "symbols \<Rightarrow> design_node \<Rightarrow> nat \<Rightarrow> nat set" where
  "all_drivers sy d v = \<Union> (set (List.map (use_drivers sy v) (all_uses d)))"

definition all_loads :: "symbols \<Rightarrow> design_node \<Rightarrow> nat \<Rightarrow> nat set" where
  "all_loads sy d v = \<Union> (set (List.map (use_loads sy v) (all_uses d)))"

text \<open>All signals of an assignment with its guards are among those of the code around it.\<close>

definition within :: "nat set \<Rightarrow> nat set \<Rightarrow> flow list \<Rightarrow> bool" where
  "within H A fs \<longleftrightarrow> list_all (\<lambda>(G, L, R). G \<subseteq> H \<union> A \<and> L \<subseteq> A \<and> R \<subseteq> A) fs"

lemma within_simps [simp]:
  "within H A []" "within H A (fs @ gs) \<longleftrightarrow> within H A fs \<and> within H A gs"
  "within H A ((G, L, R) # fs) \<longleftrightarrow> G \<subseteq> H \<union> A \<and> L \<subseteq> A \<and> R \<subseteq> A \<and> within H A fs"
  by (auto simp: within_def)

lemma within_mono: "within H A fs \<Longrightarrow> H \<subseteq> K \<union> B \<Longrightarrow> A \<subseteq> B \<Longrightarrow> within K B fs"
  unfolding within_def by (induction fs) auto

lemma flows_all_within:
  "(\<And>e. e \<in> set es \<Longrightarrow> within H (refs sy e) (flows acc sy H e)) \<Longrightarrow>
   within H (refs_all sy es) (flows_all acc sy H es)"
proof (induction es)
  case (Cons e es)
  have "within H (refs_all sy (e # es)) (flows acc sy H e)"
    by (rule within_mono [OF Cons.prems]) auto
  moreover have "within H (refs_all sy (e # es)) (flows_all acc sy H es)"
    by (rule within_mono [OF Cons.IH [OF Cons.prems]]) auto
  ultimately show ?case by simp
qed simp

lemma flows_items_within:
  "(\<And>es b G. (es, b) \<in> set items \<Longrightarrow> within G (refs sy b) (flows acc sy G b)) \<Longrightarrow>
   within H (refs_items sy items) (flows_items acc sy H items)"
proof (induction items arbitrary: H)
  case (Cons item items)
  obtain es b where item: "item = (es, b)" by (cases item)
  have "within H (refs_items sy (item # items)) (flows acc sy (H \<union> refs_all sy es) b)"
    by (rule within_mono [OF Cons.prems [of es]]) (auto simp: item)
  moreover have "within H (refs_items sy (item # items))
      (flows_items acc sy (if acc then H \<union> refs_all sy es else H) items)"
    by (rule within_mono [OF Cons.IH]) (use Cons.prems item in auto)
  ultimately show ?case by (simp add: item)
qed simp

lemma item_refs: "\<Union> (set (List.map (\<lambda>(es, b). refs_all sy es) items)) \<subseteq> refs_items sy items"
  by (induction items) auto

lemma flows_within: "within H (refs sy a) (flows acc sy H a)"
proof (induction a arbitrary: H rule: tidy.induct)
  case (2 l r)
  show ?case by simp
next
  case (3 cs t f)
  have "within H (refs sy (Conditional cs t f)) (flows acc sy (H \<union> refs_all sy cs) t)"
    by (rule within_mono [OF 3(1)]) auto
  moreover have "within H (refs sy (Conditional cs t f)) (flows acc sy (H \<union> refs_all sy cs) g)" if "f = Some g" for g
    by (rule within_mono [OF 3(2)]) (use that in auto)
  ultimately show ?case by (cases f) simp_all
next
  case (4 e items d)
  have "within H (refs sy (CaseOf e items d)) (flows_items acc sy (H \<union> refs sy e) items)"
    by (rule within_mono [OF flows_items_within]) (use 4(1) in auto)
  moreover have "within H (refs sy (CaseOf e items d)) (flows acc sy (H \<union> refs sy e \<union> K) g)"
    if "d = Some g" "K \<subseteq> refs_items sy items" for g K
    by (rule within_mono [OF 4(2)]) (use that in auto)
  ultimately show ?case using item_refs [of sy items] by (cases d) (simp_all split del: if_split, simp)
next
  case (5 es)
  then show ?case by (simp add: flows_all_within)
qed simp

lemma driven_within: "root \<notin> A \<Longrightarrow> within H A fs \<Longrightarrow> driven_by sy P root fs = {}"
  by (induction fs) (auto simp del: Un_subset_iff split: if_splits)

lemma loaded_within: "root \<notin> H \<union> A \<Longrightarrow> within H A fs \<Longrightarrow> loaded_by sy root fs = {}"
  by (induction fs) (auto simp del: Un_subset_iff split: if_splits)

lemma use_drivers_mentioned: "v \<notin> use_refs sy u \<Longrightarrow> use_drivers sy v u = {}"
proof (cases u)
  case (InstanceUse i cs)
  have "connection_drivers sy v c = {}" if "v \<notin> connection_refs sy c" for c
    using that driven_within [OF _ flows_within]
    by (cases "(sy, v, c)" rule: connection_drivers.cases) auto
  then show "v \<notin> use_refs sy u \<Longrightarrow> ?thesis" using InstanceUse by simp
qed (use driven_within [OF _ flows_within] in simp)

lemma use_loads_mentioned: "v \<notin> use_refs sy u \<Longrightarrow> use_loads sy v u = {}"
proof (cases u)
  case (InstanceUse i cs)
  have "connection_loads sy v c = {}" if "v \<notin> connection_refs sy c" for c
    using that by (cases "(sy, v, c)" rule: connection_loads.cases) auto
  then show "v \<notin> use_refs sy u \<Longrightarrow> ?thesis" using InstanceUse by simp
qed (use loaded_within [OF _ flows_within] in simp)

lemma symbol_uses_set: "set (symbol_uses sy d v) = {u \<in> set (all_uses d). v \<in> use_refs sy u}"
  by (auto simp: symbol_uses_def)

lemma uses_union:
  "(\<And>u. v \<notin> use_refs sy u \<Longrightarrow> D u = {}) \<Longrightarrow>
   \<Union> (set (List.map D (symbol_uses sy d v))) = \<Union> (set (List.map D (all_uses d)))"
  by (simp add: symbol_uses_set) blast

lemma drivers_cone:
  assumes "tidy_design d" and "resolve p = Some x" and "v = concrete_symbol sy x"
  shows "get_cone sy resolve d True p =
    (if symbol_uses sy d v = [] then Inl (NoReference p) else Inr (all_drivers sy d v))"
proof -
  have "list_all tidy_use (symbol_uses sy d v)"
    using assms(1) by (simp add: tidy_design_def list_all_iff symbol_uses_set)
  then have "trace_drivers sy v (symbol_uses sy d v) = Some (all_drivers sy d v)"
    using uses_union [of v sy "use_drivers sy v" d]
    by (simp add: trace_drivers_tidy use_drivers_mentioned all_drivers_def)
  then show ?thesis using assms(2,3) by (simp add: get_cone_def Let_def)
qed

lemma loads_cone:
  assumes "tidy_design d" and "list_all (quiet_use sy v) (all_uses d)"
    and "resolve p = Some x" and "v = concrete_symbol sy x"
  shows "get_cone sy resolve d False p =
    (if symbol_uses sy d v = [] then Inl (NoReference p) else Inr (all_loads sy d v))"
proof -
  have "list_all tidy_use (symbol_uses sy d v)" and "list_all (quiet_use sy v) (symbol_uses sy d v)"
    using assms(1,2) by (simp_all add: tidy_design_def list_all_iff symbol_uses_set)
  then have "trace_loads sy v (symbol_uses sy d v) = Some (all_loads sy d v)"
    using uses_union [of v sy "use_loads sy v" d]
    by (simp add: trace_loads_tidy use_loads_mentioned all_loads_def)
  then show ?thesis using assms(3,4) by (simp add: get_cone_def Let_def)
qed

text \<open>
  C23: What a cone of drivers holds. On code whose expressions hold no assignments, asking for the
  drivers of a path gives exactly the signals in the source and in the guards of every assignment of
  the design that has the signal in its target, and what its ports are connected to; the index only
  decides between an error and an answer, and the order of the walk does not matter.\<close>

theorem drivers_cone_exact:
  "tidy_design d \<Longrightarrow> resolve p = Some x \<Longrightarrow>
   get_cone sy resolve d True p =
     (if symbol_uses sy d (concrete_symbol sy x) = [] then Inl (NoReference p)
      else Inr (all_drivers sy d (concrete_symbol sy x)))"
  by (rule drivers_cone [OF _ _ refl])

section \<open>Loads are driven\<close>

text \<open>The flows that loads go by have fewer guards than those that drivers go by, and are otherwise the same.\<close>

definition weaker :: "flow list \<Rightarrow> flow list \<Rightarrow> bool" where
  "weaker fs gs = list_all2 (\<lambda>(G, L, R) (G', L', R'). G \<subseteq> G' \<and> L = L' \<and> R = R') fs gs"

lemma weaker_simps [simp]: "weaker [] []"
  "weaker ((G, L, R) # fs) ((G', L', R') # gs) \<longleftrightarrow> G \<subseteq> G' \<and> L = L' \<and> R = R' \<and> weaker fs gs"
  by (auto simp: weaker_def)

lemma weaker_append: "weaker fs gs \<Longrightarrow> weaker fs' gs' \<Longrightarrow> weaker (fs @ fs') (gs @ gs')"
  by (simp add: weaker_def list_all2_appendI)

lemma flows_all_weaker:
  "(\<And>e. e \<in> set es \<Longrightarrow> weaker (flows acc sy G e) (flows acc' sy H e)) \<Longrightarrow>
   weaker (flows_all acc sy G es) (flows_all acc' sy H es)"
  by (induction es) (simp_all add: weaker_append)

lemma flows_items_weaker:
  "(\<And>es b G H. (es, b) \<in> set items \<Longrightarrow> G \<subseteq> H \<Longrightarrow> weaker (flows acc sy G b) (flows acc' sy H b)) \<Longrightarrow>
   G \<subseteq> H \<Longrightarrow> acc \<longrightarrow> acc' \<Longrightarrow> weaker (flows_items acc sy G items) (flows_items acc' sy H items)"
proof (induction items arbitrary: G H)
  case (Cons item items)
  obtain es b where item: "item = (es, b)" by (cases item)
  have "weaker (flows acc sy (G \<union> refs_all sy es) b) (flows acc' sy (H \<union> refs_all sy es) b)"
    by (rule Cons.prems(1) [of es]) (use Cons.prems(2) item in auto)
  moreover have "weaker (flows_items acc sy (if acc then G \<union> refs_all sy es else G) items)
      (flows_items acc' sy (if acc' then H \<union> refs_all sy es else H) items)"
  proof (rule Cons.IH)
    show "weaker (flows acc sy G' b') (flows acc' sy H' b')" if "(es', b') \<in> set items" "G' \<subseteq> H'" for es' b' G' H'
      by (rule Cons.prems(1) [of es', OF _ that(2)]) (simp add: that(1))
  qed (use Cons.prems(2,3) in auto)
  ultimately show ?case by (simp add: item weaker_append)
qed simp

lemma flows_weaker: "G \<subseteq> H \<Longrightarrow> acc \<longrightarrow> acc' \<Longrightarrow> weaker (flows acc sy G a) (flows acc' sy H a)"
proof (induction a arbitrary: G H rule: tidy.induct)
  case (3 cs t f)
  have "G \<union> refs_all sy cs \<subseteq> H \<union> refs_all sy cs" using 3(3) by blast
  then show ?case using 3(1,2,4) by (cases f) (simp_all add: weaker_append)
next
  case (4 e items d)
  have "weaker (flows_items acc sy (G \<union> refs sy e) items) (flows_items acc' sy (H \<union> refs sy e) items)"
  proof (rule flows_items_weaker)
    show "weaker (flows acc sy G' b) (flows acc' sy H' b)" if "(es, b) \<in> set items" "G' \<subseteq> H'" for es b G' H'
      by (rule 4(1) [OF that(1) refl that(2) 4(4)])
  qed (use 4(3,4) in auto)
  moreover have "weaker (flows acc sy (G \<union> refs sy e \<union> (if acc then K else {})) g)
      (flows acc' sy (H \<union> refs sy e \<union> (if acc' then K else {})) g)" if "d = Some g" for g K
    by (rule 4(2)) (use that 4(3,4) in auto)
  ultimately show ?case by (cases d) (simp_all add: weaker_append)
next
  case (5 es)
  then show ?case by (simp add: flows_all_weaker)
qed simp_all

lemma weaker_dual:
  "weaker fs gs \<Longrightarrow> v \<in> loaded_by sy a fs \<Longrightarrow> \<not> is_parameter sy a \<Longrightarrow> a \<in> driven_by sy P v gs"
  unfolding weaker_def
  by (induction rule: list_all2_induct) (auto simp: signals_def split: if_splits)

definition targets :: "flow list \<Rightarrow> nat set list" where
  "targets fs = List.map (\<lambda>(G, L, R). L) fs"

lemma weaker_targets: "weaker fs gs \<Longrightarrow> targets fs = targets gs"
  unfolding weaker_def targets_def by (induction rule: list_all2_induct) auto

lemma flows_targets: "targets (flows False sy G a) = targets (flows True sy {} a)"
  using weaker_targets [OF flows_weaker [of "{}" G False False]]
    weaker_targets [OF flows_weaker [of "{}" "{}" False True]] by simp

lemma loaded_targets: "v \<in> loaded_by sy a fs \<Longrightarrow> v \<in> \<Union> (set (targets fs))"
  by (induction fs) (auto simp: targets_def signals_def split: if_splits)

lemma targets_driven: "v \<in> \<Union> (set (targets fs)) \<Longrightarrow> \<not> is_parameter sy p \<Longrightarrow> p \<in> driven_by sy {p} v fs"
  by (induction fs) (fastforce simp: targets_def)+

lemma connection_dual:
  assumes "v \<in> connection_loads sy a c" and "\<not> is_parameter sy a"
  shows "a \<in> connection_drivers sy v c"
proof (cases "(sy, a, c)" rule: connection_loads.cases)
  case (1 sy' root dir p e)
  then consider "dir = DirOut" "p = a" "v \<in> loaded_by sy a (flows False sy {a} e)"
    | "dir = DirIn" "a \<in> refs sy e" "v = p"
    using assms(1) by (auto simp: signals_def split: if_splits)
  then show ?thesis
  proof cases
    case out: 1
    have "a \<in> driven_by sy {a} v (flows True sy {} e)"
      using targets_driven [OF _ assms(2)] loaded_targets [OF out(3)] by (simp add: flows_targets)
    then show ?thesis using 1 out by simp
  next
    case 2
    then show ?thesis using 1 assms(2) by (simp add: signals_def)
  qed
qed (use assms in auto)

lemma use_dual: "v \<in> use_loads sy a u \<Longrightarrow> \<not> is_parameter sy a \<Longrightarrow> a \<in> use_drivers sy v u"
proof (cases u)
  case (Process i b)
  then show "v \<in> use_loads sy a u \<Longrightarrow> \<not> is_parameter sy a \<Longrightarrow> ?thesis"
    using weaker_dual [OF flows_weaker [of "{}" "{}" False True]] by simp
next
  case (InstanceUse i cs)
  then show "v \<in> use_loads sy a u \<Longrightarrow> \<not> is_parameter sy a \<Longrightarrow> ?thesis"
    using connection_dual by fastforce
qed

lemma cone_dual:
  assumes d: "tidy_design d" and quiet: "list_all (quiet_use sy (concrete_symbol sy x)) (all_uses d)"
    and p: "resolve p = Some x" and q: "resolve q = Some y"
    and loads: "get_cone sy resolve d False p = Inr ls" and in_cone: "concrete_symbol sy y \<in> ls"
    and "\<not> is_parameter sy (concrete_symbol sy x)"
  shows "\<exists>ds. get_cone sy resolve d True q = Inr ds \<and> concrete_symbol sy x \<in> ds"
proof -
  have "concrete_symbol sy y \<in> all_loads sy d (concrete_symbol sy x)"
    using loads_cone [where resolve = resolve and p = p and sy = sy and x = x, OF d quiet p refl] loads in_cone by (simp split: if_splits)
  then obtain u where u: "u \<in> set (all_uses d)" "concrete_symbol sy x \<in> use_drivers sy (concrete_symbol sy y) u"
    using use_dual assms(7) by (auto simp: all_loads_def)
  then have "u \<in> set (symbol_uses sy d (concrete_symbol sy y))"
    using use_drivers_mentioned by (auto simp: symbol_uses_set)
  then have "symbol_uses sy d (concrete_symbol sy y) \<noteq> []" by auto
  then show ?thesis using drivers_cone [where resolve = resolve and p = q and sy = sy, OF d q refl] u by (auto simp: all_drivers_def)
qed

text \<open>
  C38: Loads are driven. On code whose expressions hold no assignments (a connection of an output may
  be one), when a signal is found among the loads of another one, then asking for the drivers of the
  first finds the other. Provided that the other is not a parameter, that it is read in assignments
  and conditions only and not in an expression of its own, neither in a process nor in the
  connection of an output, and that in the whole design every input is connected to an expression
  and no output that is the other is left open.
\<close>

theorem loads_are_driven:
  "tidy_design d \<Longrightarrow> list_all (quiet_use sy (concrete_symbol sy x)) (all_uses d) \<Longrightarrow>
   resolve p = Some x \<Longrightarrow> resolve q = Some y \<Longrightarrow>
   get_cone sy resolve d False p = Inr ls \<Longrightarrow> concrete_symbol sy y \<in> ls \<Longrightarrow>
   \<not> is_parameter sy (concrete_symbol sy x) \<Longrightarrow>
   \<exists>ds. get_cone sy resolve d True q = Inr ds \<and> concrete_symbol sy x \<in> ds"
  by (rule cone_dual)

section \<open>Examples\<close>

text \<open>
  Signals are 1 to 4. A process has \<^verbatim>\<open>if (1) 2 = 3\<close>, an instance the input 4 connected to 2.
\<close>

definition few_symbols :: symbols where
  "few_symbols = \<lparr>modport_internal = (\<lambda>v. None), is_parameter = (\<lambda>v. v = 9)\<rparr>"

definition few_paths :: "string \<Rightarrow> nat option" where
  "few_paths = [''a'' \<mapsto> 1, ''b'' \<mapsto> 2, ''c'' \<mapsto> 3, ''d'' \<mapsto> 4]"

definition guarded_design :: design_node where
  "guarded_design = ScopeNode
     [ProcessNode 10 (Conditional [ValueRef 1] (Other [Assign (ValueRef 2) (ValueRef 3)]) None),
      InstanceNode 20 [PortConnection DirIn 4 (Some (ValueRef 2))] []]"

lemma drivers_cone_exact_witness:
  "get_cone few_symbols few_paths guarded_design True ''b'' = Inr {1, 3}"
proof -
  have "tidy_design guarded_design" by (simp add: tidy_design_def guarded_design_def)
  from drivers_cone_exact [OF this, of few_paths "''b''" 2 few_symbols]
  have "get_cone few_symbols few_paths guarded_design True ''b'' =
      (if symbol_uses few_symbols guarded_design 2 = [] then Inl (NoReference ''b'')
       else Inr (all_drivers few_symbols guarded_design 2))"
    by (simp add: few_paths_def few_symbols_def concrete_symbol_def)
  moreover have "symbol_uses few_symbols guarded_design 2 \<noteq> []" by code_simp
  moreover have "all_drivers few_symbols guarded_design 2 = {1, 3}"
    by (auto simp: all_drivers_def guarded_design_def few_symbols_def concrete_symbol_def driven_by_def signals_def)
  ultimately show ?thesis by simp
qed

lemma loads_are_driven_witness:
  "\<exists>ds. get_cone few_symbols few_paths guarded_design True ''d'' = Inr ds \<and> 2 \<in> ds"
proof -
  have "concrete_symbol few_symbols v = v" for v by (simp add: few_symbols_def concrete_symbol_def)
  moreover have "\<exists>ds. get_cone few_symbols few_paths guarded_design True ''d'' = Inr ds \<and>
      concrete_symbol few_symbols 2 \<in> ds"
  proof (rule loads_are_driven)
    show "tidy_design guarded_design" by (simp add: tidy_design_def guarded_design_def)
    show "list_all (quiet_use few_symbols (concrete_symbol few_symbols 2)) (all_uses guarded_design)"
      by (simp add: guarded_design_def)
    show "few_paths ''b'' = Some 2" "few_paths ''d'' = Some 4" by (simp_all add: few_paths_def)
    show "get_cone few_symbols few_paths guarded_design False ''b'' = Inr {4}" by code_simp
    show "concrete_symbol few_symbols 4 \<in> {4}" "\<not> is_parameter few_symbols (concrete_symbol few_symbols 2)"
      by code_simp+
  qed
  ultimately show ?thesis by simp
qed

section \<open>Beyond tidy code\<close>

text \<open>
  A statement that reads the root outside an assignment or a condition, such as a call that prints
  it, leaves the mark that the root was found for whatever is walked after it.
\<close>

definition prints :: "nat \<Rightarrow> ast" where
  "prints a = Other [ValueRef a]"

lemma load_after_print:
  assumes "tidy b" and "\<not> on_lhs s" and "concrete_symbol sy a = root" and "quiet_root sy root b"
  shows "load sy root (Other [prints a, b]) s =
    Some (s\<lparr>found_root := True, loads := loads s \<union> loaded_by sy root (flows False sy {root} b)\<rparr>)"
proof -
  have "load sy root (prints a) s = Some (s\<lparr>found_root := True\<rparr>)"
    using assms(2,3) by (simp add: prints_def load_value_def Let_def)
  moreover have "guarded root {root} (s\<lparr>found_root := True\<rparr>)" using assms(2) by (simp add: guarded_def)
  ultimately show ?thesis
    using load_tidy [OF assms(1,4), of "{root}" "s\<lparr>found_root := True\<rparr>"] by (simp add: loaded_def)
qed

text \<open>
  The processes \<^verbatim>\<open>$display(1)\<close> and \<^verbatim>\<open>2 = 3; 4 = 1\<close> at the given addresses.
\<close>

definition printing_design :: "nat \<Rightarrow> nat \<Rightarrow> design_node" where
  "printing_design i j = ScopeNode
     [ProcessNode i (prints 1),
      ProcessNode j (Other [Assign (ValueRef 2) (ValueRef 3), Assign (ValueRef 4) (ValueRef 1)])]"

text \<open>
  C39: The loads of a signal can depend on where the objects of the design lie in memory. With a
  process that prints a signal and another one that assigns it, the second one is walked with the
  mark that the first one left, and all its targets are reported, exactly when the first one has the
  smaller address.\<close>

theorem loads_depend_on_addresses:
  "get_cone few_symbols few_paths (printing_design i j) False ''a'' = Inr (if i \<le> j then {2, 4} else {4})"
proof -
  have uses: "symbol_uses few_symbols (printing_design i j) 1 =
      (let p = Process i (prints 1);
           q = Process j (Other [Assign (ValueRef 2) (ValueRef 3), Assign (ValueRef 4) (ValueRef 1)])
       in if i \<le> j then [p, q] else [q, p])"
    by (simp add: symbol_uses_def printing_design_def prints_def few_symbols_def concrete_symbol_def Let_def)
  have "concrete_symbol few_symbols v = v" for v by (simp add: few_symbols_def concrete_symbol_def)
  moreover have "is_parameter few_symbols v = (v = 9)" for v by (simp add: few_symbols_def)
  ultimately show ?thesis
    by (auto simp: get_cone_def few_paths_def uses Let_def trace_loads_def prints_def load_value_def
        new_loads_def add_leaf_def simp del: One_nat_def)
qed

text \<open>An input that is not connected stops the tracing of loads of every signal of its instance.\<close>

lemma unconnected_input:
  "get_cone few_symbols few_paths
     (InstanceNode 20 [PortConnection DirIn 4 None, PortConnection DirIn 3 (Some (ValueRef 2))] [])
     False ''b'' = Inl Undefined"
  "get_cone few_symbols few_paths
     (InstanceNode 20 [PortConnection DirIn 4 None, PortConnection DirIn 3 (Some (ValueRef 2))] [])
     True ''c'' = Inr {2}"
  by code_simp+

text \<open>
  The expressions of an item of a case statement guard the items after it for the drivers, not for
  the loads: \<^verbatim>\<open>case (1) 2: 9; default: 3 = 4\<close>.
\<close>

definition case_design :: design_node where
  "case_design = ProcessNode 10
     (CaseOf (ValueRef 1) [([ValueRef 2], Other [])] (Some (Assign (ValueRef 3) (ValueRef 4))))"

lemma case_items_asymmetric:
  "get_cone few_symbols few_paths case_design True ''c'' = Inr {1, 2, 4}"
  "get_cone few_symbols few_paths case_design False ''b'' = Inr {}"
  by code_simp+

text \<open>An assignment inside the source of a driven one fails the assertion of the guard.\<close>

lemma nested_assignment:
  "get_cone few_symbols few_paths
     (ProcessNode 10 (Assign (ValueRef 1) (Assign (ValueRef 2) (ValueRef 3)))) True ''a'' = Inl Undefined"
  by code_simp

end
