(* ===== verification/CodeActions.thy ===== *)
theory CodeActions
  imports CompletionItem TokenLookup
begin

text \<open>
  Code actions, \<^verbatim>\<open>src/codeactions\<close>: expanding a macro usage in place, indented as the usage is, and
  adding a define for a macro that is tested and not defined. The analysis of the document is the
  index of its tokens, the kinds and ranges of its nodes and the macros it defines.
\<close>

section \<open>Indentation\<close>

definition is_indent :: "char \<Rightarrow> bool" where
  "is_indent c \<longleftrightarrow> c = CHR '' '' \<or> c = tab"

definition first_not_indent :: "string \<Rightarrow> nat option" where
  "first_not_indent l =
     (let n = length (takeWhile is_indent l) in if n < length l then Some n else None)"

fun least_indent :: "nat option \<Rightarrow> string list \<Rightarrow> nat option" where
  "least_indent m [] = m"
| "least_indent m (l # ls) =
     (case first_not_indent l of
        Some p \<Rightarrow> least_indent (case m of None \<Rightarrow> Some p | Some k \<Rightarrow> Some (if p < k then p else k)) ls
      | None \<Rightarrow> least_indent m ls)"

definition reindent_line :: "nat \<Rightarrow> nat \<Rightarrow> string \<Rightarrow> string" where
  "reindent_line column least l =
     replicate column CHR '' '' @
     (case first_not_indent l of
        None \<Rightarrow> []
      | Some p \<Rightarrow> (if p > least then replicate (p - least) CHR '' '' else []) @ drop p l)"

definition reindent :: "string \<Rightarrow> nat \<Rightarrow> string" where
  "reindent text column =
     (if newline \<notin> set text then text
      else
        let ls = getlines text;
            least = (case least_indent None (tl ls) of None \<Rightarrow> 0 | Some n \<Rightarrow> n)
        in hd ls @ concat (List.map (\<lambda>l. newline # reindent_line column least l) (tl ls)))"

section \<open>Actions\<close>

record code_action =
  action_title :: string
  action_kind :: string
  action_changes :: "(string \<times> text_edit list) list"
  action_command :: "(string \<times> string list) option"

record document_analysis =
  token_index :: syntax_index
  kind_of_node :: "nat \<Rightarrow> syntax_kind"
  range_of_node :: "nat \<Rightarrow> source_range"
  defined_macros :: "string list"

definition expand_macro_actions ::
    "source_manager \<Rightarrow> document_analysis \<Rightarrow> string \<Rightarrow> nat \<Rightarrow> code_action list" where
  "expand_macro_actions sm an uri node =
     (case macro_expansions (token_index an) node of
        None \<Rightarrow> []
      | Some toks \<Rightarrow>
          let usage = to_range sm (range_of_node an node);
              text = reindent (expansion_text toks) (unat (character (range_start usage)))
          in [\<lparr>action_title = ''Expand macro'', action_kind = ''refactor'',
               action_changes = [(uri, [\<lparr>edit_range = usage, edit_text = text\<rparr>])],
               action_command = None\<rparr>])"

definition add_define_actions :: "document_analysis \<Rightarrow> token \<Rightarrow> code_action list" where
  "add_define_actions an t =
     (let macro = value_text (token_of t) in
      if macro = [] \<or> macro \<in> set (defined_macros an) then []
      else [\<lparr>action_title = ''Add define '' @ CHR 0x27 # macro @ CHR 0x27 # '' to local flags'',
             action_kind = ''quickfix'', action_changes = [],
             action_command = Some (''slang.addDefine'', [macro])\<rparr>])"

text \<open>\<open>None\<close> is a document that is not there.\<close>

definition get_code_actions ::
    "source_manager \<Rightarrow> document_analysis option \<Rightarrow> nat \<Rightarrow> string \<Rightarrow> position \<Rightarrow> code_action list" where
  "get_code_actions sm doc buf uri pos =
     (case doc of
        None \<Rightarrow> []
      | Some an \<Rightarrow>
          (case Option.bind (to_source_location sm buf pos) (get_word_token_at sm (token_index an)) of
             None \<Rightarrow> []
           | Some t \<Rightarrow>
               (case get_token_parent (token_index an) t of
                  None \<Rightarrow> []
                | Some node \<Rightarrow>
                    if kind_of_node an node = MacroUsage then expand_macro_actions sm an uri node
                    else if kind_of_node an node = NamedConditionalDirectiveExpression then
                      add_define_actions an t
                    else [])))"

text \<open>\<^verbatim>\<open>SlangServer::getDocCodeAction\<close>: no actions is no answer.\<close>

definition doc_code_action ::
    "source_manager \<Rightarrow> document_analysis option \<Rightarrow> nat \<Rightarrow> string \<Rightarrow> position \<Rightarrow> code_action list option" where
  "doc_code_action sm doc buf uri pos =
     (let as = get_code_actions sm doc buf uri pos in if as = [] then None else Some as)"

section \<open>Reindenting\<close>

text \<open>Characters that are neither indentation nor line ends stay, in order.\<close>

definition solid :: "string \<Rightarrow> string" where
  "solid s = filter (\<lambda>c. \<not> is_indent c \<and> c \<noteq> newline) s"

lemma solid_simps [simp]:
  "solid [] = []" "solid (s @ t) = solid s @ solid t" "solid (newline # s) = solid s"
  "solid (replicate n CHR '' '') = []"
  by (simp_all add: solid_def is_indent_def)

lemma solid_indent: "(\<And>c. c \<in> set s \<Longrightarrow> is_indent c) \<Longrightarrow> solid s = []"
  by (simp add: solid_def filter_empty_conv)

lemma first_not_indent_None: "first_not_indent l = None \<longleftrightarrow> (\<forall>c\<in>set l. is_indent c)"
proof -
  have "first_not_indent l = None \<longleftrightarrow> length l \<le> length (takeWhile is_indent l)"
    by (simp add: first_not_indent_def Let_def not_less)
  also have "\<dots> \<longleftrightarrow> takeWhile is_indent l = l"
    by (metis order_refl take_all takeWhile_eq_take)
  finally show ?thesis by (simp add: takeWhile_eq_all_conv)
qed

lemma first_not_indent_Some:
  assumes "first_not_indent l = Some p"
  shows "l = takeWhile is_indent l @ drop p l" "p = length (takeWhile is_indent l)" "p < length l"
    "\<not> is_indent (hd (drop p l))"
proof -
  show p: "p = length (takeWhile is_indent l)" and l: "p < length l"
    using assms by (auto simp: first_not_indent_def Let_def split: if_splits)
  then have d: "drop p l = dropWhile is_indent l" by (simp add: dropWhile_eq_drop)
  then show "l = takeWhile is_indent l @ drop p l" by simp
  show "\<not> is_indent (hd (drop p l))"
    using d l p hd_dropWhile [of is_indent l] by (metis drop_eq_Nil leD)
qed

lemma solid_reindent_line: "solid (reindent_line column least l) = solid l"
proof (cases "first_not_indent l")
  case None
  then have "solid l = []" by (simp add: solid_indent first_not_indent_None)
  then show ?thesis by (simp add: reindent_line_def None)
next
  case (Some p)
  have "solid (takeWhile is_indent l) = []" by (rule solid_indent) (auto dest: set_takeWhileD)
  then have "solid l = solid (drop p l)"
    using first_not_indent_Some(1) [OF Some] by (metis append_Nil solid_simps(2))
  then show ?thesis using Some by (simp add: reindent_line_def)
qed

lemma solid_concat: "solid (concat ls) = concat (List.map solid ls)"
  by (induction ls) simp_all

lemma solid_reindent: "solid (reindent text column) = solid text"
proof (cases "newline \<in> set text")
  case True
  have "getlines text \<noteq> []" using True by (subst getlines.simps) auto
  then obtain l ls where ls: "getlines text = l # ls" by (cases "getlines text") auto
  have "solid text = solid (concat (getlines text))"
    unfolding getlines_concat solid_def filter_filter by (rule filter_cong) auto
  also have "\<dots> = solid l @ concat (List.map solid ls)" by (simp add: ls solid_concat)
  finally show ?thesis using True
    by (simp add: reindent_def Let_def ls solid_concat comp_def solid_reindent_line)
qed (simp add: reindent_def)

text \<open>
  The macro usage under the cursor: the node of the word, in the index of the document, that has
  the position in it, if that node is a usage.
\<close>

definition usage_under ::
    "source_manager \<Rightarrow> document_analysis \<Rightarrow> nat \<Rightarrow> position \<Rightarrow> nat \<Rightarrow> bool" where
  "usage_under sm an buf pos node \<longleftrightarrow>
     (\<exists>loc t. to_source_location sm buf pos = Some loc \<and> in_focus (token_index an) loc \<and>
        t \<in> set (collected (token_index an)) \<and> word_at loc t \<and>
        token_to_parent (token_index an) (token_id (token_of t)) = Some node \<and>
        kind_of_node an node = MacroUsage)"

lemma one_word_at:
  assumes "disjoint_tokens ix" "t \<in> set (collected ix)" "u \<in> set (collected ix)" "word_at loc t" "word_at loc u"
  shows "t = u"
proof -
  obtain i j where ij: "i < length (collected ix)" "t = collected ix ! i"
    "j < length (collected ix)" "u = collected ix ! j" using assms(2,3) by (metis in_set_conv_nth)
  then show ?thesis
    using disjoint_ends [OF assms(1), of i j] disjoint_ends [OF assms(1), of j i] assms(4,5)
    by (cases i j rule: linorder_cases) (auto simp: word_at_def)
qed

lemma word_found:
  assumes "orders_by_offset sm (focus ix)" and "in_text_order ix" and "disjoint_tokens ix"
  shows "get_word_token_at sm ix loc = Some t \<longleftrightarrow> in_focus ix loc \<and> t \<in> set (collected ix) \<and> word_at loc t"
proof -
  have "List.find (word_at loc) (collected ix) = Some t \<longleftrightarrow> t \<in> set (collected ix) \<and> word_at loc t"
  proof
    assume "t \<in> set (collected ix) \<and> word_at loc t"
    moreover from this obtain u where "List.find (word_at loc) (collected ix) = Some u"
      by (cases "List.find (word_at loc) (collected ix)") (auto simp: find_None_iff)
    moreover from this have "u \<in> set (collected ix)" "word_at loc u" by (auto simp: find_Some_iff)
    ultimately show "List.find (word_at loc) (collected ix) = Some t" using one_word_at [OF assms(3)] by auto
  qed (auto simp: find_Some_iff)
  then show ?thesis by (simp add: word_token_find [OF assms])
qed

lemma usage_actions:
  assumes "orders_by_offset sm (focus (token_index an))" and "in_text_order (token_index an)"
    and "disjoint_tokens (token_index an)" and "usage_under sm an buf pos node"
  shows "get_code_actions sm (Some an) buf uri pos = expand_macro_actions sm an uri node"
proof -
  obtain loc t where at: "to_source_location sm buf pos = Some loc" "in_focus (token_index an) loc"
    "t \<in> set (collected (token_index an))" "word_at loc t"
    "token_to_parent (token_index an) (token_id (token_of t)) = Some node" "kind_of_node an node = MacroUsage"
    using assms(4) by (auto simp: usage_under_def)
  have "get_word_token_at sm (token_index an) loc = Some t"
    using word_found [OF assms(1-3), of loc t] at(2-4) by blast
  with at show ?thesis by (simp add: get_code_actions_def get_token_parent_def)
qed

lemma edit_needs_usage:
  assumes "orders_by_offset sm (focus (token_index an))" and "in_text_order (token_index an)"
    and "disjoint_tokens (token_index an)"
    and "a \<in> set (get_code_actions sm (Some an) buf uri pos)" and "action_changes a \<noteq> []"
  obtains node where "usage_under sm an buf pos node" "a \<in> set (expand_macro_actions sm an uri node)"
proof -
  obtain loc t node where at: "to_source_location sm buf pos = Some loc"
    "get_word_token_at sm (token_index an) loc = Some t" "get_token_parent (token_index an) t = Some node"
    and a: "a \<in> set (if kind_of_node an node = MacroUsage then expand_macro_actions sm an uri node
      else if kind_of_node an node = NamedConditionalDirectiveExpression then add_define_actions an t else [])"
  proof (cases "to_source_location sm buf pos")
    case (Some loc)
    then obtain t where t: "get_word_token_at sm (token_index an) loc = Some t"
      using assms(4) by (cases "get_word_token_at sm (token_index an) loc") (simp_all add: get_code_actions_def)
    then obtain node where "get_token_parent (token_index an) t = Some node"
      using assms(4) Some by (cases "get_token_parent (token_index an) t") (simp_all add: get_code_actions_def)
    with Some t assms(4) that show ?thesis by (simp add: get_code_actions_def)
  qed (use assms(4) in \<open>simp add: get_code_actions_def\<close>)
  have "a \<notin> set (add_define_actions an t)"
    using assms(5) by (auto simp: add_define_actions_def Let_def split: if_splits)
  with a have "kind_of_node an node = MacroUsage" "a \<in> set (expand_macro_actions sm an uri node)"
    by (auto split: if_splits)
  with at word_found [OF assms(1-3)] that show ?thesis
    by (auto simp: usage_under_def get_token_parent_def)
qed

text \<open>
  C24: Expanding a macro changes white space only. With the cursor on a macro usage whose expansion
  was recorded one action is offered: an edit of the document asked about that replaces exactly the
  range of that usage by a text that has the characters of its expansion, in order, but for blanks,
  tabs and line ends. Anywhere else no edit is offered. The library orders the locations of a text
  by offset, and the tokens of the index lie one after the other.
\<close>

theorem expanded_text_kept:
  assumes "orders_by_offset sm (focus (token_index an))" and "in_text_order (token_index an)"
    and "disjoint_tokens (token_index an)"
  shows "(usage_under sm an buf pos node \<and> macro_expansions (token_index an) node = Some toks \<longrightarrow>
      (\<exists>a text. get_code_actions sm (Some an) buf uri pos = [a] \<and>
         action_changes a = [(uri, [\<lparr>edit_range = to_range sm (range_of_node an node), edit_text = text\<rparr>])] \<and>
         solid text = solid (expansion_text toks)))
    \<and> (a \<in> set (get_code_actions sm (Some an) buf uri pos) \<and> action_changes a \<noteq> [] \<longrightarrow>
      (\<exists>node toks. usage_under sm an buf pos node \<and> macro_expansions (token_index an) node = Some toks))"
proof (intro conjI impI)
  assume "usage_under sm an buf pos node \<and> macro_expansions (token_index an) node = Some toks"
  then have under: "usage_under sm an buf pos node" and toks: "macro_expansions (token_index an) node = Some toks"
    by simp_all
  show "\<exists>a text. get_code_actions sm (Some an) buf uri pos = [a] \<and>
      action_changes a = [(uri, [\<lparr>edit_range = to_range sm (range_of_node an node), edit_text = text\<rparr>])] \<and>
      solid text = solid (expansion_text toks)"
    by (simp add: usage_actions [OF assms under] expand_macro_actions_def toks Let_def solid_reindent)
next
  assume "a \<in> set (get_code_actions sm (Some an) buf uri pos) \<and> action_changes a \<noteq> []"
  then obtain n where "usage_under sm an buf pos n" "a \<in> set (expand_macro_actions sm an uri n)"
    using edit_needs_usage [OF assms] by blast
  then show "\<exists>node toks. usage_under sm an buf pos node \<and> macro_expansions (token_index an) node = Some toks"
    by (cases "macro_expansions (token_index an) n") (auto simp: expand_macro_actions_def)
qed

section \<open>Expanding twice\<close>

text \<open>The indentations of the lines that have one.\<close>

definition indents :: "string list \<Rightarrow> nat set" where
  "indents ls = {p. Some p \<in> first_not_indent ` set ls}"

lemma indents_simps [simp]: "indents [] = {}"
  "indents (l # ls) = (case first_not_indent l of None \<Rightarrow> indents ls | Some p \<Rightarrow> insert p (indents ls))"
  by (auto simp: indents_def split: option.split)

lemma finite_indents [simp]: "finite (indents ls)"
  by (induction ls) (auto split: option.split)

lemma least_indent_Some: "least_indent (Some m) ls = Some (Min (insert m (indents ls)))"
proof (induction ls arbitrary: m)
  case (Cons l ls)
  show ?case
  proof (cases "first_not_indent l")
    case (Some p)
    have "Min (insert (if p < m then p else m) (indents ls)) = Min (insert m (insert p (indents ls)))"
      by (cases "indents ls = {}") (auto simp: min_def)
    then show ?thesis using Cons Some by simp
  qed (simp add: Cons)
qed simp

lemma least_indent_None: "least_indent None ls = (if indents ls = {} then None else Some (Min (indents ls)))"
  by (induction ls) (auto simp: least_indent_Some split: option.split)

lemma first_not_indent_line:
  "first_not_indent (reindent_line c m l) = map_option (\<lambda>p. c + (p - m)) (first_not_indent l)"
proof (cases "first_not_indent l")
  case None
  have "first_not_indent (replicate c CHR '' '') = None" by (simp add: first_not_indent_None is_indent_def)
  then show ?thesis using None by (simp add: reindent_line_def)
next
  case (Some p)
  obtain x xs where x: "drop p l = x # xs" "\<not> is_indent x"
    using first_not_indent_Some(3,4) [OF Some] by (cases "drop p l") auto
  have "reindent_line c m l = replicate (c + (p - m)) CHR '' '' @ x # xs"
    using Some x by (auto simp: reindent_line_def replicate_add)
  moreover have "takeWhile is_indent (replicate n CHR '' '' @ x # xs) = replicate n CHR '' ''" for n
    using x(2) by (subst takeWhile_append2) (auto simp: is_indent_def)
  ultimately show ?thesis using Some by (simp add: first_not_indent_def Let_def)
qed

lemma reindent_line_twice: "reindent_line c c (reindent_line c m l) = reindent_line c m l"
proof (cases "first_not_indent l")
  case None
  then show ?thesis using first_not_indent_line [of c m l] by (simp add: reindent_line_def)
next
  case (Some p)
  then have "drop (c + (p - m)) (reindent_line c m l) = drop p l"
    by (simp add: reindent_line_def)
  then show ?thesis
    using first_not_indent_line [of c m l] Some by (simp add: reindent_line_def [of c c] reindent_line_def [of c m])
qed

lemma indents_reindented:
  "indents (List.map (reindent_line c m) ls) = (\<lambda>p. c + (p - m)) ` indents ls"
  by (induction ls) (auto simp: first_not_indent_line split: option.split)

lemma getlines_lines:
  "newline \<notin> set l \<Longrightarrow> list_all (\<lambda>m. newline \<notin> set m \<and> m \<noteq> []) ms \<Longrightarrow> ms \<noteq> [] \<Longrightarrow>
   getlines (l @ concat (List.map (\<lambda>m. newline # m) ms)) = l # ms"
proof (induction ms arbitrary: l)
  case (Cons m ms)
  then show ?case
    by (cases "ms = []") (simp_all add: getlines_line getlines_last)
qed simp

lemma reindented_line: "newline \<notin> set l \<Longrightarrow> newline \<notin> set (reindent_line (Suc c) m l) \<and> reindent_line (Suc c) m l \<noteq> []"
  by (auto simp: reindent_line_def dest: in_set_dropD split: option.split)

lemma reindent_lines:
  "newline \<in> set t \<Longrightarrow> getlines t = l # ls \<Longrightarrow>
   reindent t c = l @ concat (List.map (\<lambda>m. newline # m) (List.map (reindent_line c
     (if indents ls = {} then 0 else Min (indents ls))) ls))"
  by (simp add: reindent_def Let_def least_indent_None comp_def)

lemma reindented_again:
  assumes "x \<in> set ls"
  shows "reindent_line (Suc c) (if indents ls = {} then 0 else Suc c) (reindent_line (Suc c) m x) =
    reindent_line (Suc c) m x"
proof (cases "indents ls = {}")
  case True
  then have "first_not_indent x = None"
    using assms by (cases "first_not_indent x") (force simp: indents_def)+
  then show ?thesis using True first_not_indent_line [of "Suc c" m x] by (simp add: reindent_line_def)
qed (simp add: reindent_line_twice)

lemma least_reindented:
  assumes "indents ls \<noteq> {}"
  shows "Min ((\<lambda>p. c + (p - Min (indents ls))) ` indents ls) = c"
proof (rule Min_eqI)
  have "c = (\<lambda>p. c + (p - Min (indents ls))) (Min (indents ls))" by simp
  then show "c \<in> (\<lambda>p. c + (p - Min (indents ls))) ` indents ls"
    using Min_in [OF finite_indents assms] by (rule image_eqI)
  show "c \<le> y" if "y \<in> (\<lambda>p. c + (p - Min (indents ls))) ` indents ls" for y
    using that by (elim imageE) (simp only: le_add1)
qed simp

lemma reindent_twice: "reindent (reindent text (Suc c)) (Suc c) = reindent text (Suc c)"
proof (cases "newline \<in> set text")
  case True
  have "getlines text \<noteq> []" using True by (subst getlines.simps) auto
  then obtain l ls where ls: "getlines text = l # ls" by (cases "getlines text") auto
  have clean: "newline \<notin> set m" if "m \<in> set (l # ls)" for m
    using that ls getlines_no_newline [of m "text"] by simp
  define m where "m = (if indents ls = {} then 0 else Min (indents ls))"
  let ?ms = "List.map (reindent_line (Suc c) m) ls"
  let ?r = "l @ concat (List.map (\<lambda>l. newline # l) ?ms)"
  have r: "reindent text (Suc c) = ?r" unfolding m_def by (rule reindent_lines [OF True ls])
  show ?thesis
  proof (cases "ls = []")
    case False
    have n: "newline \<in> set ?r" using False by (cases ls) auto
    have "getlines ?r = l # ?ms"
      using clean reindented_line False by (intro getlines_lines) (auto simp: list_all_iff)
    note again = reindent_lines [OF n this]
    have k: "(if indents ?ms = {} then 0 else Min (indents ?ms)) = (if indents ls = {} then 0 else Suc c)"
      using least_reindented [of ls "Suc c"] by (simp add: indents_reindented m_def)
    have m: "List.map (reindent_line (Suc c) (if indents ls = {} then 0 else Suc c)) ?ms = ?ms"
      unfolding list.map_comp comp_def by (rule list.map_cong0) (rule reindented_again)
    show ?thesis unfolding r again k m by (rule refl)
  qed (use clean r in \<open>simp add: reindent_def [of l]\<close>)
qed (simp add: reindent_def)

text \<open>
  C40: Indenting the expansion of a macro settles: what was indented for a column other than the
  first stays as it is when it is indented for that column again, so that expanding a macro in what
  an expansion gave does not move the lines any further.\<close>

theorem reindent_settles: "reindent (reindent text (Suc c)) (Suc c) = reindent text (Suc c)"
  by (rule reindent_twice)

text \<open>In the first column a last line without text is lost when it is indented again, and the line end of the last line always is.\<close>

lemma reindent_last_line:
  "reindent ''a'' 0 = ''a''" "reindent (''a'' @ [newline]) 0 = ''a''"
  "reindent (''a'' @ [newline, newline]) 0 = ''a'' @ [newline]"
  by code_simp+

section \<open>An example\<close>

text \<open>The first two tokens of the sample index are a usage and its expansion.\<close>

definition sample_analysis :: document_analysis where
  "sample_analysis =
     \<lparr>token_index = sample_index\<lparr>macro_expansions := (\<lambda>n. Some (collected sample_index))\<rparr>,
      kind_of_node = (\<lambda>n. MacroUsage),
      range_of_node = (\<lambda>n. (\<lparr>loc_buffer = 1, loc_offset = 0\<rparr>, \<lparr>loc_buffer = 1, loc_offset = 3\<rparr>)),
      defined_macros = []\<rparr>"

definition expansion_offered :: "code_action list" where
  "expansion_offered =
     [\<lparr>action_title = ''Expand macro'', action_kind = ''refactor'',
       action_changes = [(''u'',
         [\<lparr>edit_range = to_range sample_manager (range_of_node sample_analysis 11), edit_text = ''pkg::v''\<rparr>])],
       action_command = None\<rparr>]"

theorem expanded_text_kept_witness:
  "\<exists>text. get_code_actions sample_manager (Some sample_analysis) 1 ''u'' (to_position sample_manager (sample_loc 1))
     = [\<lparr>action_title = ''Expand macro'', action_kind = ''refactor'',
         action_changes = [(''u'',
           [\<lparr>edit_range = to_range sample_manager (range_of_node sample_analysis 11), edit_text = text\<rparr>])],
         action_command = None\<rparr>]
     \<and> solid text = solid (expansion_text (collected sample_index))"
proof -
  let ?pos = "to_position sample_manager (sample_loc 1)"
  have order: "orders_by_offset sample_manager (focus (token_index sample_analysis))"
    "in_text_order (token_index sample_analysis)" "disjoint_tokens (token_index sample_analysis)"
    using sample_ok by (simp_all add: sample_analysis_def in_text_order_def disjoint_tokens_def)
  have under: "usage_under sample_manager sample_analysis 1 ?pos 11"
    unfolding usage_under_def
    by (rule exI [of _ "sample_loc 1"], rule exI [of _ "hd (collected sample_index)"], intro conjI) code_simp+
  have "macro_expansions (token_index sample_analysis) 11 = Some (collected sample_index)"
    by (simp add: sample_analysis_def)
  with under obtain a t where a: "get_code_actions sample_manager (Some sample_analysis) 1 ''u'' ?pos = [a]"
    "action_changes a = [(''u'', [\<lparr>edit_range = to_range sample_manager (range_of_node sample_analysis 11), edit_text = t\<rparr>])]"
    "solid t = solid (expansion_text (collected sample_index))"
    using expanded_text_kept [OF order, of 1 ?pos 11 "collected sample_index" "''u''" undefined] by blast
  moreover have "get_code_actions sample_manager (Some sample_analysis) 1 ''u'' ?pos = expansion_offered" by code_simp
  ultimately show ?thesis by (auto simp: expansion_offered_def)
qed

end
