(* ===== verification/ActiveDesign.thy ===== *)
theory ActiveDesign
  imports Converters "HOL-Library.List_Lexorder" "HOL-Library.Char_ord"
begin

text \<open>
  Which instances of the design the editor looks at, the active part of
  \<^verbatim>\<open>ast/ServerCompilation.cpp\<close> with \<^verbatim>\<open>ast/InstanceIndexer.h\<close> and
  \<^verbatim>\<open>resolveInterfaceConnection\<close> of \<^verbatim>\<open>ast/ActiveDesignContext.cpp\<close>: for every module one
  instance, for every array of generated scopes one iteration. Symbols of the library are
  numbers, and what the code asks of them is the record \<open>design_view\<close>.
\<close>

section \<open>The design\<close>

datatype sym_kind =
    InstanceSym
  | InstanceArraySym "nat option list"
  | InterfacePortSym
  | InstanceBodySym "nat option"
  | GenerateBlockSym
  | GenerateArraySym
  | DefinitionSym
  | OtherSym

text \<open>
  A port of an interface is connected to a symbol, or to nothing, and the expression of the
  connection, when it names a symbol, leads there through others.
\<close>

record port_link =
  link_symbol :: "nat option"
  link_expression :: "(nat list \<times> nat) option"

text \<open>
  \<open>scopes_of\<close> are the scopes around a symbol, the innermost first. \<open>port_connections\<close> are the
  connections of an instance: for interface ports the symbol connected, and \<open>None\<close> for the others.
\<close>

record design_view =
  sym_kind :: "nat \<Rightarrow> sym_kind"
  hier_path :: "nat \<Rightarrow> string"
  scopes_of :: "nat \<Rightarrow> nat list"
  definition_name :: "nat \<Rightarrow> string"
  definition_range :: "nat \<Rightarrow> source_range"
  syntax_range :: "nat \<Rightarrow> source_range option"
  sym_location :: "nat \<Rightarrow> source_loc"
  port_connections :: "nat \<Rightarrow> nat option option list"
  port_links :: "(nat \<times> port_link) list"

datatype instance_tree = InstanceTree nat bool "instance_tree list"

text \<open>The map from names of modules to their instances, in the order of the names.\<close>

type_synonym instance_index = "(string \<times> nat list) list"

fun add_instance :: "string \<Rightarrow> nat \<Rightarrow> instance_index \<Rightarrow> instance_index" where
  "add_instance n i [] = [(n, [i])]"
| "add_instance n i ((m, is) # r) =
     (if m = n then (m, is @ [i]) # r
      else if n < m then (n, [i]) # (m, is) # r
      else (m, is) # add_instance n i r)"

text \<open>An instance that is not instantiated, a module nothing uses, is left out with all below it.\<close>

fun index_instance :: "design_view \<Rightarrow> instance_tree \<Rightarrow> instance_index \<Rightarrow> instance_index"
and index_instances :: "design_view \<Rightarrow> instance_tree list \<Rightarrow> instance_index \<Rightarrow> instance_index" where
  "index_instance d (InstanceTree i uninstantiated ts) ix =
     (if uninstantiated then ix
      else index_instances d ts (add_instance (definition_name d i) i ix))"
| "index_instances d [] ix = ix"
| "index_instances d (t # ts) ix = index_instances d ts (index_instance d t ix)"

definition instances_of_module :: "instance_index \<Rightarrow> string \<Rightarrow> nat list" where
  "instances_of_module ix n = (case map_of ix n of None \<Rightarrow> [] | Some is \<Rightarrow> is)"

section \<open>Connections of interface ports\<close>

record resolving =
  source_path :: "nat list"
  resolved_endpoint :: "nat option"
  navigable_endpoint :: "nat option"

definition port_link_of :: "design_view \<Rightarrow> nat \<Rightarrow> port_link" where
  "port_link_of d p =
     (case map_of (port_links d) p of
        None \<Rightarrow> \<lparr>link_symbol = None, link_expression = None\<rparr>
      | Some l \<Rightarrow> l)"

definition is_interface_port :: "design_view \<Rightarrow> nat \<Rightarrow> bool" where
  "is_interface_port d s \<longleftrightarrow> sym_kind d s = InterfacePortSym"

text \<open>An endpoint that is missing or only a port is replaced by the next one.\<close>

definition replaceable :: "design_view \<Rightarrow> nat option \<Rightarrow> bool" where
  "replaceable d e = (case e of None \<Rightarrow> True | Some s \<Rightarrow> is_interface_port d s)"

definition add_path_symbol :: "design_view \<Rightarrow> nat \<Rightarrow> nat option \<Rightarrow> resolving \<Rightarrow> resolving" where
  "add_path_symbol d port s r =
     (case s of
        None \<Rightarrow> r
      | Some x \<Rightarrow>
          if x \<noteq> port \<and> syntax_range d x \<noteq> None \<and> x \<notin> set (source_path r)
          then r\<lparr>source_path := source_path r @ [x]\<rparr> else r)"

fun forward_ports ::
    "design_view \<Rightarrow> nat \<Rightarrow> nat set \<Rightarrow> nat list \<Rightarrow> resolving \<Rightarrow> nat option \<Rightarrow> resolving \<times> nat option" where
  "forward_ports d port visited [] r p = (r, p)"
| "forward_ports d port visited (x # xs) r p =
     (if is_interface_port d x then
        forward_ports d port visited xs (add_path_symbol d port (Some x) r)
          (if x \<notin> visited then Some x else p)
      else forward_ports d port visited xs r p)"

definition resolve_step ::
    "design_view \<Rightarrow> nat \<Rightarrow> nat set \<Rightarrow> nat \<Rightarrow> resolving \<Rightarrow> resolving \<times> nat option" where
  "resolve_step d port visited current r =
     (let l = port_link_of d current;
          r = (if link_symbol l \<noteq> None \<and> replaceable d (resolved_endpoint r)
               then r\<lparr>resolved_endpoint := link_symbol l\<rparr> else r);
          (r, p) =
            (case link_expression l of
               Some (xs, s) \<Rightarrow>
                 (let (r, p) = forward_ports d port visited xs r None
                  in (if replaceable d (navigable_endpoint r) then r\<lparr>navigable_endpoint := Some s\<rparr> else r, p))
             | None \<Rightarrow>
                 (if replaceable d (navigable_endpoint r) then r\<lparr>navigable_endpoint := link_symbol l\<rparr> else r,
                  None));
          p = (if p = None then
                 (case link_symbol l of None \<Rightarrow> None | Some s \<Rightarrow> if is_interface_port d s then Some s else None)
               else p)
      in (r, p))"

text \<open>
  Ports that are followed have a link; a port without one leads nowhere, so that the ports left
  to visit become fewer.
\<close>

lemma resolve_step_unlinked:
  "map_of (port_links d) p = None \<Longrightarrow> snd (resolve_step d port visited p r) = None"
  by (simp add: resolve_step_def port_link_of_def)

lemma fewer_ports:
  assumes "current \<notin> visited" "resolve_step d port visited' current r = (r', Some p)"
  shows "card (fst ` set (port_links d) - insert current visited) < card (fst ` set (port_links d) - visited)"
proof (rule psubset_card_mono)
  have "map_of (port_links d) current \<noteq> None"
    using resolve_step_unlinked [of d current port visited' r] assms(2) by auto
  then have "current \<in> fst ` set (port_links d)" by (simp add: map_of_eq_None_iff)
  then show "fst ` set (port_links d) - insert current visited \<subset> fst ` set (port_links d) - visited"
    using assms(1) by blast
qed simp

function resolve_loop :: "design_view \<Rightarrow> nat \<Rightarrow> nat set \<Rightarrow> nat \<Rightarrow> resolving \<Rightarrow> resolving" where
  "resolve_loop d port visited current r =
     (if current \<in> visited then r
      else case resolve_step d port (insert current visited) current r of
             (r, None) \<Rightarrow> r
           | (r, Some p) \<Rightarrow>
               if p \<in> insert current visited then r
               else resolve_loop d port (insert current visited) p r)"
  by pat_completeness auto
termination
  by (relation "measure (\<lambda>(d, port, visited, current, r). card (fst ` set (port_links d) - visited))")
    (auto intro: fewer_ports [OF _ sym])

declare resolve_loop.simps [simp del]

definition resolve_interface_connection :: "design_view \<Rightarrow> nat \<Rightarrow> resolving" where
  "resolve_interface_connection d port =
     (let r = resolve_loop d port {} port
            \<lparr>source_path = [], resolved_endpoint = None, navigable_endpoint = None\<rparr>
      in add_path_symbol d port (navigable_endpoint r) r)"

section \<open>Choosing instances\<close>

record qualified_instance =
  instance_path :: string
  instance_location :: lsp_location

definition to_qualified_instance :: "source_manager \<Rightarrow> design_view \<Rightarrow> nat \<Rightarrow> qualified_instance" where
  "to_qualified_instance sm d i =
     \<lparr>instance_path = hier_path d i,
      instance_location = range_to_location sm
        (case syntax_range d i of Some r \<Rightarrow> r | None \<Rightarrow> definition_range d i)\<rparr>"

definition path_depth :: "string \<Rightarrow> nat" where
  "path_depth path = length (filter (\<lambda>c. c = CHR ''.'') path)"

definition sort_location :: "design_view \<Rightarrow> nat \<Rightarrow> source_loc" where
  "sort_location d i = (case syntax_range d i of Some r \<Rightarrow> fst r | None \<Rightarrow> sym_location d i)"

definition preferred_before :: "source_manager \<Rightarrow> design_view \<Rightarrow> nat \<Rightarrow> nat \<Rightarrow> bool" where
  "preferred_before sm d a b =
     (let da = path_depth (hier_path d a); db = path_depth (hier_path d b);
          la = sort_location d a; lb = sort_location d b;
          va = buffer_valid sm (loc_buffer la); vb = buffer_valid sm (loc_buffer lb)
      in if da \<noteq> db then da < db
         else if va \<noteq> vb then va
         else if va \<and> la \<noteq> lb then loc_before sm la lb
         else hier_path d a < hier_path d b)"

fun choose_preferred :: "source_manager \<Rightarrow> design_view \<Rightarrow> nat option \<Rightarrow> nat list \<Rightarrow> nat option" where
  "choose_preferred sm d best [] = best"
| "choose_preferred sm d best (i # is) =
     choose_preferred sm d
       (case best of
          None \<Rightarrow> Some i
        | Some b \<Rightarrow> if preferred_before sm d i b then Some i else Some b) is"

definition choose_preferred_instance :: "source_manager \<Rightarrow> design_view \<Rightarrow> nat list \<Rightarrow> nat option" where
  "choose_preferred_instance sm d is = choose_preferred sm d None is"

section \<open>Activating\<close>

type_synonym active_instances = "string \<rightharpoonup> qualified_instance"
type_synonym active_generates = "string \<rightharpoonup> string"

record active_state =
  instances_by_module :: active_instances
  generates_by_array :: active_generates

fun each_option :: "('a \<Rightarrow> 's \<Rightarrow> 's option) \<Rightarrow> 'a list \<Rightarrow> 's \<Rightarrow> 's option" where
  "each_option f [] s = Some s"
| "each_option f (x # xs) s = Option.bind (f x s) (each_option f xs)"

lemma each_option_mono [partial_function_mono]:
  assumes "\<And>x s. mono_option (\<lambda>f. g f x s)"
  shows "mono_option (\<lambda>f. each_option (g f) xs s)"
proof (induction xs arbitrary: s)
  case Nil
  show ?case by (simp add: option.const_mono)
next
  case (Cons x xs)
  show ?case unfolding each_option.simps by (rule bind_mono [OF assms Cons])
qed

text \<open>\<open>None\<close> is not returning: the code follows arrays into their elements and ports to their endpoints.\<close>

partial_function (option) set_interface_instance ::
    "source_manager \<Rightarrow> design_view \<Rightarrow> nat \<Rightarrow> active_instances \<Rightarrow> active_instances option" where
  "set_interface_instance sm d s m =
     (case sym_kind d s of
        InstanceSym \<Rightarrow> Some (m(definition_name d s \<mapsto> to_qualified_instance sm d s))
      | InstanceArraySym es \<Rightarrow>
          each_option (\<lambda>e m. set_interface_instance sm d e m) (List.map_filter id es) m
      | InterfacePortSym \<Rightarrow>
          (case resolved_endpoint (resolve_interface_connection d s) of
             None \<Rightarrow> Some m
           | Some e \<Rightarrow> if e \<noteq> s then set_interface_instance sm d e m else Some m)
      | _ \<Rightarrow> Some m)"

definition set_connected_interfaces ::
    "source_manager \<Rightarrow> design_view \<Rightarrow> nat \<Rightarrow> active_instances \<Rightarrow> active_instances option" where
  "set_connected_interfaces sm d i m =
     each_option (\<lambda>c m. case c of Some (Some s) \<Rightarrow> set_interface_instance sm d s m | _ \<Rightarrow> Some m)
       (port_connections d i) m"

fun first_body :: "design_view \<Rightarrow> nat list \<Rightarrow> nat option" where
  "first_body d [] = None"
| "first_body d (s # ss) = (case sym_kind d s of InstanceBodySym i \<Rightarrow> i | _ \<Rightarrow> first_body d ss)"

definition enclosing_instance :: "design_view \<Rightarrow> nat \<Rightarrow> nat option" where
  "enclosing_instance d s = first_body d (scopes_of d s)"

partial_function (option) instance_chain :: "design_view \<Rightarrow> nat \<Rightarrow> nat list option" where
  "instance_chain d s =
     (case enclosing_instance d s of
        None \<Rightarrow> Some [s]
      | Some e \<Rightarrow> Option.bind (instance_chain d e) (\<lambda>c. Some (s # c)))"

declare set_interface_instance.simps [code] instance_chain.simps [code]

definition activate_one ::
    "source_manager \<Rightarrow> design_view \<Rightarrow> nat \<Rightarrow> active_instances \<Rightarrow> active_instances option" where
  "activate_one sm d i m =
     Option.bind (set_connected_interfaces sm d i m)
       (\<lambda>m. Some (m(definition_name d i \<mapsto> to_qualified_instance sm d i)))"

definition set_active_chain ::
    "source_manager \<Rightarrow> design_view \<Rightarrow> nat \<Rightarrow> active_instances \<Rightarrow> active_instances option" where
  "set_active_chain sm d target m =
     Option.bind (instance_chain d target) (\<lambda>c. each_option (activate_one sm d) (rev c) m)"

definition parent_array :: "design_view \<Rightarrow> nat \<Rightarrow> nat option" where
  "parent_array d b =
     (case scopes_of d b of
        [] \<Rightarrow> None
      | a # _ \<Rightarrow> if sym_kind d a = GenerateArraySym then Some a else None)"

definition set_active_generate :: "design_view \<Rightarrow> nat \<Rightarrow> active_generates \<Rightarrow> active_generates" where
  "set_active_generate d s m =
     (if sym_kind d s = GenerateBlockSym then
        (case parent_array d s of None \<Rightarrow> m | Some a \<Rightarrow> m(hier_path d a \<mapsto> hier_path d s))
      else m)"

definition set_active_generates :: "design_view \<Rightarrow> nat \<Rightarrow> active_generates \<Rightarrow> active_generates" where
  "set_active_generates d s m = fold (set_active_generate d) (s # scopes_of d s) m"

definition activate_generates :: "design_view \<Rightarrow> nat \<Rightarrow> active_state \<Rightarrow> active_state" where
  "activate_generates d s st = st\<lparr>generates_by_array := set_active_generates d s (generates_by_array st)\<rparr>"

definition activate_chain ::
    "source_manager \<Rightarrow> design_view \<Rightarrow> nat \<Rightarrow> active_state \<Rightarrow> active_state option" where
  "activate_chain sm d i st =
     Option.bind (set_active_chain sm d i (instances_by_module st))
       (\<lambda>m. Some (st\<lparr>instances_by_module := m\<rparr>))"

definition activate_enclosing ::
    "source_manager \<Rightarrow> design_view \<Rightarrow> nat \<Rightarrow> active_state \<Rightarrow> active_state option" where
  "activate_enclosing sm d s st =
     (case enclosing_instance d s of None \<Rightarrow> Some st | Some i \<Rightarrow> activate_chain sm d i st)"

definition activate_connected ::
    "source_manager \<Rightarrow> design_view \<Rightarrow> nat \<Rightarrow> active_state \<Rightarrow> active_state option" where
  "activate_connected sm d s st =
     (let st = activate_generates d s st
      in if is_interface_port d s then activate_enclosing sm d s st else Some st)"

text \<open>The port of an interface stands for what it is connected to.\<close>

definition activate_port ::
    "source_manager \<Rightarrow> design_view \<Rightarrow> nat \<Rightarrow> active_state \<Rightarrow> (nat option \<times> active_state) option" where
  "activate_port sm d port st =
     Option.bind (activate_enclosing sm d port st) (\<lambda>st.
       let c = resolve_interface_connection d port in
       Option.bind (each_option (activate_connected sm d) (source_path c) st) (\<lambda>st.
         Some (resolved_endpoint c,
           case resolved_endpoint c of
             None \<Rightarrow> st
           | Some e \<Rightarrow> if e \<in> set (source_path c) then st else activate_generates d e st)))"

text \<open>\<open>found\<close> is the symbol at the path asked for.\<close>

definition activate_symbol ::
    "source_manager \<Rightarrow> design_view \<Rightarrow> nat option \<Rightarrow> active_state \<Rightarrow> (bool \<times> active_state) option" where
  "activate_symbol sm d found st =
     (case found of
        None \<Rightarrow> Some (False, st)
      | Some s \<Rightarrow>
          let st = activate_generates d s st in
          Option.bind (if is_interface_port d s then activate_port sm d s st else Some (Some s, st))
            (\<lambda>(target, st).
              case target of
                None \<Rightarrow> Some (False, st)
              | Some t \<Rightarrow>
                  if sym_kind d t = InstanceSym then
                    Option.bind (activate_chain sm d t st) (\<lambda>st. Some (True, st))
                  else
                    (case enclosing_instance d t of
                       None \<Rightarrow> Some (False, st)
                     | Some i \<Rightarrow> Option.bind (activate_chain sm d i st) (\<lambda>st. Some (True, st)))))"

section \<open>What is active\<close>

definition path_exists :: "design_view \<Rightarrow> nat list \<Rightarrow> string \<Rightarrow> bool" where
  "path_exists d is path \<longleftrightarrow> path \<in> set (List.map (hier_path d) is)"

definition active_instance_symbol ::
    "source_manager \<Rightarrow> design_view \<Rightarrow> instance_index \<Rightarrow> active_instances \<Rightarrow> string \<Rightarrow> nat option" where
  "active_instance_symbol sm d ix m n =
     (case map_of ix n of
        None \<Rightarrow> None
      | Some is \<Rightarrow>
          (case (case m n of
                   None \<Rightarrow> None
                 | Some q \<Rightarrow> List.find (\<lambda>i. hier_path d i = instance_path q) is) of
             Some i \<Rightarrow> Some i
           | None \<Rightarrow> if is = [] then None else choose_preferred_instance sm d is))"

definition get_active_instance ::
    "source_manager \<Rightarrow> design_view \<Rightarrow> instance_index \<Rightarrow> active_instances \<Rightarrow> string \<Rightarrow> qualified_instance option" where
  "get_active_instance sm d ix m n =
     (case map_of ix n of
        None \<Rightarrow> None
      | Some is \<Rightarrow>
          (case m n of
             Some q \<Rightarrow> Some q
           | None \<Rightarrow> map_option (to_qualified_instance sm d) (active_instance_symbol sm d ix m n)))"

definition sync_instance ::
    "source_manager \<Rightarrow> design_view \<Rightarrow> active_instances \<Rightarrow> string \<times> nat list \<Rightarrow> active_instances \<Rightarrow> active_instances" where
  "sync_instance sm d old = (\<lambda>(n, is) m.
     if is = [] then m
     else case (case old n of None \<Rightarrow> None | Some q \<Rightarrow> if path_exists d is (instance_path q) then Some q else None) of
            Some q \<Rightarrow> m(n \<mapsto> q)
          | None \<Rightarrow> if length is = 1 then m(n \<mapsto> to_qualified_instance sm d (hd is)) else m)"

definition sync_active_instances ::
    "source_manager \<Rightarrow> design_view \<Rightarrow> instance_index \<Rightarrow> active_state \<Rightarrow> active_state" where
  "sync_active_instances sm d ix st =
     st\<lparr>instances_by_module := fold (sync_instance sm d (instances_by_module st)) ix Map.empty\<rparr>"

section \<open>Generate loops\<close>

text \<open>The members of a scope, as far as they hold arrays; an array knows the loop it comes from.\<close>

datatype member = ArrayMember nat nat "(nat \<times> member list) list" | BlockMember nat "member list" | OtherMember

fun generate_arrays :: "nat \<Rightarrow> member \<Rightarrow> (nat \<times> nat list) list" where
  "generate_arrays loop (ArrayMember a l es) =
     (if l = loop then [(a, List.map fst es)] else []) @
     concat (List.map (\<lambda>(b, ms). concat (List.map (generate_arrays loop) ms)) es)"
| "generate_arrays loop (BlockMember b ms) = concat (List.map (generate_arrays loop) ms)"
| "generate_arrays loop OtherMember = []"

text \<open>\<open>None\<close> is an array below an iteration that is not the active one.\<close>

fun ancestor_count :: "design_view \<Rightarrow> active_generates \<Rightarrow> nat list \<Rightarrow> nat \<Rightarrow> nat option" where
  "ancestor_count d m [] n = Some n"
| "ancestor_count d m (s # ss) n =
     (if sym_kind d s \<noteq> GenerateBlockSym then ancestor_count d m ss n
      else case parent_array d s of
             None \<Rightarrow> ancestor_count d m ss n
           | Some a \<Rightarrow>
               (case m (hier_path d a) of
                  None \<Rightarrow> ancestor_count d m ss n
                | Some p \<Rightarrow> if p \<noteq> hier_path d s then None else ancestor_count d m ss (n + 1)))"

definition active_ancestor_count :: "design_view \<Rightarrow> active_generates \<Rightarrow> nat \<Rightarrow> nat option" where
  "active_ancestor_count d m a = ancestor_count d m (scopes_of d a) 0"

definition array_before :: "design_view \<Rightarrow> active_generates \<Rightarrow> nat \<Rightarrow> nat \<Rightarrow> bool" where
  "array_before d m a b =
     (case (active_ancestor_count d m a, active_ancestor_count d m b) of
        (Some _, None) \<Rightarrow> True
      | (None, Some _) \<Rightarrow> False
      | (None, None) \<Rightarrow> hier_path d a < hier_path d b
      | (Some k, Some l) \<Rightarrow> k > l \<or> k = l \<and> hier_path d a < hier_path d b)"

fun choose_array ::
    "design_view \<Rightarrow> active_generates \<Rightarrow> (nat \<times> nat list) option \<Rightarrow> (nat \<times> nat list) list \<Rightarrow> (nat \<times> nat list) option" where
  "choose_array d m best [] = best"
| "choose_array d m best (a # as) =
     choose_array d m
       (case best of
          None \<Rightarrow> Some a
        | Some b \<Rightarrow> if array_before d m (fst a) (fst b) then Some a else Some b) as"

record active_loop =
  active_path :: string
  iteration_paths :: "string list"

definition active_generate_loop ::
    "source_manager \<Rightarrow> design_view \<Rightarrow> instance_index \<Rightarrow> (nat \<Rightarrow> member list) \<Rightarrow> active_state \<Rightarrow>
     string \<Rightarrow> nat \<Rightarrow> active_loop option" where
  "active_generate_loop sm d ix members st n loop =
     (case active_instance_symbol sm d ix (instances_by_module st) n of
        None \<Rightarrow> None
      | Some i \<Rightarrow>
          (case choose_array d (generates_by_array st) None
                  (concat (List.map (generate_arrays loop) (members i))) of
             None \<Rightarrow> None
           | Some (a, es) \<Rightarrow>
               if es = [] then None
               else
                 let paths = List.map (hier_path d) es;
                     chosen = (case generates_by_array st (hier_path d a) of
                                 Some p \<Rightarrow> if p \<in> set paths then p else []
                               | None \<Rightarrow> [])
                 in Some \<lparr>active_path = (if chosen = [] then hd paths else chosen), iteration_paths = paths\<rparr>))"

end
