(* ===== verification/ActiveSound.thy ===== *)
theory ActiveSound
  imports ActiveDesign
begin

text \<open>
  Theorems on the active instances: the preferred instance of a module depends on the design only,
  activation returns and selects the instances around the one asked for, what was selected exists
  whenever it is asked for, and the iteration activated is the one shown.
\<close>

section \<open>The preferred instance\<close>

definition loc_order :: "source_manager \<Rightarrow> bool" where
  "loc_order sm \<longleftrightarrow>
     (\<forall>a b. loc_before sm a b \<longrightarrow> \<not> loc_before sm b a) \<and>
     (\<forall>a b c. loc_before sm a b \<longrightarrow> loc_before sm b c \<longrightarrow> loc_before sm a c) \<and>
     (\<forall>a b. a \<noteq> b \<longrightarrow> loc_before sm a b \<or> loc_before sm b a)"

lemma loc_orderD:
  assumes "loc_order sm"
  shows "loc_before sm a b \<Longrightarrow> \<not> loc_before sm b a"
    "loc_before sm a b \<Longrightarrow> loc_before sm b c \<Longrightarrow> loc_before sm a c"
    "a \<noteq> b \<Longrightarrow> \<not> loc_before sm a b \<Longrightarrow> loc_before sm b a"
  using assms unfolding loc_order_def by blast+

text \<open>Strict orders up to ties, and their lexicographic combination.\<close>

definition weak_order :: "('a \<Rightarrow> 'a \<Rightarrow> bool) \<Rightarrow> bool" where
  "weak_order R \<longleftrightarrow> (\<forall>a b. R a b \<longrightarrow> \<not> R b a) \<and> (\<forall>a b c. R a c \<longrightarrow> R a b \<or> R b c)"

definition weak_lex :: "('a \<Rightarrow> 'a \<Rightarrow> bool) \<Rightarrow> ('a \<Rightarrow> 'a \<Rightarrow> bool) \<Rightarrow> 'a \<Rightarrow> 'a \<Rightarrow> bool" where
  "weak_lex R S a b \<longleftrightarrow> R a b \<or> \<not> R b a \<and> S a b"

lemma weak_orderD:
  assumes "weak_order R"
  shows "R a b \<Longrightarrow> \<not> R b a" "R a c \<Longrightarrow> \<not> R a b \<Longrightarrow> R b c"
  using assms unfolding weak_order_def by blast+

lemma weak_order_lex: "weak_order R \<Longrightarrow> weak_order S \<Longrightarrow> weak_order (weak_lex R S)"
  unfolding weak_order_def weak_lex_def by blast

lemma weak_order_key: "weak_order (\<lambda>a b. (f a :: 'k :: linorder) < f b)"
  by (auto simp: weak_order_def)

definition earlier :: "source_manager \<Rightarrow> design_view \<Rightarrow> nat \<Rightarrow> nat \<Rightarrow> bool" where
  "earlier sm d a b \<longleftrightarrow>
     buffer_valid sm (loc_buffer (sort_location d a)) \<and>
     (buffer_valid sm (loc_buffer (sort_location d b)) \<longrightarrow>
       sort_location d a \<noteq> sort_location d b \<and> loc_before sm (sort_location d a) (sort_location d b))"

lemma weak_order_earlier: "loc_order sm \<Longrightarrow> weak_order (earlier sm d)"
  unfolding loc_order_def weak_order_def earlier_def by metis

lemma preferred_before_lex:
  assumes "loc_order sm"
  shows "preferred_before sm d =
    weak_lex (\<lambda>a b. path_depth (hier_path d a) < path_depth (hier_path d b))
      (weak_lex (earlier sm d) (\<lambda>a b. hier_path d a < hier_path d b))"
proof (intro ext)
  fix a b
  show "preferred_before sm d a b =
    weak_lex (\<lambda>a b. path_depth (hier_path d a) < path_depth (hier_path d b))
      (weak_lex (earlier sm d) (\<lambda>a b. hier_path d a < hier_path d b)) a b"
    using loc_orderD(1,3) [OF assms, of "sort_location d a" "sort_location d b"]
    by (auto simp: preferred_before_def Let_def weak_lex_def earlier_def)
qed

lemma weak_order_preferred: "loc_order sm \<Longrightarrow> weak_order (preferred_before sm d)"
  unfolding preferred_before_lex by (intro weak_order_lex weak_order_key weak_order_earlier)

lemma preferred_before_total:
  "loc_order sm \<Longrightarrow> hier_path d a \<noteq> hier_path d b \<Longrightarrow> \<not> preferred_before sm d a b \<Longrightarrow> preferred_before sm d b a"
  by (auto simp: preferred_before_lex weak_lex_def)

lemma choose_preferred_least:
  assumes "loc_order sm"
  shows "\<exists>r. choose_preferred sm d (Some b) is = Some r \<and> r \<in> insert b (set is) \<and>
    (\<forall>x\<in>insert b (set is). \<not> preferred_before sm d x r)"
proof (induction "is" arbitrary: b)
  case (Cons i "is")
  let ?n = "if preferred_before sm d i b then i else b"
  obtain r where r: "choose_preferred sm d (Some ?n) is = Some r" "r \<in> insert ?n (set is)"
    "\<forall>x\<in>insert ?n (set is). \<not> preferred_before sm d x r"
    using Cons [of ?n] by blast
  note w = weak_orderD [OF weak_order_preferred [OF assms, of d]]
  have "\<not> preferred_before sm d i r \<and> \<not> preferred_before sm d b r"
  proof (cases "preferred_before sm d i b")
    case True
    then have "\<not> preferred_before sm d i r" using r(3) by simp
    then show ?thesis using w(2) [of b r i] w(1) [OF True] by blast
  next
    case False
    then have "\<not> preferred_before sm d b r" using r(3) by simp
    then show ?thesis using w(2) [of i r b] False by blast
  qed
  then have "\<forall>x\<in>insert b (set (i # is)). \<not> preferred_before sm d x r" using r(3) by auto
  moreover have "r \<in> insert b (set (i # is))" using r(2) by (auto split: if_splits)
  moreover have "choose_preferred sm d (Some b) (i # is) = Some r"
    using r(1) by (simp split: if_splits)
  ultimately show ?case by blast
qed (simp add: preferred_before_def)

lemma choose_preferred_instance_least:
  assumes "loc_order sm" "is \<noteq> []"
  shows "\<exists>r. choose_preferred_instance sm d is = Some r \<and> r \<in> set is \<and>
    (\<forall>x\<in>set is. \<not> preferred_before sm d x r)"
  using assms choose_preferred_least [OF assms(1), of d "hd is" "tl is"]
  by (cases "is") (simp_all add: choose_preferred_instance_def)

lemma preferred_same:
  assumes "loc_order sm" "inj_on (hier_path d) (set is)" "set is = set js"
  shows "choose_preferred_instance sm d is = choose_preferred_instance sm d js"
proof (cases "is = []")
  case False
  then have "js \<noteq> []" using assms(3) by auto
  from choose_preferred_instance_least [OF assms(1) False, of d]
  obtain r where r: "choose_preferred_instance sm d is = Some r" "r \<in> set is"
    "\<forall>x\<in>set is. \<not> preferred_before sm d x r" by blast
  from choose_preferred_instance_least [OF assms(1) \<open>js \<noteq> []\<close>, of d]
  obtain r' where r': "choose_preferred_instance sm d js = Some r'" "r' \<in> set js"
    "\<forall>x\<in>set js. \<not> preferred_before sm d x r'" by blast
  have "r = r'"
  proof (rule ccontr)
    assume "r \<noteq> r'"
    then have "hier_path d r \<noteq> hier_path d r'"
      using assms(2,3) r(2) r'(2) by (auto dest: inj_onD)
    then show False using preferred_before_total [OF assms(1), of d r r'] r r' assms(3) by auto
  qed
  then show ?thesis using r r' by simp
qed (use assms(3) in simp)

text \<open>
  The instance of a module that is active by default depends on the design only: in whatever
  order the instances were indexed, the same one is preferred, as long as no two of them have the
  same path and locations are ordered.\<close>

lemma preferred_order_free:
  "loc_order sm \<Longrightarrow> inj_on (hier_path d) (set is) \<Longrightarrow> set is = set js \<Longrightarrow>
   choose_preferred_instance sm d is = choose_preferred_instance sm d js"
  by (rule preferred_same)

section \<open>The index of instances\<close>

fun instantiated :: "instance_tree \<Rightarrow> nat list"
and all_instantiated :: "instance_tree list \<Rightarrow> nat list" where
  "instantiated (InstanceTree i uninstantiated ts) = (if uninstantiated then [] else i # all_instantiated ts)"
| "all_instantiated [] = []"
| "all_instantiated (t # ts) = instantiated t @ all_instantiated ts"

lemma map_of_later: "sorted_wrt (<) ((m :: string) # List.map fst ix) \<Longrightarrow> n < m \<Longrightarrow> map_of ix n = None"
  by (force simp: map_of_eq_None_iff)

lemma instances_of_add:
  "sorted_wrt (<) (List.map fst ix) \<Longrightarrow>
   instances_of_module (add_instance m i ix) n = instances_of_module ix n @ (if n = m then [i] else [])"
proof (induction m i ix rule: add_instance.induct)
  case (2 m i m' "is" r)
  then show ?case using map_of_later [of m' r m]
    by (cases "m' = m"; cases "m < m'") (auto simp: instances_of_module_def)
qed (simp add: instances_of_module_def)

lemma add_instance_keys: "set (List.map fst (add_instance m i ix)) = insert m (set (List.map fst ix))"
  by (induction m i ix rule: add_instance.induct) auto

lemma add_instance_sorted: "sorted_wrt (<) (List.map fst ix) \<Longrightarrow> sorted_wrt (<) (List.map fst (add_instance m i ix))"
proof (induction m i ix rule: add_instance.induct)
  case (2 n i m "is" r)
  have "set (List.map fst (add_instance n i r)) = insert n (set (List.map fst r))" by (rule add_instance_keys)
  then show ?case using 2 by (auto simp: image_iff)
qed simp

lemma add_instance_filled:
  "list_all (\<lambda>e. snd e \<noteq> []) ix \<Longrightarrow> list_all (\<lambda>e. snd e \<noteq> []) (add_instance m i ix)"
  by (induction m i ix rule: add_instance.induct) auto

definition filled_index :: "instance_index \<Rightarrow> bool" where
  "filled_index ix \<longleftrightarrow> sorted_wrt (<) (List.map fst ix) \<and> list_all (\<lambda>e. snd e \<noteq> []) ix"

lemma index_instances:
  "filled_index ix \<Longrightarrow> filled_index (index_instance d t ix) \<and>
     (\<forall>n. instances_of_module (index_instance d t ix) n =
       instances_of_module ix n @ filter (\<lambda>i. definition_name d i = n) (instantiated t))"
  "filled_index ix \<Longrightarrow> filled_index (index_instances d ts ix) \<and>
     (\<forall>n. instances_of_module (index_instances d ts ix) n =
       instances_of_module ix n @ filter (\<lambda>i. definition_name d i = n) (all_instantiated ts))"
proof (induction t and ts arbitrary: ix and ix rule: instantiated_all_instantiated.induct)
  case (1 i un ts)
  have "filled_index (add_instance (definition_name d i) i ix)"
    using 1(2) by (simp add: filled_index_def add_instance_sorted add_instance_filled)
  with 1 show ?case by (auto simp: filled_index_def instances_of_add)
qed (simp_all add: append_assoc)

lemma index_instances_from_empty:
  "filled_index (index_instances d ts [])"
  "instances_of_module (index_instances d ts []) n = filter (\<lambda>i. definition_name d i = n) (all_instantiated ts)"
  using index_instances(2) [of "[]" d ts] by (simp_all add: filled_index_def instances_of_module_def)

lemma map_of_index:
  "map_of (index_instances d ts []) n =
     (let is = filter (\<lambda>i. definition_name d i = n) (all_instantiated ts) in if is = [] then None else Some is)"
proof (cases "map_of (index_instances d ts []) n")
  case None
  then show ?thesis using index_instances_from_empty(2) [of d ts n] by (simp add: instances_of_module_def)
next
  case (Some "is")
  then have "is \<noteq> []"
    using index_instances_from_empty(1) [of d ts] map_of_SomeD [OF Some]
    by (force simp: filled_index_def list_all_iff)
  then show ?thesis using Some index_instances_from_empty(2) [of d ts n]
    by (simp add: instances_of_module_def Let_def)
qed

section \<open>What activation changes\<close>

text \<open>Every entry is the old one or that of an instance in \<open>Q\<close>, under the name of its module.\<close>

definition updated ::
    "source_manager \<Rightarrow> design_view \<Rightarrow> nat set \<Rightarrow> active_instances \<Rightarrow> active_instances \<Rightarrow> bool" where
  "updated sm d Q m m' \<longleftrightarrow>
     (\<forall>n. m' n = m n \<or> (\<exists>i\<in>Q. definition_name d i = n \<and> m' n = Some (to_qualified_instance sm d i)))"

lemma updated_refl [simp]: "updated sm d Q m m"
  by (simp add: updated_def)

lemma updated_trans: "updated sm d Q m m' \<Longrightarrow> updated sm d Q m' m'' \<Longrightarrow> updated sm d Q m m''"
  unfolding updated_def by metis

lemma updated_mono: "updated sm d Q m m' \<Longrightarrow> Q \<subseteq> Q' \<Longrightarrow> updated sm d Q' m m'"
  unfolding updated_def by blast

lemma updated_one: "i \<in> Q \<Longrightarrow> updated sm d Q m (m(definition_name d i \<mapsto> to_qualified_instance sm d i))"
  by (auto simp: updated_def)

lemma each_option_rule:
  assumes "each_option f xs s = Some s'" "\<And>s. R s s" "\<And>a b c. R a b \<Longrightarrow> R b c \<Longrightarrow> R a c"
    "\<And>x a b. x \<in> set xs \<Longrightarrow> f x a = Some b \<Longrightarrow> R a b"
  shows "R s s'"
  using assms(1,4)
proof (induction xs arbitrary: s)
  case (Cons x xs)
  from Cons.prems(1) obtain b where b: "f x s = Some b" "each_option f xs b = Some s'"
    by (auto split: Option.bind_splits)
  have "R s b" by (rule Cons.prems(2) [OF _ b(1)]) simp
  moreover have "R b s'" by (rule Cons.IH [OF b(2)]) (use Cons.prems(2) in auto)
  ultimately show ?case by (rule assms(3))
qed (use assms(2) in simp)

text \<open>The interface instances a symbol leads to.\<close>

inductive leads_to :: "design_view \<Rightarrow> nat \<Rightarrow> nat \<Rightarrow> bool" for d where
  itself: "sym_kind d i = InstanceSym \<Longrightarrow> leads_to d i i"
| element: "sym_kind d a = InstanceArraySym es \<Longrightarrow> Some e \<in> set es \<Longrightarrow> leads_to d e i \<Longrightarrow> leads_to d a i"
| port: "sym_kind d p = InterfacePortSym \<Longrightarrow>
    resolved_endpoint (resolve_interface_connection d p) = Some e \<Longrightarrow> leads_to d e i \<Longrightarrow> leads_to d p i"

lemma set_filter_id: "x \<in> set (List.map_filter id xs) \<longleftrightarrow> Some x \<in> set xs"
  by (auto simp: List.map_filter_def image_iff)

lemma set_interface_updated:
  assumes "set_interface_instance sm d s m = Some m'"
  shows "updated sm d {i. leads_to d s i} m m'"
proof (induction rule: set_interface_instance.raw_induct [OF _ assms])
  case (1 f sm d s m m')
  show ?case
  proof (cases "sym_kind d s")
    case InstanceSym
    then show ?thesis using 1(2) by (auto intro!: updated_one leads_to.itself)
  next
    case (InstanceArraySym es)
    have "each_option (f sm d) (List.map_filter id es) m = Some m'" using 1(2) InstanceArraySym by simp
    then show ?thesis
    proof (rule each_option_rule)
      fix x a b assume x: "x \<in> set (List.map_filter id es)" "f sm d x a = Some b"
      have "{i. leads_to d x i} \<subseteq> {i. leads_to d s i}"
        using x(1) leads_to.element [OF InstanceArraySym] by (auto simp: set_filter_id)
      then show "updated sm d {i. leads_to d s i} a b" by (rule updated_mono [OF 1(1) [OF x(2)]])
    qed (auto intro: updated_trans)
  next
    case InterfacePortSym
    show ?thesis
    proof (cases "resolved_endpoint (resolve_interface_connection d s)")
      case (Some e)
      show ?thesis
      proof (cases "e = s")
        case False
        then have "f sm d e m = Some m'" using 1(2) InterfacePortSym Some by simp
        from updated_mono [OF 1(1) [OF this]] leads_to.port [OF InterfacePortSym Some]
        show ?thesis by blast
      qed (use 1(2) InterfacePortSym Some in simp)
    qed (use 1(2) InterfacePortSym in simp)
  qed (use 1(2) in auto)
qed

definition connected_to :: "design_view \<Rightarrow> nat \<Rightarrow> nat set" where
  "connected_to d j = {i. \<exists>s. Some (Some s) \<in> set (port_connections d j) \<and> leads_to d s i}"

lemma connected_updated:
  assumes "set_connected_interfaces sm d i m = Some m'"
  shows "updated sm d (connected_to d i) m m'"
  using assms unfolding set_connected_interfaces_def
proof (rule each_option_rule)
  fix c a b
  assume c: "c \<in> set (port_connections d i)"
    "(case c of Some (Some s) \<Rightarrow> set_interface_instance sm d s a | _ \<Rightarrow> Some a) = Some b"
  show "updated sm d (connected_to d i) a b"
  proof (cases "\<exists>s. c = Some (Some s)")
    case True
    then obtain s where s: "c = Some (Some s)" by blast
    have "{x. leads_to d s x} \<subseteq> connected_to d i" using c(1) s by (auto simp: connected_to_def)
    then show ?thesis using c(2) s by (auto intro: updated_mono [OF set_interface_updated])
  qed (use c(2) in \<open>auto split: option.splits\<close>)
qed (auto intro: updated_trans)

lemma activate_one_cases:
  assumes "activate_one sm d i m = Some m'"
  obtains m1 where "updated sm d (connected_to d i) m m1"
    "m' = m1(definition_name d i \<mapsto> to_qualified_instance sm d i)"
  using assms connected_updated [of sm d i m]
  by (auto simp: activate_one_def split: Option.bind_splits)

lemma each_option_append: "each_option f (xs @ ys) s = Option.bind (each_option f xs s) (each_option f ys)"
  by (induction xs arbitrary: s) (auto split: Option.bind_splits)

definition interface_names :: "design_view \<Rightarrow> nat list \<Rightarrow> string set" where
  "interface_names d c = {definition_name d i | i j. j \<in> set c \<and> i \<in> connected_to d j}"

lemma chain_selects:
  "each_option (activate_one sm d) (rev c) m = Some m' \<Longrightarrow> n \<notin> interface_names d c \<Longrightarrow>
   m' n = (case List.find (\<lambda>i. definition_name d i = n) c of
     Some i \<Rightarrow> Some (to_qualified_instance sm d i) | None \<Rightarrow> m n)"
proof (induction c arbitrary: m')
  case (Cons i c)
  from Cons.prems(1) obtain m0 where m0: "each_option (activate_one sm d) (rev c) m = Some m0"
    "activate_one sm d i m0 = Some m'"
    by (auto simp: each_option_append split: Option.bind_splits)
  from m0(2) obtain m1 where m1: "updated sm d (connected_to d i) m0 m1"
    "m' = m1(definition_name d i \<mapsto> to_qualified_instance sm d i)" by (rule activate_one_cases)
  have "m1 n = m0 n" using m1(1) Cons.prems(2) by (auto simp: updated_def interface_names_def)
  moreover have "n \<notin> interface_names d c" using Cons.prems(2) by (auto simp: interface_names_def)
  ultimately show ?case using Cons.IH [OF m0(1)] m1(2) by (auto split: option.splits)
qed simp

lemma chain_selects_first:
  "each_option (activate_one sm d) (rev (i # c)) m = Some m' \<Longrightarrow>
   m' (definition_name d i) = Some (to_qualified_instance sm d i)"
  by (auto simp: each_option_append split: Option.bind_splits elim!: activate_one_cases)

lemma chain_updated:
  assumes "each_option (activate_one sm d) xs m = Some m'"
  shows "updated sm d (set xs \<union> (\<Union>j\<in>set xs. connected_to d j)) m m'"
  using assms
proof (rule each_option_rule)
  fix x a b assume x: "x \<in> set xs" "activate_one sm d x a = Some b"
  let ?Q = "set xs \<union> (\<Union>j\<in>set xs. connected_to d j)"
  from x(2) obtain m1 where m1: "updated sm d (connected_to d x) a m1"
    "b = m1(definition_name d x \<mapsto> to_qualified_instance sm d x)" by (rule activate_one_cases)
  have "updated sm d ?Q a m1" by (rule updated_mono [OF m1(1)]) (use x(1) in auto)
  moreover have "updated sm d ?Q m1 b" unfolding m1(2) by (rule updated_one) (use x(1) in simp)
  ultimately show "updated sm d ?Q a b" by (rule updated_trans)
qed (auto intro: updated_trans)

lemma instance_chain_hd: "instance_chain d s = Some c \<Longrightarrow> \<exists>c'. c = s # c'"
  by (subst (asm) instance_chain.simps) (auto split: option.splits Option.bind_splits)

lemma instance_chain_around:
  assumes "instance_chain d s = Some c"
  shows "\<forall>i\<in>set c. i = s \<or> (\<exists>x. enclosing_instance d x = Some i)"
proof (induction rule: instance_chain.raw_induct [OF _ assms])
  case (1 f d s c)
  show ?case
  proof (cases "enclosing_instance d s")
    case (Some e)
    then obtain c' where "f d e = Some c'" "c = s # c'"
      using 1(2) by (auto split: Option.bind_splits)
    then show ?thesis using 1(1) Some by fastforce
  qed (use 1(2) in auto)
qed

lemma activate_chain_cases:
  assumes "activate_chain sm d t st = Some st'"
  obtains c m where "instance_chain d t = Some c"
    "each_option (activate_one sm d) (rev c) (instances_by_module st) = Some m"
    "st' = st\<lparr>instances_by_module := m\<rparr>"
  using assms by (auto simp: activate_chain_def set_active_chain_def split: Option.bind_splits)

lemma activate_symbol_of_instance:
  assumes "activate_symbol sm d (Some t) st = Some (r, st')" "sym_kind d t = InstanceSym"
    "instance_chain d t = Some c"
  shows "r \<and> each_option (activate_one sm d) (rev c) (instances_by_module st) = Some (instances_by_module st')"
  using assms by (auto simp: activate_symbol_def is_interface_port_def activate_generates_def
      split: Option.bind_splits elim!: activate_chain_cases)

text \<open>
  Activating an instance selects it and what is around it. Asked for an instance the operation
  succeeds and makes that instance the active one of its module; for a module that is not an
  interface connected on the way, the active instance is then the innermost one around the
  instance asked for, and the old one when there is none.\<close>

lemma activation_selects_chain:
  "activate_symbol sm d (Some t) st = Some (r, st') \<Longrightarrow> sym_kind d t = InstanceSym \<Longrightarrow>
   instance_chain d t = Some c \<Longrightarrow>
   r \<and> instances_by_module st' (definition_name d t) = Some (to_qualified_instance sm d t) \<and>
   (n \<in> interface_names d c \<or>
    instances_by_module st' n =
      (case List.find (\<lambda>i. definition_name d i = n) c of
         Some i \<Rightarrow> Some (to_qualified_instance sm d i) | None \<Rightarrow> instances_by_module st n))"
  using activate_symbol_of_instance [of sm d t st r st' c] chain_selects_first [of sm d t "tl c"]
    chain_selects [of sm d c "instances_by_module st" "instances_by_module st'" n] instance_chain_hd [of d t c]
  by auto

section \<open>What is active exists\<close>

text \<open>
  The parent of the body of an instance is an instance, and every instance is below the top of the
  design, where the index finds it.
\<close>

definition well_built :: "design_view \<Rightarrow> instance_tree list \<Rightarrow> bool" where
  "well_built d ts \<longleftrightarrow>
     (\<forall>b i. sym_kind d b = InstanceBodySym (Some i) \<longrightarrow> sym_kind d i = InstanceSym) \<and>
     (\<forall>i. sym_kind d i = InstanceSym \<longrightarrow> i \<in> set (all_instantiated ts))"

text \<open>The life of the active instances, from one state of the design to the next.\<close>

inductive active_run :: "source_manager \<Rightarrow> design_view \<Rightarrow> instance_tree list \<Rightarrow> active_state \<Rightarrow> bool" for sm where
  created: "well_built d ts \<Longrightarrow>
    active_run sm d ts (sync_active_instances sm d (index_instances d ts [])
      \<lparr>instances_by_module = Map.empty, generates_by_array = Map.empty\<rparr>)"
| refreshed: "active_run sm d ts st \<Longrightarrow> well_built d' ts' \<Longrightarrow>
    active_run sm d' ts' (sync_active_instances sm d' (index_instances d' ts' []) st)"
| activated: "active_run sm d ts st \<Longrightarrow> activate_symbol sm d found st = Some (r, st') \<Longrightarrow>
    active_run sm d ts st'"

definition selections_exist :: "design_view \<Rightarrow> instance_tree list \<Rightarrow> active_instances \<Rightarrow> bool" where
  "selections_exist d ts m \<longleftrightarrow>
     (\<forall>n q. m n = Some q \<longrightarrow>
       (\<exists>i\<in>set (all_instantiated ts). definition_name d i = n \<and> hier_path d i = instance_path q))"

lemma sync_instance_here:
  "m n = m' n \<Longrightarrow> sync_instance sm d old (n, is) m n = sync_instance sm d old (n, is) m' n"
  by (simp add: sync_instance_def split: option.split)

lemma sync_fold:
  "distinct (List.map fst ix) \<Longrightarrow>
   fold (sync_instance sm d old) ix m n =
     (case map_of ix n of None \<Rightarrow> m n | Some is \<Rightarrow> sync_instance sm d old (n, is) m n)"
proof (induction ix arbitrary: m)
  case (Cons e ix)
  obtain k js where e: "e = (k, js)" by (cases e)
  have other: "sync_instance sm d old (k, js) m n = m n" if "k \<noteq> n"
    using that by (simp add: sync_instance_def split: option.split)
  have same: "sync_instance sm d old (n, is) (sync_instance sm d old (k, js) m) n =
      sync_instance sm d old (n, is) m n" if "k \<noteq> n" for "is"
    by (rule sync_instance_here) (rule other [OF that])
  show ?case
  proof (cases "k = n")
    case True
    then have "map_of ix n = None" using Cons.prems e by (auto simp: map_of_eq_None_iff)
    then show ?thesis using Cons e True by simp
  qed (use Cons e other same in \<open>auto split: option.split\<close>)
qed simp

lemma index_distinct: "distinct (List.map fst (index_instances d ts []))"
  using index_instances_from_empty(1) [of d ts] strict_sorted_iff by (auto simp: filled_index_def)

lemma sync_instance_entry:
  assumes "sync_instance sm d old (n, is) Map.empty n = Some q"
  shows "\<exists>i\<in>set is. hier_path d i = instance_path q"
  using assms
  by (cases "is") (force simp: sync_instance_def path_exists_def to_qualified_instance_def
      split: option.splits if_splits)+

lemma sync_selections:
  "selections_exist d ts (instances_by_module (sync_active_instances sm d (index_instances d ts []) st))"
  unfolding selections_exist_def
proof (intro allI impI)
  fix n q
  assume "instances_by_module (sync_active_instances sm d (index_instances d ts []) st) n = Some q"
  then obtain "is" where is': "map_of (index_instances d ts []) n = Some is"
    "sync_instance sm d (instances_by_module st) (n, is) Map.empty n = Some q"
    by (auto simp: sync_active_instances_def sync_fold [OF index_distinct] split: option.splits)
  have "is = filter (\<lambda>i. definition_name d i = n) (all_instantiated ts)"
    using is'(1) by (simp add: map_of_index Let_def split: if_splits)
  then show "\<exists>i\<in>set (all_instantiated ts). definition_name d i = n \<and> hier_path d i = instance_path q"
    using sync_instance_entry [OF is'(2)] by auto
qed

lemma selections_updated:
  assumes "selections_exist d ts m" "updated sm d {i. sym_kind d i = InstanceSym} m m'" "well_built d ts"
  shows "selections_exist d ts m'"
  unfolding selections_exist_def
proof (intro allI impI)
  fix n q assume q: "m' n = Some q"
  show "\<exists>i\<in>set (all_instantiated ts). definition_name d i = n \<and> hier_path d i = instance_path q"
  proof (cases "m' n = m n")
    case True
    then show ?thesis using q assms(1) by (simp add: selections_exist_def)
  next
    case False
    then obtain i where i: "sym_kind d i = InstanceSym" "definition_name d i = n"
      "m' n = Some (to_qualified_instance sm d i)"
      using assms(2) by (auto simp: updated_def)
    then have "hier_path d i = instance_path q" using q by (simp add: to_qualified_instance_def)
    moreover have "i \<in> set (all_instantiated ts)" using i(1) assms(3) by (simp add: well_built_def)
    ultimately show ?thesis using i(2) by blast
  qed
qed

lemma leads_to_instance: "leads_to d s i \<Longrightarrow> sym_kind d i = InstanceSym"
  by (induction rule: leads_to.induct) auto

lemma first_body_instance:
  "well_built d ts \<Longrightarrow> first_body d ss = Some i \<Longrightarrow> sym_kind d i = InstanceSym"
  by (induction ss) (auto simp: well_built_def split: sym_kind.splits)

lemma activate_chain_updated:
  assumes "well_built d ts" "activate_chain sm d t st = Some st'" "sym_kind d t = InstanceSym"
  shows "updated sm d {i. sym_kind d i = InstanceSym} (instances_by_module st) (instances_by_module st')"
  using assms(2)
proof (rule activate_chain_cases)
  fix c m assume c: "instance_chain d t = Some c"
    "each_option (activate_one sm d) (rev c) (instances_by_module st) = Some m" "st' = st\<lparr>instances_by_module := m\<rparr>"
  have "set (rev c) \<union> (\<Union>j\<in>set (rev c). connected_to d j) \<subseteq> {i. sym_kind d i = InstanceSym}"
    using instance_chain_around [OF c(1)] assms(3) first_body_instance [OF assms(1)] leads_to_instance
    by (auto simp: enclosing_instance_def connected_to_def)
  from updated_mono [OF chain_updated [OF c(2)] this] c(3) show ?thesis by simp
qed

lemma activate_generates_instances [simp]:
  "instances_by_module (activate_generates d s st) = instances_by_module st"
  by (simp add: activate_generates_def)

lemma activate_enclosing_updated:
  "well_built d ts \<Longrightarrow> activate_enclosing sm d s st = Some st' \<Longrightarrow>
   updated sm d {i. sym_kind d i = InstanceSym} (instances_by_module st) (instances_by_module st')"
  by (auto simp: activate_enclosing_def enclosing_instance_def dest: first_body_instance
      intro: activate_chain_updated split: option.splits)

lemma activate_port_updated:
  assumes "well_built d ts" "activate_port sm d p st = Some (t, st')"
  shows "updated sm d {i. sym_kind d i = InstanceSym} (instances_by_module st) (instances_by_module st')"
proof -
  let ?U = "\<lambda>a b. updated sm d {i. sym_kind d i = InstanceSym} (instances_by_module a) (instances_by_module b)"
  from assms(2) obtain st1 st2 where s: "activate_enclosing sm d p st = Some st1"
    "each_option (activate_connected sm d) (source_path (resolve_interface_connection d p)) st1 = Some st2"
    "instances_by_module st' = instances_by_module st2"
    by (auto simp: activate_port_def Let_def split: Option.bind_splits option.splits)
  have "?U st1 st2"
  proof (rule each_option_rule [OF s(2)])
    fix x a b assume "activate_connected sm d x a = Some b"
    then show "?U a b"
      using activate_enclosing_updated [OF assms(1), of sm x "activate_generates d x a" b]
      by (auto simp: activate_connected_def Let_def split: if_splits)
  qed (auto intro: updated_trans)
  then show ?thesis using activate_enclosing_updated [OF assms(1) s(1)] s(3)
    by (auto intro: updated_trans)
qed

lemma set_active_updated:
  assumes "well_built d ts" "activate_symbol sm d found st = Some (r, st')"
  shows "updated sm d {i. sym_kind d i = InstanceSym} (instances_by_module st) (instances_by_module st')"
proof (cases found)
  case (Some s)
  let ?U = "\<lambda>a b. updated sm d {i. sym_kind d i = InstanceSym} (instances_by_module a) (instances_by_module b)"
  obtain t st1 where t: "(if is_interface_port d s then activate_port sm d s (activate_generates d s st)
      else Some (Some s, activate_generates d s st)) = Some (t, st1)"
    using assms(2) Some by (auto simp: activate_symbol_def Let_def split: Option.bind_splits)
  have first: "?U st st1"
    using t activate_port_updated [OF assms(1), of sm s "activate_generates d s st" t st1]
    by (auto split: if_splits)
  have "?U st1 st'"
  proof (cases t)
    case (Some t')
    show ?thesis
    proof (cases "sym_kind d t' = InstanceSym")
      case True
      then have "activate_chain sm d t' st1 = Some st'"
        using assms(2) t \<open>found = Some s\<close> Some
        by (simp add: activate_symbol_def Let_def split: Option.bind_splits)
      then show ?thesis using activate_chain_updated [OF assms(1)] True by blast
    next
      case False
      then have "st' = st1 \<or> (\<exists>i. enclosing_instance d t' = Some i \<and> activate_chain sm d i st1 = Some st')"
        using assms(2) t \<open>found = Some s\<close> Some
        by (auto simp: activate_symbol_def Let_def split: Option.bind_splits option.splits)
      then show ?thesis
        using activate_chain_updated [OF assms(1)] first_body_instance [OF assms(1)]
        by (auto simp: enclosing_instance_def)
    qed
  qed (use assms(2) t Some in \<open>simp add: activate_symbol_def Let_def\<close>)
  with first show ?thesis by (rule updated_trans)
qed (use assms(2) in \<open>simp add: activate_symbol_def\<close>)

lemma active_run_selections: "active_run sm d ts st \<Longrightarrow> well_built d ts \<and> selections_exist d ts (instances_by_module st)"
proof (induction rule: active_run.induct)
  case (activated d ts st found r st')
  then show ?case using set_active_updated selections_updated by blast
qed (auto simp: sync_selections)

lemma active_agrees:
  assumes "selections_exist d ts m"
  shows "map_option instance_path (get_active_instance sm d (index_instances d ts []) m n) =
      map_option (hier_path d) (active_instance_symbol sm d (index_instances d ts []) m n)"
    "m n = Some q \<Longrightarrow> \<exists>i. active_instance_symbol sm d (index_instances d ts []) m n = Some i \<and>
      i \<in> set (all_instantiated ts) \<and> definition_name d i = n \<and> hier_path d i = instance_path q"
proof -
  let ?is = "filter (\<lambda>i. definition_name d i = n) (all_instantiated ts)"
  have found: "\<exists>i. active_instance_symbol sm d (index_instances d ts []) m n = Some i \<and>
      i \<in> set (all_instantiated ts) \<and> definition_name d i = n \<and> hier_path d i = instance_path q" if q: "m n = Some q" for q
  proof -
    have ex: "\<exists>i\<in>set ?is. hier_path d i = instance_path q"
      using assms q by (auto simp: selections_exist_def)
    then obtain i where i: "List.find (\<lambda>i. hier_path d i = instance_path q) ?is = Some i"
      by (cases "List.find (\<lambda>i. hier_path d i = instance_path q) ?is") (auto simp: find_None_iff)
    then have "i \<in> set ?is \<and> hier_path d i = instance_path q"
      by (auto simp: find_Some_iff dest: nth_mem)
    moreover have "?is \<noteq> []"
    proof
      assume e: "?is = []"
      show False using ex unfolding e by simp
    qed
    ultimately show ?thesis using i q by (simp add: active_instance_symbol_def map_of_index Let_def)
  qed
  then show "m n = Some q \<Longrightarrow> \<exists>i. active_instance_symbol sm d (index_instances d ts []) m n = Some i \<and>
      i \<in> set (all_instantiated ts) \<and> definition_name d i = n \<and> hier_path d i = instance_path q" .
  show "map_option instance_path (get_active_instance sm d (index_instances d ts []) m n) =
      map_option (hier_path d) (active_instance_symbol sm d (index_instances d ts []) m n)"
  proof (cases "m n")
    case (Some q)
    from found [OF this] show ?thesis using Some
      by (auto simp: get_active_instance_def active_instance_symbol_def split: option.splits)
  next
    case None
    then show ?thesis
      by (auto simp: get_active_instance_def active_instance_symbol_def to_qualified_instance_def
          option.map_comp comp_def split: option.splits)
  qed
qed


section \<open>Activation returns\<close>

text \<open>
  Enclosing instances, elements of arrays and what ports are connected to lie further up: no chain
  of them is endless.
\<close>

definition goes_up :: "design_view \<Rightarrow> (nat \<Rightarrow> nat) \<Rightarrow> bool" where
  "goes_up d rank \<longleftrightarrow>
     (\<forall>s i. enclosing_instance d s = Some i \<longrightarrow> rank i < rank s) \<and>
     (\<forall>a es e. sym_kind d a = InstanceArraySym es \<longrightarrow> Some e \<in> set es \<longrightarrow> rank e < rank a) \<and>
     (\<forall>p l. map_of (port_links d) p = Some l \<longrightarrow>
       (\<forall>s. link_symbol l = Some s \<longrightarrow> rank s < rank p) \<and>
       (\<forall>xs s. link_expression l = Some (xs, s) \<longrightarrow> (\<forall>x\<in>set xs. is_interface_port d x \<longrightarrow> rank x < rank p)))"

lemma add_path_symbol_endpoint [simp]:
  "resolved_endpoint (add_path_symbol d port s r) = resolved_endpoint r"
  by (simp add: add_path_symbol_def split: option.split)

lemma forward_ports_endpoint [simp]:
  "resolved_endpoint (fst (forward_ports d port visited xs r p)) = resolved_endpoint r"
  by (induction xs arbitrary: r p) simp_all

lemma forward_ports_next:
  "snd (forward_ports d port visited xs r p) = Some x \<Longrightarrow> p = Some x \<or> x \<in> set xs \<and> is_interface_port d x"
  by (induction xs arbitrary: r p) (auto split: if_splits)

lemma resolve_step_endpoint:
  "resolved_endpoint (fst (resolve_step d port visited current r)) =
     (if link_symbol (port_link_of d current) \<noteq> None \<and> replaceable d (resolved_endpoint r)
      then link_symbol (port_link_of d current) else resolved_endpoint r)"
  by (cases "link_expression (port_link_of d current)") (simp_all add: resolve_step_def Let_def split_def)

lemma resolve_step_next:
  "snd (resolve_step d port visited current r) = Some p \<Longrightarrow>
   link_symbol (port_link_of d current) = Some p \<or>
   (\<exists>xs s. link_expression (port_link_of d current) = Some (xs, s) \<and> p \<in> set xs \<and> is_interface_port d p)"
  by (cases "link_expression (port_link_of d current)")
    (auto simp: resolve_step_def Let_def split_def dest!: forward_ports_next split: if_splits option.splits)

lemma port_link_up:
  assumes "goes_up d rank"
  shows "link_symbol (port_link_of d p) = Some s \<Longrightarrow> rank s < rank p"
    "link_expression (port_link_of d p) = Some (xs, s) \<Longrightarrow> x \<in> set xs \<Longrightarrow> is_interface_port d x \<Longrightarrow> rank x < rank p"
  using assms by (auto simp: goes_up_def port_link_of_def split: option.splits)

lemma resolve_loop_up:
  assumes "goes_up d rank"
  shows "(\<forall>e. resolved_endpoint r = Some e \<longrightarrow> rank e < k) \<Longrightarrow> rank current \<le> k \<Longrightarrow>
    resolved_endpoint (resolve_loop d port visited current r) = Some e \<Longrightarrow> rank e < k"
  using assms
proof (induction d port visited current r rule: resolve_loop.induct)
  case (1 d port visited current r)
  note up = port_link_up [OF "1.prems"(4)]
  show ?case
  proof (cases "current \<in> visited")
    case False
    obtain r' p where step: "resolve_step d port (insert current visited) current r = (r', p)"
      by (cases "resolve_step d port (insert current visited) current r")
    have r': "\<forall>e. resolved_endpoint r' = Some e \<longrightarrow> rank e < k"
      using resolve_step_endpoint [of d port "insert current visited" current r] step
        "1.prems"(1,2) up(1) [of current]
      by (auto split: if_splits intro: less_le_trans)
    show ?thesis
    proof (cases p)
      case None
      then show ?thesis using r' "1.prems"(3) False step by (simp add: resolve_loop.simps [of d port visited])
    next
      case (Some p')
      have "rank p' < rank current"
        using resolve_step_next [of d port "insert current visited" current r p'] step Some up by auto
      then have le: "rank p' \<le> k" using "1.prems"(2) by simp
      show ?thesis
      proof (cases "p' \<in> insert current visited")
        case True
        then show ?thesis using r' "1.prems"(3) False step Some
          by (simp add: resolve_loop.simps [of d port visited])
      next
        case new: False
        have "resolved_endpoint (resolve_loop d port (insert current visited) p' r') = Some e"
          using "1.prems"(3) False step Some new by (simp add: resolve_loop.simps [of d port visited])
        from "1.IH" [OF False step [symmetric] Some new r' le this "1.prems"(4)] show ?thesis .
      qed
    qed
  qed (use "1.prems" in \<open>simp add: resolve_loop.simps\<close>)
qed

lemma endpoint_up:
  "goes_up d rank \<Longrightarrow> resolved_endpoint (resolve_interface_connection d p) = Some e \<Longrightarrow> rank e < rank p"
  using resolve_loop_up [of d rank
    "\<lparr>source_path = [], resolved_endpoint = None, navigable_endpoint = None\<rparr>" "rank p" p p "{}" e]
  by (simp add: resolve_interface_connection_def Let_def)

lemma each_option_returns:
  "(\<And>x s. x \<in> set xs \<Longrightarrow> f x s \<noteq> None) \<Longrightarrow> each_option f xs s \<noteq> None"
  by (induction xs arbitrary: s) (auto split: Option.bind_splits)

lemma set_interface_returns: "goes_up d rank \<Longrightarrow> set_interface_instance sm d s m \<noteq> None"
proof (induction "rank s" arbitrary: s m rule: less_induct)
  case less
  show ?case
  proof (cases "sym_kind d s")
    case (InstanceArraySym es)
    have "each_option (\<lambda>e m. set_interface_instance sm d e m) (List.map_filter id es) m \<noteq> None"
    proof (rule each_option_returns)
      fix x m assume "x \<in> set (List.map_filter id es)"
      then have "rank x < rank s" using less.prems InstanceArraySym by (auto simp: goes_up_def set_filter_id)
      then show "set_interface_instance sm d x m \<noteq> None" using less by blast
    qed
    then show ?thesis using InstanceArraySym by (subst set_interface_instance.simps) simp
  next
    case InterfacePortSym
    then show ?thesis using less endpoint_up [OF less.prems]
      by (subst set_interface_instance.simps) (auto split: option.split)
  qed (subst set_interface_instance.simps; simp)+
qed

lemma instance_chain_returns: "goes_up d rank \<Longrightarrow> instance_chain d s \<noteq> None"
proof (induction "rank s" arbitrary: s rule: less_induct)
  case less
  show ?case
  proof (cases "enclosing_instance d s")
    case (Some e)
    then have "rank e < rank s" using less.prems by (simp add: goes_up_def)
    then have "instance_chain d e \<noteq> None" using less by blast
    then show ?thesis using Some by (subst instance_chain.simps) auto
  qed (subst instance_chain.simps; simp)
qed

lemma activate_chain_returns:
  assumes "goes_up d rank"
  shows "activate_chain sm d t st \<noteq> None"
proof -
  have connected: "set_connected_interfaces sm d i m \<noteq> None" for i m
    unfolding set_connected_interfaces_def
    by (rule each_option_returns) (use set_interface_returns [OF assms] in \<open>auto split: option.splits\<close>)
  have "activate_one sm d i m \<noteq> None" for i m using connected [of i m] by (auto simp: activate_one_def)
  then have each: "each_option (activate_one sm d) xs m \<noteq> None" for xs m by (rule each_option_returns)
  obtain c where "instance_chain d t = Some c" using instance_chain_returns [OF assms, of t] by blast
  then show ?thesis using each [of "rev c" "instances_by_module st"]
    by (auto simp: activate_chain_def set_active_chain_def)
qed

lemma activate_enclosing_returns: "goes_up d rank \<Longrightarrow> activate_enclosing sm d s st \<noteq> None"
  by (simp add: activate_enclosing_def activate_chain_returns del: not_None_eq split: option.split)

lemma activate_port_returns:
  assumes "goes_up d rank"
  shows "activate_port sm d p st \<noteq> None"
proof -
  have "each_option (activate_connected sm d) xs s \<noteq> None" for xs s
    by (rule each_option_returns)
      (simp add: activate_connected_def Let_def activate_enclosing_returns [OF assms] del: not_None_eq)
  then have "each_option (activate_connected sm d) xs s = None \<longleftrightarrow> False" for xs s by blast
  moreover have "activate_enclosing sm d p st = None \<longleftrightarrow> False"
    using activate_enclosing_returns [OF assms] by blast
  ultimately show ?thesis by (auto simp: activate_port_def Let_def Option.bind_eq_None_conv)
qed

lemma set_active_returns:
  assumes "goes_up d rank"
  shows "activate_symbol sm d found st \<noteq> None"
proof -
  have "activate_chain sm d t s = None \<longleftrightarrow> False" "activate_port sm d t s = None \<longleftrightarrow> False" for t s
    using activate_chain_returns [OF assms] activate_port_returns [OF assms] by blast+
  note returns = this
  show ?thesis
  proof
    assume "activate_symbol sm d found st = None"
    then show False
      by (auto simp: activate_symbol_def Let_def Option.bind_eq_None_conv returns
          split: option.splits if_splits prod.splits)
  qed
qed

text \<open>
  Activation returns. Where enclosing instances, the elements of arrays and what the ports of
  interfaces are connected to lie further up in the design, following them ends, whatever symbol is
  activated in whatever state.\<close>

lemma activation_returns:
  "goes_up d rank \<Longrightarrow> \<exists>r st'. activate_symbol sm d found st = Some (r, st')"
  using set_active_returns [of d rank sm found st] by auto

section \<open>The iteration shown\<close>

definition iteration_of :: "design_view \<Rightarrow> nat \<Rightarrow> nat \<Rightarrow> bool" where
  "iteration_of d b a \<longleftrightarrow> sym_kind d b = GenerateBlockSym \<and> parent_array d b = Some a"

lemma set_active_generate_iteration:
  "set_active_generate d b m k =
     (if \<exists>a. iteration_of d b a \<and> hier_path d a = k then Some (hier_path d b) else m k)"
  by (auto simp: set_active_generate_def iteration_of_def split: option.split)

lemma fold_generates:
  assumes "\<forall>b\<in>set bs. \<forall>a. iteration_of d b a \<longrightarrow> hier_path d a = k \<longrightarrow> hier_path d b = p"
    "m k = Some p \<or> (\<exists>b\<in>set bs. \<exists>a. iteration_of d b a \<and> hier_path d a = k)"
  shows "fold (set_active_generate d) bs m k = Some p"
  using assms
proof (induction bs arbitrary: m)
  case (Cons b bs)
  have "set_active_generate d b m k = Some p \<or>
      (\<exists>b\<in>set bs. \<exists>a. iteration_of d b a \<and> hier_path d a = k)"
    using Cons.prems by (auto simp: set_active_generate_iteration)
  moreover have "\<forall>b\<in>set bs. \<forall>a. iteration_of d b a \<longrightarrow> hier_path d a = k \<longrightarrow> hier_path d b = p"
    using Cons.prems(1) by simp
  ultimately show ?case using Cons.IH by simp
qed simp

text \<open>No array has two iterations among the scopes \<open>bs\<close>.\<close>

definition one_iteration_each :: "design_view \<Rightarrow> nat list \<Rightarrow> bool" where
  "one_iteration_each d bs \<longleftrightarrow>
     (\<forall>b\<in>set bs. \<forall>b'\<in>set bs. \<forall>a a'. iteration_of d b a \<longrightarrow> iteration_of d b' a' \<longrightarrow>
       hier_path d a = hier_path d a' \<longrightarrow> hier_path d b = hier_path d b')"

lemma generates_set:
  assumes "one_iteration_each d (s # scopes_of d s)" "b \<in> set (s # scopes_of d s)" "iteration_of d b a"
  shows "set_active_generates d s m (hier_path d a) = Some (hier_path d b)"
  unfolding set_active_generates_def
  by (rule fold_generates) (use assms in \<open>unfold one_iteration_each_def, blast+\<close>)

lemma ancestor_count_active:
  "\<forall>b\<in>set ss. \<forall>a. iteration_of d b a \<longrightarrow> m (hier_path d a) = Some (hier_path d b) \<Longrightarrow>
   ancestor_count d m ss n \<noteq> None"
  by (induction ss arbitrary: n) (auto simp: iteration_of_def split: option.split)

lemma ancestor_count_other:
  "b \<in> set ss \<Longrightarrow> iteration_of d b a \<Longrightarrow> m (hier_path d a) = Some p \<Longrightarrow> p \<noteq> hier_path d b \<Longrightarrow>
   ancestor_count d m ss n = None"
  by (induction ss arbitrary: n) (auto simp: iteration_of_def split: option.split)

lemma choose_array_only:
  "\<forall>x\<in>set xs. fst x = a \<longrightarrow> x = (a, es) \<Longrightarrow>
   \<forall>x\<in>set xs. fst x \<noteq> a \<longrightarrow> active_ancestor_count d m (fst x) = None \<Longrightarrow>
   active_ancestor_count d m a \<noteq> None \<Longrightarrow>
   (case best of None \<Rightarrow> (a, es) \<in> set xs
    | Some x \<Rightarrow> x = (a, es) \<or> active_ancestor_count d m (fst x) = None \<and> (a, es) \<in> set xs) \<Longrightarrow>
   choose_array d m best xs = Some (a, es)"
proof (induction xs arbitrary: best)
  case Nil
  then show ?case by (auto split: option.splits)
next
  case (Cons x xs)
  let ?best = "case best of None \<Rightarrow> Some x
    | Some b \<Rightarrow> if array_before d m (fst x) (fst b) then Some x else Some b"
  have "choose_array d m ?best xs = Some (a, es)"
  proof (rule Cons.IH)
    show "case ?best of None \<Rightarrow> (a, es) \<in> set xs
      | Some x \<Rightarrow> x = (a, es) \<or> active_ancestor_count d m (fst x) = None \<and> (a, es) \<in> set xs"
      using Cons.prems by (cases "fst x = a") (auto simp: array_before_def split: option.splits)
  qed (use Cons.prems in auto)
  then show ?case by simp
qed

text \<open>
  Any other array of the loop lies below another iteration of an array around the one looked at.
\<close>

definition only_array :: "design_view \<Rightarrow> nat \<Rightarrow> nat list \<Rightarrow> (nat \<times> nat list) list \<Rightarrow> bool" where
  "only_array d a es xs \<longleftrightarrow>
     (a, es) \<in> set xs \<and>
     (\<forall>x\<in>set xs. x = (a, es) \<or>
       fst x \<noteq> a \<and> (\<exists>b\<in>set (scopes_of d (fst x)). \<exists>b'\<in>set (scopes_of d a). \<exists>c.
         iteration_of d b c \<and> iteration_of d b' c \<and> hier_path d b \<noteq> hier_path d b'))"

lemma activated_array:
  assumes "one_iteration_each d (s # scopes_of d s)" "set (scopes_of d a) \<subseteq> set (s # scopes_of d s)"
    "only_array d a es xs"
  shows "choose_array d (set_active_generates d s m) None xs = Some (a, es)"
proof (rule choose_array_only)
  show "\<forall>x\<in>set xs. fst x = a \<longrightarrow> x = (a, es)" using assms(3) by (auto simp: only_array_def)
  show "active_ancestor_count d (set_active_generates d s m) a \<noteq> None"
    unfolding active_ancestor_count_def
    by (rule ancestor_count_active) (use generates_set [OF assms(1)] assms(2) in blast)
  show "\<forall>x\<in>set xs. fst x \<noteq> a \<longrightarrow> active_ancestor_count d (set_active_generates d s m) (fst x) = None"
  proof (intro ballI impI)
    fix x assume x: "x \<in> set xs" "fst x \<noteq> a"
    then obtain b b' c where b: "b \<in> set (scopes_of d (fst x))" "b' \<in> set (scopes_of d a)"
      "iteration_of d b c" "iteration_of d b' c" "hier_path d b \<noteq> hier_path d b'"
      using assms(3) unfolding only_array_def by fastforce
    have "set_active_generates d s m (hier_path d c) = Some (hier_path d b')"
      by (rule generates_set [OF assms(1) _ b(4)]) (use b(2) assms(2) in blast)
    then show "active_ancestor_count d (set_active_generates d s m) (fst x) = None"
      unfolding active_ancestor_count_def by (rule ancestor_count_other [OF b(1,3)]) (use b(5) in simp)
  qed
qed (use assms(3) in \<open>simp add: only_array_def\<close>)

text \<open>
  The iteration activated is the iteration shown. When a symbol within an iteration of a
  generate loop is activated, and the arrays the loop gives in the active instance of the module are
  told apart by the iterations around them, the loop is shown with all iterations of the array
  around the symbol, and that iteration as the active one, whatever was active before.\<close>

lemma activated_iteration_shown:
  "one_iteration_each d (s # scopes_of d s) \<Longrightarrow> e \<in> set (s # scopes_of d s) \<Longrightarrow>
   iteration_of d e a \<Longrightarrow> e \<in> set es \<Longrightarrow> hier_path d e \<noteq> [] \<Longrightarrow>
   set (scopes_of d a) \<subseteq> set (s # scopes_of d s) \<Longrightarrow>
   active_instance_symbol sm d ix (instances_by_module st) n = Some i \<Longrightarrow>
   only_array d a es (concat (List.map (generate_arrays loop) (members i))) \<Longrightarrow>
   active_generate_loop sm d ix members (activate_generates d s st) n loop =
     Some \<lparr>active_path = hier_path d e, iteration_paths = List.map (hier_path d) es\<rparr>"
  using activated_array [of d s a es "concat (List.map (generate_arrays loop) (members i))" "generates_by_array st"]
    generates_set [of d s e a "generates_by_array st"]
  by (auto simp: active_generate_loop_def activate_generates_def Let_def)

section \<open>An example\<close>

text \<open>
  A module with an interface and two nested generate loops; the innermost iteration holds an
  instance with two interface ports, one connected and one not.
\<close>

definition sample_symbols :: "(nat \<times> sym_kind \<times> string \<times> nat list) list" where
  "sample_symbols =
     [(1, InstanceSym, ''top'', []),
      (2, InstanceBodySym (Some 1), ''top'', []),
      (3, InstanceSym, ''top.g[1].h[1].u'', [25, 21, 12, 10, 2]),
      (4, InstanceBodySym (Some 3), ''top.g[1].h[1].u'', []),
      (5, InstanceSym, ''top.b'', [2]),
      (6, InterfacePortSym, ''top.g[1].h[1].u.p'', [4]),
      (7, InterfacePortSym, ''top.g[1].h[1].u.q'', [4]),
      (10, GenerateArraySym, ''top.g'', [2]),
      (11, GenerateBlockSym, ''top.g[0]'', [10, 2]),
      (12, GenerateBlockSym, ''top.g[1]'', [10, 2]),
      (20, GenerateArraySym, ''top.g[0].h'', [11, 10, 2]),
      (21, GenerateArraySym, ''top.g[1].h'', [12, 10, 2]),
      (22, GenerateBlockSym, ''top.g[0].h[0]'', [20, 11, 10, 2]),
      (23, GenerateBlockSym, ''top.g[0].h[1]'', [20, 11, 10, 2]),
      (24, GenerateBlockSym, ''top.g[1].h[0]'', [21, 12, 10, 2]),
      (25, GenerateBlockSym, ''top.g[1].h[1]'', [21, 12, 10, 2])]"

definition sample_design :: design_view where
  "sample_design =
     \<lparr>sym_kind = (\<lambda>s. case map_of sample_symbols s of Some (k, p, c) \<Rightarrow> k | None \<Rightarrow> OtherSym),
      hier_path = (\<lambda>s. case map_of sample_symbols s of Some (k, p, c) \<Rightarrow> p | None \<Rightarrow> []),
      scopes_of = (\<lambda>s. case map_of sample_symbols s of Some (k, p, c) \<Rightarrow> c | None \<Rightarrow> []),
      definition_name = (\<lambda>s. if s = 1 then ''top'' else if s = 5 then ''bus'' else ''leaf''),
      definition_range = (\<lambda>s. (\<lparr>loc_buffer = 1, loc_offset = 0\<rparr>, \<lparr>loc_buffer = 1, loc_offset = 0\<rparr>)),
      syntax_range = (\<lambda>s. None),
      sym_location = (\<lambda>s. \<lparr>loc_buffer = 1, loc_offset = s\<rparr>),
      port_connections = (\<lambda>s. if s = 3 then [Some (Some 5), Some None] else []),
      port_links = [(6, \<lparr>link_symbol = Some 5, link_expression = None\<rparr>)]\<rparr>"

definition sample_instances :: "instance_tree list" where
  "sample_instances = [InstanceTree 1 False [InstanceTree 5 False [], InstanceTree 3 False []]]"

definition sample_members :: "nat \<Rightarrow> member list" where
  "sample_members i =
     (if i = 1 then
        [ArrayMember 10 1 [(11, [ArrayMember 20 2 [(22, []), (23, [])]]),
                           (12, [ArrayMember 21 2 [(24, []), (25, [OtherMember])]])]]
      else [])"

definition no_selection :: active_state where
  "no_selection = \<lparr>instances_by_module = Map.empty, generates_by_array = Map.empty\<rparr>"

definition ordered_manager :: source_manager where
  "ordered_manager = flat_manager\<lparr>loc_before := (\<lambda>a b. loc_buffer a < loc_buffer b \<or>
     loc_buffer a = loc_buffer b \<and> loc_offset a < loc_offset b)\<rparr>"

lemma locs_differ: "a \<noteq> (b :: source_loc) \<Longrightarrow> loc_buffer a = loc_buffer b \<Longrightarrow> loc_offset a \<noteq> loc_offset b"
  by (cases a; cases b) simp

lemma sample_loc_order: "loc_order ordered_manager"
  by (auto simp: loc_order_def ordered_manager_def dest: locs_differ)

lemma sample_kinds:
  "sym_kind sample_design s = InstanceSym \<longleftrightarrow> s \<in> {1, 3, 5}"
  "sym_kind sample_design s = InstanceBodySym (Some i) \<longleftrightarrow> s = 2 \<and> i = 1 \<or> s = 4 \<and> i = 3"
  "sym_kind sample_design s \<noteq> InstanceArraySym es"
  by (auto simp: sample_design_def sample_symbols_def)

lemma sample_well_built: "well_built sample_design sample_instances"
  by (simp add: well_built_def sample_kinds sample_instances_def)

lemma sample_goes_up: "goes_up sample_design (\<lambda>s. if s = 1 then 0 else if s \<in> {6, 7} then 2 else 1)"
proof -
  have "enclosing_instance sample_design s = (if s \<in> {6, 7} then Some 3
      else if s \<in> {3, 5, 10, 11, 12, 20, 21, 22, 23, 24, 25} then Some 1 else None)" for s
    by (auto simp: enclosing_instance_def sample_design_def sample_symbols_def)
  moreover have "port_links sample_design = [(6, \<lparr>link_symbol = Some 5, link_expression = None\<rparr>)]"
    by (simp add: sample_design_def)
  ultimately show ?thesis
    by (auto simp: goes_up_def sample_kinds split: if_splits)
qed

lemma preferred_order_free_witness:
  "choose_preferred_instance ordered_manager sample_design [3, 5, 1] =
   choose_preferred_instance ordered_manager sample_design [1, 3, 5]"
  by (rule preferred_order_free [OF sample_loc_order])
    (auto simp: inj_on_def sample_design_def sample_symbols_def)

definition activated_leaf :: "(bool \<times> active_state) option" where
  "activated_leaf = activate_symbol flat_manager sample_design (Some 3) no_selection"

lemma activated_leaf_some:
  "map_option (\<lambda>(r, st). (r, List.map (\<lambda>n. map_option instance_path (instances_by_module st n)) [''top'', ''bus'', ''leaf''],
     List.map (generates_by_array st) [''top.g'', ''top.g[0].h'', ''top.g[1].h''])) activated_leaf =
   Some (True, [Some ''top'', Some ''top.b'', Some ''top.g[1].h[1].u''],
     [Some ''top.g[1]'', None, Some ''top.g[1].h[1]''])"
  by code_simp

text \<open>Activating a port that is connected to nothing fails, and has changed what is active.\<close>

lemma failed_activation_changes:
  "map_option (\<lambda>(r, st). (r, List.map (\<lambda>n. map_option instance_path (instances_by_module st n)) [''top'', ''leaf'']))
     (activate_symbol flat_manager sample_design (Some 7) no_selection) =
   Some (False, [Some ''top'', Some ''top.g[1].h[1].u''])"
  by code_simp

lemma activation_selects_chain_witness:
  "\<exists>st. activated_leaf = Some (True, st) \<and>
     instances_by_module st ''top'' = Some (to_qualified_instance flat_manager sample_design 1)"
proof -
  obtain r st where a: "activated_leaf = Some (r, st)" using activated_leaf_some by (cases activated_leaf) auto
  have c: "instance_chain sample_design 3 = Some [3, 1]" by code_simp
  have "''top'' \<notin> interface_names sample_design [3, 1]"
  proof
    assume "''top'' \<in> interface_names sample_design [3, 1]"
    then have "leads_to sample_design 5 1"
      by (auto simp: interface_names_def connected_to_def sample_design_def split: if_splits)
    then show False by (rule leads_to.cases) (auto simp: sample_design_def sample_symbols_def)
  qed
  moreover have "definition_name sample_design 3 = ''leaf''" "definition_name sample_design 1 = ''top''"
    "sym_kind sample_design 3 = InstanceSym"
    by (simp_all add: sample_design_def sample_symbols_def)
  ultimately show ?thesis
    using activation_selects_chain [OF a [unfolded activated_leaf_def] _ c, of "''top''"] a
    by (auto simp del: One_nat_def)
qed

lemma activation_returns_witness:
  "\<exists>r st. activate_symbol flat_manager sample_design (Some 6) no_selection = Some (r, st)"
  by (rule activation_returns [OF sample_goes_up])


lemma activated_iteration_shown_witness:
  "active_generate_loop flat_manager sample_design (index_instances sample_design sample_instances [])
     sample_members (activate_generates sample_design 3 no_selection) ''top'' 2 =
   Some \<lparr>active_path = ''top.g[1].h[1]'', iteration_paths = [''top.g[1].h[0]'', ''top.g[1].h[1]'']\<rparr>"
proof -
  have it: "iteration_of sample_design b a \<longleftrightarrow> b \<in> {11, 12} \<and> a = 10 \<or> b \<in> {22, 23} \<and> a = 20 \<or> b \<in> {24, 25} \<and> a = 21"
    for a b by (auto simp: iteration_of_def parent_array_def sample_design_def sample_symbols_def)
  have sc: "scopes_of sample_design 3 = [25, 21, 12, 10, 2]" "scopes_of sample_design 21 = [12, 10, 2]"
    "scopes_of sample_design 20 = [11, 10, 2]"
    by (simp_all add: sample_design_def sample_symbols_def)
  have "one_iteration_each sample_design (3 # scopes_of sample_design 3)"
    by (auto simp: one_iteration_each_def sc it) (simp_all add: sample_design_def sample_symbols_def)
  moreover have "hier_path sample_design 11 \<noteq> hier_path sample_design 12"
    by (simp add: sample_design_def sample_symbols_def)
  then have "only_array sample_design 21 [24, 25] [(20, [22, 23]), (21, [24, 25])]"
    unfolding only_array_def by (auto simp: sc it)
  then have "only_array sample_design 21 [24, 25] (concat (List.map (generate_arrays 2) (sample_members 1)))"
    by (simp add: sample_members_def)
  moreover have "active_instance_symbol flat_manager sample_design (index_instances sample_design sample_instances [])
      (instances_by_module no_selection) ''top'' = Some 1" by code_simp
  ultimately have "active_generate_loop flat_manager sample_design (index_instances sample_design sample_instances [])
      sample_members (activate_generates sample_design 3 no_selection) ''top'' 2 =
    Some \<lparr>active_path = hier_path sample_design 25, iteration_paths = List.map (hier_path sample_design) [24, 25]\<rparr>"
    by (intro activated_iteration_shown [where a = 21])
      (simp_all add: it sc, simp_all add: sample_design_def sample_symbols_def)
  then show ?thesis by (simp add: sample_design_def sample_symbols_def)
qed

end
