(* ===== verification/Navigation.thy ===== *)
theory Navigation
  imports ActiveDesign
begin

text \<open>
  From a path in the design to a place in a file, \<^verbatim>\<open>getHierLocation\<close> and \<^verbatim>\<open>getHierDocParams\<close> of
  \<^verbatim>\<open>ast/ServerCompilation.cpp\<close>. A symbol of the design, as it was when the design was
  compiled, is looked up again in the compilation of the one document that declares its module,
  which follows every edit. All symbols, of the design and of the documents, are described by one
  \<open>design_view\<close>.
\<close>

section \<open>Lookups\<close>

datatype compilation_id = FullDesign | Document nat

record navigation =
  symbol_view :: design_view
  symbol_name :: "nat \<Rightarrow> string"
  definition_symbol :: "nat \<Rightarrow> nat"
  lookup_path :: "compilation_id \<Rightarrow> string \<Rightarrow> nat option"
  lookup_value :: "string \<Rightarrow> nat option"
  package_symbol :: "string \<Rightarrow> nat option"
  module_docs :: "(string \<times> nat) list"
  doc_of_path :: "string \<Rightarrow> nat option"

text \<open>The first document that declares a name is kept; the documents come in the order of the table.\<close>

definition index_module_docs :: "(nat \<times> string list option) list \<Rightarrow> (string \<times> nat) list" where
  "index_module_docs docs =
     fold (\<lambda>(doc, names) ix. case names of
         None \<Rightarrow> ix
       | Some ns \<Rightarrow> fold (\<lambda>n ix. if map_of ix n = None then ix @ [(n, doc)] else ix) ns ix) docs []"

definition lookup_hier :: "navigation \<Rightarrow> compilation_id \<Rightarrow> string \<Rightarrow> nat option" where
  "lookup_hier nv c path = (if path = [] then None else lookup_path nv c path)"

fun innermost_body :: "design_view \<Rightarrow> nat list \<Rightarrow> nat option" where
  "innermost_body d [] = None"
| "innermost_body d (s # ss) =
     (case sym_kind d s of InstanceBodySym i \<Rightarrow> Some s | _ \<Rightarrow> innermost_body d ss)"

definition enclosing_body :: "design_view \<Rightarrow> nat \<Rightarrow> nat option" where
  "enclosing_body d s = innermost_body d (scopes_of d s)"

section \<open>The symbol of the edited document\<close>

text \<open>The path below the instance of a module, put below the module itself.\<close>

definition rerooted :: "navigation \<Rightarrow> string \<Rightarrow> nat \<Rightarrow> nat \<Rightarrow> nat option" where
  "rerooted nv full body inst =
     (let d = symbol_view nv; m = definition_name d body; root = hier_path d inst in
      case map_of (module_docs nv) m of
        None \<Rightarrow> None
      | Some doc \<Rightarrow>
          if prefix root full then lookup_hier nv (Document doc) (m @ drop (length root) full) else None)"

text \<open>
  \<open>None\<close> is not returning, or following a body without an instance, which is undefined in the code.
\<close>

partial_function (option) climb :: "navigation \<Rightarrow> string \<Rightarrow> nat option \<Rightarrow> nat option option" where
  "climb nv full body =
     (case body of
        None \<Rightarrow> Some None
      | Some b \<Rightarrow>
          (case sym_kind (symbol_view nv) b of
             InstanceBodySym (Some i) \<Rightarrow>
               (case rerooted nv full b i of
                  Some r \<Rightarrow> Some (Some r)
                | None \<Rightarrow> climb nv full (enclosing_body (symbol_view nv) i))
           | _ \<Rightarrow> None))"

declare climb.simps [code]

definition to_shallow_symbol :: "navigation \<Rightarrow> nat \<Rightarrow> nat option option" where
  "to_shallow_symbol nv s =
     (let d = symbol_view nv in
      if sym_kind d s = DefinitionSym then
        Some (case map_of (module_docs nv) (symbol_name nv s) of
                None \<Rightarrow> None
              | Some doc \<Rightarrow> lookup_hier nv (Document doc) (symbol_name nv s))
      else climb nv (hier_path d s) (enclosing_body d s))"

section \<open>Places\<close>

record shown_place =
  place_uri :: uri
  place_range :: lsp_range

definition file_of_range :: "source_manager \<Rightarrow> source_range \<Rightarrow> uri" where
  "file_of_range sm r = from_file (full_path sm (loc_buffer (fst (expanded_range sm r))))"

definition show_range :: "source_manager \<Rightarrow> source_range \<Rightarrow> shown_place option" where
  "show_range sm r =
     (let nowhere = (\<lambda>r. r = (no_location sm, no_location sm) \<or> \<not> buffer_valid sm (loc_buffer (fst r))) in
      if nowhere r then None
      else if fst (get_path (file_of_range sm r)) \<noteq> [] then
        Some \<lparr>place_uri = file_of_range sm r, place_range = location_range (range_to_location sm r)\<rparr>
      else
        let orig = original_range sm r; file = full_path sm (loc_buffer (fst orig)) in
        if nowhere orig \<or> file = [] then None
        else Some \<lparr>place_uri = from_file file, place_range = to_range sm orig\<rparr>)"

definition show_location :: "source_manager \<Rightarrow> source_loc \<Rightarrow> nat \<Rightarrow> shown_place option" where
  "show_location sm loc len =
     (if buffer_valid sm (loc_buffer loc) then show_range sm (loc, loc\<lparr>loc_offset := loc_offset loc + len\<rparr>)
      else None)"

definition show_symbol :: "source_manager \<Rightarrow> navigation \<Rightarrow> nat \<Rightarrow> shown_place option" where
  "show_symbol sm nv s =
     (let d = symbol_view nv in
      if sym_kind d s = InstanceSym then
        (case syntax_range d s of
           Some r \<Rightarrow> show_range sm r
         | None \<Rightarrow> Option.bind (syntax_range d (definition_symbol nv s)) (show_range sm))
      else
        case show_location sm (sym_location d s) (length (symbol_name nv s)) of
          Some p \<Rightarrow> Some p
        | None \<Rightarrow> Option.bind (syntax_range d s) (show_range sm))"

section \<open>Paths that are not in the design yet\<close>

definition dots :: "string \<Rightarrow> nat list" where
  "dots path = rev (filter (\<lambda>i. path ! i = CHR ''.'') [0..<length path])"

text \<open>
  The design is compiled on saves only. The deepest instance that a path goes through gives the
  module whose document is asked for the rest.
\<close>

fun edited_symbol :: "source_manager \<Rightarrow> navigation \<Rightarrow> string \<Rightarrow> nat list \<Rightarrow> nat option option" where
  "edited_symbol sm nv path [] = Some None"
| "edited_symbol sm nv path (i # is) =
     (let d = symbol_view nv in
      case lookup_hier nv FullDesign (take i path) of
        None \<Rightarrow> edited_symbol sm nv path is
      | Some s \<Rightarrow>
          if sym_kind d s \<noteq> InstanceSym then edited_symbol sm nv path is
          else
            Option.bind (to_shallow_symbol nv (definition_symbol nv s)) (\<lambda>fresh.
              case fresh of
                None \<Rightarrow> Some None
              | Some f \<Rightarrow>
                  if sym_kind d f \<noteq> DefinitionSym then Some None
                  else
                    Some (case doc_of_path nv (full_path sm (loc_buffer (sym_location d f))) of
                            None \<Rightarrow> None
                          | Some doc \<Rightarrow>
                              lookup_hier nv (Document doc)
                                (symbol_name nv f @ ''.'' @ drop (i + 1) path))))"

definition find_symbol :: "source_manager \<Rightarrow> navigation \<Rightarrow> string \<Rightarrow> nat option option" where
  "find_symbol sm nv path =
     (case lookup_hier nv FullDesign path of
        Some s \<Rightarrow> Some (Some s)
      | None \<Rightarrow>
          (case package_symbol nv path of
             Some s \<Rightarrow> Some (Some s)
           | None \<Rightarrow> edited_symbol sm nv path (dots path)))"

definition freshest :: "navigation \<Rightarrow> nat \<Rightarrow> nat option" where
  "freshest nv s =
     map_option (\<lambda>f. case f of Some f \<Rightarrow> f | None \<Rightarrow> s) (to_shallow_symbol nv s)"

definition hier_location :: "source_manager \<Rightarrow> navigation \<Rightarrow> string \<Rightarrow> shown_place option option" where
  "hier_location sm nv path =
     Option.bind (find_symbol sm nv path) (\<lambda>s.
       case s of
         None \<Rightarrow> Some None
       | Some s \<Rightarrow> map_option (show_symbol sm nv) (freshest nv s))"

definition hier_doc_params :: "source_manager \<Rightarrow> navigation \<Rightarrow> string \<Rightarrow> shown_place option option" where
  "hier_doc_params sm nv path =
     (case lookup_value nv path of
        None \<Rightarrow> Some None
      | Some s \<Rightarrow>
          map_option (\<lambda>f. show_location sm (sym_location (symbol_view nv) f) (length (symbol_name nv f)))
            (freshest nv s))"

section \<open>Climbing\<close>

text \<open>The bodies around a symbol, with their instances, up to the top.\<close>

inductive bodies :: "design_view \<Rightarrow> nat option \<Rightarrow> (nat \<times> nat) list \<Rightarrow> bool" for d where
  top: "bodies d None []"
| inside: "sym_kind d b = InstanceBodySym (Some i) \<Longrightarrow> bodies d (enclosing_body d i) bs \<Longrightarrow>
    bodies d (Some b) ((b, i) # bs)"

lemma climb_bodies:
  "bodies (symbol_view nv) body bs \<Longrightarrow>
   climb nv full body =
     Some (case List.find (\<lambda>(b, i). rerooted nv full b i \<noteq> None) bs of
             None \<Rightarrow> None | Some (b, i) \<Rightarrow> rerooted nv full b i)"
proof (induction rule: bodies.induct)
  case (inside b i bs)
  then show ?case by (subst climb.simps) (auto split: option.split)
qed (simp add: climb.simps)

lemma innermost_body_kind:
  "innermost_body d ss = Some b \<Longrightarrow> \<exists>i. sym_kind d b = InstanceBodySym i"
  by (induction ss) (auto split: sym_kind.splits)

text \<open>Every body has an instance, and the instances around a symbol lie further up.\<close>

definition housed :: "design_view \<Rightarrow> (nat \<Rightarrow> nat) \<Rightarrow> bool" where
  "housed d rank \<longleftrightarrow>
     (\<forall>b. sym_kind d b \<noteq> InstanceBodySym None) \<and>
     (\<forall>s b i. enclosing_body d s = Some b \<longrightarrow> sym_kind d b = InstanceBodySym (Some i) \<longrightarrow> rank i < rank s)"

lemma bodies_exist:
  assumes "housed d rank"
  shows "\<exists>bs. bodies d (enclosing_body d s) bs"
proof (induction "rank s" arbitrary: s rule: less_induct)
  case less
  show ?case
  proof (cases "enclosing_body d s")
    case (Some b)
    then obtain i where i: "sym_kind d b = InstanceBodySym (Some i)"
      using innermost_body_kind [of d "scopes_of d s" b] assms
      unfolding enclosing_body_def housed_def by (metis not_None_eq)
    then have "rank i < rank s" using assms Some by (auto simp: housed_def)
    from less [OF this] show ?thesis using bodies.inside [OF i] Some by auto
  qed (auto intro: bodies.top)
qed

lemma to_shallow_returns: "housed (symbol_view nv) rank \<Longrightarrow> to_shallow_symbol nv s \<noteq> None"
  using bodies_exist [of "symbol_view nv" rank s] climb_bodies [of nv]
  by (auto simp: to_shallow_symbol_def Let_def)

lemma edited_symbol_returns: "housed (symbol_view nv) rank \<Longrightarrow> edited_symbol sm nv path is \<noteq> None"
proof (induction "is")
  case (Cons i "is")
  have returns: "to_shallow_symbol nv t = None \<longleftrightarrow> False" for t using to_shallow_returns [OF Cons.prems] by blast
  have "edited_symbol sm nv path is = None \<longleftrightarrow> False" using Cons by blast
  then show ?case
    by (simp add: Let_def returns Option.bind_eq_None_conv del: not_None_eq split: option.split)
qed simp

lemma hier_location_returns:
  assumes "housed (symbol_view nv) rank"
  shows "hier_location sm nv path \<noteq> None"
proof
  assume none: "hier_location sm nv path = None"
  have returns: "to_shallow_symbol nv t = None \<longleftrightarrow> False" for t using to_shallow_returns [OF assms] by blast
  have edited: "edited_symbol sm nv path (dots path) = None \<longleftrightarrow> False"
    using edited_symbol_returns [OF assms] by blast
  show False using none
    by (simp add: hier_location_def find_symbol_def freshest_def returns edited Option.bind_eq_None_conv
        split: option.splits)
qed

section \<open>Every place is in a file\<close>

lemma path_of_empty: "fst (get_path (from_file [])) = []"
  by (simp add: from_file_def get_path_def empty_uri_def uri_path_def span_view_def)

lemma show_range_file:
  "show_range sm r = Some p \<Longrightarrow> \<exists>f. f \<noteq> [] \<and> place_uri p = from_file f"
  using path_of_empty
  by (cases "full_path sm (loc_buffer (fst (expanded_range sm r))) = []")
    (auto simp: show_range_def file_of_range_def Let_def split: if_splits)

lemma show_location_file: "show_location sm l n = Some p \<Longrightarrow> \<exists>f. f \<noteq> [] \<and> place_uri p = from_file f"
  by (auto simp: show_location_def dest: show_range_file split: if_splits)

lemma show_symbol_file: "show_symbol sm nv s = Some p \<Longrightarrow> \<exists>f. f \<noteq> [] \<and> place_uri p = from_file f"
  using show_range_file show_location_file
  by (auto simp: show_symbol_def Let_def split: if_splits option.splits Option.bind_splits)

end
