(* ===== verification/Spec2Isabelle.thy ===== *)
theory Spec2Isabelle
  imports Prelude Uri Snippet MarkdownText TextFormat DocComment Wire RpcServer SymbolIndex
    DiagClient ConfigMerge SlangDoc DriverEvents CompletionSound WcpClient ServerSound HierarchySound
    ConeSound CodeActions ActiveSound Navigation
begin

text \<open>
  A verification library for the language server in \<^verbatim>\<open>src/src\<close> and
  \<^verbatim>\<open>src/include\<close>: the C++ program that reads JSON-RPC messages from an editor, keeps
  documents, an index and diagnostics of a SystemVerilog workspace on top of the slang library,
  and answers with text, positions and edits.

  \<^bold>\<open>The program and its theories.\<close> Messages come in through
  \<^verbatim>\<open>lsp/JsonRpc.h\<close>, are queued and processed by \<^verbatim>\<open>lsp/JsonRpcServer.h\<close>, and
  reach the handlers, which work on documents (\<^verbatim>\<open>document/SlangDoc.cpp\<close>), the workspace
  index (\<^verbatim>\<open>Indexer.cpp\<close>) and the configuration (\<^verbatim>\<open>Config.cpp\<close>). What they send
  back is diagnostics (\<^verbatim>\<open>ServerDiagClient.cpp\<close>), coordinates (\<^verbatim>\<open>util/Converters.cpp\<close>,
  \<^verbatim>\<open>lsp/URI.cpp\<close>) and text (\<^verbatim>\<open>util/Formatting.cpp\<close>, \<^verbatim>\<open>util/Markdown.cpp\<close>,
  \<^verbatim>\<open>lsp/SnippetString.h\<close>).

  \<^item> Prelude: character classes, \<^verbatim>\<open>getline\<close>, number printing, the exceptions of the C++
    library as values of \<open>cpp_error\<close>, and the locale \<open>char_codec\<close> of encodings that work
    character by character. SlangTypes: the kinds of syntax nodes and tokens the code names.
  \<^item> Uri: the class \<^verbatim>\<open>URI\<close>. The string with the spans of its components is the record
    \<open>uri\<close>; \<open>uri_init\<close>, \<open>uri_of_string\<close>, \<open>from_file\<close> and the accessors are the functions of
    the same name. Percent-coding interprets \<open>char_codec\<close>.
  \<^item> Snippet, MarkdownText, TextFormat, DocComment: the builders of snippets and markdown, and the
    string functions behind hovers. Escaping is shown to read back; which markers of blocks the
    escaping of markdown takes away, and which lines it misses, are lemmas; the functions that can
    throw are separated from those that cannot. A tab stop beyond the largest \<^verbatim>\<open>int\<close> is undefined
    in C++ and recorded in the state of the snippet.
  \<^item> Wire: \<open>read_json\<close> over a stream that keeps its end and failure flags. Its loops may not
    end, so they are \<open>partial_function (option)\<close>, and \<open>None\<close> is not returning.
  \<^item> Rpc: contexts, registration, cancellation and the processing of one message on the state
    \<open>server\<close>; the halves \<open>begin_message\<close> and \<open>finish_message\<close> of \<^verbatim>\<open>processMessage\<close> enclose
    the handler. RpcRun: the reader and the worker of \<^verbatim>\<open>run\<close> as \<open>reader_step\<close> and
    \<open>worker_step\<close> on the state \<open>system\<close>, either of which a \<open>step\<close> may take; termination and what is
    answered. RpcRegistry: the invariant \<open>consistent\<close> of the registries. RpcServer: the theorems on
    finished runs, among them that two threads compute what one would.
  \<^item> NameMap: the maps from names to entries and the locale \<open>name_index\<close> they satisfy.
    SymbolIndex: \<^verbatim>\<open>Indexer\<close> on them, with the invariant \<open>exact\<close>, file events, and the crawl of
    directories.
  \<^item> Converters: positions and locations; the source manager of the library is the record
    \<open>source_manager\<close> of the functions called. DiagClient: \<^verbatim>\<open>ServerDiagClient\<close>, with the
    locale \<open>publisher\<close> for what the editor sees and the invariant \<open>in_sync\<close>.
  \<^item> ConfigMerge: \<^verbatim>\<open>Config::fromFiles\<close>, the painting of files over each other and the
    precedence of flags. SlangDoc: how the text of a document follows the editor, against
    positions reckoned by lines and characters, and the union of diagnostics an include fragment shows.
  \<^item> Driver: the state \<open>driver\<close> of \<^verbatim>\<open>ServerDriver\<close> with its documents on a heap of shared objects,
    actions on it that may fail, syntax trees, owners of include fragments, dependent trees and
    analyses. Lifecycle: its operations, from \<^verbatim>\<open>openDocument\<close> to \<^verbatim>\<open>createFromTop\<close>.
    DriverLogic: the locale \<open>effects\<close> of rules for actions, interpreted with the invariant \<open>sound\<close>
    of the document table. OwnerGraph, Dependencies, DriverEvents: every operation keeps the
    invariant and returns, and what a document is analysed with are the trees of files that are closed
    under references.
  \<^item> TokenIndex: \<^verbatim>\<open>SyntaxIndexer\<close>, the walk over a syntax tree into the state
    \<open>syntax_index\<close>, shown to collect what a plain traversal lists. TokenLookup: its lookups, shown
    to agree with linear scans, and the lowest common ancestor around a location.
  \<^item> SnippetReader: how an editor reads a snippet, and that it reads back what was appended.
    CompletionItem, SystemTasks, Completion: the items, the snippets of system tasks, and the
    dispatch of completion requests with macros, design units and the context of a position
    (\<^verbatim>\<open>src/completions\<close>). CompletionSound: edits keep the shape of the source,
    replaced ranges cover the cursor, candidates are exact, instantiations connect the ports the
    visitor meets.
  \<^item> CodeActions: expanding a macro in place and adding a define (\<^verbatim>\<open>src/codeactions\<close>); what an
    expansion keeps, and where it is offered.
  \<^item> WcpClient: the connection to a waveform viewer, \<^verbatim>\<open>ast/WcpClient.cpp\<close>, over the outcomes of
    \<^verbatim>\<open>select\<close>, \<^verbatim>\<open>recv\<close> and \<^verbatim>\<open>send\<close>: \<open>run_client\<close> is the loop; which messages it handles,
    and when one is held back.
  \<^item> ServerRouting: the state \<open>slang_server\<close> of \<^verbatim>\<open>SlangServer.cpp\<close> with its driver and index:
    configuration, build files, defines, watched files, initialization and document notifications.
    ServerSound: no driver is lost, what a reload and an added define do, workspace symbols.
  \<^item> HierView, Hierarchy: the items of the hierarchy view (\<^verbatim>\<open>ast/HierarchicalView.h\<close>), scopes by
    path, the items of the whole design and the search over them (\<^verbatim>\<open>ast/ServerCompilation.cpp\<close>).
    The design is a finite tree. HierarchySound: items are well formed, collecting ends, a search
    gives the best matches.
  \<^item> ConeTracer: the visitors of \<^verbatim>\<open>ast/ConeTracer.h\<close> with their state, and the cones of drivers and
    loads. ConeSound: they are what a reading of the assignments with their guards gives, and where
    loads and drivers agree.
  \<^item> ActiveDesign: which instance and which generate iteration the editor looks at, with the
    connections of interface ports. ActiveSound: what is selected exists after any activations and
    refreshes, activation returns, and the iteration activated is the one shown. Navigation: from a
    path in the design to a place in a file.

  \<^bold>\<open>Parameters.\<close> The slang library, the JSON library, the file system and the handlers are
  arguments of the definitions that use them (\<open>source_manager\<close>, \<open>diag_engine\<close>,
  \<open>implementation\<close>, \<open>front_end\<close>, the disk). A theorem that relies on their behaviour names it as a
  hypothesis and has a witness with concrete functions.

  \<^bold>\<open>Numbers.\<close> Positions are \<open>32 word\<close>, for they wrap; \<^verbatim>\<open>stoi\<close> is bounded to 32 bits.
  Sizes and counters of 64 bits are natural numbers. The context counter of the server would wrap
  after 2 to the 64 messages. The loops of Wire are partial functions and the step relation of the
  server is well founded. Fuel bounds three recursions of the driver: along owners by one more than the
  number of documents, since the owners form no cycle, and over dependent trees by two more than the
  number of locations in the index; that it never runs out is a theorem. The fuel of
  \<open>collect_hierarchy\<close> bounds the lookups inside each other: two more than the levels of instances of
  the design are enough. Where the code follows arrays, ports and enclosing instances of the design,
  the functions are partial and return where those lie further up.

  \<^bold>\<open>Not modelled.\<close> Logging; the registration templates beyond the kinds of handler they build;
  the worker threads and locks inside the indexer; what the library does with a hierarchical path
  that does not parse; the syntax trees, analyses and compilations of the slang library and the code
  that only walks them (\<^verbatim>\<open>document/ShallowAnalysis.cpp\<close>, \<^verbatim>\<open>DefinitionInfo.cpp\<close>, the symbol
  visitors, inlay hints, completions of scope members and assignment patterns); generated protocol
  types and vendored code.
\<close>

end
